(* ===== verification/Gateway_Prelude.thy ===== *)
theory Gateway_Prelude
  imports Complex_Main "HOL-Library.AList" "HOL-Library.Sublist"
begin

text \<open>
  Shared vocabulary of the development: the part of Go's string library the gateway uses, on byte
  strings; 64-bit integer wrap-around; Go maps as association lists; loops that stop at the first
  error; and the lemma collections the component theories draw on.

  A Go string is a list of bytes, here \<^typ>\<open>string\<close>. Case folding and white space are the
  ASCII ones: bytes above 127 are left as they are, where Go would apply the Unicode tables.
  Every name the gateway compares (model names, upstream references, tool types, capabilities)
  is ASCII in its documents.
\<close>

named_theorems go_strings \<open>facts about the string functions\<close>
named_theorems go_maps \<open>facts about Go maps as association lists\<close>

section \<open>Strings\<close>

definition lower_char :: "char \<Rightarrow> char" where
  "lower_char c =
     (if 65 \<le> (of_char c :: nat) \<and> (of_char c :: nat) \<le> 90
      then char_of ((of_char c :: nat) + 32) else c)"

definition ToLower :: "string \<Rightarrow> string" where
  "ToLower s = map lower_char s"

definition is_space :: "char \<Rightarrow> bool" where
  "is_space c \<longleftrightarrow> (of_char c :: nat) \<in> {9, 10, 11, 12, 13, 32}"

definition trim_right :: "(char \<Rightarrow> bool) \<Rightarrow> string \<Rightarrow> string" where
  "trim_right p s = rev (dropWhile p (rev s))"

definition TrimSpace :: "string \<Rightarrow> string" where
  "TrimSpace s = trim_right is_space (dropWhile is_space s)"

definition TrimLeft :: "string \<Rightarrow> string \<Rightarrow> string" where
  "TrimLeft s cutset = dropWhile (\<lambda>c. c \<in> set cutset) s"

definition TrimRight :: "string \<Rightarrow> string \<Rightarrow> string" where
  "TrimRight s cutset = trim_right (\<lambda>c. c \<in> set cutset) s"

definition HasPrefix :: "string \<Rightarrow> string \<Rightarrow> bool" where
  "HasPrefix s p \<longleftrightarrow> take (length p) s = p"

definition HasSuffix :: "string \<Rightarrow> string \<Rightarrow> bool" where
  "HasSuffix s p \<longleftrightarrow> length p \<le> length s \<and> drop (length s - length p) s = p"

definition TrimPrefix :: "string \<Rightarrow> string \<Rightarrow> string" where
  "TrimPrefix s p = (if HasPrefix s p then drop (length p) s else s)"

definition TrimSuffix :: "string \<Rightarrow> string \<Rightarrow> string" where
  "TrimSuffix s p = (if HasSuffix s p then take (length s - length p) s else s)"

definition CutPrefix :: "string \<Rightarrow> string \<Rightarrow> string \<times> bool" where
  "CutPrefix s p = (if HasPrefix s p then (drop (length p) s, True) else (s, False))"

text \<open>\<open>strings.Cut\<close> with a one-byte separator, the only kind the gateway cuts at.\<close>

fun Cut :: "string \<Rightarrow> char \<Rightarrow> string \<times> string \<times> bool" where
  "Cut [] c = ([], [], False)"
| "Cut (x # xs) c =
     (if x = c then ([], xs, True)
      else (case Cut xs c of (before, after, found) \<Rightarrow> (x # before, after, found)))"

definition EqualFold :: "string \<Rightarrow> string \<Rightarrow> bool" where
  "EqualFold s t \<longleftrightarrow> ToLower s = ToLower t"

lemma of_char_lower_char:
  "(of_char (lower_char c) :: nat) =
     (if 65 \<le> (of_char c :: nat) \<and> (of_char c :: nat) \<le> 90 then of_char c + 32 else of_char c)"
  by (simp add: lower_char_def take_bit_eq_mod)

lemma lower_char_idem [simp]: "lower_char (lower_char c) = lower_char c"
  by (subst (1) lower_char_def) (auto simp: of_char_lower_char)

lemma is_space_lower_char [simp]: "is_space (lower_char c) = is_space c"
  by (auto simp: is_space_def of_char_lower_char)

lemma ToLower_idem [simp]: "ToLower (ToLower s) = ToLower s"
  by (simp add: ToLower_def)

lemma ToLower_append [go_strings]: "ToLower (s @ t) = ToLower s @ ToLower t"
  by (simp add: ToLower_def)

lemma length_ToLower [simp]: "length (ToLower s) = length s"
  by (simp add: ToLower_def)

lemma ToLower_Nil_iff [simp]: "ToLower s = [] \<longleftrightarrow> s = []" "ToLower [] = []"
  by (simp_all add: ToLower_def)

lemma dropWhile_map_pred: "(\<And>x. p (f x) = p x) \<Longrightarrow> dropWhile p (map f xs) = map f (dropWhile p xs)"
  by (induction xs) auto

lemma ToLower_TrimSpace: "ToLower (TrimSpace s) = TrimSpace (ToLower s)"
  by (simp add: ToLower_def TrimSpace_def trim_right_def dropWhile_map_pred rev_map)

lemma dropWhile_rev_dropWhile:
  "dropWhile p (rev (dropWhile p (rev (dropWhile p xs)))) = rev (dropWhile p (rev (dropWhile p xs)))"
proof (cases "dropWhile p xs")
  case Nil
  then show ?thesis by (simp only: rev.simps dropWhile.simps)
next
  case (Cons y ys)
  then have "\<not> p y" by (metis dropWhile_eq_Cons_conv)
  then have "\<exists>zs. rev (dropWhile p (rev (y # ys))) = y # zs"
    by (simp add: dropWhile_append) (metis rev_rev_ident)
  then obtain zs where "rev (dropWhile p (rev (dropWhile p xs))) = y # zs"
    using Cons by auto
  then show ?thesis using \<open>\<not> p y\<close> by simp
qed

lemma TrimSpace_idem [simp]: "TrimSpace (TrimSpace s) = TrimSpace s"
  by (simp add: TrimSpace_def trim_right_def dropWhile_rev_dropWhile dropWhile_idem)

lemma HasPrefix_iff [go_strings]: "HasPrefix s p \<longleftrightarrow> (\<exists>r. s = p @ r)"
  unfolding HasPrefix_def by (metis append_eq_conv_conj append_take_drop_id)

lemma HasPrefix_append [simp]: "HasPrefix (p @ r) p"
  by (simp add: HasPrefix_def)

lemma HasSuffix_iff [go_strings]: "HasSuffix s p \<longleftrightarrow> (\<exists>r. s = r @ p)"
proof
  assume "HasSuffix s p"
  then show "\<exists>r. s = r @ p" unfolding HasSuffix_def by (metis append_take_drop_id)
next
  assume "\<exists>r. s = r @ p"
  then show "HasSuffix s p" by (auto simp: HasSuffix_def)
qed

lemma Cut_True: "Cut s c = (b, a, True) \<Longrightarrow> s = b @ c # a \<and> c \<notin> set b"
  by (induction s arbitrary: b a) (auto split: if_splits prod.splits)

lemma Cut_False: "Cut s c = (b, a, False) \<Longrightarrow> b = s \<and> a = [] \<and> c \<notin> set s"
  by (induction s arbitrary: b a) (auto split: if_splits prod.splits)

lemma Cut_append [simp]: "c \<notin> set b \<Longrightarrow> Cut (b @ c # a) c = (b, a, True)"
  by (induction b) auto

lemma Cut_notin [simp]: "c \<notin> set s \<Longrightarrow> Cut s c = (s, [], False)"
  by (induction s) auto

lemma Cut_found_iff: "snd (snd (Cut s c)) \<longleftrightarrow> c \<in> set s"
  by (induction s) (auto split: prod.splits)

section \<open>64-bit integers\<close>

text \<open>Go's \<open>int\<close> and \<open>int64\<close> wrap around modulo 2 to the 64th, in two's complement.\<close>

definition wrap64 :: "int \<Rightarrow> int" where
  "wrap64 x = (x + 2 ^ 63) mod 2 ^ 64 - 2 ^ 63"

definition in_int64 :: "int \<Rightarrow> bool" where
  "in_int64 x \<longleftrightarrow> - (2 ^ 63) \<le> x \<and> x < 2 ^ 63"

lemma wrap64_in_range: "in_int64 (wrap64 x)"
  by (simp add: wrap64_def in_int64_def)

lemma wrap64_id [simp]: "in_int64 x \<Longrightarrow> wrap64 x = x"
  by (simp add: wrap64_def in_int64_def)

section \<open>Maps\<close>

text \<open>
  A Go map is an association list with distinct keys: \<^const>\<open>map_of\<close> reads it,
  \<^const>\<open>AList.update\<close> writes it and \<^const>\<open>AList.delete\<close> removes a key. The order of the list stands
  for the iteration order, which Go leaves open, so a result that must not depend on it is proved
  for every order.
\<close>

type_synonym 'v gomap = "(string \<times> 'v) list"

lemma map_of_update [go_maps]: "map_of (AList.update k v m) = (map_of m)(k \<mapsto> v)"
  by (rule update_conv')

lemma map_of_delete [go_maps]: "map_of (AList.delete k m) = (map_of m)(k := None)"
  by (rule delete_conv')

lemma distinct_update_keys [go_maps]:
  "distinct (map fst m) \<Longrightarrow> distinct (map fst (AList.update k v m))"
  by (rule distinct_update)

lemma map_of_perm:
  assumes "distinct (map fst xs)" "distinct (map fst ys)" "set xs = set ys"
  shows "map_of xs = map_of ys"
  using assms map_of_inject_set by blast

lemma map_of_filter:
  assumes "distinct (map fst m)"
  shows "map_of (filter P m) k = (case map_of m k of None \<Rightarrow> None | Some v \<Rightarrow> if P (k, v) then Some v else None)"
  using assms
proof (induction m)
  case (Cons x m)
  have "map_of m k = None" if "fst x = k" using Cons.prems that by (auto simp: map_of_eq_None_iff)
  then show ?case using Cons by (cases x) auto
qed simp

section \<open>First match\<close>

text \<open>A loop that returns at the first element that yields something.\<close>

fun first_some :: "('a \<Rightarrow> 'b option) \<Rightarrow> 'a list \<Rightarrow> 'b option" where
  "first_some f [] = None"
| "first_some f (x # xs) = (case f x of Some y \<Rightarrow> Some y | None \<Rightarrow> first_some f xs)"

lemma first_some_None_iff: "first_some f xs = None \<longleftrightarrow> (\<forall>x\<in>set xs. f x = None)"
  by (induction xs) (auto split: option.splits)

lemma first_some_SomeD: "first_some f xs = Some y \<Longrightarrow> \<exists>x\<in>set xs. f x = Some y"
  by (induction xs) (auto split: option.splits)

lemma first_some_append:
  "first_some f (xs @ ys) = (case first_some f xs of Some y \<Rightarrow> Some y | None \<Rightarrow> first_some f ys)"
  by (induction xs) (auto split: option.splits)

lemma first_some_splitD:
  "first_some f xs = Some y \<Longrightarrow>
     \<exists>us x vs. xs = us @ x # vs \<and> (\<forall>u\<in>set us. f u = None) \<and> f x = Some y"
proof (induction xs)
  case Nil
  then show ?case by simp
next
  case (Cons z zs)
  show ?case
  proof (cases "f z")
    case None
    with Cons obtain us x vs where "zs = us @ x # vs" "\<forall>u\<in>set us. f u = None" "f x = Some y"
      by auto
    with None have "z # zs = (z # us) @ x # vs" "\<forall>u\<in>set (z # us). f u = None" by auto
    with \<open>f x = Some y\<close> show ?thesis by blast
  next
    case (Some w)
    with Cons.prems have "z # zs = [] @ z # zs" "f z = Some y" by auto
    then show ?thesis by (metis emptyE list.set(1))
  qed
qed

lemma first_some_cong [fundef_cong]:
  "xs = ys \<Longrightarrow> (\<And>x. x \<in> set ys \<Longrightarrow> f x = g x) \<Longrightarrow> first_some f xs = first_some g ys"
  by (induction xs arbitrary: ys) (auto split: option.splits)

section \<open>Lines\<close>

abbreviation newline :: char where "newline \<equiv> CHR 0x0A"

text \<open>\<open>ReadBytes\<close> until it reports the end of the file: every line with its newline, and no fragment.\<close>

function complete_lines :: "string \<Rightarrow> string list" where
  "complete_lines content =
     (case Cut content newline of (line, rest, found) \<Rightarrow>
        if found then (line @ [newline]) # complete_lines rest else [])"
  by pat_completeness auto

termination
  by (relation "measure length") (auto dest: Cut_True [OF sym] Cut_True)

declare complete_lines.simps [simp del]

lemma complete_lines_Cons:
  "complete_lines content = l # ls \<Longrightarrow>
     \<exists>rest. content = l @ rest \<and> complete_lines rest = ls \<and> l \<noteq> []"
proof -
  assume a: "complete_lines content = l # ls"
  obtain line rest found where c: "Cut content newline = (line, rest, found)" by (metis prod_cases3)
  with a have "found" "l = line @ [newline]" "complete_lines rest = ls"
    by (auto simp: complete_lines.simps [of content] split: if_splits)
  with c show ?thesis using Cut_True [of content newline line rest] by auto
qed

lemma complete_lines_drop:
  "complete_lines content = done_ls @ ls \<Longrightarrow>
     length (concat done_ls) \<le> length content \<and>
     complete_lines (drop (length (concat done_ls)) content) = ls"
proof (induction done_ls arbitrary: content)
  case (Cons l done_ls)
  then obtain rest where "content = l @ rest" "complete_lines rest = done_ls @ ls"
    using complete_lines_Cons [of content l "done_ls @ ls"] by auto
  with Cons.IH [of rest] show ?case by simp
qed simp

lemma complete_lines_take:
  "complete_lines content = done_ls @ ls \<Longrightarrow> complete_lines (take (length (concat done_ls)) content) = done_ls"
proof (induction done_ls arbitrary: content)
  case Nil
  then show ?case by (simp add: complete_lines.simps [of "[]"])
next
  case (Cons l done_ls)
  obtain line rest found where c: "Cut content newline = (line, rest, found)" by (metis prod_cases3)
  with Cons.prems have l: "found" "l = line @ [newline]" "complete_lines rest = done_ls @ ls"
    by (auto simp: complete_lines.simps [of content] split: if_splits)
  with c have "content = line @ newline # rest" "newline \<notin> set line"
    using Cut_True [of content newline line rest] by auto
  then show ?case
    using Cons.IH [OF l(3)] l
    by (simp add: complete_lines.simps [of "line @ newline # take (length (concat done_ls)) rest"])
qed

lemma complete_lines_append:
  "\<exists>ls. complete_lines (content @ extra) = complete_lines content @ ls"
proof (induction content rule: complete_lines.induct)
  case (1 content)
  obtain line rest found where c: "Cut content newline = (line, rest, found)" by (metis prod_cases3)
  show ?case
  proof (cases found)
    case True
    with c have "content = line @ newline # rest" "newline \<notin> set line"
      using Cut_True [of content newline line rest] by auto
    then have "Cut (content @ extra) newline = (line, rest @ extra, True)" by simp
    then show ?thesis using 1 c True
      by (simp add: complete_lines.simps [of content] complete_lines.simps [of "content @ extra"])
  next
    case False
    then show ?thesis using c by (simp add: complete_lines.simps [of content])
  qed
qed

text \<open>What is left after the last newline.\<close>

definition last_fragment :: "string \<Rightarrow> string" where
  "last_fragment content = drop (length (concat (complete_lines content))) content"

lemma complete_lines_shape:
  "l \<in> set (complete_lines content) \<Longrightarrow> \<exists>p. l = p @ [newline] \<and> newline \<notin> set p"
proof (induction content rule: complete_lines.induct)
  case (1 content)
  obtain line rest found where c: "Cut content newline = (line, rest, found)" by (metis prod_cases3)
  then show ?case
    using 1 Cut_True [of content newline line rest] by (auto simp: complete_lines.simps [of content] split: if_splits)
qed

lemma last_fragment_shape: "newline \<notin> set (last_fragment content)"
proof (induction content rule: complete_lines.induct)
  case (1 content)
  obtain line rest found where c: "Cut content newline = (line, rest, found)" by (metis prod_cases3)
  show ?case
  proof (cases found)
    case True
    with c have "content = line @ newline # rest" using Cut_True [of content newline line rest] by auto
    moreover have "complete_lines content = (line @ [newline]) # complete_lines rest"
      using c True by (simp add: complete_lines.simps [of content])
    ultimately have "last_fragment content = last_fragment rest" by (simp add: last_fragment_def)
    then show ?thesis using 1 c True by simp
  next
    case False
    then show ?thesis using c Cut_False [of content newline line rest]
      by (simp add: last_fragment_def complete_lines.simps [of content])
  qed
qed

end
