(* ===== verification/Go_Json.thy ===== *)
theory Go_Json
  imports Gateway_Prelude
begin

text \<open>
  JSON values and the part of \<open>encoding/json\<close> the gateway relies on. A \<open>json.RawMessage\<close> is
  modelled by the value its bytes denote: the enclosing decode has already accepted the text, so
  every raw member is one well-formed value. Objects keep their members in order, repeated names
  included; decoding into a Go map lets the last one win. Decoding null leaves the target at its
  zero value and is not an error; decoding a value of another kind is an error.
\<close>

datatype json =
    JNull
  | JBool bool
  | JNum string
  | JStr string
  | JArr "json list"
  | JObj "(string \<times> json) list"

section \<open>Integers in decimal\<close>

definition is_digit :: "char \<Rightarrow> bool" where
  "is_digit c \<longleftrightarrow> 48 \<le> (of_char c :: nat) \<and> (of_char c :: nat) \<le> 57"

definition digits_value :: "string \<Rightarrow> int" where
  "digits_value ds = foldl (\<lambda>acc c. 10 * acc + (int (of_char c) - 48)) 0 ds"

text \<open>\<open>strconv.Atoi\<close> and \<open>strconv.ParseInt\<close> in base ten: an optional sign, at least one digit,
  nothing else, and a value that fits 64 bits.\<close>

definition parse_int64 :: "string \<Rightarrow> int option" where
  "parse_int64 s =
     (let neg = (s \<noteq> [] \<and> hd s = CHR ''-'');
          ds = (if s \<noteq> [] \<and> (hd s = CHR ''-'' \<or> hd s = CHR ''+'') then tl s else s);
          v = (if neg then - digits_value ds else digits_value ds)
      in if ds \<noteq> [] \<and> list_all is_digit ds \<and> in_int64 v then Some v else None)"

lemma parse_int64_range: "parse_int64 s = Some n \<Longrightarrow> in_int64 n"
  by (auto simp: parse_int64_def Let_def split: if_splits)

section \<open>Decoding\<close>

type_synonym params = "json gomap"

definition go_object :: "(string \<times> json) list \<Rightarrow> params" where
  "go_object kvs = fold (\<lambda>(k, v) m. AList.update k v m) kvs []"

definition dec_string :: "json \<Rightarrow> string option" where
  "dec_string j = (case j of JStr s \<Rightarrow> Some s | JNull \<Rightarrow> Some [] | _ \<Rightarrow> None)"

definition dec_bool :: "json \<Rightarrow> bool option" where
  "dec_bool j = (case j of JBool b \<Rightarrow> Some b | JNull \<Rightarrow> Some False | _ \<Rightarrow> None)"

definition dec_int :: "json \<Rightarrow> int option" where
  "dec_int j = (case j of JNum lit \<Rightarrow> parse_int64 lit | JNull \<Rightarrow> Some 0 | _ \<Rightarrow> None)"

definition dec_list :: "json \<Rightarrow> json list option" where
  "dec_list j = (case j of JArr xs \<Rightarrow> Some xs | JNull \<Rightarrow> Some [] | _ \<Rightarrow> None)"

definition dec_object :: "json \<Rightarrow> params option" where
  "dec_object j = (case j of JObj kvs \<Rightarrow> Some (go_object kvs) | JNull \<Rightarrow> Some [] | _ \<Rightarrow> None)"

fun all_some :: "'a option list \<Rightarrow> 'a list option" where
  "all_some [] = Some []"
| "all_some (None # xs) = None"
| "all_some (Some x # xs) = (case all_some xs of None \<Rightarrow> None | Some ys \<Rightarrow> Some (x # ys))"

definition dec_strings :: "json \<Rightarrow> string list option" where
  "dec_strings j = (case dec_list j of None \<Rightarrow> None | Some xs \<Rightarrow> all_some (map dec_string xs))"

definition dec_objects :: "json \<Rightarrow> params list option" where
  "dec_objects j = (case dec_list j of None \<Rightarrow> None | Some xs \<Rightarrow> all_some (map dec_object xs))"

text \<open>
  A decode whose error is ignored still fills what it could read: an element of the wrong kind
  keeps its zero value, a value that is no list leaves the slice nil.
\<close>

definition dec_strings_lenient :: "json \<Rightarrow> string list" where
  "dec_strings_lenient j =
     (case dec_list j of None \<Rightarrow> []
      | Some xs \<Rightarrow> map (\<lambda>x. case dec_string x of None \<Rightarrow> [] | Some s \<Rightarrow> s) xs)"

definition dec_objects_lenient :: "json \<Rightarrow> params list" where
  "dec_objects_lenient j =
     (case dec_list j of None \<Rightarrow> []
      | Some xs \<Rightarrow> map (\<lambda>x. case dec_object x of None \<Rightarrow> [] | Some m \<Rightarrow> m) xs)"

text \<open>A member that is present and not null, the test the gateway makes before it reads one.\<close>

definition present :: "params \<Rightarrow> string \<Rightarrow> json option" where
  "present m f = (case map_of m f of None \<Rightarrow> None | Some JNull \<Rightarrow> None | Some v \<Rightarrow> Some v)"

lemmas decoders = dec_string_def dec_bool_def dec_int_def dec_list_def dec_object_def
  dec_strings_def dec_objects_def

lemma all_some_map_Some [simp]: "all_some (map Some ys) = Some ys"
  by (induction ys) auto

lemma all_some_SomeD: "all_some xs = Some ys \<Longrightarrow> xs = map Some ys"
  by (induction xs arbitrary: ys rule: all_some.induct) (auto split: option.splits)

lemma all_some_iff: "all_some xs = Some ys \<longleftrightarrow> xs = map Some ys"
  using all_some_SomeD by auto

lemma all_some_mem:
  assumes "all_some (map f xs) = Some ys"
  shows "y \<in> set ys \<longleftrightarrow> (\<exists>x\<in>set xs. f x = Some y)"
proof -
  from assms have "map f xs = map Some ys" by (rule all_some_SomeD)
  then have "Some y \<in> f ` set xs \<longleftrightarrow> Some y \<in> Some ` set ys" by (metis list.set_map)
  then show ?thesis by (auto simp: image_iff eq_commute)
qed

lemma go_object_fold:
  "map_of (fold (\<lambda>(k, v) m. AList.update k v m) kvs m) k =
     (case map_of (rev kvs) k of Some v \<Rightarrow> Some v | None \<Rightarrow> map_of m k)"
proof (induction kvs arbitrary: m)
  case Nil
  then show ?case by simp
next
  case (Cons kv kvs)
  then show ?case
    by (cases kv) (auto simp: go_maps map_add_def split: option.splits)
qed

text \<open>Decoding an object keeps the last of the members that share a name.\<close>

lemma map_of_go_object: "map_of (go_object kvs) k = map_of (rev kvs) k"
  by (simp add: go_object_def go_object_fold split: option.splits)

lemma distinct_go_object: "distinct (map fst (go_object kvs))"
proof -
  have "distinct (map fst m) \<Longrightarrow> distinct (map fst (fold (\<lambda>(k, v) m. AList.update k v m) kvs m))" for m
    by (induction kvs arbitrary: m) (auto simp: go_maps split: prod.splits)
  then show ?thesis by (simp add: go_object_def)
qed

lemma go_object_distinct_map_of:
  "distinct (map fst kvs) \<Longrightarrow> map_of (go_object kvs) = map_of kvs"
  by (simp add: fun_eq_iff map_of_go_object) (metis distinct_rev map_of_perm rev_map set_rev)

lemma dec_object_distinct: "dec_object j = Some m \<Longrightarrow> distinct (map fst m)"
  by (auto simp: dec_object_def distinct_go_object split: json.splits)

lemma dec_strings_lenient_eq:
  assumes "dec_strings j = Some ys"
  shows "dec_strings_lenient j = ys"
proof -
  let ?get = "\<lambda>x. case x of None \<Rightarrow> [] | Some s \<Rightarrow> s"
  from assms obtain xs where j: "dec_list j = Some xs" and xs: "map dec_string xs = map Some ys"
    by (auto simp: dec_strings_def all_some_iff split: option.splits)
  have "map (\<lambda>x. ?get (dec_string x)) xs = map ?get (map dec_string xs)" by simp
  also have "\<dots> = ys" by (simp add: xs o_def)
  finally show ?thesis by (simp add: dec_strings_lenient_def j)
qed

lemma present_Some: "present m f = Some v \<longleftrightarrow> map_of m f = Some v \<and> v \<noteq> JNull"
  by (auto simp: present_def split: option.splits json.splits)

lemma present_None: "present m f = None \<longleftrightarrow> map_of m f = None \<or> map_of m f = Some JNull"
  by (auto simp: present_def split: option.splits json.splits)

section \<open>Printing integers\<close>

text \<open>\<open>strconv.FormatInt\<close> and the verb \<open>%d\<close>.\<close>

fun digits_of :: "nat \<Rightarrow> string" where
  "digits_of n = (if n < 10 then [char_of (48 + n)] else digits_of (n div 10) @ [char_of (48 + n mod 10)])"

declare digits_of.simps [simp del]

definition itoa :: "int \<Rightarrow> string" where
  "itoa n = (if n < 0 then CHR ''-'' # digits_of (nat (- n)) else digits_of (nat n))"

lemma of_char_digit: "d < 10 \<Longrightarrow> (of_char (char_of (48 + d :: nat)) :: nat) = 48 + d"
  by (simp add: take_bit_eq_mod)

lemma is_digit_char_of: "d < 10 \<Longrightarrow> is_digit (char_of (48 + d :: nat))"
  by (simp only: is_digit_def of_char_digit) simp

lemma digits_of_digit: "list_all is_digit (digits_of n)"
proof (induction n rule: digits_of.induct)
  case (1 n)
  then show ?case
    by (cases "n < 10") (simp_all add: digits_of.simps [of n] is_digit_char_of)
qed

lemma digits_of_nonempty: "digits_of n \<noteq> []"
  by (subst digits_of.simps) auto

lemma digits_value_append: "digits_value (ds @ [c]) = 10 * digits_value ds + (int (of_char c) - 48)"
  by (simp add: digits_value_def)

lemma digits_value_digits_of: "digits_value (digits_of n) = int n"
proof (induction n rule: digits_of.induct)
  case (1 n)
  show ?case
  proof (cases "n < 10")
    case True
    then show ?thesis using of_char_digit [of n]
      by (subst digits_of.simps) (simp add: digits_value_def)
  next
    case False
    have "digits_value (digits_of n) = 10 * digits_value (digits_of (n div 10)) + int (n mod 10)"
      unfolding digits_of.simps [of n]
      using False arg_cong [OF of_char_digit [of "n mod 10"], of int]
      by (simp only: if_False digits_value_append)
    also have "\<dots> = 10 * int (n div 10) + int (n mod 10)" using False 1 by simp
    finally show ?thesis by (simp add: zdiv_int zmod_int)
  qed
qed

lemma digits_of_hd: "is_digit (hd (digits_of n))"
  using digits_of_digit [of n] digits_of_nonempty [of n] by (cases "digits_of n") auto

text \<open>Printing and reading a 64-bit integer is the identity.\<close>

lemma parse_int64_itoa: "in_int64 n \<Longrightarrow> parse_int64 (itoa n) = Some n"
proof -
  assume n: "in_int64 n"
  have sign: "hd (digits_of m) \<noteq> CHR ''-''" "hd (digits_of m) \<noteq> CHR ''+''" for m
    using digits_of_hd [of m] by (auto simp: is_digit_def)
  show ?thesis
    using n sign by (simp add: itoa_def parse_int64_def Let_def digits_of_digit digits_of_nonempty
        digits_value_digits_of)
qed

section \<open>Filling a struct from an object\<close>

text \<open>
  A member is matched to a field by name up to case; an unknown member is ignored, or an error when
  the decoder disallows it. Null leaves a plain field as it was and empties a slice, map or pointer.
\<close>

type_synonym 'r field = "string \<times> (json \<Rightarrow> 'r \<Rightarrow> 'r option)"

fun dec_members :: "bool \<Rightarrow> 'r field list \<Rightarrow> (string \<times> json) list \<Rightarrow> 'r \<Rightarrow> 'r option" where
  "dec_members strict flds [] r = Some r"
| "dec_members strict flds ((name, v) # kvs) r =
     (case List.find (\<lambda>f. EqualFold (fst f) name) flds of
        None \<Rightarrow> if strict then None else dec_members strict flds kvs r
      | Some f \<Rightarrow> (case snd f v r of None \<Rightarrow> None | Some r' \<Rightarrow> dec_members strict flds kvs r'))"

definition dec_struct :: "bool \<Rightarrow> 'r field list \<Rightarrow> json \<Rightarrow> 'r \<Rightarrow> 'r option" where
  "dec_struct strict flds j r =
     (case j of JNull \<Rightarrow> Some r | JObj kvs \<Rightarrow> dec_members strict flds kvs r | _ \<Rightarrow> None)"

definition string_field :: "(string \<Rightarrow> 'r \<Rightarrow> 'r) \<Rightarrow> json \<Rightarrow> 'r \<Rightarrow> 'r option" where
  "string_field upd j r = (case j of JStr s \<Rightarrow> Some (upd s r) | JNull \<Rightarrow> Some r | _ \<Rightarrow> None)"

definition bool_field :: "(bool \<Rightarrow> 'r \<Rightarrow> 'r) \<Rightarrow> json \<Rightarrow> 'r \<Rightarrow> 'r option" where
  "bool_field upd j r = (case j of JBool b \<Rightarrow> Some (upd b r) | JNull \<Rightarrow> Some r | _ \<Rightarrow> None)"

definition int_field :: "(int \<Rightarrow> 'r \<Rightarrow> 'r) \<Rightarrow> json \<Rightarrow> 'r \<Rightarrow> 'r option" where
  "int_field upd j r =
     (case j of JNum lit \<Rightarrow> map_option (\<lambda>n. upd n r) (parse_int64 lit) | JNull \<Rightarrow> Some r | _ \<Rightarrow> None)"

definition strings_field :: "(string list \<Rightarrow> 'r \<Rightarrow> 'r) \<Rightarrow> json \<Rightarrow> 'r \<Rightarrow> 'r option" where
  "strings_field upd j r = map_option (\<lambda>xs. upd xs r) (dec_strings j)"

text \<open>A member of type \<open>map[string]string\<close> is merged into the map already there.\<close>

definition strmap_field ::
  "('r \<Rightarrow> string gomap) \<Rightarrow> (string gomap \<Rightarrow> 'r \<Rightarrow> 'r) \<Rightarrow> json \<Rightarrow> 'r \<Rightarrow> 'r option" where
  "strmap_field get upd j r =
     (case j of
        JNull \<Rightarrow> Some (upd [] r)
      | JObj kvs \<Rightarrow>
          (case all_some (map (\<lambda>(k, v). map_option (Pair k) (dec_string v)) kvs) of
             None \<Rightarrow> None
           | Some es \<Rightarrow> Some (upd (fold (\<lambda>(k, v). AList.update k v) es (get r)) r))
      | _ \<Rightarrow> None)"

end
