(* ===== verification/Snapshot_Policy.thy ===== *)
theory Snapshot_Policy
  imports Go_Json
begin

text \<open>
  The authorization data of \<open>internal/snapshot/snapshot.go\<close> (documents, models, keys) and the
  questions the request path asks of it: reserved, router and preset names, the money-list
  pattern matcher, and the key's fences.
\<close>

section \<open>Data\<close>

record Model =
  PublicName :: string
  UpstreamRef :: string
  UpstreamModel :: string
  FallbackRef :: string
  Visibility :: string
  MaxInputTokens :: int
  MaxOutputTokens :: int
  BudgetAxis :: string

record Limits =
  Rpm :: int
  Tpm :: int
  Concurrency :: int

text \<open>Times are nanoseconds since the epoch.\<close>

record Key =
  KeyID :: string
  TokenHash :: string
  Status :: string
  ExpiresAt :: "int option"
  AllowedModels :: "string list"
  CreditAllowedModels :: "string list"
  CreditDeniedModels :: "string list"
  PassthroughEndpoints :: "string list"
  KeyLimits :: Limits
  QuotaExhausted :: bool
  UpstreamCredentials :: "string gomap"
  CreditPending :: bool
  RecordBodies :: bool

record Document =
  FormatVersion :: int
  Generation :: int
  ServiceEnabled :: bool
  Models :: "Model list"
  Keys :: "Key list"
  PassthroughRef :: string

abbreviation "ModelPublic \<equiv> ''PUBLIC''"
abbreviation "ModelRestricted \<equiv> ''RESTRICTED''"
abbreviation "AxisToken \<equiv> ''TOKEN''"
abbreviation "AxisCredit \<equiv> ''CREDIT''"
abbreviation "KeyActive \<equiv> ''ACTIVE''"
abbreviation "KeySuspended \<equiv> ''SUSPENDED''"
abbreviation "KeyRevoked \<equiv> ''REVOKED''"
abbreviation "EndpointImages \<equiv> ''images''"
abbreviation "EndpointEmbeddings \<equiv> ''embeddings''"
abbreviation "EndpointRerank \<equiv> ''rerank''"
abbreviation "EndpointSpeech \<equiv> ''speech''"
abbreviation "EndpointTranscriptions \<equiv> ''transcriptions''"
abbreviation "EndpointChat \<equiv> ''chat''"
abbreviation "EndpointWebSearch \<equiv> ''web_search''"
abbreviation "EndpointPdfOcr \<equiv> ''pdf_ocr''"
abbreviation "EndpointContainers \<equiv> ''containers''"
abbreviation "PresetField \<equiv> ''preset''"

definition Restricted :: "Model \<Rightarrow> bool" where
  "Restricted m \<longleftrightarrow> Visibility m = ModelRestricted"

definition CreditAxis :: "Model \<Rightarrow> bool" where
  "CreditAxis m \<longleftrightarrow> BudgetAxis m = AxisCredit"

section \<open>Name guards\<close>

definition reservedModelPrefixes :: "string list" where
  "reservedModelPrefixes = [''pickle-'', ''pnu-'']"

definition routerVendorPrefix :: string where
  "routerVendorPrefix = ''openrouter/''"

definition IsRouterModelName :: "string \<Rightarrow> bool" where
  "IsRouterModelName publicName \<longleftrightarrow>
     HasPrefix (TrimLeft (ToLower (TrimSpace publicName)) ''~'') routerVendorPrefix"

definition routerPluginIDs :: "string list" where
  "routerPluginIDs =
     [''auto-router'', ''auto-beta-router'', ''pareto-router'', ''jev-router'', ''switchyard-router'']"

definition RouterPluginID :: "string \<Rightarrow> string" where
  "RouterPluginID pid =
     (case List.find (\<lambda>known. EqualFold (TrimSpace pid) known) routerPluginIDs of
        Some known \<Rightarrow> known | None \<Rightarrow> [])"

definition IsPresetModelName :: "string \<Rightarrow> bool" where
  "IsPresetModelName publicName \<longleftrightarrow> CHR ''@'' \<in> set publicName"

definition IsReservedModelName :: "string \<Rightarrow> bool" where
  "IsReservedModelName publicName \<longleftrightarrow>
     (\<exists>p\<in>set reservedModelPrefixes. HasPrefix (TrimLeft (ToLower publicName) ''~'') p)"

section \<open>The money-list patterns\<close>

definition alnum_lower :: "char \<Rightarrow> bool" where
  "alnum_lower c \<longleftrightarrow> 97 \<le> (of_char c :: nat) \<and> (of_char c :: nat) \<le> 122 \<or> is_digit c"

definition pattern_char :: "char \<Rightarrow> bool" where
  "pattern_char c \<longleftrightarrow> alnum_lower c \<or> c \<in> {CHR ''.'', CHR ''_'', CHR '':'', CHR ''-''}"

definition bare_ok :: "string \<Rightarrow> bool" where
  "bare_ok s \<longleftrightarrow> s \<noteq> [] \<and> alnum_lower (hd s) \<and> list_all pattern_char (tl s)"

definition vendor_ok :: "string \<Rightarrow> bool" where
  "vendor_ok s \<longleftrightarrow> bare_ok (if s \<noteq> [] \<and> hd s = CHR ''~'' then tl s else s)"

definition segment_ok :: "string \<Rightarrow> bool" where
  "segment_ok s \<longleftrightarrow>
     (if HasPrefix s ''*''
      then tl s = [] \<or> list_all pattern_char (tl s) \<and> alnum_lower (last s)
      else bare_ok (TrimSuffix s ''*''))"

text \<open>The recogniser for the regular expression \<open>creditModelPattern\<close>.\<close>

definition creditModelPattern :: "string \<Rightarrow> bool" where
  "creditModelPattern s =
     (case Cut s (CHR ''/'') of (vendor, seg, hasVendor) \<Rightarrow>
        if hasVendor then (vendor_ok vendor \<or> vendor = ''*'') \<and> segment_ok seg else vendor_ok s)"

definition MatchesCreditModel :: "string \<Rightarrow> string \<Rightarrow> bool" where
  "MatchesCreditModel pattern lowerName =
     (if pattern = [] \<or> pattern = ''*'' then False
      else let baseName = fst (Cut lowerName (CHR '':'')) in
        case Cut pattern (CHR ''/'') of (vendor, seg, hasVendor) \<Rightarrow>
        if \<not> hasVendor then pattern = lowerName \<or> pattern = baseName
        else
          let (rest, ok) =
                (if vendor = ''*''
                 then (case Cut lowerName (CHR ''/'') of (nameVendor, r, found) \<Rightarrow>
                         (r, found \<and> nameVendor \<noteq> []))
                 else CutPrefix lowerName (vendor @ ''/''));
              base = fst (Cut rest (CHR '':''))
          in if \<not> ok \<or> rest = [] then False
             else if seg = ''*'' then True
             else if HasPrefix seg ''*'' then
               (let tail = drop 1 seg in HasSuffix rest tail \<or> HasSuffix base tail)
             else if HasSuffix seg ''*'' then
               (let stem = butlast seg in
                  if HasPrefix rest stem then True
                  else if last stem \<in> {CHR ''-'', CHR ''.'', CHR '':''} then rest = butlast stem
                  else False)
             else rest = seg \<or> base = seg)"

definition matchesAnyCreditModel :: "string list \<Rightarrow> string \<Rightarrow> bool" where
  "matchesAnyCreditModel patterns lowerName \<longleftrightarrow>
     (\<exists>pattern\<in>set patterns. MatchesCreditModel pattern lowerName)"

definition anyMatches :: "string list \<Rightarrow> string list \<Rightarrow> bool" where
  "anyMatches patterns names \<longleftrightarrow> (\<exists>n\<in>set names. matchesAnyCreditModel patterns n)"

definition bareNameVendors :: "(string \<times> string) list" where
  "bareNameVendors = [(''claude-'', ''anthropic'')]"

definition vendorQualifiedName :: "string \<Rightarrow> string" where
  "vendorQualifiedName lowerName =
     (if CHR ''/'' \<in> set lowerName then []
      else case List.find (\<lambda>b. HasPrefix lowerName (fst b)) bareNameVendors of
             Some b \<Rightarrow> snd b @ ''/'' @ lowerName | None \<Rightarrow> [])"

section \<open>What a key may do\<close>

definition CredentialFor :: "Key \<Rightarrow> string \<Rightarrow> string" where
  "CredentialFor k ref =
     (if UpstreamCredentials k = [] then []
      else case map_of (UpstreamCredentials k) (ToLower ref) of None \<Rightarrow> [] | Some c \<Rightarrow> c)"

definition AllowsEndpoint :: "Key \<Rightarrow> string \<Rightarrow> bool" where
  "AllowsEndpoint k capability \<longleftrightarrow> capability \<in> set (PassthroughEndpoints k)"

definition AllowsModel :: "Key \<Rightarrow> Model \<Rightarrow> bool" where
  "AllowsModel k m =
     (if AllowedModels k = [] then \<not> Restricted m else PublicName m \<in> set (AllowedModels k))"

definition HasCreditFence :: "Key \<Rightarrow> bool" where
  "HasCreditFence k \<longleftrightarrow> CreditAllowedModels k \<noteq> [] \<or> CreditDeniedModels k \<noteq> []"

text \<open>The spellings a name is judged under: itself and, for a bare vendor name, its qualified form.\<close>

definition judgedNames :: "string \<Rightarrow> string list" where
  "judgedNames name = name # (if vendorQualifiedName name = [] then [] else [vendorQualifiedName name])"

definition AllowsCreditModel :: "Key \<Rightarrow> Model \<Rightarrow> bool" where
  "AllowsCreditModel k m =
     (if \<not> CreditAxis m then True
      else let name = ToLower (TrimSpace (PublicName m)); names = judgedNames name in
        if HasCreditFence k \<and> IsRouterModelName name then False
        else if CreditAllowedModels k \<noteq> [] \<and> \<not> anyMatches (CreditAllowedModels k) names then False
        else list_all (\<lambda>n. \<not> matchesAnyCreditModel (CreditDeniedModels k) n \<and>
               (let stripped = TrimLeft n ''~'' in
                  stripped = n \<or> \<not> matchesAnyCreditModel (CreditDeniedModels k) stripped)) names)"

definition ServesCreditModel :: "Key \<Rightarrow> Model \<Rightarrow> bool" where
  "ServesCreditModel k m =
     (if CreditAxis m \<and> IsRouterModelName (PublicName m) then False else AllowsCreditModel k m)"

section \<open>Facts about the name guards\<close>

lemma IsRouterModelName_normal: "IsRouterModelName (ToLower (TrimSpace n)) = IsRouterModelName n"
  by (simp add: IsRouterModelName_def ToLower_TrimSpace)

lemma judgedNames_self: "name \<in> set (judgedNames name)"
  by (simp add: judgedNames_def)

lemma AllowsCreditModel_iff:
  "AllowsCreditModel k m \<longleftrightarrow>
     (CreditAxis m \<longrightarrow>
       (let name = ToLower (TrimSpace (PublicName m)) in
         (HasCreditFence k \<longrightarrow> \<not> IsRouterModelName name) \<and>
         (CreditAllowedModels k = [] \<or> anyMatches (CreditAllowedModels k) (judgedNames name)) \<and>
         (\<forall>n\<in>set (judgedNames name). \<not> matchesAnyCreditModel (CreditDeniedModels k) n \<and>
            \<not> matchesAnyCreditModel (CreditDeniedModels k) (TrimLeft n ''~''))))"
  by (auto simp: AllowsCreditModel_def Let_def list_all_iff)

lemma ServesCreditModel_imp_Allows: "ServesCreditModel k m \<Longrightarrow> AllowsCreditModel k m"
  by (auto simp: ServesCreditModel_def split: if_splits)

section \<open>The pattern language\<close>

text \<open>
  The regular expression as written in the source, over character classes; \<open>Cls_Star\<close> is a
  class under a star. \<open>lang\<close> is its usual meaning as a set of strings.
\<close>

datatype rexp =
    Cls "char \<Rightarrow> bool"
  | Cls_Star "char \<Rightarrow> bool"
  | Opt rexp
  | Seq rexp rexp
  | Alt rexp rexp

fun lang :: "rexp \<Rightarrow> string set" where
  "lang (Cls p) = {[c] |c. p c}"
| "lang (Cls_Star p) = {s. list_all p s}"
| "lang (Opt r) = insert [] (lang r)"
| "lang (Seq r q) = {u @ v |u v. u \<in> lang r \<and> v \<in> lang q}"
| "lang (Alt r q) = lang r \<union> lang q"

abbreviation "lit_re c \<equiv> Cls (\<lambda>x. x = c)"
abbreviation "word_re \<equiv> Seq (Cls alnum_lower) (Cls_Star pattern_char)"
abbreviation "vendor_re \<equiv> Seq (Opt (lit_re (CHR ''~''))) word_re"
abbreviation "segment_re \<equiv>
  Alt (Seq word_re (Opt (lit_re (CHR ''*''))))
    (Alt (Seq (lit_re (CHR ''*'')) (Seq (Cls_Star pattern_char) (Cls alnum_lower))) (lit_re (CHR ''*'')))"

definition creditModelPattern_re :: rexp where
  "creditModelPattern_re =
     Alt vendor_re (Seq (Alt vendor_re (lit_re (CHR ''*''))) (Seq (lit_re (CHR ''/'')) segment_re))"

lemma not_class [simp]:
  "\<not> pattern_char (CHR ''/'')" "\<not> pattern_char (CHR ''*'')" "\<not> pattern_char (CHR ''~'')"
  "\<not> alnum_lower (CHR ''/'')" "\<not> alnum_lower (CHR ''*'')" "\<not> alnum_lower (CHR ''~'')"
  by (simp_all add: pattern_char_def alnum_lower_def is_digit_def)

lemma alnum_pattern: "alnum_lower c \<Longrightarrow> pattern_char c"
  by (simp add: pattern_char_def)

lemma Seq_iff: "s \<in> lang (Seq r q) \<longleftrightarrow> (\<exists>u v. s = u @ v \<and> u \<in> lang r \<and> v \<in> lang q)"
  by auto

lemma Alt_lit_iff: "s \<in> lang (Alt r (lit_re c)) \<longleftrightarrow> s \<in> lang r \<or> s = [c]"
  by auto

lemma Seq_Cls_iff: "s \<in> lang (Seq (Cls p) r) \<longleftrightarrow> s \<noteq> [] \<and> p (hd s) \<and> tl s \<in> lang r"
  by (cases s) (auto intro: exI [of _ "[hd s]"])

lemma Seq_Opt_lit_iff:
  "s \<in> lang (Seq (Opt (lit_re c)) r) \<longleftrightarrow> s \<in> lang r \<or> s \<noteq> [] \<and> hd s = c \<and> tl s \<in> lang r"
  by (cases s) (auto intro: exI [of _ "[c]"])

lemma Seq_lit_Opt_iff:
  "s \<in> lang (Seq r (Opt (lit_re c))) \<longleftrightarrow> s \<in> lang r \<or> (\<exists>u. s = u @ [c] \<and> u \<in> lang r)"
  by auto

lemma Seq_star_Cls_iff:
  "s \<in> lang (Seq (Cls_Star p) (Cls q)) \<longleftrightarrow> s \<noteq> [] \<and> list_all p (butlast s) \<and> q (last s)"
proof
  assume "s \<noteq> [] \<and> list_all p (butlast s) \<and> q (last s)"
  then show "s \<in> lang (Seq (Cls_Star p) (Cls q))"
    by (simp, intro exI [of _ "butlast s"] exI [of _ "[last s]"]) simp
qed auto

lemma lang_word: "s \<in> lang word_re \<longleftrightarrow> bare_ok s"
  unfolding Seq_Cls_iff by (simp add: bare_ok_def)

lemma bare_ok_pattern_chars: "bare_ok s \<Longrightarrow> c \<in> set s \<Longrightarrow> pattern_char c"
  by (cases s) (auto simp: bare_ok_def alnum_pattern list_all_iff)

lemma bare_ok_not_in:
  "bare_ok s \<Longrightarrow> CHR ''/'' \<notin> set s" "bare_ok s \<Longrightarrow> CHR ''*'' \<notin> set s"
  using bare_ok_pattern_chars not_class by blast+

lemma lang_vendor: "s \<in> lang vendor_re \<longleftrightarrow> vendor_ok s"
  unfolding Seq_Opt_lit_iff lang_word by (auto simp: vendor_ok_def bare_ok_def)

lemma vendor_ok_no_slash: "vendor_ok s \<Longrightarrow> CHR ''/'' \<notin> set s"
  by (cases s) (auto simp: vendor_ok_def dest: bare_ok_not_in split: if_splits)

lemma TrimSuffix_star: "TrimSuffix (s @ ''*'') ''*'' = s"
  by (simp add: TrimSuffix_def HasSuffix_def)

lemma bare_star_iff:
  "bare_ok s \<or> (\<exists>u. s = u @ ''*'' \<and> bare_ok u) \<longleftrightarrow>
     bare_ok (TrimSuffix s ''*'') \<and> \<not> HasPrefix s ''*''" (is "?l = ?r")
proof
  assume ?l
  then show ?r
  proof (elim disjE exE conjE)
    assume "bare_ok s"
    then show ?r using bare_ok_not_in(2) [of s]
      by (auto simp: TrimSuffix_def HasSuffix_iff HasPrefix_iff)
  next
    fix u assume "s = u @ ''*''" "bare_ok u"
    then have "TrimSuffix s ''*'' = u" "u \<noteq> []" "hd u \<noteq> CHR ''*''"
      using bare_ok_not_in(2) [of u] by (auto simp: TrimSuffix_star bare_ok_def)
    with \<open>s = u @ ''*''\<close> \<open>bare_ok u\<close> show ?r by (cases u) (auto simp: HasPrefix_def)
  qed
next
  assume r: ?r
  show ?l
  proof (cases "HasSuffix s ''*''")
    case True
    then obtain u where "s = u @ ''*''" by (auto simp: HasSuffix_iff)
    with r show ?thesis by (auto simp: TrimSuffix_star)
  qed (use r in \<open>simp add: TrimSuffix_def\<close>)
qed

lemma lang_segment: "s \<in> lang segment_re \<longleftrightarrow> segment_ok s"
proof -
  have "list_all pattern_char t \<longleftrightarrow> list_all pattern_char (butlast t) \<and> pattern_char (last t)"
    if "t \<noteq> []" for t
    using that by (cases t rule: rev_cases) auto
  then have star: "s \<in> lang (Seq (lit_re (CHR ''*'')) (Seq (Cls_Star pattern_char) (Cls alnum_lower)))
      \<longleftrightarrow> s \<noteq> [] \<and> hd s = CHR ''*'' \<and> tl s \<noteq> [] \<and> list_all pattern_char (tl s) \<and> alnum_lower (last (tl s))"
    unfolding Seq_Cls_iff Seq_star_Cls_iff using alnum_pattern by blast
  show ?thesis
    unfolding lang.simps(5) Un_iff star Seq_lit_Opt_iff lang_word bare_star_iff segment_ok_def
    by (cases s) (auto simp: HasPrefix_def)
qed

lemma creditModelPattern_re_iff:
  "s \<in> lang creditModelPattern_re \<longleftrightarrow>
     vendor_ok s \<or> (\<exists>v seg. s = v @ CHR ''/'' # seg \<and> (vendor_ok v \<or> v = ''*'') \<and> segment_ok seg)"
proof -
  have slash: "t \<in> lang (Seq (lit_re (CHR ''/'')) segment_re) \<longleftrightarrow> (\<exists>seg. t = CHR ''/'' # seg \<and> segment_ok seg)"
    for t unfolding Seq_Cls_iff lang_segment by (cases t) auto
  have "s \<in> lang (Seq (Alt vendor_re (lit_re (CHR ''*''))) (Seq (lit_re (CHR ''/'')) segment_re)) \<longleftrightarrow>
      (\<exists>v t. s = v @ t \<and> (v \<in> lang vendor_re \<or> v = ''*'') \<and> t \<in> lang (Seq (lit_re (CHR ''/'')) segment_re))"
    unfolding Seq_iff [of _ "Alt vendor_re _"] Alt_lit_iff by (rule refl)
  then show ?thesis
    unfolding creditModelPattern_re_def lang.simps(5) [of vendor_re] Un_iff lang_vendor slash by blast
qed

lemma creditModelPattern_lang: "s \<in> lang creditModelPattern_re \<longleftrightarrow> creditModelPattern s"
proof (cases "CHR ''/'' \<in> set s")
  case True
  then obtain v seg where s: "s = v @ CHR ''/'' # seg" "CHR ''/'' \<notin> set v" by (meson split_list_first)
  have uniq: "v' = v \<and> seg' = seg" if "s = v' @ CHR ''/'' # seg'" "CHR ''/'' \<notin> set v'" for v' seg'
    using that s by (metis Cut_append Pair_inject)
  have "\<not> vendor_ok s" using True vendor_ok_no_slash by blast
  moreover have "CHR ''/'' \<notin> set v'" if "vendor_ok v' \<or> v' = ''*''" for v'
    using that vendor_ok_no_slash by auto
  ultimately have "s \<in> lang creditModelPattern_re \<longleftrightarrow> (vendor_ok v \<or> v = ''*'') \<and> segment_ok seg"
    unfolding creditModelPattern_re_iff using s(1) uniq by metis
  then show ?thesis using s by (simp add: creditModelPattern_def)
next
  case False
  then show ?thesis by (auto simp: creditModelPattern_re_iff creditModelPattern_def)
qed

section \<open>Variants of a name\<close>

lemma HasSuffix_append_Cons: "HasSuffix (s @ t) t"
  by (auto simp: HasSuffix_iff)

lemma HasPrefix_append_right: "HasPrefix s p \<Longrightarrow> HasPrefix (s @ t) p"
  by (auto simp: HasPrefix_iff)

lemma CutPrefix_True: "CutPrefix s p = (r, True) \<longleftrightarrow> s = p @ r"
  by (auto simp: CutPrefix_def HasPrefix_iff split: if_splits)

text \<open>What remains of a name behind a pattern's vendor.\<close>

definition vendorRest :: "string \<Rightarrow> string \<Rightarrow> string \<times> bool" where
  "vendorRest vendor lowerName =
     (if vendor = ''*''
      then (case Cut lowerName (CHR ''/'') of (nameVendor, r, found) \<Rightarrow> (r, found \<and> nameVendor \<noteq> []))
      else CutPrefix lowerName (vendor @ ''/''))"

lemma vendorRest_True:
  "vendorRest vendor n = (rest, True) \<longleftrightarrow>
     (\<exists>nv. n = nv @ CHR ''/'' # rest \<and>
        (if vendor = ''*'' then nv \<noteq> [] \<and> CHR ''/'' \<notin> set nv else nv = vendor))"
proof (cases "vendor = ''*''")
  case True
  have "Cut n (CHR ''/'') = (nv, rest, True) \<longleftrightarrow> n = nv @ CHR ''/'' # rest \<and> CHR ''/'' \<notin> set nv" for nv
    using Cut_True by auto
  with True show ?thesis
    unfolding vendorRest_def by (cases "Cut n (CHR ''/'')") auto
qed (simp add: vendorRest_def CutPrefix_True)

lemma vendorRest_append:
  "vendorRest vendor n = (rest, True) \<Longrightarrow> vendorRest vendor (n @ t) = (rest @ t, True)"
  unfolding vendorRest_True by auto

lemma MatchesCreditModel_vendor:
  assumes "Cut pattern (CHR ''/'') = (vendor, seg, True)"
  shows "MatchesCreditModel pattern n \<longleftrightarrow>
    (\<exists>rest. vendorRest vendor n = (rest, True) \<and> rest \<noteq> [] \<and>
      (seg = ''*'' \<or>
       (if HasPrefix seg ''*''
        then HasSuffix rest (drop 1 seg) \<or> HasSuffix (fst (Cut rest (CHR '':''))) (drop 1 seg)
        else if HasSuffix seg ''*''
        then HasPrefix rest (butlast seg) \<or>
             last (butlast seg) \<in> {CHR ''-'', CHR ''.'', CHR '':''} \<and> rest = butlast (butlast seg)
        else rest = seg \<or> fst (Cut rest (CHR '':'')) = seg)))"
proof -
  have "pattern \<noteq> []" "pattern \<noteq> ''*''" using assms by auto
  then have "MatchesCreditModel pattern n =
      (case vendorRest vendor n of (rest, ok) \<Rightarrow>
        let base = fst (Cut rest (CHR '':'')) in
        if \<not> ok \<or> rest = [] then False
        else if seg = ''*'' then True
        else if HasPrefix seg ''*'' then
          (let tail = drop 1 seg in HasSuffix rest tail \<or> HasSuffix base tail)
        else if HasSuffix seg ''*'' then
          (let stem = butlast seg in
             if HasPrefix rest stem then True
             else if last stem \<in> {CHR ''-'', CHR ''.'', CHR '':''} then rest = butlast stem
             else False)
        else rest = seg \<or> base = seg)"
    unfolding MatchesCreditModel_def vendorRest_def assms by (simp add: Let_def)
  then show ?thesis
    by (cases "vendorRest vendor n") (auto simp: Let_def)
qed

text \<open>
  The variants of a model (\<open>name:batch\<close>, \<open>name:free\<close>, whatever follows the colon) are fenced like
  the model: a pattern that covers a name without a variant covers every variant of it. The one
  shape that does not carry over is a trailing star behind a separator, which reaches the family's
  own name (\<open>openai/gpt-5-*\<close> reaches \<open>openai/gpt-5\<close>) only in its bare form.
\<close>

theorem variant_same_verdict:
  assumes "CHR '':'' \<notin> set n" and match: "MatchesCreditModel p n"
  shows "MatchesCreditModel p (n @ CHR '':'' # v) \<or>
    (\<exists>nv r sep. n = nv @ CHR ''/'' # r \<and> sep \<in> {CHR ''-'', CHR ''.'', CHR '':''} \<and>
       HasSuffix p (CHR ''/'' # r @ [sep, CHR ''*'']))"
proof (cases "Cut p (CHR ''/'')")
  case (fields vendor seg found)
  show ?thesis
  proof (cases found)
    case False
    then show ?thesis using fields assms
      by (auto simp: MatchesCreditModel_def Let_def split: if_splits)
  next
    case True
    then have p: "Cut p (CHR ''/'') = (vendor, seg, True)" using fields by simp
    obtain rest where rest: "vendorRest vendor n = (rest, True)"
      using match MatchesCreditModel_vendor [OF p] by blast
    then obtain nv where n: "n = nv @ CHR ''/'' # rest" by (auto simp: vendorRest_True)
    then have "CHR '':'' \<notin> set rest" using assms by simp
    then have base: "fst (Cut (rest @ CHR '':'' # v) (CHR '':'')) = rest" by simp
    show ?thesis
    proof (cases "HasSuffix seg ''*'' \<and> last (butlast seg) \<in> {CHR ''-'', CHR ''.'', CHR '':''} \<and>
        rest = butlast (butlast seg) \<and> butlast seg \<noteq> []")
      case True
      then obtain u sep where seg: "seg = (u @ [sep]) @ [CHR ''*'']"
        by (metis HasSuffix_iff append_butlast_last_id butlast_snoc)
      then have "butlast seg = u @ [sep]" by (simp only: butlast_snoc)
      with True seg have "sep \<in> {CHR ''-'', CHR ''.'', CHR '':''}" "seg = rest @ [sep, CHR ''*'']" by auto
      moreover have "p = vendor @ CHR ''/'' # seg" using Cut_True [OF p] by simp
      ultimately show ?thesis using n by (auto simp: HasSuffix_iff)
    next
      case False
      have "butlast seg \<noteq> []" if "HasSuffix seg ''*''" "\<not> HasPrefix seg ''*''"
        using that by (cases seg) (auto simp: HasSuffix_iff HasPrefix_iff)
      then have "MatchesCreditModel p (n @ CHR '':'' # v)"
        using match False rest \<open>CHR '':'' \<notin> set rest\<close>
        unfolding MatchesCreditModel_vendor [OF p]
        by (auto simp: vendorRest_append base HasPrefix_append_right split: if_splits)
      then show ?thesis by blast
    qed
  qed
qed

theorem variant_same_verdict_witness:
  "MatchesCreditModel ''openai/*-pro'' ''openai/gpt-5-pro:batch''"
  using variant_same_verdict [of "''openai/gpt-5-pro''" "''openai/*-pro''" "''batch''"]
  by (auto simp: MatchesCreditModel_def CutPrefix_def HasPrefix_def HasSuffix_def Let_def)

text \<open>The exception is real: the pattern written for a family admits its bare name and not the variant.\<close>

lemma trailing_star_misses_variant:
  "MatchesCreditModel ''openai/gpt-5-*'' ''openai/gpt-5''"
  "\<not> MatchesCreditModel ''openai/gpt-5-*'' ''openai/gpt-5:batch''"
  by (auto simp: MatchesCreditModel_def CutPrefix_def HasPrefix_def HasSuffix_def Let_def)

section \<open>The two lists\<close>

lemma anyMatches_mono: "set ps \<subseteq> set qs \<Longrightarrow> anyMatches ps ns \<Longrightarrow> anyMatches qs ns"
  by (auto simp: anyMatches_def matchesAnyCreditModel_def)

lemma matchesAny_mono: "set ps \<subseteq> set qs \<Longrightarrow> matchesAnyCreditModel ps n \<Longrightarrow> matchesAnyCreditModel qs n"
  by (auto simp: matchesAnyCreditModel_def)

text \<open>
  C11. A denial wins and can only take away: a key that carries more denials, and an allow list no
  wider (the empty one being the widest), is allowed no credit model the other key is not, and a
  model whose normalized name, vendor-qualified or not, with its tildes or without, is covered by a
  denial is refused whatever the allow list says.
\<close>

theorem credit_denial_wins:
  assumes "set (CreditDeniedModels k) \<subseteq> set (CreditDeniedModels k')"
    and "CreditAllowedModels k = [] \<or>
         CreditAllowedModels k' \<noteq> [] \<and> set (CreditAllowedModels k') \<subseteq> set (CreditAllowedModels k)"
  shows "(ServesCreditModel k' m \<longrightarrow> ServesCreditModel k m) \<and>
    (\<forall>p\<in>set (CreditDeniedModels k). \<forall>n\<in>set (judgedNames (ToLower (TrimSpace (PublicName m)))).
       CreditAxis m \<and> (MatchesCreditModel p n \<or> MatchesCreditModel p (TrimLeft n ''~'')) \<longrightarrow>
       \<not> ServesCreditModel k' m)"
proof -
  have fence: "HasCreditFence k \<Longrightarrow> HasCreditFence k'" using assms by (auto simp: HasCreditFence_def)
  have deny: "matchesAnyCreditModel (CreditDeniedModels k) n \<Longrightarrow>
      matchesAnyCreditModel (CreditDeniedModels k') n" for n
    using assms(1) by (rule matchesAny_mono)
  have allow: "CreditAllowedModels k' = [] \<or> anyMatches (CreditAllowedModels k') ns \<Longrightarrow>
      CreditAllowedModels k = [] \<or> anyMatches (CreditAllowedModels k) ns" for ns
    using assms(2) anyMatches_mono by blast
  have "AllowsCreditModel k' m \<Longrightarrow> AllowsCreditModel k m"
    unfolding AllowsCreditModel_iff Let_def using fence deny allow by blast
  then have mono: "ServesCreditModel k' m \<longrightarrow> ServesCreditModel k m"
    by (auto simp: ServesCreditModel_def)
  have "\<not> AllowsCreditModel k m"
    if "p \<in> set (CreditDeniedModels k)" "n \<in> set (judgedNames (ToLower (TrimSpace (PublicName m))))"
      "CreditAxis m" "MatchesCreditModel p n \<or> MatchesCreditModel p (TrimLeft n ''~'')" for p n
    using that unfolding AllowsCreditModel_iff Let_def matchesAnyCreditModel_def by blast
  then show ?thesis using mono ServesCreditModel_imp_Allows by blast
qed

text \<open>
  What a key may buy depends on the model's name only up to case and padding, and on its axis:
  a caller cannot pass the money lists or the router rule by spelling a name differently.
\<close>

theorem credit_verdict_spelling:
  assumes "EqualFold (TrimSpace (PublicName m)) (TrimSpace (PublicName m'))"
    and "BudgetAxis m = BudgetAxis m'"
  shows "ServesCreditModel k m = ServesCreditModel k m' \<and>
    (CreditAxis m \<and> ServesCreditModel k m \<longrightarrow> \<not> IsRouterModelName (PublicName m'))"
proof -
  have name: "ToLower (TrimSpace (PublicName m)) = ToLower (TrimSpace (PublicName m'))"
    using assms(1) by (simp add: EqualFold_def)
  then have router: "IsRouterModelName (PublicName m) = IsRouterModelName (PublicName m')"
    by (metis IsRouterModelName_normal)
  have "AllowsCreditModel k m = AllowsCreditModel k m'"
    unfolding AllowsCreditModel_iff name by (simp add: CreditAxis_def assms(2))
  with router show ?thesis
    by (simp add: ServesCreditModel_def CreditAxis_def assms(2))
qed

definition model_named :: "string \<Rightarrow> string \<Rightarrow> Model" where
  "model_named name axis =
     \<lparr>PublicName = name, UpstreamRef = ''openrouter'', UpstreamModel = name, FallbackRef = [],
      Visibility = [], MaxInputTokens = 0, MaxOutputTokens = 0, BudgetAxis = axis\<rparr>"

definition key_listing :: "string list \<Rightarrow> string list \<Rightarrow> Key" where
  "key_listing allowed denied =
     \<lparr>KeyID = ''k1'', TokenHash = [], Status = KeyActive, ExpiresAt = None, AllowedModels = [],
      CreditAllowedModels = allowed, CreditDeniedModels = denied, PassthroughEndpoints = [],
      KeyLimits = \<lparr>Rpm = 0, Tpm = 0, Concurrency = 0\<rparr>, QuotaExhausted = False,
      UpstreamCredentials = [], CreditPending = False, RecordBodies = False\<rparr>"

theorem credit_verdict_spelling_witness:
  "ServesCreditModel (key_listing [''openai/*''] []) (model_named '' OpenAI/GPT-5'' AxisCredit) =
   ServesCreditModel (key_listing [''openai/*''] []) (model_named ''openai/gpt-5'' AxisCredit)"
  by (rule credit_verdict_spelling [THEN conjunct1]) code_simp+

theorem credit_denial_wins_witness:
  "\<not> ServesCreditModel (key_listing [''openai/*''] [''openai/*-pro'']) (model_named ''openai/gpt-5-pro'' AxisCredit)"
  using credit_denial_wins
    [of "key_listing [''openai/*''] [''openai/*-pro'']" "key_listing [''openai/*''] [''openai/*-pro'']"
        "model_named ''openai/gpt-5-pro'' AxisCredit"]
  by (auto simp: key_listing_def model_named_def CreditAxis_def TrimSpace_def trim_right_def is_space_def
      ToLower_def lower_char_def judgedNames_def vendorQualifiedName_def bareNameVendors_def
      MatchesCreditModel_def CutPrefix_def HasPrefix_def HasSuffix_def Let_def)

end
