(* ===== verification/Api_Errors.thy ===== *)
theory Api_Errors
  imports Snapshot_Policy
begin

text \<open>
  The API errors of \<open>internal/server/errors.go\<close>. Status, type and code are as in the source. The
  prose of a message is written in Korean and is not modelled: a message is the name of its template
  followed by the values the source interpolates, so two errors with different texts differ.
\<close>

record apiError =
  errStatus :: nat
  errTyp :: string
  errCode :: string
  errMessage :: "string list"

text \<open>A refusal carries the error for the caller and the type recorded in the usage event.\<close>

record refusal =
  refErr :: apiError
  errorType :: string

definition maxPassthroughNameBytes :: nat where "maxPassthroughNameBytes = 256"

abbreviation "apiErr st ty co msg \<equiv> \<lparr>errStatus = st, errTyp = ty, errCode = co, errMessage = msg\<rparr>"
abbreviation "invalid_request co msg \<equiv> apiErr 400 ''invalid_request_error'' co msg"
abbreviation "permission_error co msg \<equiv> apiErr 403 ''permission_error'' co msg"
abbreviation "rate_limit_error co msg \<equiv> apiErr 429 ''rate_limit_error'' co msg"
abbreviation "server_error st co msg \<equiv> apiErr st ''server_error'' co msg"
abbreviation "authentication_error co msg \<equiv> apiErr 401 ''authentication_error'' co msg"

section \<open>Fixed errors\<close>

definition errMissingKey :: apiError where
  "errMissingKey = authentication_error ''missing_api_key'' [''errMissingKey'']"
definition errMissingKeyMessages :: apiError where
  "errMissingKeyMessages = authentication_error ''missing_api_key'' [''errMissingKeyMessages'']"
definition errInvalidKey :: apiError where
  "errInvalidKey = authentication_error ''invalid_api_key'' [''errInvalidKey'']"
definition errKeyExpired :: apiError where
  "errKeyExpired = authentication_error ''api_key_expired'' [''errKeyExpired'']"
definition errKeyRevoked :: apiError where
  "errKeyRevoked = authentication_error ''api_key_revoked'' [''errKeyRevoked'']"
definition errKeySuspended :: apiError where
  "errKeySuspended = permission_error ''account_suspended'' [''errKeySuspended'']"
definition errQuotaExhausted :: apiError where
  "errQuotaExhausted = rate_limit_error ''quota_exhausted'' [''errQuotaExhausted'']"
definition errCreditUnavailable :: apiError where
  "errCreditUnavailable = permission_error ''credit_unavailable'' [''errCreditUnavailable'']"
definition errCreditPending :: apiError where
  "errCreditPending = server_error 503 ''credit_pending'' [''errCreditPending'']"
definition errCreditExhausted :: apiError where
  "errCreditExhausted = rate_limit_error ''credit_exhausted'' [''errCreditExhausted'']"
definition errServiceDisabled :: apiError where
  "errServiceDisabled = server_error 503 ''service_disabled'' [''errServiceDisabled'']"
definition errModelNotOnMessages :: apiError where
  "errModelNotOnMessages = invalid_request ''model_not_available_on_route'' [''errModelNotOnMessages'']"
definition errModelNotOnResponses :: apiError where
  "errModelNotOnResponses = invalid_request ''model_not_available_on_route'' [''errModelNotOnResponses'']"
definition errModelNotOnCompletions :: apiError where
  "errModelNotOnCompletions = invalid_request ''model_not_available_on_route'' [''errModelNotOnCompletions'']"
definition errModelNotFound :: apiError where
  "errModelNotFound = apiErr 404 ''invalid_request_error'' ''model_not_found'' [''errModelNotFound'']"
definition errModelNotAllowed :: apiError where
  "errModelNotAllowed = permission_error ''model_not_allowed'' [''errModelNotAllowed'']"
definition errCreditModelNotAllowed :: apiError where
  "errCreditModelNotAllowed = permission_error ''model_not_allowed'' [''errCreditModelNotAllowed'']"
definition errRateRequests :: apiError where
  "errRateRequests = rate_limit_error ''rate_limit_requests'' [''errRateRequests'']"
definition errRateTokens :: apiError where
  "errRateTokens = rate_limit_error ''rate_limit_tokens'' [''errRateTokens'']"
definition errRateConcurrency :: apiError where
  "errRateConcurrency = rate_limit_error ''rate_limit_concurrency'' [''errRateConcurrency'']"
definition errLargeRequestBusy :: apiError where
  "errLargeRequestBusy = rate_limit_error ''large_request_busy'' [''errLargeRequestBusy'']"
definition errChatResponseTooLarge :: apiError where
  "errChatResponseTooLarge = server_error 502 ''upstream_response_too_large'' [''errChatResponseTooLarge'']"
definition errServerBusy :: apiError where
  "errServerBusy = server_error 503 ''server_busy'' [''errServerBusy'']"
definition errRequestTooLarge :: apiError where
  "errRequestTooLarge = invalid_request ''request_too_large'' [''errRequestTooLarge'']"
definition errInputTooLong :: apiError where
  "errInputTooLong = invalid_request ''input_too_long'' [''errInputTooLong'']"
definition errRequestBodyUnreadable :: apiError where
  "errRequestBodyUnreadable = invalid_request ''request_body_incomplete'' [''errRequestBodyUnreadable'']"
definition errBadJSON :: apiError where
  "errBadJSON = invalid_request ''invalid_json'' [''errBadJSON'']"
definition errUpstreamRejected :: apiError where
  "errUpstreamRejected = invalid_request ''upstream_rejected'' [''errUpstreamRejected'']"
definition errUpstream :: apiError where
  "errUpstream = server_error 502 ''upstream_error'' [''errUpstream'']"
definition errUpstreamTimeout :: apiError where
  "errUpstreamTimeout = server_error 504 ''upstream_timeout'' [''errUpstreamTimeout'']"
definition errPassthroughResponseTooLarge :: apiError where
  "errPassthroughResponseTooLarge = server_error 502 ''upstream_response_too_large'' [''errPassthroughResponseTooLarge'']"
definition errPassthroughNoStreaming :: apiError where
  "errPassthroughNoStreaming = invalid_request ''streaming_not_supported'' [''errPassthroughNoStreaming'']"
definition errNotFound :: apiError where
  "errNotFound = apiErr 404 ''invalid_request_error'' ''unknown_endpoint'' [''errNotFound'']"
definition errMethod :: apiError where
  "errMethod = apiErr 405 ''invalid_request_error'' ''method_not_allowed'' [''errMethod'']"
definition errFusionPluginNeedsModels :: apiError where
  "errFusionPluginNeedsModels = permission_error ''model_not_allowed'' [''errFusionPluginNeedsModels'']"
definition errPresetNotAllowed :: apiError where
  "errPresetNotAllowed = invalid_request ''preset_not_supported'' [''errPresetNotAllowed'']"
definition errMalformedForm :: apiError where
  "errMalformedForm = invalid_request ''invalid_multipart_form'' [''errMalformedForm'']"

definition retryAfterSeconds :: "(string \<times> int) list" where
  "retryAfterSeconds = [(''credit_pending'', 10), (''large_request_busy'', 5)]"

section \<open>Errors that quote the request\<close>

definition errParamNeedsCreditModel :: "string \<Rightarrow> apiError" where
  "errParamNeedsCreditModel name = invalid_request ''unsupported_parameter'' [''errParamNeedsCreditModel'', name]"
definition errOutputTooLong :: "string \<Rightarrow> int \<Rightarrow> apiError" where
  "errOutputTooLong field mx = invalid_request ''output_limit_exceeded'' [''errOutputTooLong'', field, itoa mx]"
definition errUnsupportedParam :: "string \<Rightarrow> apiError" where
  "errUnsupportedParam name = invalid_request ''unsupported_parameter'' [''errUnsupportedParam'', name]"
definition errUnsupportedValue :: "string \<Rightarrow> string \<Rightarrow> apiError" where
  "errUnsupportedValue name advice = invalid_request ''unsupported_parameter'' [''errUnsupportedValue'', name, advice]"
definition errInvalidParamValue :: "string \<Rightarrow> apiError" where
  "errInvalidParamValue name = invalid_request ''invalid_parameter_value'' [''errInvalidParamValue'', name]"
definition errMissingParam :: "string \<Rightarrow> apiError" where
  "errMissingParam name = invalid_request ''missing_parameter'' [''errMissingParam'', name]"
definition errEndpointNotAllowed :: "string \<Rightarrow> apiError" where
  "errEndpointNotAllowed label = permission_error ''endpoint_not_allowed'' [''errEndpointNotAllowed'', label]"
definition errContainerToolNotAllowed :: "string \<Rightarrow> apiError" where
  "errContainerToolNotAllowed label = permission_error ''endpoint_not_allowed'' [''errContainerToolNotAllowed'', label]"
definition errRouterPluginNotAllowed :: "string \<Rightarrow> apiError" where
  "errRouterPluginNotAllowed pid = permission_error ''model_not_allowed'' [''errRouterPluginNotAllowed'', pid]"
definition errToolModelRequired :: "string \<Rightarrow> string \<Rightarrow> apiError" where
  "errToolModelRequired toolType param = permission_error ''model_not_allowed'' [''errToolModelRequired'', toolType, param]"
definition errRouterModelNotSupported :: "string \<Rightarrow> apiError" where
  "errRouterModelNotSupported name = invalid_request ''router_not_supported'' [''errRouterModelNotSupported'', name]"

definition errUnsupportedServerTool :: "string \<Rightarrow> apiError" where
  "errUnsupportedServerTool toolType =
     invalid_request ''unsupported_parameter''
       (''errUnsupportedServerTool'' # (if length toolType \<le> maxPassthroughNameBytes then [toolType] else []))"

text \<open>A router named in some field of the request, in words of its own.\<close>

definition routerInField :: "string \<Rightarrow> string \<Rightarrow> apiError option" where
  "routerInField field name =
     (if name = [] \<or> length name > maxPassthroughNameBytes \<or> \<not> IsRouterModelName name then None
      else Some (permission_error ''model_not_allowed'' [''routerInField'', field, name]))"

text \<open>The four errors for a name in a list share one shape; a long or empty name is not quoted.\<close>

definition listedModelNotAllowed :: "string \<Rightarrow> string \<Rightarrow> apiError" where
  "listedModelNotAllowed field name =
     (case routerInField field name of
        Some err \<Rightarrow> err
      | None \<Rightarrow>
          if name = [] \<or> length name > maxPassthroughNameBytes
          then permission_error ''model_not_allowed'' [''listedModelNotAllowed'', field]
          else permission_error ''model_not_allowed'' [''listedModelNotAllowed'', field, name])"

definition errToolModelNotAllowed :: "string \<Rightarrow> apiError" where
  "errToolModelNotAllowed name = listedModelNotAllowed ''tools'' name"
definition errPluginModelNotAllowed :: "string \<Rightarrow> apiError" where
  "errPluginModelNotAllowed name = listedModelNotAllowed ''plugins'' name"
definition errCandidateModelNotAllowed :: "string \<Rightarrow> apiError" where
  "errCandidateModelNotAllowed name = listedModelNotAllowed ''models'' name"
definition errFallbackModelNotAllowed :: "string \<Rightarrow> apiError" where
  "errFallbackModelNotAllowed name = listedModelNotAllowed ''fallbacks'' name"

definition toolRefusalType :: "apiError \<Rightarrow> string" where
  "toolRefusalType err =
     (if errCode err = ''endpoint_not_allowed'' then ''endpoint_not_allowed''
      else if errCode err = ''model_not_allowed'' then ''credit_model_not_allowed''
      else errCode err)"

section \<open>Rendering\<close>

text \<open>
  What \<open>writeAPIError\<close> puts on the wire: status, the Retry-After header some codes carry, and the
  three members of the error object.
\<close>

record rendered =
  wireStatus :: nat
  retryAfter :: "int option"
  wireError :: "string list \<times> string \<times> string"

definition writeAPIError :: "apiError \<Rightarrow> rendered" where
  "writeAPIError err =
     \<lparr>wireStatus = errStatus err,
      retryAfter = (case map_of retryAfterSeconds (errCode err) of
                      Some s \<Rightarrow> if s > 0 then Some s else None | None \<Rightarrow> None),
      wireError = (errMessage err, errTyp err, errCode err)\<rparr>"

lemma listedModelNotAllowed_code [simp]:
  "errCode (listedModelNotAllowed field name) = ''model_not_allowed''"
  "errStatus (listedModelNotAllowed field name) = 403"
  by (auto simp: listedModelNotAllowed_def routerInField_def)

end
