(* ===== verification/Fence.thy ===== *)
theory Fence
  imports Api_Errors
begin

text \<open>
  The request fences of \<open>internal/server/fence.go\<close>: every place of a paid request that can name a
  model or ask for a separately granted capability is read here before the request leaves. The
  document, the catalogue lookup and the key are those of the request.
\<close>

section \<open>Model names\<close>

definition passthroughModel :: "Document \<Rightarrow> string \<Rightarrow> Model option" where
  "passthroughModel doc publicName =
     (if PassthroughRef doc = [] \<or> IsReservedModelName publicName \<or> IsPresetModelName publicName
         \<or> length publicName > maxPassthroughNameBytes then None
      else Some \<lparr>PublicName = publicName, UpstreamRef = PassthroughRef doc, UpstreamModel = publicName,
                FallbackRef = [], Visibility = [], MaxInputTokens = 0, MaxOutputTokens = 0,
                BudgetAxis = AxisCredit\<rparr>)"

type_synonym lookup = "string \<Rightarrow> Model option"

definition allowsCandidateModel :: "Document \<Rightarrow> lookup \<Rightarrow> Key \<Rightarrow> string \<Rightarrow> bool" where
  "allowsCandidateModel doc modelLookup key name =
     (if name = [] then False
      else if IsPresetModelName name then False
      else if IsReservedModelName name then False
      else
        let m = (case modelLookup name of Some m \<Rightarrow> Some m | None \<Rightarrow> passthroughModel doc name) in
        case m of None \<Rightarrow> False
        | Some m \<Rightarrow> if \<not> CreditAxis m then False else AllowsModel key m \<and> ServesCreditModel key m)"

abbreviation "candidateModelsField \<equiv> ''models''"
abbreviation "toolsField \<equiv> ''tools''"
abbreviation "nestedToolsParam \<equiv> ''tools''"
abbreviation "toolChoiceField \<equiv> ''tool_choice''"
abbreviation "allowedToolsChoice \<equiv> ''allowed_tools''"
abbreviation "pluginsField \<equiv> ''plugins''"
abbreviation "namespaceToolType \<equiv> ''namespace''"
abbreviation "fusionPluginID \<equiv> ''fusion''"
abbreviation "fusionPluginPreset \<equiv> ''preset''"
abbreviation "webPluginID \<equiv> ''web''"
abbreviation "fileParserPluginID \<equiv> ''file-parser''"
abbreviation "paidPdfEngine \<equiv> ''mistral-ocr''"
abbreviation "modalitiesField \<equiv> ''modalities''"
abbreviation "webSearchOptionsField \<equiv> ''web_search_options''"
abbreviation "onlineSuffix \<equiv> '':online''"
abbreviation "serverToolPrefix \<equiv> ''openrouter:''"
abbreviation "imageGenerationTool \<equiv> ''openrouter:image_generation''"
abbreviation "webSearchTool \<equiv> ''openrouter:web_search''"
abbreviation "shellTool \<equiv> ''openrouter:shell''"
abbreviation "bashTool \<equiv> ''openrouter:bash''"
abbreviation "codeInterpreterTool \<equiv> ''code_interpreter''"

text \<open>The first name that is refused, the empty name for a value that is no list of names.\<close>

definition fenceCandidateModels :: "Document \<Rightarrow> lookup \<Rightarrow> Key \<Rightarrow> params \<Rightarrow> string option" where
  "fenceCandidateModels doc modelLookup key params =
     (case present params candidateModelsField of
        None \<Rightarrow> None
      | Some raw \<Rightarrow>
          (case dec_strings raw of
             None \<Rightarrow> Some []
           | Some names \<Rightarrow> List.find (\<lambda>name. \<not> allowsCandidateModel doc modelLookup key name) names))"

section \<open>Server tools\<close>

definition containerTools :: "string list" where
  "containerTools = [shellTool, bashTool, codeInterpreterTool]"

definition knownServerTools :: "string list" where
  "knownServerTools =
     [webSearchTool, imageGenerationTool, ''openrouter:advisor'', ''openrouter:fusion'',
      ''openrouter:subagent'', ''openrouter:web_fetch'', ''openrouter:tool_search'',
      ''openrouter:apply_patch'', ''openrouter:datetime'', ''openrouter:experimental__search_models'',
      shellTool, bashTool]"

definition serverToolFamilies :: "(string \<times> string) list" where
  "serverToolFamilies =
     [(''web_search'', webSearchTool), (''image_generation'', imageGenerationTool),
      (''advisor'', ''openrouter:advisor''), (''fusion'', ''openrouter:fusion''),
      (''subagent'', ''openrouter:subagent''), (''web_fetch'', ''openrouter:web_fetch''),
      (''tool_search'', ''openrouter:tool_search''), (''shell'', shellTool), (''local_shell'', shellTool),
      (''code_interpreter'', codeInterpreterTool), (''apply_patch'', ''openrouter:apply_patch'')]"

text \<open>The suffixes \<open>_YYYYMMDD\<close> and \<open>_YYYY_MM_DD\<close> the regular expression \<open>toolVersionSuffix\<close> finds at the end.\<close>

definition digit_shape :: "string \<Rightarrow> string \<Rightarrow> bool" where
  "digit_shape shape s \<longleftrightarrow>
     length s = length shape \<and> list_all2 (\<lambda>p c. if p = CHR ''9'' then is_digit c else c = p) shape s"

definition toolVersionSuffix :: "string \<Rightarrow> string" where
  "toolVersionSuffix s =
     (if digit_shape ''_9999_99_99'' (drop (length s - 11) s) then take (length s - 11) s
      else if digit_shape ''_99999999'' (drop (length s - 9) s) then take (length s - 9) s
      else s)"

definition toolFamily :: "string \<Rightarrow> string option" where
  "toolFamily base = map_option snd (List.find (\<lambda>f. HasPrefix base (fst f)) serverToolFamilies)"

definition canonicalServerTool :: "string \<Rightarrow> string" where
  "canonicalServerTool rawType =
     (let t = ToLower (TrimSpace rawType) in
      if HasPrefix t serverToolPrefix then
        let name = TrimSpace (TrimPrefix t serverToolPrefix); base = toolVersionSuffix name in
        if base = ''bash'' then bashTool
        else (case toolFamily base of Some tool \<Rightarrow> tool | None \<Rightarrow> serverToolPrefix @ name)
      else if t = ''bash'' then bashTool
      else (case toolFamily (toolVersionSuffix t) of Some tool \<Rightarrow> tool | None \<Rightarrow> []))"

definition toolModelParams :: "string list" where
  "toolModelParams = [''model'', ''analysis_models'']"

definition toolModelsRequiredOnFencedKey :: "string \<Rightarrow> string list" where
  "toolModelsRequiredOnFencedKey toolType =
     (if toolType = ''openrouter:advisor'' then [''model'']
      else if toolType = ''openrouter:fusion'' then [''model'', ''analysis_models''] else [])"

definition maxNestedToolDepth :: nat where "maxNestedToolDepth = 3"

definition endpointLabel :: "string \<Rightarrow> string" where
  "endpointLabel capability = capability"

definition toolTypeRefusal :: "Key \<Rightarrow> string \<Rightarrow> apiError option" where
  "toolTypeRefusal key toolType =
     (if HasPrefix toolType serverToolPrefix \<and> toolType \<notin> set knownServerTools
        then Some (errUnsupportedServerTool toolType)
      else if toolType = imageGenerationTool \<and> \<not> AllowsEndpoint key EndpointImages
        then Some (errEndpointNotAllowed (endpointLabel EndpointImages))
      else if toolType = webSearchTool \<and> \<not> AllowsEndpoint key EndpointWebSearch
        then Some (errEndpointNotAllowed (endpointLabel EndpointWebSearch))
      else if toolType \<in> set containerTools \<and> \<not> AllowsEndpoint key EndpointContainers
        then Some (errContainerToolNotAllowed (endpointLabel EndpointContainers))
      else None)"

datatype judgement = Allowed | Refused string | Unreadable

definition judgeModelValue :: "Document \<Rightarrow> lookup \<Rightarrow> Key \<Rightarrow> json \<Rightarrow> judgement" where
  "judgeModelValue doc modelLookup key v =
     (if v = JNull then Allowed
      else case dec_string v of
        Some one \<Rightarrow> if allowsCandidateModel doc modelLookup key one then Allowed else Refused one
      | None \<Rightarrow>
          (case dec_strings v of
             None \<Rightarrow> Unreadable
           | Some many \<Rightarrow>
               (case List.find (\<lambda>c. \<not> allowsCandidateModel doc modelLookup key c) many of
                  Some c \<Rightarrow> Refused c | None \<Rightarrow> Allowed)))"

definition emptyModelValue :: "json \<Rightarrow> bool" where
  "emptyModelValue v =
     (case dec_string v of Some one \<Rightarrow> one = []
      | None \<Rightarrow> (case dec_list v of Some many \<Rightarrow> many = [] | None \<Rightarrow> False))"

definition namesModel :: "params \<Rightarrow> string \<Rightarrow> bool" where
  "namesModel place name = (case map_of place name of None \<Rightarrow> False | Some v \<Rightarrow> \<not> emptyModelValue v)"

definition isOnlineName :: "string \<Rightarrow> bool" where
  "isOnlineName name \<longleftrightarrow> HasSuffix (ToLower (TrimSpace name)) onlineSuffix"

definition onlineNeedsWebSearch :: "Key \<Rightarrow> json \<Rightarrow> apiError option" where
  "onlineNeedsWebSearch key v =
     (if AllowsEndpoint key EndpointWebSearch then None
      else let names = (case dec_string v of Some one \<Rightarrow> [one] | None \<Rightarrow> dec_strings_lenient v) in
        if list_ex isOnlineName names
        then Some (errEndpointNotAllowed (endpointLabel EndpointWebSearch)) else None)"

text \<open>The checks on one place that may name models: a tool, its parameters, or a plugin.\<close>

definition judgePlace ::
  "(string \<Rightarrow> apiError) \<Rightarrow> string \<Rightarrow> Document \<Rightarrow> lookup \<Rightarrow> Key \<Rightarrow> params \<Rightarrow> apiError option" where
  "judgePlace refuse field doc modelLookup key place =
     first_some (\<lambda>name.
       case map_of place name of None \<Rightarrow> None
       | Some v \<Rightarrow>
           (case judgeModelValue doc modelLookup key v of
              Unreadable \<Rightarrow> Some (errInvalidParamValue field)
            | Refused bad \<Rightarrow> Some (refuse bad)
            | Allowed \<Rightarrow> onlineNeedsWebSearch key v)) toolModelParams"

text \<open>A member of an object decoded as a string or as an object: absent is the zero value.\<close>

definition opt_string :: "params \<Rightarrow> string \<Rightarrow> string option" where
  "opt_string m f = (case map_of m f of None \<Rightarrow> Some [] | Some v \<Rightarrow> dec_string v)"

definition opt_object :: "params \<Rightarrow> string \<Rightarrow> params option" where
  "opt_object m f = (case map_of m f of None \<Rightarrow> Some [] | Some v \<Rightarrow> dec_object v)"

text \<open>The loop body over the tools, with the check of a nested list as an argument.\<close>

definition fenceTool ::
  "Document \<Rightarrow> lookup \<Rightarrow> Key \<Rightarrow> (json \<Rightarrow> apiError option) \<Rightarrow> json \<Rightarrow> apiError option" where
  "fenceTool doc modelLookup key nested rawTool =
     (case dec_object rawTool of
        None \<Rightarrow> Some (errInvalidParamValue toolsField)
      | Some tool \<Rightarrow>
      (case opt_string tool ''type'' of
        None \<Rightarrow> Some (errInvalidParamValue toolsField)
      | Some rawType \<Rightarrow>
      (case opt_object tool ''parameters'' of
        None \<Rightarrow> Some (errInvalidParamValue toolsField)
      | Some parameters \<Rightarrow>
        if EqualFold (TrimSpace rawType) namespaceToolType then
          (case present tool nestedToolsParam of None \<Rightarrow> None | Some members \<Rightarrow> nested members)
        else
          let toolType = canonicalServerTool rawType in
          if toolType = [] then None
          else case toolTypeRefusal key toolType of Some err \<Rightarrow> Some err
          | None \<Rightarrow>
          (case first_some (judgePlace errToolModelNotAllowed toolsField doc modelLookup key) [tool, parameters] of
             Some err \<Rightarrow> Some err
           | None \<Rightarrow>
             (case (if HasCreditFence key
                    then List.find (\<lambda>name. \<not> namesModel tool name \<and> \<not> namesModel parameters name)
                           (toolModelsRequiredOnFencedKey toolType)
                    else None) of
                Some name \<Rightarrow> Some (errToolModelRequired (TrimSpace rawType) name)
              | None \<Rightarrow>
                  (case present parameters nestedToolsParam of None \<Rightarrow> None | Some raw \<Rightarrow> nested raw))))))"

function fenceToolList :: "Document \<Rightarrow> lookup \<Rightarrow> Key \<Rightarrow> json \<Rightarrow> nat \<Rightarrow> apiError option" where
  "fenceToolList doc modelLookup key raw depth =
     (case dec_list raw of
        None \<Rightarrow> Some (errInvalidParamValue toolsField)
      | Some tools \<Rightarrow>
          first_some
            (fenceTool doc modelLookup key
               (\<lambda>nested. if depth \<ge> maxNestedToolDepth then Some (errInvalidParamValue toolsField)
                         else fenceToolList doc modelLookup key nested (Suc depth)))
            tools)"
  by pat_completeness auto
termination
  by (relation "measure (\<lambda>(doc, modelLookup, key, raw, depth). maxNestedToolDepth - depth)") auto

declare fenceToolList.simps [simp del]

definition fenceServerTools :: "Document \<Rightarrow> lookup \<Rightarrow> Key \<Rightarrow> params \<Rightarrow> apiError option" where
  "fenceServerTools doc modelLookup key params =
     (case present params toolsField of None \<Rightarrow> None
      | Some raw \<Rightarrow> fenceToolList doc modelLookup key raw 0)"

definition tool_refusal :: "apiError \<Rightarrow> refusal" where
  "tool_refusal err = \<lparr>refErr = err, errorType = toolRefusalType err\<rparr>"

abbreviation plain_refusal :: "apiError \<Rightarrow> refusal" where
  "plain_refusal err \<equiv> \<lparr>refErr = err, errorType = []\<rparr>"

definition fenceToolChoice :: "Document \<Rightarrow> lookup \<Rightarrow> Key \<Rightarrow> params \<Rightarrow> refusal option" where
  "fenceToolChoice doc modelLookup key params =
     (let invalid = plain_refusal (errInvalidParamValue toolChoiceField) in
      case present params toolChoiceField of None \<Rightarrow> None
      | Some raw \<Rightarrow>
        if dec_string raw \<noteq> None then None
        else case dec_object raw of None \<Rightarrow> Some invalid
        | Some choice \<Rightarrow>
          (case opt_string choice ''type'' of None \<Rightarrow> Some invalid
           | Some rawType \<Rightarrow>
             if EqualFold (TrimSpace rawType) allowedToolsChoice then
               (case (case present choice allowedToolsChoice of
                        None \<Rightarrow> Some [present choice toolsField]
                      | Some nested \<Rightarrow>
                          (case dec_object nested of None \<Rightarrow> None
                           | Some inner \<Rightarrow> Some [present choice toolsField, present inner toolsField])) of
                  None \<Rightarrow> Some invalid
                | Some toolLists \<Rightarrow>
                    first_some (\<lambda>list.
                      case list of None \<Rightarrow> None
                      | Some l \<Rightarrow>
                          (case fenceToolList doc modelLookup key l 1 of
                             None \<Rightarrow> None
                           | Some err \<Rightarrow>
                               if errCode err = ''invalid_parameter_value'' then Some invalid
                               else Some (tool_refusal err))) toolLists)
             else
               let toolType = canonicalServerTool rawType in
               if toolType = [] then None else map_option tool_refusal (toolTypeRefusal key toolType)))"

section \<open>Plugins and capabilities\<close>

definition fencePlugin :: "Document \<Rightarrow> lookup \<Rightarrow> Key \<Rightarrow> params \<Rightarrow> apiError option" where
  "fencePlugin doc modelLookup key plugin =
     (case Option.bind (map_of plugin ''id'') dec_string of
        None \<Rightarrow> Some (errInvalidParamValue pluginsField)
      | Some pid \<Rightarrow>
        let router = RouterPluginID pid in
        if router \<noteq> [] then
          (if HasCreditFence key then Some (errRouterPluginNotAllowed router) else None)
        else if \<not> EqualFold (TrimSpace pid) fusionPluginID then None
        else case judgePlace errPluginModelNotAllowed pluginsField doc modelLookup key plugin of
          Some err \<Rightarrow> Some err
        | None \<Rightarrow>
            if HasCreditFence key \<and> present plugin fusionPluginPreset \<noteq> None
              then Some errFusionPluginNeedsModels
            else if HasCreditFence key \<and>
                (case present plugin ''analysis_models'' of None \<Rightarrow> False | Some v \<Rightarrow> emptyModelValue v)
              then Some errFusionPluginNeedsModels
            else (case present plugin nestedToolsParam of None \<Rightarrow> None
                  | Some nested \<Rightarrow> fenceToolList doc modelLookup key nested 1))"

definition fencePlugins :: "Document \<Rightarrow> lookup \<Rightarrow> Key \<Rightarrow> params \<Rightarrow> apiError option" where
  "fencePlugins doc modelLookup key params =
     (case present params pluginsField of None \<Rightarrow> None
      | Some raw \<Rightarrow>
          (case dec_objects raw of
             None \<Rightarrow> Some (errInvalidParamValue pluginsField)
           | Some plugins \<Rightarrow> first_some (fencePlugin doc modelLookup key) plugins))"

definition fencePresetField :: "params \<Rightarrow> refusal option" where
  "fencePresetField params =
     (if map_of params PresetField \<noteq> None
      then Some \<lparr>refErr = errPresetNotAllowed, errorType = ''preset_not_allowed''\<rparr> else None)"

definition fenceCandidates :: "Document \<Rightarrow> lookup \<Rightarrow> Key \<Rightarrow> params \<Rightarrow> refusal option" where
  "fenceCandidates doc modelLookup key params =
     map_option (\<lambda>bad. \<lparr>refErr = errCandidateModelNotAllowed bad, errorType = ''credit_model_not_allowed''\<rparr>)
       (fenceCandidateModels doc modelLookup key params)"

definition fenceServerToolsStep :: "Document \<Rightarrow> lookup \<Rightarrow> Key \<Rightarrow> params \<Rightarrow> refusal option" where
  "fenceServerToolsStep doc modelLookup key params =
     map_option tool_refusal (fenceServerTools doc modelLookup key params)"

definition fencePluginsStep :: "Document \<Rightarrow> lookup \<Rightarrow> Key \<Rightarrow> params \<Rightarrow> refusal option" where
  "fencePluginsStep doc modelLookup key params =
     map_option tool_refusal (fencePlugins doc modelLookup key params)"

text \<open>Whether a file-parser plugin asks for the paid engine; \<^const>\<open>None\<close> when that cannot be read.\<close>

definition asksPaidPdfEngine :: "params \<Rightarrow> bool option" where
  "asksPaidPdfEngine plugin =
     (case present plugin ''pdf'' of None \<Rightarrow> Some False
      | Some raw \<Rightarrow>
          (case dec_object raw of None \<Rightarrow> None
           | Some pdf \<Rightarrow>
               (case present pdf ''engine'' of None \<Rightarrow> Some False
                | Some engineRaw \<Rightarrow>
                    map_option (\<lambda>engine. EqualFold (TrimSpace engine) paidPdfEngine) (dec_string engineRaw))))"

definition needs :: "Key \<Rightarrow> string \<Rightarrow> refusal option" where
  "needs key capability =
     (if AllowsEndpoint key capability then None
      else Some \<lparr>refErr = errEndpointNotAllowed (endpointLabel capability), errorType = ''endpoint_not_allowed''\<rparr>)"

definition pluginCapability :: "Key \<Rightarrow> params \<Rightarrow> refusal option" where
  "pluginCapability key plugin =
     (let pid = ToLower (TrimSpace (case Option.bind (map_of plugin ''id'') dec_string of None \<Rightarrow> [] | Some s \<Rightarrow> s)) in
      if pid = webPluginID then needs key EndpointWebSearch
      else if pid = fileParserPluginID then
        (case asksPaidPdfEngine plugin of
           None \<Rightarrow> Some (plain_refusal (errInvalidParamValue pluginsField))
         | Some paid \<Rightarrow> if paid then needs key EndpointPdfOcr else None)
      else None)"

definition modalityCapability :: "Key \<Rightarrow> string \<Rightarrow> refusal option" where
  "modalityCapability key kind =
     (let k = ToLower (TrimSpace kind) in
      if k = ''image'' then needs key EndpointImages
      else if k = ''audio'' then needs key EndpointSpeech else None)"

definition fenceChatCapabilities :: "Key \<Rightarrow> Model \<Rightarrow> params \<Rightarrow> refusal option" where
  "fenceChatCapabilities key model params =
     (let candidates = (case present params candidateModelsField of None \<Rightarrow> []
                        | Some raw \<Rightarrow> dec_strings_lenient raw);
          online = isOnlineName (PublicName model) \<or> list_ex isOnlineName candidates
      in case (if online then needs key EndpointWebSearch else None) of Some rf \<Rightarrow> Some rf
      | None \<Rightarrow>
      (case (case present params webSearchOptionsField of None \<Rightarrow> None
             | Some raw \<Rightarrow> (case dec_object raw of
                  None \<Rightarrow> Some (plain_refusal (errInvalidParamValue webSearchOptionsField))
                | Some opts \<Rightarrow> needs key EndpointWebSearch)) of Some rf \<Rightarrow> Some rf
      | None \<Rightarrow>
      (case (case present params pluginsField of None \<Rightarrow> None
             | Some raw \<Rightarrow> first_some (pluginCapability key) (dec_objects_lenient raw)) of Some rf \<Rightarrow> Some rf
      | None \<Rightarrow>
      (case present params modalitiesField of None \<Rightarrow> None
       | Some raw \<Rightarrow>
           (case dec_strings raw of
              None \<Rightarrow> Some (plain_refusal (errInvalidParamValue modalitiesField))
            | Some kinds \<Rightarrow> first_some (modalityCapability key) kinds)))))"

section \<open>Passthrough models\<close>

lemma passthroughModel_Some:
  "passthroughModel doc n = Some m \<Longrightarrow>
     PublicName m = n \<and> UpstreamModel m = n \<and> CreditAxis m \<and> UpstreamRef m = PassthroughRef doc \<and>
     PassthroughRef doc \<noteq> [] \<and> \<not> IsReservedModelName n \<and> \<not> IsPresetModelName n \<and>
     length n \<le> maxPassthroughNameBytes \<and> FallbackRef m = [] \<and> \<not> Restricted m"
  by (auto simp: passthroughModel_def CreditAxis_def Restricted_def split: if_splits)

text \<open>What a key must be able to say of a model before its name may leave the gateway.\<close>

definition billable :: "Document \<Rightarrow> lookup \<Rightarrow> Key \<Rightarrow> string \<Rightarrow> bool" where
  "billable doc modelLookup key n \<longleftrightarrow>
     n \<noteq> [] \<and> \<not> IsPresetModelName n \<and> \<not> IsReservedModelName n \<and>
     (\<exists>m. (modelLookup n = Some m \<or> modelLookup n = None \<and> passthroughModel doc n = Some m) \<and>
          CreditAxis m \<and> AllowsModel key m \<and> AllowsCreditModel key m \<and> \<not> IsRouterModelName (PublicName m))"

lemma allowsCandidateModel_iff: "allowsCandidateModel doc modelLookup key n \<longleftrightarrow> billable doc modelLookup key n"
  unfolding allowsCandidateModel_def billable_def Let_def
  by (auto simp: ServesCreditModel_def split: option.splits)

section \<open>Names in values\<close>

definition valueNames :: "json \<Rightarrow> string list" where
  "valueNames v =
     (if v = JNull then []
      else case dec_string v of Some one \<Rightarrow> [one]
      | None \<Rightarrow> (case dec_strings v of Some many \<Rightarrow> many | None \<Rightarrow> []))"

lemma judgeModelValue_Allowed:
  "judgeModelValue doc modelLookup key v = Allowed \<Longrightarrow>
     \<forall>n\<in>set (valueNames v). billable doc modelLookup key n"
  by (auto simp: judgeModelValue_def valueNames_def allowsCandidateModel_iff find_None_iff
      split: if_splits option.splits)

lemma onlineNeedsWebSearch_None:
  assumes "onlineNeedsWebSearch key v = None" "n \<in> set (valueNames v)" "isOnlineName n"
  shows "AllowsEndpoint key EndpointWebSearch"
  using assms dec_strings_lenient_eq [of v]
  by (cases "dec_strings v"; cases "dec_string v")
    (auto simp: onlineNeedsWebSearch_def valueNames_def list_ex_iff Let_def split: if_splits)

definition placeNames :: "params \<Rightarrow> string list" where
  "placeNames place =
     concat (map (\<lambda>f. case map_of place f of None \<Rightarrow> [] | Some v \<Rightarrow> valueNames v) toolModelParams)"

definition names_fenced :: "Document \<Rightarrow> lookup \<Rightarrow> Key \<Rightarrow> string list \<Rightarrow> bool" where
  "names_fenced doc modelLookup key ns \<longleftrightarrow>
     (\<forall>n\<in>set ns. billable doc modelLookup key n \<and> (isOnlineName n \<longrightarrow> AllowsEndpoint key EndpointWebSearch))"

lemma judgePlace_None:
  assumes "judgePlace refuse field doc modelLookup key place = None"
  shows "names_fenced doc modelLookup key (placeNames place)"
  unfolding names_fenced_def
proof
  fix n assume "n \<in> set (placeNames place)"
  then obtain f v where f: "f \<in> set toolModelParams" "map_of place f = Some v" "n \<in> set (valueNames v)"
    by (auto simp: placeNames_def split: option.splits dest!: sym [of "Some _"])
  with assms have "judgeModelValue doc modelLookup key v = Allowed" "onlineNeedsWebSearch key v = None"
    unfolding judgePlace_def first_some_None_iff by (force split: judgement.splits)+
  then show "billable doc modelLookup key n \<and> (isOnlineName n \<longrightarrow> AllowsEndpoint key EndpointWebSearch)"
    using judgeModelValue_Allowed onlineNeedsWebSearch_None f(3) by blast
qed

section \<open>Tools at any depth\<close>

definition toolObject :: "json \<Rightarrow> params" where
  "toolObject t = (case dec_object t of None \<Rightarrow> [] | Some m \<Rightarrow> m)"

definition toolParams :: "json \<Rightarrow> params" where
  "toolParams t = (case opt_object (toolObject t) ''parameters'' of None \<Rightarrow> [] | Some m \<Rightarrow> m)"

definition toolTypeOf :: "json \<Rightarrow> string" where
  "toolTypeOf t = (case opt_string (toolObject t) ''type'' of None \<Rightarrow> [] | Some s \<Rightarrow> s)"

definition isNamespace :: "json \<Rightarrow> bool" where
  "isNamespace t \<longleftrightarrow> EqualFold (TrimSpace (toolTypeOf t)) namespaceToolType"

text \<open>The list nested in a tool: a namespace's members, or the tools a server tool's own run may use.\<close>

definition nestedList :: "json \<Rightarrow> json option" where
  "nestedList t =
     (if isNamespace t then present (toolObject t) nestedToolsParam
      else if canonicalServerTool (toolTypeOf t) = [] then None
      else present (toolParams t) nestedToolsParam)"

inductive tool_within :: "json \<Rightarrow> json \<Rightarrow> bool" where
  here: "dec_list raw = Some tools \<Longrightarrow> t \<in> set tools \<Longrightarrow> tool_within raw t"
| deeper: "dec_list raw = Some tools \<Longrightarrow> t \<in> set tools \<Longrightarrow> nestedList t = Some inner \<Longrightarrow>
     tool_within inner t' \<Longrightarrow> tool_within raw t'"

text \<open>What the fence guarantees of a tool it let pass.\<close>

definition tool_fenced :: "Document \<Rightarrow> lookup \<Rightarrow> Key \<Rightarrow> json \<Rightarrow> bool" where
  "tool_fenced doc modelLookup key t \<longleftrightarrow>
     (let ty = canonicalServerTool (toolTypeOf t) in
      isNamespace t \<or> ty = [] \<or>
      names_fenced doc modelLookup key (placeNames (toolObject t)) \<and>
      names_fenced doc modelLookup key (placeNames (toolParams t)) \<and>
      (ty = webSearchTool \<longrightarrow> AllowsEndpoint key EndpointWebSearch) \<and>
      (ty = imageGenerationTool \<longrightarrow> AllowsEndpoint key EndpointImages) \<and>
      (ty \<in> set containerTools \<longrightarrow> AllowsEndpoint key EndpointContainers) \<and>
      (HasPrefix ty serverToolPrefix \<longrightarrow> ty \<in> set knownServerTools) \<and>
      (HasCreditFence key \<longrightarrow> (\<forall>f\<in>set (toolModelsRequiredOnFencedKey ty).
         namesModel (toolObject t) f \<or> namesModel (toolParams t) f)))"

lemma toolTypeRefusal_None:
  "toolTypeRefusal key ty = None \<Longrightarrow>
     (ty = webSearchTool \<longrightarrow> AllowsEndpoint key EndpointWebSearch) \<and>
     (ty = imageGenerationTool \<longrightarrow> AllowsEndpoint key EndpointImages) \<and>
     (ty \<in> set containerTools \<longrightarrow> AllowsEndpoint key EndpointContainers) \<and>
     (HasPrefix ty serverToolPrefix \<longrightarrow> ty \<in> set knownServerTools)"
  unfolding toolTypeRefusal_def by (auto split: if_splits)

lemma fenceTool_None:
  assumes "fenceTool doc modelLookup key nested t = None"
  shows "tool_fenced doc modelLookup key t" "\<And>inner. nestedList t = Some inner \<Longrightarrow> nested inner = None"
proof -
  obtain tool ty ps where t: "dec_object t = Some tool" "opt_string tool ''type'' = Some ty"
    "opt_object tool ''parameters'' = Some ps"
    using assms by (auto simp: fenceTool_def split: option.splits)
  then have views: "toolObject t = tool" "toolTypeOf t = ty" "toolParams t = ps"
    by (simp_all add: toolObject_def toolTypeOf_def toolParams_def)
  have passed: "toolTypeRefusal key (canonicalServerTool ty) = None"
    "judgePlace errToolModelNotAllowed toolsField doc modelLookup key tool = None"
    "judgePlace errToolModelNotAllowed toolsField doc modelLookup key ps = None"
    "HasCreditFence key \<Longrightarrow> List.find (\<lambda>name. \<not> namesModel tool name \<and> \<not> namesModel ps name)
        (toolModelsRequiredOnFencedKey (canonicalServerTool ty)) = None"
    if "\<not> isNamespace t" "canonicalServerTool ty \<noteq> []"
    using assms t that views
    by (auto simp: fenceTool_def isNamespace_def Let_def split: option.splits if_splits)
  show "tool_fenced doc modelLookup key t"
    unfolding tool_fenced_def Let_def views
    using passed toolTypeRefusal_None judgePlace_None by (auto simp: find_None_iff)
  show "nested inner = None" if "nestedList t = Some inner" for inner
    using assms t that views
    by (auto simp: fenceTool_def nestedList_def isNamespace_def Let_def split: option.splits if_splits)
qed

lemma fenceToolList_None:
  assumes "fenceToolList doc modelLookup key raw depth = None" "tool_within raw t"
  shows "tool_fenced doc modelLookup key t"
  using assms(2,1)
proof (induction arbitrary: depth rule: tool_within.induct)
  case (here raw tools t)
  then show ?case
    using fenceTool_None(1) by (subst (asm) fenceToolList.simps) (auto simp: first_some_None_iff)
next
  case (deeper raw tools t inner t')
  let ?nested = "\<lambda>nested. if depth \<ge> maxNestedToolDepth then Some (errInvalidParamValue toolsField)
     else fenceToolList doc modelLookup key nested (Suc depth)"
  have "fenceTool doc modelLookup key ?nested t = None"
    using deeper by (subst (asm) (2) fenceToolList.simps) (auto simp: first_some_None_iff)
  then have "?nested inner = None" using fenceTool_None(2) deeper(3) by blast
  then show ?case using deeper(5) by (auto split: if_splits)
qed

lemma fenceToolList_list: "fenceToolList doc modelLookup key raw depth = None \<Longrightarrow> \<exists>tools. dec_list raw = Some tools"
  by (subst (asm) fenceToolList.simps) (auto split: option.splits)

end
