(* ===== verification/Token_Tools.thy ===== *)
theory Token_Tools
  imports Fence
begin

text \<open>
  The tool rules for self-hosted models (\<open>internal/server/token_tools.go\<close>): only functions the caller
  runs, and only choices among the functions it declared. The stream decoder \<open>tokenToolObject\<close> uses
  sees every member, so here an object with a repeated name is refused, where \<^const>\<open>dec_object\<close>
  would let the last one win.
\<close>

definition tokenToolObject :: "json option \<Rightarrow> params option" where
  "tokenToolObject raw =
     (case raw of Some (JObj kvs) \<Rightarrow> if distinct (map fst kvs) then Some kvs else None | _ \<Rightarrow> None)"

definition tokenToolFields :: "params \<Rightarrow> string list \<Rightarrow> bool" where
  "tokenToolFields object allowed \<longleftrightarrow> list_all (\<lambda>kv. fst kv \<in> set allowed) object"

definition name_char :: "char \<Rightarrow> bool" where
  "name_char c \<longleftrightarrow>
     97 \<le> (of_char c :: nat) \<and> (of_char c :: nat) \<le> 122 \<or> 65 \<le> (of_char c :: nat) \<and> (of_char c :: nat) \<le> 90
     \<or> is_digit c \<or> c = CHR ''_'' \<or> c = CHR ''-''"

definition tokenFunctionName :: "string \<Rightarrow> bool" where
  "tokenFunctionName name \<longleftrightarrow> name \<noteq> [] \<and> length name \<le> 64 \<and> list_all name_char name"

definition dec_member :: "params \<Rightarrow> string \<Rightarrow> string option" where
  "dec_member m f = Option.bind (map_of m f) dec_string"

definition tokenFunctionTool :: "json \<Rightarrow> bool \<Rightarrow> string option" where
  "tokenFunctionTool raw reference =
     (case tokenToolObject (Some raw) of None \<Rightarrow> None
      | Some tool \<Rightarrow>
        if \<not> tokenToolFields tool [''type'', ''function''] then None
        else if dec_member tool ''type'' \<noteq> Some ''function'' then None
        else case tokenToolObject (map_of tool ''function'') of None \<Rightarrow> None
        | Some fn \<Rightarrow>
          if \<not> tokenToolFields fn
               (if reference then [''name''] else [''name'', ''description'', ''parameters'', ''strict'']) then None
          else case dec_member fn ''name'' of None \<Rightarrow> None
          | Some name \<Rightarrow>
            if \<not> tokenFunctionName name then None
            else if (case map_of fn ''description'' of None \<Rightarrow> False | Some v \<Rightarrow> dec_string v = None) then None
            else if (case present fn ''parameters'' of None \<Rightarrow> False | Some (JObj _) \<Rightarrow> False | Some _ \<Rightarrow> True)
              then None
            else if (case map_of fn ''strict'' of None \<Rightarrow> False | Some (JBool _) \<Rightarrow> False
                     | Some JNull \<Rightarrow> False | Some _ \<Rightarrow> True) then None
            else Some name)"

definition invalidTokenToolField :: "string \<Rightarrow> apiError" where
  "invalidTokenToolField field =
     (errInvalidParamValue field)\<lparr>errMessage := [''invalidTokenToolField'', field]\<rparr>"

text \<open>The names the request's tools declare; \<^const>\<open>None\<close> when one of them is no function.\<close>

definition declaredFunctions :: "params \<Rightarrow> string list option" where
  "declaredFunctions params =
     (case present params toolsField of None \<Rightarrow> Some []
      | Some raw \<Rightarrow>
          (case dec_list raw of None \<Rightarrow> None
           | Some tools \<Rightarrow> all_some (map (\<lambda>t. tokenFunctionTool t False) tools)))"

definition refersTo :: "string list \<Rightarrow> json \<Rightarrow> bool" where
  "refersTo names ref = (case tokenFunctionTool ref True of None \<Rightarrow> False | Some name \<Rightarrow> name \<in> set names)"

definition choiceValid :: "string list \<Rightarrow> json \<Rightarrow> bool" where
  "choiceValid names raw =
     (case dec_string raw of
        Some mode \<Rightarrow> mode \<in> {''auto'', ''none'', ''required''}
      | None \<Rightarrow>
        (case tokenToolObject (Some raw) of None \<Rightarrow> False
         | Some choice \<Rightarrow>
           (case dec_member choice ''type'' of None \<Rightarrow> False
            | Some kind \<Rightarrow>
              if kind = ''function'' then refersTo names raw
              else if kind \<noteq> allowedToolsChoice \<or> \<not> tokenToolFields choice [''type'', allowedToolsChoice]
                then False
              else case tokenToolObject (map_of choice allowedToolsChoice) of None \<Rightarrow> False
              | Some allowed \<Rightarrow>
                tokenToolFields allowed [''mode'', toolsField] \<and>
                dec_member allowed ''mode'' \<in> {Some ''auto'', Some ''required''} \<and>
                (case Option.bind (map_of allowed toolsField) dec_list of None \<Rightarrow> False
                 | Some refs \<Rightarrow> refs \<noteq> [] \<and> list_all (refersTo names) refs))))"

definition fenceTokenTools :: "params \<Rightarrow> apiError option" where
  "fenceTokenTools params =
     (case declaredFunctions params of
        None \<Rightarrow> Some (invalidTokenToolField toolsField)
      | Some names \<Rightarrow>
          (case present params toolChoiceField of
             None \<Rightarrow> None
           | Some raw \<Rightarrow> if choiceValid names raw then None else Some (invalidTokenToolField toolChoiceField)))"

section \<open>Properties\<close>

lemma tokenToolObject_dec: "tokenToolObject (Some j) = Some m \<Longrightarrow> dec_object j = Some (go_object m) \<and> distinct (map fst m)"
  by (auto simp: tokenToolObject_def dec_object_def split: json.splits if_splits)

lemma tokenFunctionTool_type:
  assumes "tokenFunctionTool t r = Some n"
  shows "tokenFunctionName n \<and> toolTypeOf t = ''function''"
proof -
  obtain tool where tool: "tokenToolObject (Some t) = Some tool" "dec_member tool ''type'' = Some ''function''"
    and name: "tokenFunctionName n"
    using assms by (auto simp: tokenFunctionTool_def split: option.splits if_splits)
  have "dec_object t = Some (go_object tool)" "map_of (go_object tool) = map_of tool"
    using tokenToolObject_dec [OF tool(1)] go_object_distinct_map_of by auto
  then have "toolTypeOf t = ''function''"
    using tool(2) by (auto simp: toolTypeOf_def toolObject_def opt_string_def dec_member_def split: bind_splits)
  with name show ?thesis by blast
qed

text \<open>
  A self-hosted model is never sent a server tool: a request that passes the token fence declares
  only plain functions with well-formed names, none of which the paid side would read as one of the
  vendor's server tools or namespaces, and a tool choice picks only among the declared functions.
\<close>

theorem token_tools_are_functions:
  assumes "fenceTokenTools params = None"
  shows "(\<forall>raw tools. present params toolsField = Some raw \<longrightarrow> dec_list raw = Some tools \<longrightarrow>
      list_all (\<lambda>t. toolTypeOf t = ''function'' \<and> canonicalServerTool (toolTypeOf t) = [] \<and> \<not> isNamespace t) tools) \<and>
    (\<exists>names. declaredFunctions params = Some names \<and> list_all tokenFunctionName names \<and>
      (\<forall>raw. present params toolChoiceField = Some raw \<longrightarrow> choiceValid names raw))"
proof -
  from assms obtain names where names: "declaredFunctions params = Some names"
    and choice: "present params toolChoiceField = Some raw \<Longrightarrow> choiceValid names raw" for raw
    by (auto simp: fenceTokenTools_def split: option.splits if_splits)
  have fn: "canonicalServerTool ''function'' = []" "\<not> EqualFold (TrimSpace ''function'') namespaceToolType"
    by code_simp+
  have "toolTypeOf t = ''function''"
    if "present params toolsField = Some raw" "dec_list raw = Some tools" "t \<in> set tools" for raw tools t
  proof -
    have "map (\<lambda>t. tokenFunctionTool t False) tools = map Some names"
      using names that by (simp add: declaredFunctions_def all_some_iff)
    then have "tokenFunctionTool t False \<in> set (map Some names)" using that(3) by (metis imageI list.set_map)
    then show ?thesis using tokenFunctionTool_type by auto
  qed
  moreover have "list_all tokenFunctionName names"
    using names all_some_mem tokenFunctionTool_type
    by (fastforce simp: declaredFunctions_def list_all_iff split: option.splits)
  ultimately show ?thesis using names choice fn by (auto simp: list_all_iff isNamespace_def)
qed

theorem token_tools_are_functions_witness:
  "\<exists>names. declaredFunctions [(''tools'', JArr [JObj [(''type'', JStr ''function''),
     (''function'', JObj [(''name'', JStr ''get_time'')])]])] = Some names \<and> list_all tokenFunctionName names"
proof -
  have "fenceTokenTools [(''tools'', JArr [JObj [(''type'', JStr ''function''),
     (''function'', JObj [(''name'', JStr ''get_time'')])]])] = None" by code_simp
  from token_tools_are_functions [OF this] show ?thesis by blast
qed

end
