(* ===== verification/Protocols.thy ===== *)
theory Protocols
  imports Token_Tools
begin

text \<open>
  The four generation routes (\<open>chat.go\<close>, \<open>completions.go\<close>, \<open>messages.go\<close>, \<open>responses.go\<close>) as values of
  the \<open>protocol\<close> record of \<open>protocol.go\<close>: how each reads a request, which fences a paid request passes,
  which parameters a self-hosted one may carry, and how the body is rewritten for the upstream.
\<close>

section \<open>Requests\<close>

record parsedRequest =
  publicModel :: string
  fromCandidates :: bool
  reqInput :: json
  wantsUsage :: bool

definition parsed_zero :: parsedRequest where
  "parsed_zero = \<lparr>publicModel = [], fromCandidates = False, reqInput = JNull, wantsUsage = False\<rparr>"

datatype candidate = Absent | Invalid | First string

definition firstCandidateModel :: "params \<Rightarrow> candidate" where
  "firstCandidateModel params =
     (case present params candidateModelsField of
        None \<Rightarrow> Absent
      | Some raw \<Rightarrow>
          (case dec_strings raw of
             None \<Rightarrow> Invalid
           | Some [] \<Rightarrow> Absent
           | Some (n # ns) \<Rightarrow> if n = [] then Invalid else First n))"

definition renameFirstCandidate :: "params \<Rightarrow> string \<Rightarrow> params" where
  "renameFirstCandidate params upstream =
     (case Option.bind (map_of params candidateModelsField) dec_strings of
        Some (n # ns) \<Rightarrow> AList.update candidateModelsField (JArr (map JStr (upstream # ns))) params
      | _ \<Rightarrow> params)"

definition tokenAxisParams :: "string list" where
  "tokenAxisParams =
     [''model'', ''messages'', ''stream'', ''stream_options'', ''max_tokens'', ''max_completion_tokens'',
      ''temperature'', ''top_p'', ''stop'', ''presence_penalty'', ''frequency_penalty'', ''seed'', ''user'',
      ''response_format'', ''tools'', ''tool_choice'', ''parallel_tool_calls'']"

definition creditOnlyParams :: "string list" where
  "creditOnlyParams = [''reasoning_effort'', ''verbosity'']"

text \<open>\<open>stream_options.include_usage\<close>, with the error of the decode ignored.\<close>

definition wantsUsageIn :: "params \<Rightarrow> bool" where
  "wantsUsageIn params =
     (case map_of params ''stream_options'' of
        Some (JObj kvs) \<Rightarrow>
          (case map_of (go_object kvs) ''include_usage'' of Some (JBool b) \<Rightarrow> b | _ \<Rightarrow> False)
      | _ \<Rightarrow> False)"

type_synonym 'a refusable = "refusal + 'a"

definition parseChat :: "params \<Rightarrow> parsedRequest refusable" where
  "parseChat params =
     (case opt_string params ''model'' of
        None \<Rightarrow> Inl (plain_refusal (errMissingParam ''model''))
      | Some named \<Rightarrow>
        (case (if named \<noteq> [] then Inr (named, False)
               else (case firstCandidateModel params of
                       Absent \<Rightarrow> Inl (plain_refusal (errMissingParam ''model''))
                     | Invalid \<Rightarrow> Inl (plain_refusal (errInvalidParamValue candidateModelsField))
                     | First n \<Rightarrow> Inr (n, True))) of
           Inl rf \<Rightarrow> Inl rf
         | Inr (pm, fromC) \<Rightarrow>
           (case map_of params ''messages'' of
              None \<Rightarrow> Inl (plain_refusal (errMissingParam ''messages''))
            | Some messages \<Rightarrow>
                Inr \<lparr>publicModel = pm, fromCandidates = fromC, reqInput = messages,
                     wantsUsage = wantsUsageIn params\<rparr>)))"

text \<open>The three other routes require the model by name.\<close>

definition namedModel :: "params \<Rightarrow> string refusable" where
  "namedModel params =
     (case Option.bind (map_of params ''model'') dec_string of
        Some n \<Rightarrow> if n = [] then Inl (plain_refusal (errMissingParam ''model'')) else Inr n
      | None \<Rightarrow> Inl (plain_refusal (errMissingParam ''model'')))"

definition parseCompletions :: "params \<Rightarrow> parsedRequest refusable" where
  "parseCompletions params =
     (case namedModel params of Inl rf \<Rightarrow> Inl rf
      | Inr n \<Rightarrow>
        (case present params ''prompt'' of
           None \<Rightarrow> Inl (plain_refusal (errMissingParam ''prompt''))
         | Some prompt \<Rightarrow>
             Inr (parsed_zero\<lparr>publicModel := n, reqInput := prompt, wantsUsage := wantsUsageIn params\<rparr>)))"

definition parseMessages :: "params \<Rightarrow> parsedRequest refusable" where
  "parseMessages params =
     (case namedModel params of Inl rf \<Rightarrow> Inl rf
      | Inr n \<Rightarrow>
        (case map_of params ''messages'' of
           None \<Rightarrow> Inl (plain_refusal (errMissingParam ''messages''))
         | Some messages \<Rightarrow> Inr (parsed_zero\<lparr>publicModel := n, reqInput := messages\<rparr>)))"

text \<open>Fields that ask for server-side state; the flag says that false is as good as absent.\<close>

definition statefulFields :: "(string \<times> bool) list" where
  "statefulFields = [(''store'', True), (''previous_response_id'', False), (''conversation'', False),
     (''background'', True)]"

definition statefulRefusal :: "params \<Rightarrow> string \<times> bool \<Rightarrow> refusal option" where
  "statefulRefusal params f =
     (case present params (fst f) of None \<Rightarrow> None
      | Some v \<Rightarrow>
          let unsupported = Some (plain_refusal (errUnsupportedValue (fst f) (fst f))) in
          if snd f then
            (case dec_bool v of None \<Rightarrow> Some (plain_refusal (errInvalidParamValue (fst f)))
             | Some on \<Rightarrow> if on then unsupported else None)
          else unsupported)"

definition parseResponses :: "params \<Rightarrow> parsedRequest refusable" where
  "parseResponses params =
     (case namedModel params of Inl rf \<Rightarrow> Inl rf
      | Inr n \<Rightarrow>
        (case present params ''input'' of
           None \<Rightarrow> Inl (plain_refusal (errMissingParam ''input''))
         | Some inp \<Rightarrow>
           (case first_some (statefulRefusal params) statefulFields of
              Some rf \<Rightarrow> Inl rf
            | None \<Rightarrow> Inr (parsed_zero\<lparr>publicModel := n, reqInput := inp\<rparr>))))"

section \<open>Parameters of self-hosted models\<close>

definition chatTokenAxisParam :: "string \<Rightarrow> refusal option" where
  "chatTokenAxisParam name =
     (if name \<in> set tokenAxisParams then None
      else if name \<in> set creditOnlyParams
        then Some \<lparr>refErr = errParamNeedsCreditModel name, errorType = ''credit_only_parameter''\<rparr>
      else Some (plain_refusal (errUnsupportedParam name)))"

definition noTokenAxisParam :: "string \<Rightarrow> refusal option" where
  "noTokenAxisParam name = Some (plain_refusal (errUnsupportedParam name))"

section \<open>Further fences\<close>

abbreviation "fallbacksField \<equiv> ''fallbacks''"
abbreviation "deferredToolsField \<equiv> ''deferred_tools''"

definition fenceFallback :: "Document \<Rightarrow> lookup \<Rightarrow> Key \<Rightarrow> params \<Rightarrow> refusal option" where
  "fenceFallback doc modelLookup key entry =
     (case Option.bind (map_of entry ''model'') dec_string of
        None \<Rightarrow> Some (plain_refusal (errInvalidParamValue fallbacksField))
      | Some name \<Rightarrow>
          if \<not> allowsCandidateModel doc modelLookup key name
            then Some \<lparr>refErr = errFallbackModelNotAllowed name, errorType = ''credit_model_not_allowed''\<rparr>
          else if isOnlineName name \<and> \<not> AllowsEndpoint key EndpointWebSearch
            then Some \<lparr>refErr = errEndpointNotAllowed (endpointLabel EndpointWebSearch),
                      errorType = ''endpoint_not_allowed''\<rparr>
          else None)"

definition fenceFallbacks :: "Document \<Rightarrow> lookup \<Rightarrow> Key \<Rightarrow> params \<Rightarrow> refusal option" where
  "fenceFallbacks doc modelLookup key params =
     (case present params fallbacksField of None \<Rightarrow> None
      | Some raw \<Rightarrow>
          (case dec_objects raw of
             None \<Rightarrow> Some (plain_refusal (errInvalidParamValue fallbacksField))
           | Some entries \<Rightarrow> first_some (fenceFallback doc modelLookup key) entries))"

text \<open>A tool list outside \<open>tools\<close>: its own field is named when the list cannot be read.\<close>

definition fenceOtherTools :: "string \<Rightarrow> Document \<Rightarrow> lookup \<Rightarrow> Key \<Rightarrow> json \<Rightarrow> refusal option" where
  "fenceOtherTools field doc modelLookup key raw =
     (case fenceToolList doc modelLookup key raw 0 of None \<Rightarrow> None
      | Some err \<Rightarrow>
          if errCode err = ''invalid_parameter_value'' then Some (plain_refusal (errInvalidParamValue field))
          else Some (tool_refusal err))"

definition fenceDeferredTools :: "Document \<Rightarrow> lookup \<Rightarrow> Key \<Rightarrow> params \<Rightarrow> refusal option" where
  "fenceDeferredTools doc modelLookup key params =
     (case present params deferredToolsField of None \<Rightarrow> None
      | Some raw \<Rightarrow> fenceOtherTools deferredToolsField doc modelLookup key raw)"

definition fenceResponsesInput :: "Document \<Rightarrow> lookup \<Rightarrow> Key \<Rightarrow> params \<Rightarrow> refusal option" where
  "fenceResponsesInput doc modelLookup key params =
     (case map_of params ''input'' of
        None \<Rightarrow> Some (plain_refusal (errInvalidParamValue ''input''))
      | Some raw \<Rightarrow>
        if dec_string raw \<noteq> None then None
        else case dec_list raw of
          None \<Rightarrow> Some (plain_refusal (errInvalidParamValue ''input''))
        | Some items \<Rightarrow>
            first_some (\<lambda>rawItem.
              case dec_object rawItem of None \<Rightarrow> None
              | Some item \<Rightarrow>
                  (case present item toolsField of None \<Rightarrow> None
                   | Some list \<Rightarrow> fenceOtherTools ''input'' doc modelLookup key list)) items)"

section \<open>Rewriting the body\<close>

text \<open>
  Decoding null into the options map leaves it nil, and writing to a nil map panics: \<^const>\<open>None\<close>.
  Decoding anything else that is no object leaves the empty map.
\<close>

definition withIncludeUsage :: "json option \<Rightarrow> json option" where
  "withIncludeUsage raw =
     (let set_usage = (\<lambda>opts. Some (JObj (AList.update ''include_usage'' (JBool True) opts))) in
      case raw of
        None \<Rightarrow> set_usage []
      | Some JNull \<Rightarrow> None
      | Some (JObj kvs) \<Rightarrow> set_usage (go_object kvs)
      | Some _ \<Rightarrow> set_usage [])"

definition shapeChat :: "params \<Rightarrow> parsedRequest \<Rightarrow> Model \<Rightarrow> bool \<Rightarrow> params option" where
  "shapeChat params req model streaming =
     (let p1 = (if fromCandidates req
                then renameFirstCandidate (AList.delete ''model'' params) (UpstreamModel model)
                else AList.update ''model'' (JStr (UpstreamModel model)) params)
      in if streaming
         then map_option (\<lambda>opts. AList.update ''stream_options'' opts p1)
                (withIncludeUsage (map_of p1 ''stream_options''))
         else Some p1)"

definition shapeMessages :: "params \<Rightarrow> parsedRequest \<Rightarrow> Model \<Rightarrow> bool \<Rightarrow> params option" where
  "shapeMessages params req model streaming =
     Some (AList.update ''model'' (JStr (UpstreamModel model)) params)"

definition shapeResponses :: "params \<Rightarrow> parsedRequest \<Rightarrow> Model \<Rightarrow> bool \<Rightarrow> params option" where
  "shapeResponses params req model streaming =
     Some (AList.update ''model'' (JStr (UpstreamModel model)) params)"

section \<open>Protocols\<close>

type_synonym fence = "Document \<Rightarrow> lookup \<Rightarrow> Key \<Rightarrow> Model \<Rightarrow> params \<Rightarrow> refusal option"

record protocol =
  endpoint :: string
  capability :: string
  upstreamPath :: string
  headerKeys :: bool
  parseReq :: "params \<Rightarrow> parsedRequest refusable"
  creditOnly :: "apiError option"
  tokenAxisParam :: "string \<Rightarrow> refusal option"
  reasoningParam :: string
  fences :: "fence list"
  capReadFields :: "string list"
  capWriteField :: string
  shape :: "params \<Rightarrow> parsedRequest \<Rightarrow> Model \<Rightarrow> bool \<Rightarrow> params option"
  captures :: bool
  noUsageEstimate :: bool

definition chatFences :: "fence list" where
  "chatFences =
     [\<lambda>d l k m p. fencePresetField p,
      \<lambda>d l k m p. fenceCandidates d l k p,
      \<lambda>d l k m p. fenceServerToolsStep d l k p,
      \<lambda>d l k m p. fenceToolChoice d l k p,
      \<lambda>d l k m p. fencePluginsStep d l k p,
      \<lambda>d l k m p. fenceChatCapabilities k m p]"

definition messagesFences :: "fence list" where
  "messagesFences =
     [\<lambda>d l k m p. fencePresetField p,
      \<lambda>d l k m p. fenceCandidates d l k p,
      \<lambda>d l k m p. fenceFallbacks d l k p,
      \<lambda>d l k m p. fenceServerToolsStep d l k p,
      \<lambda>d l k m p. fenceDeferredTools d l k p,
      \<lambda>d l k m p. fenceToolChoice d l k p,
      \<lambda>d l k m p. fencePluginsStep d l k p,
      \<lambda>d l k m p. fenceChatCapabilities k m p]"

definition responsesFences :: "fence list" where
  "responsesFences =
     [\<lambda>d l k m p. fencePresetField p,
      \<lambda>d l k m p. fenceCandidates d l k p,
      \<lambda>d l k m p. fenceServerToolsStep d l k p,
      \<lambda>d l k m p. fenceDeferredTools d l k p,
      \<lambda>d l k m p. fenceResponsesInput d l k p,
      \<lambda>d l k m p. fenceToolChoice d l k p,
      \<lambda>d l k m p. fencePluginsStep d l k p,
      \<lambda>d l k m p. fenceChatCapabilities k m p]"

definition protoChat :: protocol where
  "protoChat =
     \<lparr>endpoint = ''chat'', capability = EndpointChat, upstreamPath = ''/chat/completions'', headerKeys = False,
      parseReq = parseChat, creditOnly = None, tokenAxisParam = chatTokenAxisParam,
      reasoningParam = ''reasoning_effort'', fences = chatFences,
      capReadFields = [''max_completion_tokens'', ''max_tokens''], capWriteField = [],
      shape = shapeChat, captures = True, noUsageEstimate = False\<rparr>"

definition protoCompletions :: protocol where
  "protoCompletions =
     \<lparr>endpoint = ''completions'', capability = EndpointChat, upstreamPath = ''/completions'', headerKeys = False,
      parseReq = parseCompletions, creditOnly = Some errModelNotOnCompletions,
      tokenAxisParam = noTokenAxisParam, reasoningParam = [], fences = chatFences,
      capReadFields = [''max_completion_tokens'', ''max_tokens''], capWriteField = ''max_tokens'',
      shape = shapeChat, captures = False, noUsageEstimate = True\<rparr>"

definition protoMessages :: protocol where
  "protoMessages =
     \<lparr>endpoint = ''messages'', capability = EndpointChat, upstreamPath = ''/messages'', headerKeys = True,
      parseReq = parseMessages, creditOnly = Some errModelNotOnMessages,
      tokenAxisParam = noTokenAxisParam, reasoningParam = [], fences = messagesFences,
      capReadFields = [''max_tokens''], capWriteField = ''max_tokens'',
      shape = shapeMessages, captures = False, noUsageEstimate = True\<rparr>"

definition protoResponses :: protocol where
  "protoResponses =
     \<lparr>endpoint = ''responses'', capability = EndpointChat, upstreamPath = ''/responses'', headerKeys = False,
      parseReq = parseResponses, creditOnly = Some errModelNotOnResponses,
      tokenAxisParam = noTokenAxisParam, reasoningParam = [], fences = responsesFences,
      capReadFields = [''max_output_tokens''], capWriteField = ''max_output_tokens'',
      shape = shapeResponses, captures = False, noUsageEstimate = True\<rparr>"

definition routes :: "protocol list" where
  "routes = [protoChat, protoCompletions, protoMessages, protoResponses]"

definition runFences :: "fence list \<Rightarrow> Document \<Rightarrow> lookup \<Rightarrow> Key \<Rightarrow> Model \<Rightarrow> params \<Rightarrow> refusal option" where
  "runFences fs doc modelLookup key model params =
     first_some (\<lambda>f. f doc modelLookup key model params) fs"

section \<open>Everything a paid request can name\<close>

definition isFusion :: "params \<Rightarrow> bool" where
  "isFusion plugin =
     (case Option.bind (map_of plugin ''id'') dec_string of None \<Rightarrow> False
      | Some pid \<Rightarrow> EqualFold (TrimSpace pid) fusionPluginID)"

text \<open>The tool lists of a request: its tools, those of a fusion plugin, and those a tool choice repeats.\<close>

inductive tool_list :: "params \<Rightarrow> json \<Rightarrow> bool" where
  tools: "present params toolsField = Some raw \<Longrightarrow> tool_list params raw"
| plugin_tools: "present params pluginsField = Some rawPlugins \<Longrightarrow> dec_objects rawPlugins = Some ps \<Longrightarrow>
     p \<in> set ps \<Longrightarrow> isFusion p \<Longrightarrow> present p nestedToolsParam = Some raw \<Longrightarrow> tool_list params raw"
| choice_tools: "present params toolChoiceField = Some rawChoice \<Longrightarrow> dec_object rawChoice = Some choice \<Longrightarrow>
     dec_string rawChoice = None \<Longrightarrow> opt_string choice ''type'' = Some ty \<Longrightarrow>
     EqualFold (TrimSpace ty) allowedToolsChoice \<Longrightarrow>
     present choice toolsField = Some raw \<or>
     (\<exists>nested inner. present choice allowedToolsChoice = Some nested \<and> dec_object nested = Some inner \<and>
        present inner toolsField = Some raw) \<Longrightarrow> tool_list params raw"

text \<open>The places that can name a model: the candidates, a fusion plugin, and any server tool at any depth.\<close>

inductive names_model :: "params \<Rightarrow> string \<Rightarrow> bool" where
  candidate: "present params candidateModelsField = Some raw \<Longrightarrow> dec_strings raw = Some ns \<Longrightarrow>
     n \<in> set ns \<Longrightarrow> names_model params n"
| plugin: "present params pluginsField = Some raw \<Longrightarrow> dec_objects raw = Some ps \<Longrightarrow> p \<in> set ps \<Longrightarrow>
     isFusion p \<Longrightarrow> n \<in> set (placeNames p) \<Longrightarrow> names_model params n"
| tool: "tool_list params raw \<Longrightarrow> tool_within raw t \<Longrightarrow> \<not> isNamespace t \<Longrightarrow>
     canonicalServerTool (toolTypeOf t) \<noteq> [] \<Longrightarrow>
     n \<in> set (placeNames (toolObject t)) \<union> set (placeNames (toolParams t)) \<Longrightarrow> names_model params n"

lemma isFusion_no_router:
  assumes "EqualFold (TrimSpace pid) fusionPluginID" shows "RouterPluginID pid = []"
proof -
  have "ToLower fusionPluginID \<noteq> ToLower known" if "known \<in> set routerPluginIDs" for known
    using that by (auto simp: routerPluginIDs_def ToLower_def lower_char_def)
  then have "List.find (\<lambda>known. EqualFold (TrimSpace pid) known) routerPluginIDs = None"
    using assms by (auto simp: find_None_iff EqualFold_def)
  then show ?thesis by (simp add: RouterPluginID_def)
qed

lemma fencePlugin_None:
  assumes "fencePlugin doc modelLookup key p = None" "isFusion p"
  shows "names_fenced doc modelLookup key (placeNames p)"
    and "\<And>raw. present p nestedToolsParam = Some raw \<Longrightarrow> fenceToolList doc modelLookup key raw 1 = None"
proof -
  obtain pid where pid: "Option.bind (map_of p ''id'') dec_string = Some pid" "EqualFold (TrimSpace pid) fusionPluginID"
    using assms(2) by (auto simp: isFusion_def split: option.splits)
  have "judgePlace errPluginModelNotAllowed pluginsField doc modelLookup key p = None"
    using assms(1) pid isFusion_no_router [OF pid(2)]
    by (auto simp: fencePlugin_def split: option.splits)
  then show "names_fenced doc modelLookup key (placeNames p)" by (rule judgePlace_None)
  show "fenceToolList doc modelLookup key raw 1 = None" if "present p nestedToolsParam = Some raw" for raw
    using assms(1) pid isFusion_no_router [OF pid(2)] that
    by (auto simp: fencePlugin_def split: option.splits if_splits)
qed

lemma fenceToolChoice_None:
  assumes "fenceToolChoice doc modelLookup key params = None"
    and "present params toolChoiceField = Some rawChoice" "dec_object rawChoice = Some choice"
    and "dec_string rawChoice = None" "opt_string choice ''type'' = Some ty"
    and "EqualFold (TrimSpace ty) allowedToolsChoice"
    and "present choice toolsField = Some raw \<or>
     (\<exists>nested inner. present choice allowedToolsChoice = Some nested \<and> dec_object nested = Some inner \<and>
        present inner toolsField = Some raw)"
  shows "fenceToolList doc modelLookup key raw 1 = None"
  using assms
  by (cases "fenceToolList doc modelLookup key raw (Suc 0)")
    (auto simp: fenceToolChoice_def Let_def first_some_None_iff split: option.splits if_splits)

lemma runFences_None: "runFences fs d l k m p = None \<longleftrightarrow> (\<forall>f\<in>set fs. f d l k m p = None)"
  by (simp add: runFences_def first_some_None_iff)

lemma common_fences:
  assumes "p \<in> set routes" "runFences (fences p) doc modelLookup key model params = None"
  shows "fencePresetField params = None" "fenceCandidates doc modelLookup key params = None"
    "fenceServerToolsStep doc modelLookup key params = None" "fenceToolChoice doc modelLookup key params = None"
    "fencePluginsStep doc modelLookup key params = None" "fenceChatCapabilities key model params = None"
  using assms unfolding runFences_None
  by (auto simp: routes_def protoChat_def protoCompletions_def protoMessages_def protoResponses_def
      chatFences_def messagesFences_def responsesFences_def)

lemma tool_list_fenced:
  assumes "p \<in> set routes" "runFences (fences p) doc modelLookup key model params = None"
    and "tool_list params raw"
  shows "\<exists>depth. fenceToolList doc modelLookup key raw depth = None"
  using assms(3)
proof cases
  case tools
  then show ?thesis using common_fences(3) [OF assms(1,2)]
    by (auto simp: fenceServerToolsStep_def fenceServerTools_def split: option.splits)
next
  case (plugin_tools rawPlugins ps q)
  then have "fencePlugin doc modelLookup key q = None" using common_fences(5) [OF assms(1,2)]
    by (auto simp: fencePluginsStep_def fencePlugins_def first_some_None_iff)
  then show ?thesis using fencePlugin_None(2) plugin_tools by blast
next
  case choice_tools
  then show ?thesis using fenceToolChoice_None [OF common_fences(4) [OF assms(1,2)]] by blast
qed


definition sample_key :: Key where
  "sample_key = (key_listing [''openai/*''] [''openai/*-pro''])\<lparr>PassthroughEndpoints := [''chat'']\<rparr>"

definition sample_doc :: Document where
  "sample_doc = \<lparr>FormatVersion = 1, Generation = 1, ServiceEnabled = True, Models = [], Keys = [],
     PassthroughRef = ''openrouter''\<rparr>"

definition sample_params :: params where
  "sample_params = [(''model'', JStr ''openai/gpt-5''), (''messages'', JArr []), (''models'', JArr [JStr ''openai/gpt-5-mini''])]"


section \<open>Capabilities\<close>

lemma fenceChatCapabilities_None:
  assumes "fenceChatCapabilities key model params = None"
  shows "isOnlineName (PublicName model) \<Longrightarrow> AllowsEndpoint key EndpointWebSearch"
    "present params webSearchOptionsField \<noteq> None \<Longrightarrow> AllowsEndpoint key EndpointWebSearch"
    "\<And>raw q. present params pluginsField = Some raw \<Longrightarrow> q \<in> set (dec_objects_lenient raw) \<Longrightarrow>
       pluginCapability key q = None"
    "\<And>raw. present params modalitiesField = Some raw \<Longrightarrow>
       \<exists>kinds. dec_strings raw = Some kinds \<and> (\<forall>kind\<in>set kinds. modalityCapability key kind = None)"
  using assms
  by (auto simp: fenceChatCapabilities_def Let_def needs_def first_some_None_iff split: option.splits if_splits)

lemma dec_objects_lenient_eq:
  assumes "dec_objects j = Some ps" shows "dec_objects_lenient j = ps"
proof -
  from assms obtain xs where j: "dec_list j = Some xs" and xs: "map dec_object xs = map Some ps"
    by (auto simp: dec_objects_def all_some_iff split: option.splits)
  have "map (\<lambda>x. case dec_object x of None \<Rightarrow> [] | Some m \<Rightarrow> m) xs =
      map (\<lambda>x. case x of None \<Rightarrow> [] | Some m \<Rightarrow> m) (map dec_object xs)" by simp
  also have "\<dots> = ps" by (simp add: xs o_def)
  finally show ?thesis by (simp add: dec_objects_lenient_def j)
qed

text \<open>What a request asks for beyond tokens, and the grant each needs.\<close>

inductive asks_capability :: "params \<Rightarrow> Model \<Rightarrow> string \<Rightarrow> bool" where
  online: "isOnlineName (PublicName model) \<Longrightarrow> asks_capability params model EndpointWebSearch"
| search_options: "present params webSearchOptionsField \<noteq> None \<Longrightarrow> asks_capability params model EndpointWebSearch"
| web_plugin: "present params pluginsField = Some raw \<Longrightarrow> dec_objects raw = Some ps \<Longrightarrow> q \<in> set ps \<Longrightarrow>
     Option.bind (map_of q ''id'') dec_string = Some pid \<Longrightarrow> ToLower (TrimSpace pid) = webPluginID \<Longrightarrow>
     asks_capability params model EndpointWebSearch"
| paid_pdf: "present params pluginsField = Some raw \<Longrightarrow> dec_objects raw = Some ps \<Longrightarrow> q \<in> set ps \<Longrightarrow>
     Option.bind (map_of q ''id'') dec_string = Some pid \<Longrightarrow> ToLower (TrimSpace pid) = fileParserPluginID \<Longrightarrow>
     asksPaidPdfEngine q = Some True \<Longrightarrow> asks_capability params model EndpointPdfOcr"
| image_out: "present params modalitiesField = Some raw \<Longrightarrow> dec_strings raw = Some kinds \<Longrightarrow> kind \<in> set kinds \<Longrightarrow>
     ToLower (TrimSpace kind) = ''image'' \<Longrightarrow> asks_capability params model EndpointImages"
| audio_out: "present params modalitiesField = Some raw \<Longrightarrow> dec_strings raw = Some kinds \<Longrightarrow> kind \<in> set kinds \<Longrightarrow>
     ToLower (TrimSpace kind) = ''audio'' \<Longrightarrow> asks_capability params model EndpointSpeech"
| search_tool: "tool_list params raw \<Longrightarrow> tool_within raw t \<Longrightarrow> \<not> isNamespace t \<Longrightarrow>
     canonicalServerTool (toolTypeOf t) = webSearchTool \<Longrightarrow> asks_capability params model EndpointWebSearch"
| image_tool: "tool_list params raw \<Longrightarrow> tool_within raw t \<Longrightarrow> \<not> isNamespace t \<Longrightarrow>
     canonicalServerTool (toolTypeOf t) = imageGenerationTool \<Longrightarrow> asks_capability params model EndpointImages"
| container_tool: "tool_list params raw \<Longrightarrow> tool_within raw t \<Longrightarrow> \<not> isNamespace t \<Longrightarrow>
     canonicalServerTool (toolTypeOf t) \<in> set containerTools \<Longrightarrow> asks_capability params model EndpointContainers"



section \<open>Rewriting\<close>

lemma renameFirstCandidate_other:
  "f \<noteq> candidateModelsField \<Longrightarrow> map_of (renameFirstCandidate params up) f = map_of params f"
  by (auto simp: renameFirstCandidate_def go_maps split: option.splits list.splits)

text \<open>
  What \<open>shapeChat\<close> sends: the upstream's own model name where the caller's was, usage reporting
  switched on for a stream whatever options came with it, and every other member as it was. It fails
  in exactly one case, a stream whose \<open>stream_options\<close> is null, where the code writes to a nil map.
\<close>

theorem shapeChat_body:
  "(shapeChat params req model streaming = None \<longleftrightarrow>
      streaming \<and> map_of params ''stream_options'' = Some JNull) \<and>
   (\<forall>out. shapeChat params req model streaming = Some out \<longrightarrow>
      (\<not> fromCandidates req \<longrightarrow> map_of out ''model'' = Some (JStr (UpstreamModel model))) \<and>
      (fromCandidates req \<longrightarrow> map_of out ''model'' = None) \<and>
      (streaming \<longrightarrow> (\<exists>opts. map_of out ''stream_options'' = Some (JObj opts) \<and>
         map_of opts ''include_usage'' = Some (JBool True))) \<and>
      (\<forall>f. f \<notin> {''model'', ''models'', ''stream_options''} \<longrightarrow> map_of out f = map_of params f))"
proof -
  let ?p1 = "if fromCandidates req
     then renameFirstCandidate (AList.delete ''model'' params) (UpstreamModel model)
     else AList.update ''model'' (JStr (UpstreamModel model)) params"
  have p1: "map_of ?p1 ''stream_options'' = map_of params ''stream_options''"
    "\<not> fromCandidates req \<Longrightarrow> map_of ?p1 ''model'' = Some (JStr (UpstreamModel model))"
    "fromCandidates req \<Longrightarrow> map_of ?p1 ''model'' = None"
    "f \<notin> {''model'', ''models'', ''stream_options''} \<Longrightarrow> map_of ?p1 f = map_of params f" for f
    by (auto simp: renameFirstCandidate_other go_maps)
  have usage: "withIncludeUsage raw = None \<longleftrightarrow> raw = Some JNull"
    "withIncludeUsage raw = Some j \<Longrightarrow> \<exists>opts. j = JObj opts \<and> map_of opts ''include_usage'' = Some (JBool True)"
    for raw j
    by (auto simp: withIncludeUsage_def Let_def go_maps split: option.splits json.splits)
  have shape: "shapeChat params req model streaming =
      (if streaming then map_option (\<lambda>opts. AList.update ''stream_options'' opts ?p1)
         (withIncludeUsage (map_of params ''stream_options'')) else Some ?p1)"
    unfolding shapeChat_def Let_def p1(1) by (rule refl)
  show ?thesis
  proof (intro conjI allI impI)
    show "shapeChat params req model streaming = None \<longleftrightarrow>
        streaming \<and> map_of params ''stream_options'' = Some JNull"
      unfolding shape by (simp add: usage(1) del: if_split_asm)
    fix out assume out: "shapeChat params req model streaming = Some out"
    then obtain opts where eq: "out = (if streaming then AList.update ''stream_options'' opts ?p1 else ?p1)"
      "streaming \<Longrightarrow> withIncludeUsage (map_of params ''stream_options'') = Some opts"
      unfolding shape by (cases streaming) auto
    then have other: "f \<noteq> ''stream_options'' \<Longrightarrow> map_of out f = map_of ?p1 f" for f
      by (cases streaming) (simp_all add: go_maps del: if_split)
    show "\<not> fromCandidates req \<Longrightarrow> map_of out ''model'' = Some (JStr (UpstreamModel model))"
      "fromCandidates req \<Longrightarrow> map_of out ''model'' = None"
      using other p1(2,3) by simp_all
    show "f \<notin> {''model'', ''models'', ''stream_options''} \<Longrightarrow> map_of out f = map_of params f" for f
      using other p1(4) by simp
    assume streaming
    then show "\<exists>opts. map_of out ''stream_options'' = Some (JObj opts) \<and>
         map_of opts ''include_usage'' = Some (JBool True)"
      using eq usage(2) by (fastforce simp: go_maps simp del: if_split)
  qed
qed

theorem shapeChat_body_witness:
  "\<exists>out. shapeChat sample_params parsed_zero (model_named ''m'' AxisCredit) True = Some out \<and>
     map_of out ''model'' = Some (JStr ''m'') \<and>
     shapeChat ((''stream_options'', JNull) # sample_params) parsed_zero (model_named ''m'' AxisCredit) True = None"
proof -
  have "shapeChat sample_params parsed_zero (model_named ''m'' AxisCredit) True \<noteq> None" by code_simp
  then show ?thesis
    using shapeChat_body [of sample_params parsed_zero "model_named ''m'' AxisCredit" True]
      shapeChat_body [of "(''stream_options'', JNull) # sample_params" parsed_zero "model_named ''m'' AxisCredit" True]
    by (auto simp: parsed_zero_def model_named_def)
qed

end
