(* ===== verification/Upstream.thy ===== *)
theory Upstream
  imports Protocols
begin

text \<open>
  Calling an upstream (\<open>internal/server/upstream.go\<close>, with \<open>reasoning.go\<close>, \<open>rejection\<close> codes and the
  header rules of \<open>headers.go\<close>): cooldown bookkeeping, the order of a model's two upstreams, the
  credential and body of each attempt, the classification of an answer, and the retry loop. The
  network is a function from the attempt's number to an outcome; the clock is a function from the
  number of the reading to an instant.
\<close>

section \<open>Health\<close>

definition coolingFailures :: int where "coolingFailures = 3"
definition coolFor :: int where "coolFor = 30 * 1000000000"

text \<open>What the gateway has seen of an upstream while serving; the zero time is 0.\<close>

record passiveObservation =
  LastAttemptAt :: int
  LastSuccessAt :: int
  LastFailureAt :: int
  LastFailureType :: string
  ConsecutiveFailures :: int

record upstreamHealth =
  failures :: "int gomap"
  coolUntil :: "int gomap"
  observations :: "passiveObservation gomap"

definition newUpstreamHealth :: upstreamHealth where
  "newUpstreamHealth = \<lparr>failures = [], coolUntil = [], observations = []\<rparr>"

definition observation :: "string \<Rightarrow> upstreamHealth \<Rightarrow> passiveObservation" where
  "observation ref h =
     (case map_of (observations h) (ToLower ref) of
        Some ob \<Rightarrow> ob
      | None \<Rightarrow> \<lparr>LastAttemptAt = 0, LastSuccessAt = 0, LastFailureAt = 0, LastFailureType = [],
                 ConsecutiveFailures = 0\<rparr>)"

definition observe ::
  "string \<Rightarrow> (passiveObservation \<Rightarrow> passiveObservation) \<Rightarrow> upstreamHealth \<Rightarrow> upstreamHealth" where
  "observe ref f h = h\<lparr>observations := AList.update (ToLower ref) (f (observation ref h)) (observations h)\<rparr>"

definition recordAttempt :: "int \<Rightarrow> string \<Rightarrow> upstreamHealth \<Rightarrow> upstreamHealth" where
  "recordAttempt now ref h = observe ref (LastAttemptAt_update (\<lambda>_. now)) h"

definition passiveFailureAffectsAvailability :: "string \<Rightarrow> bool" where
  "passiveFailureAffectsAvailability kind \<longleftrightarrow>
     kind \<notin> {''REQUEST_REJECTED'', ''CREDIT_EXHAUSTED'', ''KEY_CREDENTIAL_ERROR'', ''KEY_THROTTLED'',
             ''CLIENT_CANCELED''}"

definition recordPassiveFailure :: "int \<Rightarrow> string \<Rightarrow> string \<Rightarrow> upstreamHealth \<Rightarrow> upstreamHealth" where
  "recordPassiveFailure now ref kind h =
     (if \<not> passiveFailureAffectsAvailability kind then h
      else observe ref (\<lambda>ob. ob\<lparr>LastFailureAt := now, LastFailureType := kind,
                              ConsecutiveFailures := ConsecutiveFailures ob + 1\<rparr>) h)"

definition cooling :: "int \<Rightarrow> string \<Rightarrow> upstreamHealth \<Rightarrow> bool \<times> upstreamHealth" where
  "cooling now ref h =
     (case map_of (coolUntil h) ref of
        None \<Rightarrow> (False, h)
      | Some until \<Rightarrow>
          if now \<ge> until then (False, h\<lparr>coolUntil := AList.delete ref (coolUntil h)\<rparr>) else (True, h))"

definition recordFailure :: "int \<Rightarrow> string \<Rightarrow> upstreamHealth \<Rightarrow> bool \<times> upstreamHealth" where
  "recordFailure now ref h =
     (let n = (case map_of (failures h) ref of None \<Rightarrow> 0 | Some n \<Rightarrow> n) + 1 in
      if n \<ge> coolingFailures
      then (True, h\<lparr>coolUntil := AList.update ref (now + coolFor) (coolUntil h),
                    failures := AList.update ref 0 (failures h)\<rparr>)
      else (False, h\<lparr>failures := AList.update ref n (failures h)\<rparr>))"

definition recordSuccess :: "int \<Rightarrow> string \<Rightarrow> upstreamHealth \<Rightarrow> upstreamHealth" where
  "recordSuccess now ref h =
     observe ref (\<lambda>ob. ob\<lparr>LastSuccessAt := now, ConsecutiveFailures := 0\<rparr>)
       (h\<lparr>failures := AList.delete ref (failures h), coolUntil := AList.delete ref (coolUntil h)\<rparr>)"

section \<open>Reasoning\<close>

abbreviation "ReasoningClosed \<equiv> ''closed''"
abbreviation "ReasoningEffort \<equiv> ''effort''"
abbreviation "ReasoningTemplate \<equiv> ''template''"

record Upstream =
  upRef :: string
  BaseURL :: string
  APIKey :: string
  CapField :: string
  Reasoning :: string

definition reasoningEfforts :: "string list" where
  "reasoningEfforts = [''none'', ''minimal'', ''low'', ''medium'', ''high'', ''xhigh'']"

definition reasoningOpen :: "Upstream gomap \<Rightarrow> Model \<Rightarrow> bool" where
  "reasoningOpen upstreams model =
     (case map_of upstreams (ToLower (UpstreamRef model)) of
        None \<Rightarrow> False | Some up \<Rightarrow> Reasoning up \<noteq> [] \<and> Reasoning up \<noteq> ReasoningClosed)"

definition validReasoningEffort :: "json \<Rightarrow> bool" where
  "validReasoningEffort raw =
     (if raw = JNull then True
      else case dec_string raw of None \<Rightarrow> False | Some v \<Rightarrow> v \<in> set reasoningEfforts)"

definition reasoningForAttempt :: "params \<Rightarrow> string \<Rightarrow> Upstream \<Rightarrow> params" where
  "reasoningForAttempt params field up =
     (case map_of params field of
        None \<Rightarrow> params
      | Some raw \<Rightarrow>
          if field = [] then params
          else let out = AList.delete field params in
            if raw = JNull then out
            else if Reasoning up = ReasoningEffort then AList.update field raw out
            else if Reasoning up = ReasoningTemplate then
              AList.update ''chat_template_kwargs''
                (JObj [(''enable_thinking'',
                   JBool (\<not> (case dec_string raw of None \<Rightarrow> False | Some v \<Rightarrow> v = ''none'')))]) out
            else out)"

section \<open>Headers\<close>

definition chatHeaderAllowlist :: "string list" where
  "chatHeaderAllowlist = [''X-Anthropic-Beta'', ''X-Session-Id'', ''X-OpenRouter-Metadata'']"

definition messagesHeaderAllowlist :: "string list" where
  "messagesHeaderAllowlist = [''Anthropic-Version'', ''Anthropic-Beta'']"

definition forwardedHeaderValueMax :: nat where "forwardedHeaderValueMax = 1024"
definition retryAfterMaxSeconds :: int where "retryAfterMaxSeconds = 3600"

text \<open>\<open>get\<close> reads a header of the request, empty when it is absent.\<close>

definition forward :: "string list \<Rightarrow> (string \<Rightarrow> string) \<Rightarrow> (string \<times> string) list" where
  "forward allowlist get =
     map (\<lambda>name. (name, get name))
       (filter (\<lambda>name. get name \<noteq> [] \<and> length (get name) \<le> forwardedHeaderValueMax) allowlist)"

definition chatForwardedHeaders :: "(string \<Rightarrow> string) \<Rightarrow> (string \<times> string) list" where
  "chatForwardedHeaders get = forward chatHeaderAllowlist get"

definition messagesForwardedHeaders :: "(string \<Rightarrow> string) \<Rightarrow> (string \<times> string) list" where
  "messagesForwardedHeaders get = chatForwardedHeaders get @ forward messagesHeaderAllowlist get"

definition upstreamRetryAfter :: "(string \<Rightarrow> string) \<Rightarrow> string" where
  "upstreamRetryAfter get =
     (case parse_int64 (get ''Retry-After'') of
        None \<Rightarrow> []
      | Some n \<Rightarrow> if n < 0 \<or> n > retryAfterMaxSeconds then [] else itoa n)"

definition longerWait :: "string \<Rightarrow> string \<Rightarrow> bool" where
  "longerWait a b =
     (case parse_int64 a of None \<Rightarrow> False
      | Some na \<Rightarrow> (case parse_int64 b of None \<Rightarrow> True | Some nb \<Rightarrow> na > nb))"

definition id_first :: "char \<Rightarrow> bool" where
  "id_first c \<longleftrightarrow> 97 \<le> (of_char c :: nat) \<and> (of_char c :: nat) \<le> 122
     \<or> 65 \<le> (of_char c :: nat) \<and> (of_char c :: nat) \<le> 90 \<or> is_digit c"

definition generationIDPattern :: "string \<Rightarrow> bool" where
  "generationIDPattern s \<longleftrightarrow> s \<noteq> [] \<and> length s \<le> 128 \<and> id_first (hd s) \<and>
     list_all (\<lambda>c. id_first c \<or> c = CHR ''_'' \<or> c = CHR ''-'') (tl s)"

definition relayGenerationID :: "string \<Rightarrow> string option" where
  "relayGenerationID gid = (if generationIDPattern gid then Some gid else None)"

section \<open>One attempt\<close>

record attemptError =
  aeErr :: string
  timeout :: bool
  kind :: string
  throttled :: bool
  aeRefusal :: "apiError option"
  aeRetryAfter :: string

definition ae_zero :: attemptError where
  "ae_zero = \<lparr>aeErr = [], timeout = False, kind = [], throttled = False, aeRefusal = None, aeRetryAfter = []\<rparr>"

text \<open>
  What the network does with a request: the request cannot be built, it is canceled, the transport
  fails, or an answer arrives with a status, headers and the first bytes of its body. The API error
  made of a 400 or 422 body is a parameter, \<open>reject\<close>.
\<close>

datatype outcome =
    BadRequest
  | Canceled
  | TransportError bool
  | Response nat "string \<Rightarrow> string" string

definition classify :: "(nat \<Rightarrow> string \<Rightarrow> apiError) \<Rightarrow> bool \<Rightarrow> outcome \<Rightarrow> attemptError option" where
  "classify reject creditAxis out =
     (case out of
        BadRequest \<Rightarrow> Some (ae_zero\<lparr>aeErr := ''request'', kind := ''INVALID_RESPONSE''\<rparr>)
      | Canceled \<Rightarrow> Some (ae_zero\<lparr>aeErr := ''canceled'', kind := ''CLIENT_CANCELED''\<rparr>)
      | TransportError timedOut \<Rightarrow>
          Some (ae_zero\<lparr>aeErr := ''transport'', timeout := timedOut,
                       kind := (if timedOut then ''TIMEOUT'' else ''TRANSPORT_ERROR'')\<rparr>)
      | Response sc get detail \<Rightarrow>
          if sc = 200 then None
          else if sc = 400 \<or> sc = 422 then
            Some (ae_zero\<lparr>aeRefusal := Some (reject sc detail), kind := ''REQUEST_REJECTED''\<rparr>)
          else if sc = 429 then
            Some (ae_zero\<lparr>aeErr := ''errUpstreamThrottled'', throttled := True,
                         kind := (if creditAxis then ''KEY_THROTTLED'' else ''THROTTLED''),
                         aeRetryAfter := upstreamRetryAfter get\<rparr>)
          else if sc = 401 \<or> sc = 403 then
            Some (ae_zero\<lparr>aeErr := ''errUpstreamAuth'',
                         kind := (if creditAxis then ''KEY_CREDENTIAL_ERROR'' else ''CREDENTIAL_ERROR'')\<rparr>)
          else if sc = 402 then
            (if creditAxis
             then Some (ae_zero\<lparr>aeRefusal := Some errCreditExhausted, kind := ''CREDIT_EXHAUSTED''\<rparr>)
             else Some (ae_zero\<lparr>aeErr := ''errUpstreamStatus'', kind := ''VENDOR_REJECTED''\<rparr>))
          else
            Some (ae_zero\<lparr>aeErr := ''errUpstreamStatus'',
                         kind := (if sc \<ge> 500 then ''UPSTREAM_ERROR'' else ''VENDOR_REJECTED''),
                         aeRetryAfter := (if sc = 503 then upstreamRetryAfter get else [])\<rparr>))"

text \<open>
  The model name is written into the body with \<open>strconv.Quote\<close>, whose escapes for most control
  characters are not JSON; encoding such a body fails.
\<close>

definition quote_is_json :: "string \<Rightarrow> bool" where
  "quote_is_json s \<longleftrightarrow>
     list_all (\<lambda>c. let n = (of_char c :: nat) in n \<ge> 32 \<and> n \<noteq> 127 \<or> n \<in> {8, 9, 10, 12, 13}) s"

definition bodyFor :: "params \<Rightarrow> string \<Rightarrow> int \<Rightarrow> params option" where
  "bodyFor params capField outputCap =
     (if (case map_of params ''model'' of Some (JStr s) \<Rightarrow> \<not> quote_is_json s | _ \<Rightarrow> False) then None
      else if outputCap \<le> 0 then Some params
      else Some (AList.update capField (JNum (itoa outputCap)) params))"

text \<open>What goes on the wire for one attempt.\<close>

record attemptSpec =
  specUpstream :: Upstream
  specPath :: string
  specBody :: params
  specCred :: string
  specCreditAxis :: bool
  specHeaders :: "(string \<times> string) list"
  specUpstreamModel :: string
  specPublicModel :: string

definition attemptFor ::
  "protocol \<Rightarrow> Upstream \<Rightarrow> params \<Rightarrow> string \<Rightarrow> Model \<Rightarrow> (string \<Rightarrow> string) \<Rightarrow> attemptSpec" where
  "attemptFor p up body cred model clientHeaders =
     \<lparr>specUpstream = up, specPath = upstreamPath p, specBody = body, specCred = cred,
      specCreditAxis = CreditAxis model,
      specHeaders = (if CreditAxis model
                     then (if headerKeys p then messagesForwardedHeaders clientHeaders
                           else chatForwardedHeaders clientHeaders)
                     else []),
      specUpstreamModel = UpstreamModel model, specPublicModel = PublicName model\<rparr>"

section \<open>The call\<close>

text \<open>
  What a call meets: the configured upstreams, the retries of the configuration, the clock and the
  network by number of reading and of attempt, after which attempt the caller's context is over, and the
  refusal a 400 or 422 is turned into, given the two names of the model (\<open>reject_body\<close> of \<open>Rejection\<close>).
\<close>

record call_world =
  upstreams :: "Upstream gomap"
  retries :: int
  clk :: "nat \<Rightarrow> int"
  net :: "nat \<Rightarrow> attemptSpec \<Rightarrow> outcome"
  ctxDone :: "nat \<Rightarrow> bool"
  rejectWith :: "string \<Rightarrow> string \<Rightarrow> nat \<Rightarrow> string \<Rightarrow> apiError"

record call_state =
  health :: upstreamHealth
  ticks :: nat
  sent :: "attemptSpec list"
  waitFor :: string
  lastErr :: "attemptError option"
  lastUp :: "Upstream option"

definition ask_cooling :: "call_world \<Rightarrow> string \<Rightarrow> call_state \<Rightarrow> bool \<times> call_state" where
  "ask_cooling w ref st =
     (case cooling (clk w (ticks st)) ref (health st) of
        (c, h) \<Rightarrow> (c, st\<lparr>health := h, ticks := Suc (ticks st)\<rparr>))"

text \<open>A change of the health record at the clock's next reading.\<close>

definition tick :: "call_world \<Rightarrow> (int \<Rightarrow> upstreamHealth \<Rightarrow> upstreamHealth) \<Rightarrow> call_state \<Rightarrow> call_state" where
  "tick w f st = st\<lparr>health := f (clk w (ticks st)) (health st), ticks := Suc (ticks st)\<rparr>"

text \<open>One pass over the references that keeps those whose answer is \<open>want\<close>.\<close>

fun cooling_pass :: "call_world \<Rightarrow> bool \<Rightarrow> string list \<Rightarrow> call_state \<Rightarrow> string list \<times> call_state" where
  "cooling_pass w want [] st = ([], st)"
| "cooling_pass w want (ref # refs) st =
     (case ask_cooling w ref st of
        (c, st') \<Rightarrow>
          (case cooling_pass w want refs st' of
             (kept, st'') \<Rightarrow> (if c = want then ref # kept else kept, st'')))"

definition model_refs :: "Model \<Rightarrow> string list" where
  "model_refs model =
     UpstreamRef model #
       (if FallbackRef model \<noteq> [] \<and> \<not> EqualFold (FallbackRef model) (UpstreamRef model)
        then [FallbackRef model] else [])"

definition order_refs :: "call_world \<Rightarrow> string list \<Rightarrow> call_state \<Rightarrow> string list \<times> call_state" where
  "order_refs w refs st =
     (if length refs > 1 then
        (case cooling_pass w False refs st of
           (warm, st') \<Rightarrow>
             (case cooling_pass w True refs st' of (cool, st'') \<Rightarrow> (warm @ cool, st'')))
      else (refs, st))"

datatype call_result =
    Answered Upstream
  | Failed "Upstream option" attemptError

text \<open>The attempts on one upstream: an answer or a final error ends the call, otherwise the next one is due.\<close>

fun attempts_on ::
  "call_world \<Rightarrow> string \<Rightarrow> attemptSpec \<Rightarrow> nat \<Rightarrow> call_state \<Rightarrow> call_result option \<times> call_state" where
  "attempts_on w ref spec 0 st = (None, st)"
| "attempts_on w ref spec (Suc left) st =
     (let n = length (sent st);
          st1 = tick w (\<lambda>now. recordAttempt now ref) (st\<lparr>sent := sent st @ [spec]\<rparr>) in
      case classify (rejectWith w (specUpstreamModel spec) (specPublicModel spec)) (specCreditAxis spec) (net w n spec) of
        None \<Rightarrow> (Some (Answered (specUpstream spec)), tick w (\<lambda>now. recordSuccess now ref) st1)
      | Some ae \<Rightarrow>
          let st2 = (tick w (\<lambda>now. recordPassiveFailure now ref (kind ae)) st1)
                \<lparr>waitFor := (if longerWait (aeRetryAfter ae) (waitFor st1) then aeRetryAfter ae else waitFor st1),
                 lastErr := Some ae\<rparr> in
          if aeRefusal ae \<noteq> None then (Some (Failed (Some (specUpstream spec)) ae), st2)
          else if ctxDone w n then (Some (Failed (Some (specUpstream spec)) ae), st2)
          else if throttled ae then (None, st2)
          else if timeout ae then (None, st2)
          else attempts_on w ref spec left (tick w (\<lambda>now h. snd (recordFailure now ref h)) st2))"

fun call_refs ::
  "call_world \<Rightarrow> protocol \<Rightarrow> Model \<Rightarrow> Key \<Rightarrow> params \<Rightarrow> int \<Rightarrow> (string \<Rightarrow> string) \<Rightarrow> string list \<Rightarrow>
     call_state \<Rightarrow> call_result \<times> call_state" where
  "call_refs w p model key params outputCap hdrs [] st =
     (let ae = (case lastErr st of Some ae \<Rightarrow> ae | None \<Rightarrow> ae_zero\<lparr>aeErr := ''errUnconfiguredUpstream''\<rparr>)
      in (Failed (lastUp st) (ae\<lparr>aeRetryAfter := waitFor st\<rparr>), st))"
| "call_refs w p model key params outputCap hdrs (ref # refs) st =
     (case map_of (upstreams w) (ToLower ref) of
        None \<Rightarrow> call_refs w p model key params outputCap hdrs refs
                 (st\<lparr>lastErr := Some (ae_zero\<lparr>aeErr := ''errUnconfiguredUpstream''\<rparr>)\<rparr>)
      | Some up \<Rightarrow>
          let cred = (if CreditAxis model then CredentialFor key (upRef up) else APIKey up) in
          if CreditAxis model \<and> cred = [] then
            call_refs w p model key params outputCap hdrs refs
              (st\<lparr>lastErr := Some (ae_zero\<lparr>aeErr := ''errNoKeyCredential''\<rparr>)\<rparr>)
          else
            let capField = (if capWriteField p = [] then CapField up else capWriteField p);
                attemptParams = (if CreditAxis model then params
                                 else reasoningForAttempt params (reasoningParam p) up);
                st1 = st\<lparr>lastUp := Some up\<rparr>
            in case bodyFor attemptParams capField outputCap of
                 None \<Rightarrow> (Failed (Some up) (ae_zero\<lparr>aeErr := ''marshal''\<rparr>), st1)
               | Some body \<Rightarrow>
                 (case attempts_on w ref (attemptFor p up body cred model hdrs) (nat (retries w + 1)) st1 of
                    (Some r, st') \<Rightarrow> (r, st')
                  | (None, st') \<Rightarrow> call_refs w p model key params outputCap hdrs refs st'))"

definition callUpstream ::
  "call_world \<Rightarrow> protocol \<Rightarrow> Model \<Rightarrow> Key \<Rightarrow> params \<Rightarrow> int \<Rightarrow> (string \<Rightarrow> string) \<Rightarrow> upstreamHealth \<Rightarrow>
     call_result \<times> call_state" where
  "callUpstream w p model key params outputCap hdrs h =
     (case order_refs w (model_refs model)
             \<lparr>health = h, ticks = 0, sent = [], waitFor = [], lastErr = None, lastUp = None\<rparr> of
        (refs, st) \<Rightarrow> call_refs w p model key params outputCap hdrs refs st)"

section \<open>What is sent\<close>

lemma tick_simps [simp]:
  "sent (tick w f st) = sent st" "lastErr (tick w f st) = lastErr st" "lastUp (tick w f st) = lastUp st"
  "waitFor (tick w f st) = waitFor st"
  by (simp_all add: tick_def)

lemma cooling_pass_sent: "sent (snd (cooling_pass w want refs st)) = sent st"
  by (induction w want refs st rule: cooling_pass.induct)
    (auto simp: ask_cooling_def split: prod.splits)

lemma cooling_pass_subset: "set (fst (cooling_pass w want refs st)) \<subseteq> set refs"
  by (induction w want refs st rule: cooling_pass.induct) (auto split: prod.splits)

lemma cooling_pass_length: "length (fst (cooling_pass w want refs st)) \<le> length refs"
  by (induction w want refs st rule: cooling_pass.induct) (auto split: prod.splits)

lemma order_refs_eq:
  "order_refs w refs st =
     (let a = cooling_pass w False refs st; b = cooling_pass w True refs (snd a) in
      if length refs > 1 then (fst a @ fst b, snd b) else (refs, st))"
  by (simp add: order_refs_def case_prod_beta Let_def)

lemma order_refs_sent: "sent (snd (order_refs w refs st)) = sent st"
  by (simp add: order_refs_eq Let_def cooling_pass_sent)

lemma order_refs_subset: "set (fst (order_refs w refs st)) \<subseteq> set refs"
  using cooling_pass_subset by (auto simp: order_refs_eq Let_def)

lemma attempts_on_sent:
  "\<exists>k\<le>left. sent (snd (attempts_on w ref spec left st)) = sent st @ replicate k spec"
proof (induction left arbitrary: st)
  case (Suc left)
  let ?n = "length (sent st)" and ?s1 = "tick w (\<lambda>now. recordAttempt now ref) (st\<lparr>sent := sent st @ [spec]\<rparr>)"
  have one: "\<exists>k\<le>Suc left. sent st @ [spec] = sent st @ replicate k spec" by (rule exI [of _ 1]) simp
  have more: "\<exists>k\<le>Suc left. sent (snd (attempts_on w ref spec left s)) = sent st @ replicate k spec"
    if s: "sent s = sent st @ [spec]" for s
  proof -
    obtain k where "k \<le> left" "sent (snd (attempts_on w ref spec left s)) = sent s @ replicate k spec"
      using Suc.IH by blast
    with s show ?thesis by (intro exI [of _ "Suc k"]) simp
  qed
  show ?case
    using one more by (auto simp: Let_def split: option.splits)
qed simp

text \<open>The specifications a call may send: one per reference of the model that is configured.\<close>

definition spec_ok :: "call_world \<Rightarrow> protocol \<Rightarrow> Model \<Rightarrow> Key \<Rightarrow> string list \<Rightarrow> attemptSpec \<Rightarrow> bool" where
  "spec_ok w p model key refs spec \<longleftrightarrow>
     (\<exists>ref\<in>set refs. map_of (upstreams w) (ToLower ref) = Some (specUpstream spec)) \<and>
     specPath spec = upstreamPath p \<and> specCreditAxis spec = CreditAxis model \<and>
     (if CreditAxis model
      then specCred spec = CredentialFor key (upRef (specUpstream spec)) \<and> specCred spec \<noteq> []
      else specCred spec = APIKey (specUpstream spec) \<and> specHeaders spec = [])"

lemma attemptFor_simps [simp]:
  "specUpstream (attemptFor p up body cred model hdrs) = up"
  "specCred (attemptFor p up body cred model hdrs) = cred"
  "specPath (attemptFor p up body cred model hdrs) = upstreamPath p"
  "specCreditAxis (attemptFor p up body cred model hdrs) = CreditAxis model"
  "\<not> CreditAxis model \<Longrightarrow> specHeaders (attemptFor p up body cred model hdrs) = []"
  by (simp_all add: attemptFor_def)

lemma call_refs_sent:
  assumes "call_refs w p model key params cap hdrs refs st = (r, st')"
  shows "\<exists>specs. sent st' = sent st @ specs \<and> length specs \<le> length refs * nat (retries w + 1) \<and>
    (\<forall>spec\<in>set specs. spec_ok w p model key refs spec)"
  using assms
proof (induction refs arbitrary: st)
  case Nil
  then show ?case by (auto simp: Let_def)
next
  case (Cons ref refs)
  have weaken: "\<exists>specs. sent st' = sent st @ specs \<and> length specs \<le> length (ref # refs) * nat (retries w + 1) \<and>
      (\<forall>spec\<in>set specs. spec_ok w p model key (ref # refs) spec)"
    if s: "call_refs w p model key params cap hdrs refs s = (r, st')"
      and sent: "sent s = sent st @ front" "length front \<le> nat (retries w + 1)"
        "\<forall>spec\<in>set front. spec_ok w p model key (ref # refs) spec" for s front
  proof -
    obtain specs where "sent st' = sent s @ specs" "length specs \<le> length refs * nat (retries w + 1)"
      "\<forall>spec\<in>set specs. spec_ok w p model key refs spec" using Cons.IH [OF s] by blast
    with sent show ?thesis by (intro exI [of _ "front @ specs"]) (auto simp: spec_ok_def)
  qed
  show ?case
  proof (cases "map_of (upstreams w) (ToLower ref)")
    case None
    then show ?thesis using Cons.prems weaken [of _ "[]"] by simp
  next
    case (Some up)
    define cred where "cred = (if CreditAxis model then CredentialFor key (upRef up) else APIKey up)"
    show ?thesis
    proof (cases "CreditAxis model \<and> cred = []")
      case True
      then have "CreditAxis model" "CredentialFor key (upRef up) = []" by (auto simp: cred_def)
      then show ?thesis using Cons.prems Some weaken [of _ "[]"] by (simp add: Let_def)
    next
      case usable: False
      define ap where "ap = (if CreditAxis model then params else reasoningForAttempt params (reasoningParam p) up)"
      define cf where "cf = (if capWriteField p = [] then CapField up else capWriteField p)"
      have step: "call_refs w p model key params cap hdrs (ref # refs) st =
          (case bodyFor ap cf cap of
             None \<Rightarrow> (Failed (Some up) (ae_zero\<lparr>aeErr := ''marshal''\<rparr>), st\<lparr>lastUp := Some up\<rparr>)
           | Some body \<Rightarrow>
             (case attempts_on w ref (attemptFor p up body cred model hdrs) (nat (retries w + 1)) (st\<lparr>lastUp := Some up\<rparr>) of
                (Some r, s) \<Rightarrow> (r, s)
              | (None, s) \<Rightarrow> call_refs w p model key params cap hdrs refs s))"
        using usable unfolding call_refs.simps Some option.case Let_def cred_def ap_def cf_def by simp
      show ?thesis
      proof (cases "bodyFor ap cf cap")
        case None
        then show ?thesis using Cons.prems step by auto
      next
        case body: (Some body)
        let ?spec = "attemptFor p up body cred model hdrs" and ?s0 = "st\<lparr>lastUp := Some up\<rparr>"
        have ok: "spec_ok w p model key (ref # refs) ?spec"
          using Some usable by (auto simp: spec_ok_def cred_def)
        obtain out s where on: "attempts_on w ref ?spec (nat (retries w + 1)) ?s0 = (out, s)" by fastforce
        obtain k where k: "k \<le> nat (retries w + 1)" "sent s = sent st @ replicate k ?spec"
          using attempts_on_sent [of "nat (retries w + 1)" w ref ?spec ?s0] on by auto
        show ?thesis
        proof (cases out)
          case None
          then show ?thesis
            using Cons.prems step body on k ok by (intro weaken [of s "replicate k ?spec"]) auto
        next
          case (Some res)
          then have "st' = s" using Cons.prems step body on by simp
          then show ?thesis using k ok by (intro exI [of _ "replicate k ?spec"]) auto
        qed
      qed
    qed
  qed
qed

lemma cooling_pass_answers:
  assumes "distinct refs" "cooling_pass w want refs st = (kept, st')"
  shows "set kept \<subseteq> set refs \<and> distinct kept \<and>
    (\<forall>ref. map_of (coolUntil (health st)) ref = None \<longrightarrow> map_of (coolUntil (health st')) ref = None) \<and>
    (\<forall>ref\<in>set refs. want = False \<and> ref \<in> set kept \<longrightarrow> map_of (coolUntil (health st')) ref = None) \<and>
    (\<forall>ref\<in>set refs. want = True \<and> ref \<in> set kept \<longrightarrow> map_of (coolUntil (health st)) ref \<noteq> None)"
  using assms
proof (induction refs arbitrary: st kept st')
  case (Cons r refs)
  obtain c s1 where ask: "ask_cooling w r st = (c, s1)" by fastforce
  obtain k1 where rest: "cooling_pass w want refs s1 = (k1, st')"
    and kept: "kept = (if c = want then r # k1 else k1)"
    using Cons.prems ask by (auto split: prod.splits)
  note IH = Cons.IH [OF _ rest]
  have s1: "map_of (coolUntil (health s1)) ref = None \<longleftrightarrow>
      map_of (coolUntil (health st)) ref = None \<or> ref = r \<and> \<not> c" for ref
    using ask by (auto simp: ask_cooling_def cooling_def go_maps split: option.splits if_splits prod.splits)
  have "c \<Longrightarrow> map_of (coolUntil (health st)) r \<noteq> None"
    using ask by (auto simp: ask_cooling_def cooling_def split: option.splits if_splits)
  then show ?case using IH s1 kept Cons.prems(1) by auto
qed simp

lemma order_refs_length:
  assumes "distinct refs" shows "length (fst (order_refs w refs st)) \<le> length refs"
proof -
  obtain a s1 where a: "cooling_pass w False refs st = (a, s1)" by fastforce
  obtain b s2 where b: "cooling_pass w True refs s1 = (b, s2)" by fastforce
  note pa = cooling_pass_answers [OF assms a] and pb = cooling_pass_answers [OF assms b]
  have "set a \<inter> set b = {}" using pa pb by (metis (no_types, lifting) disjoint_iff subsetD)
  then have "distinct (a @ b)" "set (a @ b) \<subseteq> set refs" using pa pb by auto
  then have "length (a @ b) \<le> length refs"
    by (metis List.finite_set assms card_mono distinct_card)
  then show ?thesis using a b by (simp add: order_refs_eq Let_def)
qed

lemma model_refs_distinct: "distinct (model_refs model)" "length (model_refs model) \<le> 2"
  by (auto simp: model_refs_def EqualFold_def)

lemma callUpstream_sent:
  assumes "callUpstream w p model key params cap hdrs h = (r, st)"
  shows "(\<forall>spec\<in>set (sent st).
      (\<exists>ref\<in>{UpstreamRef model, FallbackRef model}.
         map_of (upstreams w) (ToLower ref) = Some (specUpstream spec)) \<and>
      (if CreditAxis model
       then specCred spec = CredentialFor key (upRef (specUpstream spec)) \<and> specCred spec \<noteq> []
       else specCred spec = APIKey (specUpstream spec) \<and> specHeaders spec = [])) \<and>
    int (length (sent st)) \<le> 2 * max 0 (retries w + 1)"
proof -
  let ?s0 = "\<lparr>health = h, ticks = 0, sent = [], waitFor = [], lastErr = None, lastUp = None\<rparr>"
  let ?refs = "fst (order_refs w (model_refs model) ?s0)"
  have "call_refs w p model key params cap hdrs ?refs (snd (order_refs w (model_refs model) ?s0)) = (r, st)"
    using assms by (simp add: callUpstream_def case_prod_beta)
  then obtain specs where specs: "sent st = specs" "length specs \<le> length ?refs * nat (retries w + 1)"
    "\<forall>spec\<in>set specs. spec_ok w p model key ?refs spec"
    using call_refs_sent order_refs_sent [of w "model_refs model" ?s0] by (metis append_Nil call_state.select_convs(3))
  have sub: "set ?refs \<subseteq> {UpstreamRef model, FallbackRef model}"
    using order_refs_subset [of w "model_refs model" ?s0] by (auto simp: model_refs_def split: if_splits)
  have "length ?refs \<le> 2"
    using order_refs_length [OF model_refs_distinct(1)] model_refs_distinct(2) order_trans by blast
  then have "length specs \<le> 2 * nat (retries w + 1)" using specs(2) by (meson le_trans mult_le_mono1)
  then have "int (length (sent st)) \<le> 2 * max 0 (retries w + 1)"
    using specs(1) by (cases "0 \<le> retries w + 1") auto
  moreover have "\<forall>spec\<in>set (sent st).
      (\<exists>ref\<in>{UpstreamRef model, FallbackRef model}.
         map_of (upstreams w) (ToLower ref) = Some (specUpstream spec)) \<and>
      (if CreditAxis model
       then specCred spec = CredentialFor key (upRef (specUpstream spec)) \<and> specCred spec \<noteq> []
       else specCred spec = APIKey (specUpstream spec) \<and> specHeaders spec = [])"
    using specs(1,3) sub unfolding spec_ok_def by blast
  ultimately show ?thesis by blast
qed

text \<open>
  C8. Whose money a call spends. Every request a call sends goes to one of the model's own upstreams as
  configured; for a paid model it carries the key's own credential for that upstream, never empty and
  never the gateway's, and for a self-hosted one the gateway's credential and none of the caller's
  headers. At most twice the configured number of attempts leave the gateway.
\<close>

theorem call_credentials:
  assumes "callUpstream w p model key params cap hdrs h = (r, st)"
  shows "(\<forall>spec\<in>set (sent st).
      (\<exists>ref\<in>{UpstreamRef model, FallbackRef model}.
         map_of (upstreams w) (ToLower ref) = Some (specUpstream spec)) \<and>
      (if CreditAxis model
       then specCred spec = CredentialFor key (upRef (specUpstream spec)) \<and> specCred spec \<noteq> []
       else specCred spec = APIKey (specUpstream spec) \<and> specHeaders spec = [])) \<and>
    int (length (sent st)) \<le> 2 * max 0 (retries w + 1)"
  using assms by (rule callUpstream_sent)

section \<open>Order of the upstreams\<close>

lemma cooling_pass_still:
  assumes "\<And>n. clk w n = now" "distinct refs"
  shows "fst (cooling_pass w want refs st) = filter (\<lambda>ref. fst (cooling now ref (health st)) = want) refs \<and>
    (\<forall>ref. fst (cooling now ref (health (snd (cooling_pass w want refs st)))) = fst (cooling now ref (health st)))"
  using assms(2)
proof (induction refs arbitrary: st)
  case (Cons r refs)
  obtain c h where ch: "cooling now r (health st) = (c, h)" by fastforce
  let ?s1 = "st\<lparr>health := h, ticks := Suc (ticks st)\<rparr>"
  have ask: "ask_cooling w r st = (c, ?s1)" using ch assms(1) by (simp add: ask_cooling_def)
  have same: "fst (cooling now ref h) = fst (cooling now ref (health st))" for ref
    using ch by (auto simp: cooling_def go_maps split: option.splits if_splits)
  note IH = Cons.IH [of ?s1]
  show ?case using IH Cons.prems ask ch same by (auto simp: case_prod_beta)
qed simp

text \<open>
  The order of a model's two upstreams: while the clock stands still, both are tried, those that
  are not cooling first, each group in the model's order.
\<close>

theorem order_refs_complete:
  assumes "\<And>n. clk w n = now"
  shows "fst (order_refs w (model_refs model) st) =
      filter (\<lambda>ref. \<not> fst (cooling now ref (health st))) (model_refs model) @
      filter (\<lambda>ref. length (model_refs model) > 1 \<and> fst (cooling now ref (health st))) (model_refs model)
    \<or> length (model_refs model) = 1 \<and> fst (order_refs w (model_refs model) st) = model_refs model"
proof (cases "length (model_refs model) > 1")
  case True
  note pass = cooling_pass_still [OF assms model_refs_distinct(1) [of model]]
  show ?thesis
    using pass [of False st] pass [of True "snd (cooling_pass w False (model_refs model) st)"] True
    by (simp add: order_refs_eq Let_def)
next
  case False
  then show ?thesis by (auto simp: order_refs_eq Let_def model_refs_def split: if_splits)
qed

text \<open>A model served by two upstreams, both configured and both answering.\<close>

definition two_upstreams :: Model where
  "two_upstreams = (model_named ''m'' AxisToken)\<lparr>UpstreamRef := ''a'', FallbackRef := ''b''\<rparr>"

definition answering :: "(nat \<Rightarrow> int) \<Rightarrow> call_world" where
  "answering clock =
     (let up = (\<lambda>r. \<lparr>upRef = r, BaseURL = ''http://'' @ r, APIKey = ''k'', CapField = ''max_tokens'', Reasoning = []\<rparr>) in
      \<lparr>upstreams = [(''a'', up ''a''), (''b'', up ''b'')], retries = 1, clk = clock,
       net = (\<lambda>n spec. Response 200 (\<lambda>_. []) []), ctxDone = (\<lambda>n. False), rejectWith = (\<lambda>u p sc d. errUpstreamRejected)\<rparr>)"

definition both_cooling :: upstreamHealth where
  "both_cooling = \<lparr>failures = [], coolUntil = [(''a'', 10), (''b'', 10)], observations = []\<rparr>"

theorem order_refs_complete_witness:
  "fst (order_refs (answering (\<lambda>n. 5)) (model_refs two_upstreams)
     \<lparr>health = both_cooling, ticks = 0, sent = [], waitFor = [], lastErr = None, lastUp = None\<rparr>) = [''a'', ''b'']"
proof -
  have "\<And>n. clk (answering (\<lambda>n. 5)) n = 5" by (simp add: answering_def Let_def)
  from order_refs_complete [OF this, of two_upstreams] show ?thesis
    by (auto simp: model_refs_def two_upstreams_def model_named_def both_cooling_def cooling_def EqualFold_def
        ToLower_def lower_char_def)
qed

text \<open>
  The two passes read the clock separately. When both upstreams are cooling during the first pass
  and their cooldown ends before the second, neither pass keeps them: the call fails without a single
  attempt although both upstreams are configured and would answer.
\<close>

theorem expiring_cooldown_drops_upstreams:
  "\<exists>clock ae st. callUpstream (answering clock) protoChat two_upstreams sample_key sample_params 0 (\<lambda>_. []) both_cooling =
       (Failed None ae, st) \<and> sent st = [] \<and> (\<forall>n. clock n \<le> clock (Suc n)) \<and>
     (\<exists>up st'. callUpstream (answering (\<lambda>n. 5)) protoChat two_upstreams sample_key sample_params 0 (\<lambda>_. []) both_cooling =
       (Answered up, st'))"
proof -
  let ?clock = "\<lambda>n :: nat. if n < 2 then 5 else 10 :: int"
  have "fst (callUpstream (answering ?clock) protoChat two_upstreams sample_key sample_params 0 (\<lambda>_. []) both_cooling) =
      Failed None (ae_zero\<lparr>aeErr := ''errUnconfiguredUpstream''\<rparr>)"
    "sent (snd (callUpstream (answering ?clock) protoChat two_upstreams sample_key sample_params 0 (\<lambda>_. []) both_cooling)) = []"
    "(case fst (callUpstream (answering (\<lambda>n. 5)) protoChat two_upstreams sample_key sample_params 0 (\<lambda>_. []) both_cooling) of
       Answered up \<Rightarrow> True | _ \<Rightarrow> False)"
    by code_simp+
  then show ?thesis
    by (intro exI [of _ ?clock]) (auto simp: prod_eq_iff split: call_result.splits)
qed

section \<open>Fallback\<close>

text \<open>Attempts on an upstream that answers, and on one that does not end the call.\<close>

lemma attempts_on_answers:
  assumes "\<And>n. classify (rejectWith w (specUpstreamModel spec) (specPublicModel spec)) (specCreditAxis spec) (net w n spec) = None" "left > 0"
  shows "fst (attempts_on w ref spec left st) = Some (Answered (specUpstream spec))"
  using assms by (cases left) (simp_all add: Let_def)

lemma attempts_on_never_final:
  assumes "\<And>n ae. classify (rejectWith w (specUpstreamModel spec) (specPublicModel spec)) (specCreditAxis spec) (net w n spec) = Some ae \<Longrightarrow> aeRefusal ae = None"
    and "\<And>n. \<not> ctxDone w n"
  shows "fst (attempts_on w ref spec left st) \<in> {None, Some (Answered (specUpstream spec))}"
  using assms
proof (induction left arbitrary: st)
  case (Suc left)
  show ?case
  proof (cases "classify (rejectWith w (specUpstreamModel spec) (specPublicModel spec)) (specCreditAxis spec) (net w (length (sent st)) spec)")
    case None
    then show ?thesis by (simp add: Let_def)
  next
    case (Some ae)
    then have "aeRefusal ae = None" using Suc.prems(1) by blast
    then show ?thesis using Some Suc by (simp add: Let_def)
  qed
qed simp

lemma call_refs_answered:
  assumes "ref \<in> set refs" "map_of (upstreams w) (ToLower ref) = Some up"
    and "\<not> CreditAxis model" "0 \<le> retries w" "\<And>n. \<not> ctxDone w n"
    and "\<And>n spec. specUpstream spec = up \<Longrightarrow> classify (rejectWith w (specUpstreamModel spec) (specPublicModel spec)) (specCreditAxis spec) (net w n spec) = None"
    and "\<And>n spec ae. classify (rejectWith w (specUpstreamModel spec) (specPublicModel spec)) (specCreditAxis spec) (net w n spec) = Some ae \<Longrightarrow> aeRefusal ae = None"
    and "\<And>ps cf. bodyFor (reasoningForAttempt params (reasoningParam p) ps) cf cap \<noteq> None"
  shows "\<exists>up'. fst (call_refs w p model key params cap hdrs refs st) = Answered up'"
  using assms(1)
proof (induction refs arbitrary: st)
  case (Cons r refs)
  show ?case
  proof (cases "map_of (upstreams w) (ToLower r)")
    case None
    then have "ref \<in> set refs" using Cons.prems assms(2) by auto
    then show ?thesis using Cons.IH None by simp
  next
    case (Some u)
    define cf where "cf = (if capWriteField p = [] then CapField u else capWriteField p)"
    obtain body where body: "bodyFor (reasoningForAttempt params (reasoningParam p) u) cf cap = Some body"
      using assms(8) by blast
    let ?spec = "attemptFor p u body (APIKey u) model hdrs"
    obtain out s where on: "attempts_on w r ?spec (nat (retries w + 1)) (st\<lparr>lastUp := Some u\<rparr>) = (out, s)" by fastforce
    have step: "call_refs w p model key params cap hdrs (r # refs) st =
        (case out of Some res \<Rightarrow> (res, s) | None \<Rightarrow> call_refs w p model key params cap hdrs refs s)"
      using Some body on assms(3) by (simp add: cf_def Let_def)
    have out: "out \<in> {None, Some (Answered u)}"
      using attempts_on_never_final [of w ?spec r "nat (retries w + 1)"] assms(5,7) on
      by (metis attemptFor_simps(1) fst_conv)
    show ?thesis
    proof (cases "r = ref")
      case True
      then have "u = up" using Some assms(2) by simp
      then have "classify (rejectWith w (specUpstreamModel ?spec) (specPublicModel ?spec)) (specCreditAxis ?spec) (net w n ?spec) = None" for n
        by (intro assms(6)) simp
      from attempts_on_answers [OF this] have "out = Some (Answered u)"
        using assms(4) on by (metis attemptFor_simps(1) fst_conv zero_less_nat_eq zle_add1_eq_le)
      then show ?thesis using step by simp
    next
      case False
      then show ?thesis using out step Cons by auto
    qed
  qed
qed simp



theorem call_credentials_witness:
  "list_all (\<lambda>spec. specCred spec = APIKey (specUpstream spec))
     (sent (snd (callUpstream (answering (\<lambda>n. 5)) protoChat two_upstreams sample_key sample_params 0
        (\<lambda>_. []) both_cooling)))"
proof -
  let ?c = "callUpstream (answering (\<lambda>n. 5)) protoChat two_upstreams sample_key sample_params 0 (\<lambda>_. []) both_cooling"
  have "\<not> CreditAxis two_upstreams" by code_simp
  then show ?thesis using call_credentials [OF prod.collapse [symmetric, of ?c]] by (auto simp: list_all_iff)
qed

end
