(* ===== verification/Json_Text.thy ===== *)
theory Json_Text
  imports Go_Json "HOL-Library.List_Lexorder" "HOL-Library.Char_ord"
begin

text \<open>
  Writing JSON the way \<open>encoding/json\<close> does: strings with their escapes, members of a map in the order
  of their names, number literals as they were read. Bytes above 127 are copied; Go also escapes two
  of the separators of Unicode and replaces malformed UTF-8. Reading text is left to a parameter
  wherever bytes come in, \<open>decode\<close>, the value a decoder with \<open>UseNumber\<close> finds first in them.
\<close>

section \<open>Values read into \<open>any\<close>\<close>

lemma json_member_size [termination_simp]:
  "kv \<in> set kvs \<Longrightarrow> size (snd kv) < Suc (size_list (size_prod (\<lambda>_. 0) size) kvs)"
  by (induction kvs) (auto simp: less_Suc_eq_le)

text \<open>Every object becomes a Go map, the nested ones too.\<close>

fun to_any :: "json \<Rightarrow> json" where
  "to_any JNull = JNull"
| "to_any (JBool b) = JBool b"
| "to_any (JNum n) = JNum n"
| "to_any (JStr s) = JStr s"
| "to_any (JArr xs) = JArr (map to_any xs)"
| "to_any (JObj kvs) = JObj (go_object (map (\<lambda>kv. (fst kv, to_any (snd kv))) kvs))"

section \<open>Text\<close>

definition json_hex :: "nat \<Rightarrow> char" where
  "json_hex n = char_of (if n < 10 then 48 + n else 87 + n)"

definition escape_char :: "char \<Rightarrow> string" where
  "escape_char c =
     (let n = (of_char c :: nat) in
      if n = 34 \<or> n = 92 then [CHR 0x5C, c]
      else if n = 8 then CHR 0x5C # ''b''
      else if n = 12 then CHR 0x5C # ''f''
      else if n = 10 then CHR 0x5C # ''n''
      else if n = 13 then CHR 0x5C # ''r''
      else if n = 9 then CHR 0x5C # ''t''
      else if n < 32 \<or> n = 60 \<or> n = 62 \<or> n = 38
        then CHR 0x5C # ''u00'' @ [json_hex (n div 16), json_hex (n mod 16)]
      else [c])"

definition quote_string :: "string \<Rightarrow> string" where
  "quote_string s = CHR 0x22 # concat (map escape_char s) @ [CHR 0x22]"

fun comma_join :: "string list \<Rightarrow> string" where
  "comma_join [] = []"
| "comma_join [x] = x"
| "comma_join (x # y # xs) = x @ '','' @ comma_join (y # xs)"

fun marshal :: "json \<Rightarrow> string" where
  "marshal JNull = ''null''"
| "marshal (JBool b) = (if b then ''true'' else ''false'')"
| "marshal (JNum n) = n"
| "marshal (JStr s) = quote_string s"
| "marshal (JArr xs) = ''['' @ comma_join (map marshal xs) @ '']''"
| "marshal (JObj kvs) =
     CHR 0x7B # comma_join (map (\<lambda>kv. quote_string (fst kv) @ '':'' @ snd kv)
       (sort_key fst (map (\<lambda>kv. (fst kv, marshal (snd kv))) kvs))) @ [CHR 0x7D]"

section \<open>Number literals\<close>

definition cut_digits :: "string \<Rightarrow> string \<times> string" where
  "cut_digits s = (takeWhile is_digit s, dropWhile is_digit s)"

text \<open>The part of a literal after its integer: a fraction and an exponent, both optional.\<close>

definition valid_exponent :: "string \<Rightarrow> bool" where
  "valid_exponent s \<longleftrightarrow>
     (s = [] \<or>
      (hd s = CHR ''e'' \<or> hd s = CHR ''E'') \<and>
      (let t = tl s; u = (if t \<noteq> [] \<and> (hd t = CHR ''+'' \<or> hd t = CHR ''-'') then tl t else t)
       in u \<noteq> [] \<and> list_all is_digit u))"

definition valid_tail :: "string \<Rightarrow> bool" where
  "valid_tail s \<longleftrightarrow>
     (if s \<noteq> [] \<and> hd s = CHR ''.''
      then fst (cut_digits (tl s)) \<noteq> [] \<and> valid_exponent (snd (cut_digits (tl s)))
      else valid_exponent s)"

definition isValidNumber :: "string \<Rightarrow> bool" where
  "isValidNumber s =
     (let t = (if s \<noteq> [] \<and> hd s = CHR ''-'' then tl s else s) in
      if t = [] then False
      else if hd t = CHR ''0'' then valid_tail (tl t)
      else is_digit (hd t) \<and> valid_tail (snd (cut_digits t)))"

text \<open>What a JSON text can denote: every number literal is one of the grammar.\<close>

fun wf_json :: "json \<Rightarrow> bool" where
  "wf_json JNull = True"
| "wf_json (JBool b) = True"
| "wf_json (JNum n) = isValidNumber n"
| "wf_json (JStr s) = True"
| "wf_json (JArr xs) = list_all wf_json xs"
| "wf_json (JObj kvs) = list_all (\<lambda>kv. wf_json (snd kv)) kvs"

section \<open>Text without line breaks\<close>

definition printable :: "string \<Rightarrow> bool" where
  "printable s \<longleftrightarrow> list_all (\<lambda>c. 32 \<le> (of_char c :: nat)) s"

lemma printable_simps [simp]:
  "printable []" "printable (c # s) \<longleftrightarrow> 32 \<le> (of_char c :: nat) \<and> printable s"
  "printable (s @ t) \<longleftrightarrow> printable s \<and> printable t"
  by (simp_all add: printable_def)

lemma printable_concat: "printable (concat ss) \<longleftrightarrow> (\<forall>s\<in>set ss. printable s)"
  by (induction ss) auto

lemma printable_break: "printable s \<Longrightarrow> CHR 0x0A \<notin> set s \<and> CHR 0x0D \<notin> set s"
  by (induction s) auto

lemma of_char_json_hex: "n < 16 \<Longrightarrow> 32 \<le> (of_char (json_hex n) :: nat)"
  by (simp add: json_hex_def take_bit_eq_mod)

lemma printable_escape: "printable (escape_char c)"
proof -
  have "(of_char c :: nat) div 16 < 16" by (simp add: of_char_def div_less_iff_less_mult split: char.splits)
  then show ?thesis by (auto simp: escape_char_def Let_def of_char_json_hex)
qed

lemma printable_quote: "printable (quote_string s)"
  by (simp add: quote_string_def printable_concat printable_escape)

lemma printable_comma: "(\<forall>s\<in>set ss. printable s) \<Longrightarrow> printable (comma_join ss)"
  by (induction ss rule: comma_join.induct) auto

lemma is_digit_printable: "is_digit c \<Longrightarrow> 32 \<le> (of_char c :: nat)"
  by (simp add: is_digit_def)

lemma printable_digits: "list_all is_digit s \<Longrightarrow> printable s"
  by (induction s) (auto simp: is_digit_printable)

lemma valid_exponent_printable: "valid_exponent s \<Longrightarrow> printable s"
  by (cases s; cases "tl s") (auto simp: valid_exponent_def Let_def printable_digits is_digit_printable split: if_splits)

lemma cut_digits_printable: "printable (snd (cut_digits s)) \<Longrightarrow> printable s"
proof -
  assume "printable (snd (cut_digits s))"
  moreover have "printable (takeWhile is_digit s)"
    by (rule printable_digits) (auto simp: list_all_iff dest: set_takeWhileD)
  moreover have "s = takeWhile is_digit s @ snd (cut_digits s)" by (simp add: cut_digits_def)
  ultimately show ?thesis by (metis printable_simps(3))
qed

lemma valid_tail_printable: "valid_tail s \<Longrightarrow> printable s"
proof (cases "s \<noteq> [] \<and> hd s = CHR ''.''")
  case True
  assume "valid_tail s"
  then have "printable (tl s)" using True valid_exponent_printable cut_digits_printable by (auto simp: valid_tail_def)
  then show ?thesis using True by (cases s) auto
next
  case False
  assume "valid_tail s"
  then show ?thesis using False valid_exponent_printable by (auto simp: valid_tail_def split: if_splits)
qed

lemma isValidNumber_printable: "isValidNumber s \<Longrightarrow> printable s"
proof -
  assume v: "isValidNumber s"
  let ?t = "if s \<noteq> [] \<and> hd s = CHR ''-'' then tl s else s"
  have "printable ?t"
  proof (cases "hd ?t = CHR ''0''")
    case True
    then show ?thesis using v valid_tail_printable by (cases ?t) (auto simp: isValidNumber_def Let_def)
  next
    case False
    then have "valid_tail (snd (cut_digits ?t))" using v by (auto simp: isValidNumber_def Let_def split: if_splits)
    then show ?thesis using valid_tail_printable cut_digits_printable by blast
  qed
  then show ?thesis by (cases s) (auto split: if_splits)
qed

text \<open>Encoded JSON is one line, whatever the value holds.\<close>

lemma marshal_printable: "wf_json j \<Longrightarrow> printable (marshal j)"
proof (induction j rule: marshal.induct)
  case (6 kvs)
  then have "\<forall>kv\<in>set kvs. printable (marshal (snd kv))" by (auto simp: list_all_iff)
  then show ?case by (force intro!: printable_comma simp: printable_quote)
qed (auto simp: printable_quote isValidNumber_printable list_all_iff intro!: printable_comma)

lemma wf_go_object:
  assumes "\<forall>kv\<in>set kvs. P (snd kv)" "kv \<in> set (go_object kvs)"
  shows "P (snd kv)"
proof -
  have "map_of (go_object kvs) (fst kv) = Some (snd kv)"
    by (rule map_of_is_SomeI) (use assms(2) distinct_go_object in simp_all)
  then have "(fst kv, snd kv) \<in> set (rev kvs)" by (metis map_of_SomeD map_of_go_object)
  then show ?thesis using assms(1) by fastforce
qed

lemma wf_to_any: "wf_json j \<Longrightarrow> wf_json (to_any j)"
proof (induction j rule: to_any.induct)
  case (6 kvs)
  then have "\<forall>kv\<in>set (map (\<lambda>kv. (fst kv, to_any (snd kv))) kvs). wf_json (snd kv)"
    by (auto simp: list_all_iff)
  from wf_go_object [OF this] show ?case by (simp add: list_all_iff)
qed (auto simp: list_all_iff)

end
