(* ===== verification/Config.thy ===== *)
theory Config
  imports Upstream Json_Text "HOL-Library.Multiset"
begin

text \<open>
  The configuration (\<open>internal/config/config.go\<close>): what is read from the environment, which settings
  stop the start, and the upstreams. The environment is the list of its \<open>NAME=VALUE\<close> strings; reading
  a duration, the host of a URL and whether a host is a private address are the library's.
\<close>

section \<open>The environment\<close>

record environment =
  environ :: "string list"
  parseDuration :: "string \<Rightarrow> int option"
  urlHost :: "string \<Rightarrow> string option"
  localAddress :: "string \<Rightarrow> bool"

definition envPrefix :: string where "envPrefix = ''LLMGW_''"

definition env_entry :: "string \<Rightarrow> string \<times> string" where
  "env_entry kv = (case Cut kv (CHR ''='') of (name, val, found) \<Rightarrow> (name, val))"

definition getenv :: "environment \<Rightarrow> string \<Rightarrow> string \<Rightarrow> string" where
  "getenv e name def =
     (case map_of (map env_entry (environ e)) (envPrefix @ name) of
        Some v \<Rightarrow> if v \<noteq> [] then v else def | None \<Rightarrow> def)"

definition ToUpper :: "string \<Rightarrow> string" where
  "ToUpper = map (\<lambda>c. let n = of_char c :: nat in if 97 \<le> n \<and> n \<le> 122 then char_of (n - 32) else c)"

section \<open>Upstreams\<close>

definition second :: int where "second = 1000000000"

record configured = Upstream +
  ProbeInterval :: int

definition configured_zero :: configured where
  "configured_zero = \<lparr>upRef = [], BaseURL = [], APIKey = [], CapField = [], Reasoning = [], ProbeInterval = 0\<rparr>"


definition onPremProbeInterval :: int where "onPremProbeInterval = 60 * second"
definition externalProbeInterval :: int where "externalProbeInterval = 300 * second"

definition defaultProbeInterval :: "environment \<Rightarrow> string \<Rightarrow> int" where
  "defaultProbeInterval e baseURL =
     (case urlHost e baseURL of
        None \<Rightarrow> externalProbeInterval
      | Some h \<Rightarrow>
          let host = ToLower h in
          if host = ''localhost'' \<or> localAddress e host then onPremProbeInterval else externalProbeInterval)"

definition reservedUpstreamSettings :: "string list" where
  "reservedUpstreamSettings = [''RETRIES'', ''HEADER_WAIT'']"

datatype upstream_field = FieldBase | FieldKey | FieldCap | FieldProbe | FieldReasoning

definition upstream_suffixes :: "(string \<times> upstream_field) list" where
  "upstream_suffixes =
     [(''_BASE_URL'', FieldBase), (''_API_KEY'', FieldKey), (''_CAP_FIELD'', FieldCap),
      (''_PROBE_INTERVAL'', FieldProbe), (''_REASONING'', FieldReasoning)]"

text \<open>Which field of which reference a name below the prefix sets.\<close>

definition upstream_field_of :: "string \<Rightarrow> (string \<times> upstream_field) option" where
  "upstream_field_of rest =
     first_some (\<lambda>(suffix, f). if HasSuffix rest suffix then Some (TrimSuffix rest suffix, f) else None) upstream_suffixes"

definition set_upstream :: "environment \<Rightarrow> upstream_field \<Rightarrow> string \<Rightarrow> configured \<Rightarrow> configured option" where
  "set_upstream e f val u =
     (case f of
        FieldBase \<Rightarrow> Some (u\<lparr>BaseURL := TrimRight val ''/''\<rparr>)
      | FieldKey \<Rightarrow> Some (u\<lparr>APIKey := val\<rparr>)
      | FieldCap \<Rightarrow> Some (u\<lparr>CapField := val\<rparr>)
      | FieldReasoning \<Rightarrow> Some (u\<lparr>Reasoning := val\<rparr>)
      | FieldProbe \<Rightarrow>
          (case parseDuration e val of None \<Rightarrow> None
           | Some d \<Rightarrow> if d < 10 * second then None else Some (u\<lparr>ProbeInterval := d\<rparr>)))"

text \<open>One entry of the environment, on the upstreams and the complaints so far.\<close>

definition collect_setting ::
  "environment \<Rightarrow> string \<Rightarrow> configured gomap \<times> string list \<Rightarrow> configured gomap \<times> string list" where
  "collect_setting e kv acc =
     (case acc of (ups, errs) \<Rightarrow>
      (case Cut kv (CHR ''='') of (name, val, found) \<Rightarrow>
        if \<not> found \<or> \<not> HasPrefix name (envPrefix @ ''UPSTREAM_'') then (ups, errs)
        else let rest = TrimPrefix name (envPrefix @ ''UPSTREAM_'') in
          if rest \<in> set reservedUpstreamSettings then (ups, errs)
          else case upstream_field_of rest of
            None \<Rightarrow> (ups, errs @ [name @ '' is not a recognized upstream field (_BASE_URL, _API_KEY, _CAP_FIELD, _PROBE_INTERVAL or _REASONING)''])
          | Some (ref, f) \<Rightarrow>
              if ref = [] then (ups, errs @ [name @ '' has an empty upstream reference''])
              else let key = ToLower ref; u = (case map_of ups key of None \<Rightarrow> configured_zero | Some u \<Rightarrow> u) in
                case set_upstream e f val (u\<lparr>upRef := key\<rparr>) of
                  None \<Rightarrow> (ups, errs @ [name @ '' must be at least 10s (e.g. 60s)''])
                | Some u \<Rightarrow> (AList.update key u ups, errs)))"

text \<open>What becomes of one upstream once every entry is read: refused, or completed with its defaults.\<close>

definition complete_upstream :: "environment \<Rightarrow> string \<times> configured \<Rightarrow> string + configured" where
  "complete_upstream e x =
     (case x of (ref, u) \<Rightarrow>
      if BaseURL u = []
      then Inl (''upstream '' @ ref @ '' is missing '' @ envPrefix @ ''UPSTREAM_'' @ ToUpper ref @ ''_BASE_URL'')
      else
        let u = (if ProbeInterval u = 0 then u\<lparr>ProbeInterval := defaultProbeInterval e (BaseURL u)\<rparr> else u);
            u' = (if CapField u = [] then u\<lparr>CapField := ''max_completion_tokens''\<rparr> else u)
        in if CapField u' \<notin> {''max_completion_tokens'', ''max_tokens''}
           then Inl (''upstream '' @ ref @ '' has an unknown cap field '' @ CapField u @ '' (max_completion_tokens or max_tokens)'')
           else
             let u'' = (if Reasoning u' = [] then u'\<lparr>Reasoning := ReasoningClosed\<rparr> else u')
             in if Reasoning u'' \<notin> {ReasoningClosed, ReasoningEffort, ReasoningTemplate}
                then Inl (''upstream '' @ ref @ '' has an unknown reasoning setting '' @ Reasoning u @ '' ('' @ ReasoningClosed @
                          '', '' @ ReasoningEffort @ '' or '' @ ReasoningTemplate @ '')'')
                else Inr u'')"

definition upstreamsFromEnv :: "environment \<Rightarrow> configured gomap \<times> string list" where
  "upstreamsFromEnv e =
     (case fold (collect_setting e) (environ e) ([], []) of
        (ups, errs) \<Rightarrow>
          (concat (map (\<lambda>x. case complete_upstream e x of Inl _ \<Rightarrow> [] | Inr u \<Rightarrow> [(fst x, u)]) ups),
           errs @ concat (map (\<lambda>x. case complete_upstream e x of Inl err \<Rightarrow> [err] | Inr _ \<Rightarrow> []) ups)))"

section \<open>The configuration\<close>

definition SourceFile :: string where "SourceFile = ''file''"
definition SourceHTTP :: string where "SourceHTTP = ''http''"

record Config =
  Listen :: string
  AdminListen :: string
  SnapshotPath :: string
  SpoolDir :: string
  SnapshotSource :: string
  ControlBaseURL :: string
  ControlToken :: string
  ControlTimeout :: int
  SnapshotPollInterval :: int
  RequestBodyMaxBytes :: int
  UpstreamHeaderWait :: int
  RequestMaxDuration :: int
  MaxInFlight :: int
  ChatLargeBodyMaxBytes :: int
  ChatLargeResponseMaxBytes :: int
  ChatLargeBodySlots :: int
  UpstreamRetries :: int
  PassthroughRequestBodyMaxBytes :: int
  PassthroughResponseMaxBytes :: int
  PassthroughHeaderWait :: int
  PassthroughMaxInFlight :: int
  cfgDefaultRpm :: int
  cfgDefaultTpm :: int
  cfgDefaultConcurrency :: int
  SpoolRetentionDays :: int
  UsagePush :: bool
  UsageBatchSize :: int
  UsagePushInterval :: int
  BodyCapture :: bool
  BodyQueueSize :: int
  BodyBatchSize :: int
  AllowGenerationReset :: bool
  Upstreams :: "configured gomap"

definition UpstreamRefs :: "Config \<Rightarrow> string list" where
  "UpstreamRefs c = map fst (Upstreams c)"

definition ordinaryResponseBytes :: int where "ordinaryResponseBytes = 8388608"

definition config_defaults :: "environment \<Rightarrow> Config" where
  "config_defaults e =
     \<lparr>Listen = getenv e ''LISTEN'' [], AdminListen = getenv e ''ADMIN_LISTEN'' [],
      SnapshotPath = getenv e ''SNAPSHOT_PATH'' [], SpoolDir = getenv e ''SPOOL_DIR'' [],
      SnapshotSource = getenv e ''SNAPSHOT_SOURCE'' SourceFile,
      ControlBaseURL = TrimRight (getenv e ''CONTROL_BASE_URL'' []) ''/'',
      ControlToken = getenv e ''CONTROL_TOKEN'' [], ControlTimeout = 10 * second, SnapshotPollInterval = 5 * second,
      RequestBodyMaxBytes = 2097152, UpstreamHeaderWait = 180 * second, RequestMaxDuration = 600 * second,
      MaxInFlight = 16, ChatLargeBodyMaxBytes = 26214400, ChatLargeResponseMaxBytes = 134217728,
      ChatLargeBodySlots = 3, UpstreamRetries = 1, PassthroughRequestBodyMaxBytes = 26214400,
      PassthroughResponseMaxBytes = 134217728, PassthroughHeaderWait = 180 * second, PassthroughMaxInFlight = 2,
      cfgDefaultRpm = 20, cfgDefaultTpm = 20000, cfgDefaultConcurrency = 2, SpoolRetentionDays = 90, UsagePush = False,
      UsageBatchSize = 500, UsagePushInterval = 30 * second, BodyCapture = False, BodyQueueSize = 256,
      BodyBatchSize = 20, AllowGenerationReset = False, Upstreams = []\<rparr>"

text \<open>A setting: its name, what its text does to the configuration, and what is demanded of it.\<close>

type_synonym setting = "string \<times> (string \<Rightarrow> (Config \<Rightarrow> Config) option) \<times> string"

definition int_setting :: "(int \<Rightarrow> bool) \<Rightarrow> string \<Rightarrow> string \<Rightarrow> (int \<Rightarrow> Config \<Rightarrow> Config) \<Rightarrow> setting" where
  "int_setting ok demand name upd =
     (name, (\<lambda>v. case parse_int64 v of None \<Rightarrow> None | Some n \<Rightarrow> if ok n then Some (upd n) else None), demand)"

definition positive_int :: "string \<Rightarrow> (int \<Rightarrow> Config \<Rightarrow> Config) \<Rightarrow> setting" where
  "positive_int = int_setting (\<lambda>n. n > 0) '' must be a positive integer''"

definition non_negative_int :: "string \<Rightarrow> (int \<Rightarrow> Config \<Rightarrow> Config) \<Rightarrow> setting" where
  "non_negative_int = int_setting (\<lambda>n. n \<ge> 0) '' must be a non-negative integer''"

definition duration_setting :: "environment \<Rightarrow> string \<Rightarrow> (int \<Rightarrow> Config \<Rightarrow> Config) \<Rightarrow> setting" where
  "duration_setting e name upd =
     (name, (\<lambda>v. case parseDuration e v of None \<Rightarrow> None | Some d \<Rightarrow> if d > 0 then Some (upd d) else None),
      '' must be a positive duration (e.g. 5s)'')"

definition tuning_settings :: "environment \<Rightarrow> setting list" where
  "tuning_settings e =
     [positive_int ''MAX_IN_FLIGHT'' (\<lambda>n. MaxInFlight_update (\<lambda>_. n)),
      positive_int ''PASSTHROUGH_MAX_IN_FLIGHT'' (\<lambda>n. PassthroughMaxInFlight_update (\<lambda>_. n)),
      positive_int ''BODY_QUEUE_SIZE'' (\<lambda>n. BodyQueueSize_update (\<lambda>_. n)),
      positive_int ''BODY_BATCH_SIZE'' (\<lambda>n. BodyBatchSize_update (\<lambda>_. n)),
      positive_int ''DEFAULT_RPM'' (\<lambda>n. cfgDefaultRpm_update (\<lambda>_. n)),
      positive_int ''DEFAULT_TPM'' (\<lambda>n. cfgDefaultTpm_update (\<lambda>_. n)),
      positive_int ''DEFAULT_CONCURRENCY'' (\<lambda>n. cfgDefaultConcurrency_update (\<lambda>_. n)),
      non_negative_int ''CHAT_LARGE_BODY_SLOTS'' (\<lambda>n. ChatLargeBodySlots_update (\<lambda>_. n)),
      non_negative_int ''UPSTREAM_RETRIES'' (\<lambda>n. UpstreamRetries_update (\<lambda>_. n)),
      non_negative_int ''SPOOL_RETENTION_DAYS'' (\<lambda>n. SpoolRetentionDays_update (\<lambda>_. n)),
      duration_setting e ''SNAPSHOT_POLL_INTERVAL'' (\<lambda>d. SnapshotPollInterval_update (\<lambda>_. d)),
      duration_setting e ''CONTROL_TIMEOUT'' (\<lambda>d. ControlTimeout_update (\<lambda>_. d)),
      duration_setting e ''USAGE_PUSH_INTERVAL'' (\<lambda>d. UsagePushInterval_update (\<lambda>_. d)),
      duration_setting e ''UPSTREAM_HEADER_WAIT'' (\<lambda>d. UpstreamHeaderWait_update (\<lambda>_. d)),
      duration_setting e ''PASSTHROUGH_HEADER_WAIT'' (\<lambda>d. PassthroughHeaderWait_update (\<lambda>_. d)),
      duration_setting e ''REQUEST_MAX_DURATION'' (\<lambda>d. RequestMaxDuration_update (\<lambda>_. d)),
      positive_int ''USAGE_BATCH_SIZE'' (\<lambda>n. UsageBatchSize_update (\<lambda>_. n)),
      positive_int ''REQUEST_BODY_MAX_BYTES'' (\<lambda>n. RequestBodyMaxBytes_update (\<lambda>_. n)),
      positive_int ''PASSTHROUGH_REQUEST_BODY_MAX_BYTES'' (\<lambda>n. PassthroughRequestBodyMaxBytes_update (\<lambda>_. n)),
      positive_int ''PASSTHROUGH_RESPONSE_MAX_BYTES'' (\<lambda>n. PassthroughResponseMaxBytes_update (\<lambda>_. n)),
      positive_int ''CHAT_LARGE_BODY_MAX_BYTES'' (\<lambda>n. ChatLargeBodyMaxBytes_update (\<lambda>_. n)),
      positive_int ''CHAT_LARGE_RESPONSE_MAX_BYTES'' (\<lambda>n. ChatLargeResponseMaxBytes_update (\<lambda>_. n))]"

definition apply_setting :: "environment \<Rightarrow> setting \<Rightarrow> Config \<times> string list \<Rightarrow> Config \<times> string list" where
  "apply_setting e s acc =
     (case s of (name, reader, demand) \<Rightarrow>
      let v = getenv e name [] in
      if v = [] then acc
      else case reader v of
        None \<Rightarrow> (fst acc, snd acc @ [envPrefix @ name @ demand])
      | Some f \<Rightarrow> (f (fst acc), snd acc))"

definition needed :: "string \<Rightarrow> string \<Rightarrow> string list" where
  "needed name val = (if val = [] then [envPrefix @ name @ '' is required''] else [])"

definition switched_on :: "string \<Rightarrow> bool" where
  "switched_on v \<longleftrightarrow> v = ''on'' \<or> v = ''1'' \<or> EqualFold v ''true''"

definition control_needed :: "Config \<Rightarrow> string list" where
  "control_needed c = needed ''CONTROL_BASE_URL'' (ControlBaseURL c) @ needed ''CONTROL_TOKEN'' (ControlToken c)"

text \<open>What must be there in any case, and what the bounds of the large-body pool must satisfy.\<close>

definition required_problems :: "Config \<Rightarrow> string list" where
  "required_problems c =
     needed ''LISTEN'' (Listen c) @ needed ''SNAPSHOT_PATH'' (SnapshotPath c) @ needed ''SPOOL_DIR'' (SpoolDir c) @
     (if SnapshotSource c = SourceFile then []
      else if SnapshotSource c = SourceHTTP then control_needed c
      else [envPrefix @ ''SNAPSHOT_SOURCE must be '' @ SourceFile @ '' or '' @ SourceHTTP])"

definition pool_problems :: "Config \<Rightarrow> string list" where
  "pool_problems c =
     (if ChatLargeBodySlots c > 0 \<and> ChatLargeBodyMaxBytes c < RequestBodyMaxBytes c
      then [envPrefix @ ''CHAT_LARGE_BODY_MAX_BYTES must not be below '' @ envPrefix @ ''REQUEST_BODY_MAX_BYTES'']
      else []) @
     (if ChatLargeBodySlots c > 0 \<and> ChatLargeResponseMaxBytes c \<le> ordinaryResponseBytes
      then [envPrefix @ ''CHAT_LARGE_RESPONSE_MAX_BYTES must be above 8 MiB, the ordinary relay bound, while the large-body pool is open'']
      else [])"

definition FromEnv :: "environment \<Rightarrow> string list + Config" where
  "FromEnv e =
     (case fold (apply_setting e) (tuning_settings e) (config_defaults e, required_problems (config_defaults e)) of
        (c, errs) \<Rightarrow>
          let reset = getenv e ''ALLOW_GENERATION_RESET'' [];
              push = switched_on (getenv e ''USAGE_PUSH'' []);
              capture = switched_on (getenv e ''BODY_CAPTURE'' []);
              c = c\<lparr>AllowGenerationReset := (reset = ''1'' \<or> EqualFold reset ''true''), UsagePush := push, BodyCapture := capture\<rparr>
          in case upstreamsFromEnv e of (ups, upErrs) \<Rightarrow>
            let errs = errs @ (if push then control_needed c else []) @ (if capture then control_needed c else []) @
                  pool_problems c @ upErrs @
                  (if ups = [] then [''at least one upstream is required ('' @ envPrefix @ ''UPSTREAM_<REF>_BASE_URL)''] else [])
            in if errs \<noteq> [] then Inl (sort errs) else Inr (c\<lparr>Upstreams := ups\<rparr>))"

section \<open>What a gateway that starts can rely on\<close>

definition upstream_wf :: "string \<times> configured \<Rightarrow> bool" where
  "upstream_wf x \<longleftrightarrow>
     (case x of (ref, u) \<Rightarrow> upRef u = ref \<and> ref \<noteq> [] \<and> ToLower ref = ref \<and>
        BaseURL u \<noteq> [] \<and> last (BaseURL u) \<noteq> CHR ''/'' \<and> CapField u \<in> {''max_completion_tokens'', ''max_tokens''} \<and>
        Reasoning u \<in> {ReasoningClosed, ReasoningEffort, ReasoningTemplate} \<and> ProbeInterval u \<ge> 10 * second)"

definition tuned :: "Config \<Rightarrow> bool" where
  "tuned c \<longleftrightarrow>
     (\<forall>n\<in>{MaxInFlight c, PassthroughMaxInFlight c, BodyQueueSize c, BodyBatchSize c, cfgDefaultRpm c, cfgDefaultTpm c,
          cfgDefaultConcurrency c, UsageBatchSize c, RequestBodyMaxBytes c, PassthroughRequestBodyMaxBytes c,
          PassthroughResponseMaxBytes c, ChatLargeBodyMaxBytes c, ChatLargeResponseMaxBytes c}. 0 < n \<and> in_int64 n) \<and>
     (\<forall>n\<in>{ChatLargeBodySlots c, UpstreamRetries c, SpoolRetentionDays c}. 0 \<le> n \<and> in_int64 n) \<and>
     (\<forall>d\<in>{SnapshotPollInterval c, ControlTimeout c, UsagePushInterval c, UpstreamHeaderWait c, PassthroughHeaderWait c,
          RequestMaxDuration c}. 0 < d)"

definition config_wf :: "Config \<Rightarrow> bool" where
  "config_wf c \<longleftrightarrow> tuned c \<and>
     Listen c \<noteq> [] \<and> SnapshotPath c \<noteq> [] \<and> SpoolDir c \<noteq> [] \<and> SnapshotSource c \<in> {SourceFile, SourceHTTP} \<and>
     (SnapshotSource c = SourceHTTP \<or> UsagePush c \<or> BodyCapture c \<longrightarrow> ControlBaseURL c \<noteq> [] \<and> ControlToken c \<noteq> []) \<and>
     (ChatLargeBodySlots c > 0 \<longrightarrow>
        RequestBodyMaxBytes c \<le> ChatLargeBodyMaxBytes c \<and> ordinaryResponseBytes < ChatLargeResponseMaxBytes c) \<and>
     Upstreams c \<noteq> [] \<and> distinct (UpstreamRefs c) \<and> list_all upstream_wf (Upstreams c)"

lemma trim_right_last: "trim_right p s \<noteq> [] \<Longrightarrow> \<not> p (last (trim_right p s))"
  by (simp add: trim_right_def last_rev) (metis hd_dropWhile set_rev dropWhile_eq_Nil_conv)

text \<open>A setting keeps \<open>P\<close> when whatever it accepts does.\<close>

definition keeps :: "(Config \<Rightarrow> bool) \<Rightarrow> setting \<Rightarrow> bool" where
  "keeps P s \<longleftrightarrow> (\<forall>v f c. fst (snd s) v = Some f \<longrightarrow> P c \<longrightarrow> P (f c))"

lemma fold_settings:
  assumes "list_all (keeps P) ss" "P c"
  shows "P (fst (fold (apply_setting e) ss (c, errs)))"
  using assms
proof (induction ss arbitrary: c errs)
  case (Cons s ss)
  obtain c1 errs1 where s: "apply_setting e s (c, errs) = (c1, errs1)" by fastforce
  then have "P c1" using Cons.prems by (auto simp: apply_setting_def keeps_def Let_def split: prod.splits option.splits if_splits)
  then show ?case using Cons s by simp
qed simp

lemma fold_settings_errs: "\<exists>new. snd (fold (apply_setting e) ss (c, errs)) = errs @ new"
proof (induction ss arbitrary: c errs)
  case (Cons s ss)
  obtain c1 errs1 where s: "apply_setting e s (c, errs) = (c1, errs1)" by fastforce
  then have "\<exists>new. errs1 = errs @ new"
    by (auto simp: apply_setting_def Let_def split: prod.splits option.splits if_splits)
  then show ?case using Cons[of c1 errs1] s by auto
qed simp

lemma keeps_settings:
  "(\<And>n c. ok n \<Longrightarrow> in_int64 n \<Longrightarrow> P c \<Longrightarrow> P (upd n c)) \<Longrightarrow> keeps P (int_setting ok demand name upd)"
  "(\<And>d c. 0 < d \<Longrightarrow> P c \<Longrightarrow> P (upd d c)) \<Longrightarrow> keeps P (duration_setting e name upd)"
  by (auto simp: keeps_def int_setting_def duration_setting_def parse_int64_range split: option.splits if_splits)

lemma tuning_keeps_tuned: "list_all (keeps tuned) (tuning_settings e)"
  unfolding tuning_settings_def positive_int_def non_negative_int_def list.pred_inject
  by (intro conjI keeps_settings TrueI) (simp_all add: tuned_def)

definition texts :: "Config \<Rightarrow> string \<times> string \<times> string \<times> string \<times> string \<times> string \<times> bool \<times> bool" where
  "texts c = (Listen c, SnapshotPath c, SpoolDir c, SnapshotSource c, ControlBaseURL c, ControlToken c, UsagePush c, BodyCapture c)"

lemma tuning_keeps_texts: "list_all (keeps (\<lambda>c. texts c = t)) (tuning_settings e)"
  unfolding tuning_settings_def positive_int_def non_negative_int_def list.pred_inject
  by (intro conjI keeps_settings TrueI) (simp_all add: texts_def)

lemma defaults_tuned: "tuned (config_defaults e)"
  by (simp add: tuned_def config_defaults_def in_int64_def second_def)

definition upstream_half :: "string \<Rightarrow> configured \<Rightarrow> bool" where
  "upstream_half ref u \<longleftrightarrow> upRef u = ref \<and> ref \<noteq> [] \<and> ToLower ref = ref \<and>
     (BaseURL u \<noteq> [] \<longrightarrow> last (BaseURL u) \<noteq> CHR ''/'') \<and> (ProbeInterval u = 0 \<or> ProbeInterval u \<ge> 10 * second)"

definition collected :: "configured gomap \<Rightarrow> bool" where
  "collected ups \<longleftrightarrow> distinct (map fst ups) \<and> (\<forall>ref u. map_of ups ref = Some u \<longrightarrow> upstream_half ref u)"

lemma set_upstream_half:
  assumes "set_upstream e f val (u\<lparr>upRef := ref\<rparr>) = Some u'" "upstream_half ref (u\<lparr>upRef := ref\<rparr>)"
  shows "upstream_half ref u'"
  using assms trim_right_last
  by (auto simp: set_upstream_def upstream_half_def TrimRight_def split: upstream_field.splits option.splits if_splits) fastforce+

lemma half_zero: "ref \<noteq> [] \<Longrightarrow> ToLower ref = ref \<Longrightarrow> upstream_half ref (configured_zero\<lparr>upRef := ref\<rparr>)"
  by (simp add: upstream_half_def configured_zero_def)

lemma collect_setting_collected:
  assumes "collected (fst acc)"
  shows "collected (fst (collect_setting e kv acc))"
proof -
  obtain ups errs where acc: "acc = (ups, errs)" by fastforce
  have new: "collected (AList.update (ToLower ref) u' ups)"
    if ref: "ref \<noteq> []" and u: "set_upstream e f val ((case map_of ups (ToLower ref) of None \<Rightarrow> configured_zero | Some u \<Rightarrow> u)
        \<lparr>upRef := ToLower ref\<rparr>) = Some u'" for ref f val u'
  proof -
    have "upstream_half (ToLower ref) ((case map_of ups (ToLower ref) of None \<Rightarrow> configured_zero | Some u \<Rightarrow> u)\<lparr>upRef := ToLower ref\<rparr>)"
    proof (cases "map_of ups (ToLower ref)")
      case None
      then show ?thesis using half_zero [of "ToLower ref"] ref by simp
    next
      case (Some u)
      then have "upstream_half (ToLower ref) u" using assms acc by (simp add: collected_def)
      then show ?thesis using Some by (simp add: upstream_half_def)
    qed
    from set_upstream_half [OF u this] show ?thesis using assms acc by (simp add: collected_def go_maps)
  qed
  show ?thesis using assms new acc
    by (auto simp: collect_setting_def Let_def split: prod.splits option.splits if_splits)
qed

lemma collect_all_collected: "collected (fst acc) \<Longrightarrow> collected (fst (fold (collect_setting e) kvs acc))"
  by (induction kvs arbitrary: acc) (simp_all add: collect_setting_collected)

lemma defaultProbe_range: "defaultProbeInterval e url \<ge> 10 * second"
  by (simp add: defaultProbeInterval_def onPremProbeInterval_def externalProbeInterval_def second_def Let_def split: option.splits)

lemma complete_upstream_wf:
  assumes "complete_upstream e (ref, u) = Inr u'" "upstream_half ref u"
  shows "upstream_wf (ref, u')"
  using assms defaultProbe_range
  by (auto simp: complete_upstream_def upstream_half_def upstream_wf_def Let_def split: if_splits)

lemma completed_keys:
  "map fst (concat (map (\<lambda>x. case complete_upstream e x of Inl _ \<Rightarrow> [] | Inr u \<Rightarrow> [(fst x, u)]) ups)) =
   map fst (filter (\<lambda>x. \<not> isl (complete_upstream e x)) ups)"
  by (induction ups) (auto split: sum.splits)

lemma upstreamsFromEnv_wf:
  assumes "upstreamsFromEnv e = (ups, errs)"
  shows "distinct (map fst ups) \<and> list_all upstream_wf ups"
proof -
  obtain cs errs0 where c: "fold (collect_setting e) (environ e) ([], []) = (cs, errs0)" by fastforce
  have col: "collected cs" using collect_all_collected [of "([], [])" e "environ e"] c by (simp add: collected_def)
  have ups: "ups = concat (map (\<lambda>x. case complete_upstream e x of Inl _ \<Rightarrow> [] | Inr u \<Rightarrow> [(fst x, u)]) cs)"
    using assms c by (simp add: upstreamsFromEnv_def)
  have "distinct (map fst ups)"
    using col unfolding ups completed_keys by (simp add: collected_def distinct_map_filter)
  moreover have "upstream_wf x" if "x \<in> set ups" for x
  proof -
    obtain y where "y \<in> set cs" "x \<in> set (case complete_upstream e y of Inl _ \<Rightarrow> [] | Inr u \<Rightarrow> [(fst y, u)])"
      using \<open>x \<in> set ups\<close> by (auto simp: ups)
    then have u: "(fst y, snd y) \<in> set cs" "complete_upstream e (fst y, snd y) = Inr (snd x)" "fst x = fst y"
      by (auto split: sum.splits)
    then have "upstream_half (fst y) (snd y)" using col by (simp add: collected_def)
    then show ?thesis using complete_upstream_wf [OF u(2)] u(3) by (metis prod.collapse)
  qed
  ultimately show ?thesis by (simp add: list_all_iff)
qed

text \<open>
  C28. A gateway starts only under a configuration that the rest of it may rely on: the listener, the snapshot
  and the spool are named; the control plane's address and token are there whenever anything is fetched
  from it or shipped to it; every count, bound and duration is in its range, so that no limit defaults to
  nothing and no pool or loop is degenerate; the large-body pool, when open, admits more than the ordinary
  bounds do; and at least one upstream is configured, each under its own lower-case reference with an
  address, a known cap field, a known reasoning setting and a probe interval of at least ten seconds.
\<close>

theorem started_configuration:
  assumes "FromEnv e = Inr c"
  shows "config_wf c"
proof -
  let ?d = "config_defaults e"
  obtain c1 errs1 where f: "fold (apply_setting e) (tuning_settings e) (?d, required_problems ?d) = (c1, errs1)" by fastforce
  obtain ups upErrs where u: "upstreamsFromEnv e = (ups, upErrs)" by fastforce
  have tuned1: "tuned c1" using fold_settings [OF tuning_keeps_tuned [of e] defaults_tuned [of e], of e "required_problems ?d"] f by simp
  have texts1: "texts c1 = texts ?d"
    using fold_settings [OF tuning_keeps_texts [of "texts ?d" e] refl, of e "required_problems ?d"] f by simp
  have errs: "\<exists>new. errs1 = required_problems ?d @ new"
    using fold_settings_errs [of e "tuning_settings e" ?d "required_problems ?d"] f by simp
  define push where "push \<longleftrightarrow> switched_on (getenv e ''USAGE_PUSH'' [])"
  define capture where "capture \<longleftrightarrow> switched_on (getenv e ''BODY_CAPTURE'' [])"
  define reset where "reset = AllowGenerationReset c"
  define c2 where "c2 = c1\<lparr>AllowGenerationReset := (getenv e ''ALLOW_GENERATION_RESET'' [] = ''1'' \<or>
      EqualFold (getenv e ''ALLOW_GENERATION_RESET'' []) ''true''), UsagePush := push, BodyCapture := capture\<rparr>"
  have parts: "errs1 @ (if push then control_needed c2 else []) @ (if capture then control_needed c2 else []) @ pool_problems c2 @
      upErrs @ (if ups = [] then [''at least one upstream is required ('' @ envPrefix @ ''UPSTREAM_<REF>_BASE_URL)''] else []) = []"
    "c = c2\<lparr>Upstreams := ups\<rparr>"
    using assms unfolding FromEnv_def f u prod.case Let_def push_def [symmetric] capture_def [symmetric] c2_def [symmetric]
    by (simp_all split: if_splits)
  have c: "c = c1\<lparr>AllowGenerationReset := reset, UsagePush := push, BodyCapture := capture, Upstreams := ups\<rparr>"
    unfolding reset_def parts(2) c2_def by simp
  have ok: "errs1 = []" "push \<or> capture \<longrightarrow> control_needed c1 = []" "ups \<noteq> []" "pool_problems c1 = []"
    using parts(1) by (auto simp: c2_def control_needed_def pool_problems_def split: if_splits)
  have "required_problems ?d = []" using errs ok(1) by simp
  then have req: "required_problems c1 = []"
    using texts1 by (auto simp: required_problems_def control_needed_def texts_def needed_def split: if_splits)
  have "tuned c" using tuned1 by (simp add: c tuned_def)
  moreover have "list_all upstream_wf (Upstreams c)" "distinct (UpstreamRefs c)" "Upstreams c \<noteq> []"
    using upstreamsFromEnv_wf [OF u] ok(3) by (simp_all add: c UpstreamRefs_def)
  moreover have "Listen c \<noteq> [] \<and> SnapshotPath c \<noteq> [] \<and> SpoolDir c \<noteq> [] \<and> SnapshotSource c \<in> {SourceFile, SourceHTTP}"
    using req by (auto simp: c required_problems_def needed_def split: if_splits)
  moreover have "ControlBaseURL c \<noteq> [] \<and> ControlToken c \<noteq> []" if "SnapshotSource c = SourceHTTP \<or> UsagePush c \<or> BodyCapture c"
    using that req ok(2)
    by (auto simp: c required_problems_def control_needed_def needed_def SourceFile_def SourceHTTP_def split: if_splits)
  moreover have "ChatLargeBodySlots c > 0 \<longrightarrow>
      RequestBodyMaxBytes c \<le> ChatLargeBodyMaxBytes c \<and> ordinaryResponseBytes < ChatLargeResponseMaxBytes c"
    using ok(4) by (auto simp: c pool_problems_def split: if_splits)
  ultimately show ?thesis by (simp add: config_wf_def)
qed

section \<open>The order of the environment\<close>

text \<open>The reference and field an entry sets, if it is an upstream's.\<close>

definition slot_of :: "string \<Rightarrow> (string \<times> upstream_field) option" where
  "slot_of kv =
     (case Cut kv (CHR ''='') of (name, val, found) \<Rightarrow>
        if \<not> found \<or> \<not> HasPrefix name (envPrefix @ ''UPSTREAM_'') then None
        else let rest = TrimPrefix name (envPrefix @ ''UPSTREAM_'') in
          if rest \<in> set reservedUpstreamSettings then None
          else case upstream_field_of rest of
            None \<Rightarrow> None | Some (ref, f) \<Rightarrow> if ref = [] then None else Some (ToLower ref, f))"

text \<open>What reading an entry does, seen through the maps and the multiset of complaints.\<close>

type_synonym upstream_reading = "(string \<Rightarrow> configured option) \<times> string multiset"

definition reading :: "configured gomap \<times> string list \<Rightarrow> upstream_reading" where
  "reading acc = (map_of (fst acc), mset (snd acc))"

definition read_slot :: "environment \<Rightarrow> string \<Rightarrow> upstream_reading \<Rightarrow> upstream_reading" where
  "read_slot e kv r =
     (case slot_of kv of
        None \<Rightarrow> (fst r, snd r + mset (snd (collect_setting e kv ([], []))))
      | Some (ref, f) \<Rightarrow>
          let u = (case fst r ref of None \<Rightarrow> configured_zero | Some u \<Rightarrow> u) in
          (case set_upstream e f (snd (env_entry kv)) (u\<lparr>upRef := ref\<rparr>) of
             None \<Rightarrow> (fst r, add_mset (fst (env_entry kv) @ '' must be at least 10s (e.g. 60s)'') (snd r))
           | Some u \<Rightarrow> ((fst r)(ref \<mapsto> u), snd r)))"

lemma reading_collect: "reading (collect_setting e kv acc) = read_slot e kv (reading acc)"
  by (auto simp: reading_def read_slot_def collect_setting_def slot_of_def env_entry_def Let_def go_maps
      split: prod.splits option.splits if_splits)

lemma reading_all: "reading (fold (collect_setting e) kvs acc) = fold (read_slot e) kvs (reading acc)"
  by (induction kvs arbitrary: acc) (simp_all add: reading_collect)

text \<open>Whether a value is accepted does not depend on the upstream it is set on.\<close>

definition set_ok :: "environment \<Rightarrow> upstream_field \<Rightarrow> string \<Rightarrow> bool" where
  "set_ok e f v \<longleftrightarrow> set_upstream e f v configured_zero \<noteq> None"

definition set_total :: "environment \<Rightarrow> upstream_field \<Rightarrow> string \<Rightarrow> configured \<Rightarrow> configured" where
  "set_total e f v u = the (set_upstream e f v u)"

lemma set_upstream_split: "set_upstream e f v u = (if set_ok e f v then Some (set_total e f v u) else None)"
  by (auto simp: set_ok_def set_total_def set_upstream_def split: upstream_field.splits option.splits)

lemma set_total_commute:
  "set_ok e f v \<Longrightarrow> set_ok e g w \<Longrightarrow> f \<noteq> g \<Longrightarrow> set_total e f v (set_total e g w u) = set_total e g w (set_total e f v u)"
  by (cases f; cases g) (auto simp: set_ok_def set_total_def set_upstream_def split: option.splits if_splits)

lemma set_total_ref: "set_ok e f v \<Longrightarrow> set_total e f v (u\<lparr>upRef := ref\<rparr>) = (set_total e f v u)\<lparr>upRef := ref\<rparr>"
  by (cases f) (auto simp: set_ok_def set_total_def set_upstream_def split: option.splits if_splits)

lemma read_slot_commute:
  assumes "slot_of kv = None \<or> slot_of kv' = None \<or> slot_of kv \<noteq> slot_of kv'"
  shows "read_slot e kv (read_slot e kv' r) = read_slot e kv' (read_slot e kv r)"
proof (cases "slot_of kv = None \<or> slot_of kv' = None")
  case True
  then show ?thesis
    by (auto simp: read_slot_def Let_def ac_simps split: option.splits prod.splits)
next
  case False
  then obtain ref f ref' f' where s: "slot_of kv = Some (ref, f)" "slot_of kv' = Some (ref', f')" by auto
  show ?thesis
  proof (cases "ref = ref'")
    case False
    then show ?thesis using s by (simp add: read_slot_def Let_def set_upstream_split fun_upd_twist)
  next
    case True
    then show ?thesis
      using s assms by (simp add: read_slot_def Let_def set_upstream_split set_total_ref set_total_commute)
  qed
qed

text \<open>Every upstream setting of the environment is for another field or another reference.\<close>

definition settings_apart :: "string list \<Rightarrow> bool" where
  "settings_apart kvs \<longleftrightarrow> distinct (map fst (map env_entry kvs)) \<and> distinct (map slot_of (filter (\<lambda>kv. slot_of kv \<noteq> None) kvs))"

lemma slots_apart:
  assumes "settings_apart kvs" "x \<in> set kvs" "y \<in> set kvs" "x \<noteq> y"
  shows "slot_of x = None \<or> slot_of y = None \<or> slot_of x \<noteq> slot_of y"
  using assms by (auto simp: settings_apart_def distinct_map inj_on_def)

lemma read_slots_perm:
  assumes "settings_apart kvs" "mset kvs = mset kvs'"
  shows "fold (read_slot e) kvs r = fold (read_slot e) kvs' r"
proof -
  have "fold (read_slot e) kvs = fold (read_slot e) kvs'"
  proof (rule fold_multiset_equiv [OF _ assms(2)])
    show "read_slot e x \<circ> read_slot e y = read_slot e y \<circ> read_slot e x" if "x \<in> set kvs" "y \<in> set kvs" for x y
      using slots_apart [OF assms(1) that] read_slot_commute by (cases "x = y") (auto simp: fun_eq_iff)
  qed
  then show ?thesis by simp
qed

lemma completed_of:
  "distinct (map fst ups) \<Longrightarrow>
   map_of (concat (map (\<lambda>x. case complete_upstream e x of Inl _ \<Rightarrow> [] | Inr u \<Rightarrow> [(fst x, u)]) ups)) ref =
   (case map_of ups ref of None \<Rightarrow> None | Some u \<Rightarrow> (case complete_upstream e (ref, u) of Inl _ \<Rightarrow> None | Inr u \<Rightarrow> Some u))"
  by (induction ups) (auto split: sum.splits option.splits simp: map_of_eq_None_iff dest!: map_of_SomeD)

lemma mset_concat_perm:
  assumes "mset xs = mset ys"
  shows "mset (concat (map f xs)) = mset (concat (map f ys))"
proof -
  have "mset (concat (map f zs)) = (\<Sum>z\<in>#mset zs. mset (f z))" for zs by (induction zs) simp_all
  then show ?thesis using assms by simp
qed

lemma upstreams_perm:
  assumes "settings_apart (environ e)" "mset (environ e) = mset kvs"
    and "upstreamsFromEnv e = (ups, errs)" "upstreamsFromEnv (e\<lparr>environ := kvs\<rparr>) = (ups', errs')"
  shows "map_of ups' = map_of ups \<and> mset errs' = mset errs"
proof -
  let ?e = "e\<lparr>environ := kvs\<rparr>"
  have su: "set_upstream ?e f v u = set_upstream e f v u" for f v u by (cases f) (simp_all add: set_upstream_def)
  have dp: "defaultProbeInterval ?e u = defaultProbeInterval e u" for u
    by (cases "urlHost e u") (simp_all add: defaultProbeInterval_def)
  have same: "collect_setting ?e = collect_setting e" "complete_upstream ?e = complete_upstream e"
    unfolding fun_eq_iff collect_setting_def complete_upstream_def su dp by (intro allI refl)+
  obtain cs es where c: "fold (collect_setting e) (environ e) ([], []) = (cs, es)" by fastforce
  obtain cs' es' where c': "fold (collect_setting e) kvs ([], []) = (cs', es')" by fastforce
  have "reading (cs, es) = reading (cs', es')"
    using read_slots_perm [OF assms(1,2), of e "reading ([], [])"] c c' reading_all [of e "environ e" "([], [])"]
      reading_all [of e kvs "([], [])"] by simp
  then have m: "map_of cs = map_of cs'" "mset es = mset es'" by (simp_all add: reading_def)
  have d: "distinct (map fst cs)" "distinct (map fst cs')"
    using collect_all_collected [of "([], [])" e "environ e"] collect_all_collected [of "([], [])" e kvs] c c'
    by (simp_all add: collected_def)
  then have "mset cs = mset cs'"
    using m(1) map_of_inject_set [OF d] by (simp add: set_eq_iff_mset_eq_distinct distinct_map)
  then have err: "mset (concat (map (\<lambda>x. case complete_upstream e x of Inl err \<Rightarrow> [err] | Inr _ \<Rightarrow> []) cs)) =
      mset (concat (map (\<lambda>x. case complete_upstream e x of Inl err \<Rightarrow> [err] | Inr _ \<Rightarrow> []) cs'))"
    by (rule mset_concat_perm)
  have "map_of ups' ref = map_of ups ref" for ref
    using assms(3,4) c c' completed_of [OF d(1), of e ref] completed_of [OF d(2), of e ref] m(1)
    by (auto simp: upstreamsFromEnv_def same)
  then show ?thesis using assms(3,4) c c' m(2) err by (auto simp: upstreamsFromEnv_def same)
qed

lemma getenv_perm:
  assumes "settings_apart (environ e)" "mset (environ e) = mset kvs"
  shows "getenv (e\<lparr>environ := kvs\<rparr>) = getenv e"
proof -
  have m: "mset (map env_entry kvs) = mset (map env_entry (environ e))" using assms(2) by (metis mset_map)
  then have "mset (map fst (map env_entry kvs)) = mset (map fst (map env_entry (environ e)))" unfolding mset_map by simp
  then have "distinct (map fst (map env_entry kvs))"
    using assms(1) mset_eq_imp_distinct_iff unfolding settings_apart_def by blast
  then have "map_of (map env_entry kvs) = map_of (map env_entry (environ e))"
    using assms(1) mset_eq_setD [OF m] unfolding settings_apart_def by (intro map_of_perm) blast+
  then show ?thesis by (simp add: getenv_def fun_eq_iff)
qed

definition same_config :: "Config \<Rightarrow> Config \<Rightarrow> bool" where
  "same_config c c' \<longleftrightarrow> c'\<lparr>Upstreams := []\<rparr> = c\<lparr>Upstreams := []\<rparr> \<and> map_of (Upstreams c') = map_of (Upstreams c)"

text \<open>
  C29. The order of the environment is irrelevant. When no variable is given twice and no upstream's field is
  set under two spellings of its reference, every ordering of the same environment is judged alike: the
  same complaints, in the same text, or the same configuration, with the same upstreams under the same
  references.
\<close>

theorem environment_order_irrelevant:
  assumes "settings_apart (environ e)" "mset (environ e) = mset kvs"
  shows "case FromEnv e of
      Inl errs \<Rightarrow> FromEnv (e\<lparr>environ := kvs\<rparr>) = Inl errs
    | Inr c \<Rightarrow> \<exists>c'. FromEnv (e\<lparr>environ := kvs\<rparr>) = Inr c' \<and> same_config c c'"
proof -
  let ?e = "e\<lparr>environ := kvs\<rparr>" and ?d = "config_defaults e"
  note g = getenv_perm [OF assms]
  have d: "config_defaults ?e = ?d" by (simp add: config_defaults_def g)
  have "apply_setting ?e = apply_setting e" by (simp add: fun_eq_iff apply_setting_def g)
  moreover have "tuning_settings ?e = tuning_settings e" by (simp add: tuning_settings_def duration_setting_def)
  ultimately have f': "fold (apply_setting ?e) (tuning_settings ?e) = fold (apply_setting e) (tuning_settings e)" by simp
  obtain c errs where f: "fold (apply_setting e) (tuning_settings e) (?d, required_problems ?d) = (c, errs)" by fastforce
  obtain ups upErrs where u: "upstreamsFromEnv e = (ups, upErrs)" by fastforce
  obtain ups' upErrs' where u': "upstreamsFromEnv ?e = (ups', upErrs')" by fastforce
  have p: "map_of ups' = map_of ups" "mset upErrs' = mset upErrs" using upstreams_perm [OF assms u u'] by simp_all
  then have none: "ups' = [] \<longleftrightarrow> ups = []" "upErrs' = [] \<longleftrightarrow> upErrs = []"
    by (metis map_of_eq_empty_iff, metis mset_zero_iff)
  let ?push = "switched_on (getenv e ''USAGE_PUSH'' [])" and ?capture = "switched_on (getenv e ''BODY_CAPTURE'' [])"
  let ?reset = "getenv e ''ALLOW_GENERATION_RESET'' []"
  define c1 where "c1 = c\<lparr>AllowGenerationReset := (?reset = ''1'' \<or> EqualFold ?reset ''true''), UsagePush := ?push,
      BodyCapture := ?capture\<rparr>"
  define pre where "pre = errs @ (if ?push then control_needed c1 else []) @ (if ?capture then control_needed c1 else []) @ pool_problems c1"
  define post where "post = (if ups = [] then [''at least one upstream is required ('' @ envPrefix @ ''UPSTREAM_<REF>_BASE_URL)''] else [])"
  have e: "FromEnv e = (if pre @ upErrs @ post \<noteq> [] then Inl (sort (pre @ upErrs @ post)) else Inr (c1\<lparr>Upstreams := ups\<rparr>))"
    unfolding FromEnv_def f prod.case u Let_def c1_def [symmetric] pre_def post_def append_assoc ..
  have e': "FromEnv ?e = (if pre @ upErrs' @ post \<noteq> [] then Inl (sort (pre @ upErrs' @ post)) else Inr (c1\<lparr>Upstreams := ups'\<rparr>))"
    unfolding FromEnv_def d f' f prod.case u' g none(1) Let_def c1_def [symmetric] pre_def post_def append_assoc ..
  have "sort (pre @ upErrs' @ post) = sort (pre @ upErrs @ post)"
    by (rule properties_for_sort) (simp_all add: p(2))
  then show ?thesis unfolding e e' by (simp add: none(2) same_config_def p(1))
qed

section \<open>An environment with one upstream\<close>

definition small_environment :: environment where
  "small_environment = \<lparr>environ =
     [''LLMGW_LISTEN=:8080'', ''LLMGW_SNAPSHOT_PATH=s.json'', ''LLMGW_SPOOL_DIR=spool'', ''LLMGW_UPSTREAM_GPU_BASE_URL=http://g/v1/''],
     parseDuration = (\<lambda>s. None), urlHost = (\<lambda>u. Some ''g''), localAddress = (\<lambda>h. False)\<rparr>"

lemma small_starts: "case FromEnv small_environment of Inl _ \<Rightarrow> False | Inr c \<Rightarrow> UpstreamRefs c = [''gpu'']"
  by code_simp

theorem started_configuration_witness:
  "\<exists>c. FromEnv small_environment = Inr c \<and> config_wf c"
proof -
  obtain c where "FromEnv small_environment = Inr c" using small_starts by (auto split: sum.splits)
  then show ?thesis using started_configuration [of small_environment c] by blast
qed

theorem environment_order_irrelevant_witness:
  "\<exists>c c'. FromEnv small_environment = Inr c \<and>
     FromEnv (small_environment\<lparr>environ := rev (environ small_environment)\<rparr>) = Inr c' \<and> same_config c c'"
proof -
  obtain c where "FromEnv small_environment = Inr c" using small_starts by (auto split: sum.splits)
  moreover have "settings_apart (environ small_environment)" by code_simp
  ultimately show ?thesis
    using environment_order_irrelevant [of small_environment "rev (environ small_environment)"] by simp
qed

end
