(* ===== verification/Snapshot_Load.thy ===== *)
theory Snapshot_Load
  imports Snapshot_Policy "HOL-Library.Multiset"
begin

text \<open>
  The document loader of \<open>internal/snapshot/snapshot.go\<close>: decoding the envelope and its entries
  the way \<open>encoding/json\<close> fills a struct, the normalisation of the lists, the per-entry checks, and
  \<open>build\<close> itself. A document is the JSON value its bytes denote, \<^const>\<open>None\<close> when they denote none.
  The RFC 3339 reader behind \<open>time.Time\<close> is the parameter \<open>parseTime\<close>; messages are values of
  \<open>problem\<close> carrying what the source interpolates.
\<close>

section \<open>Documents\<close>

definition Model_fields :: "Model field list" where
  "Model_fields =
     [(''publicName'', string_field (\<lambda>s. PublicName_update (\<lambda>_. s))),
      (''upstreamRef'', string_field (\<lambda>s. UpstreamRef_update (\<lambda>_. s))),
      (''upstreamModel'', string_field (\<lambda>s. UpstreamModel_update (\<lambda>_. s))),
      (''fallbackRef'', string_field (\<lambda>s. FallbackRef_update (\<lambda>_. s))),
      (''visibility'', string_field (\<lambda>s. Visibility_update (\<lambda>_. s))),
      (''maxInputTokens'', int_field (\<lambda>n. MaxInputTokens_update (\<lambda>_. n))),
      (''maxOutputTokens'', int_field (\<lambda>n. MaxOutputTokens_update (\<lambda>_. n))),
      (''budgetAxis'', string_field (\<lambda>s. BudgetAxis_update (\<lambda>_. s)))]"

definition Model_zero :: Model where
  "Model_zero = \<lparr>PublicName = [], UpstreamRef = [], UpstreamModel = [], FallbackRef = [], Visibility = [],
     MaxInputTokens = 0, MaxOutputTokens = 0, BudgetAxis = []\<rparr>"

definition dec_Model :: "json \<Rightarrow> Model option" where
  "dec_Model j = dec_struct False Model_fields j Model_zero"

definition Limits_fields :: "Limits field list" where
  "Limits_fields =
     [(''rpm'', int_field (\<lambda>n. Rpm_update (\<lambda>_. n))),
      (''tpm'', int_field (\<lambda>n. Tpm_update (\<lambda>_. n))),
      (''concurrency'', int_field (\<lambda>n. Concurrency_update (\<lambda>_. n)))]"

definition time_field :: "(string \<Rightarrow> int option) \<Rightarrow> json \<Rightarrow> Key \<Rightarrow> Key option" where
  "time_field parseTime j k =
     (case j of
        JNull \<Rightarrow> Some (k\<lparr>ExpiresAt := None\<rparr>)
      | JStr s \<Rightarrow> map_option (\<lambda>t. k\<lparr>ExpiresAt := Some t\<rparr>) (parseTime s)
      | _ \<Rightarrow> None)"

definition limits_field :: "json \<Rightarrow> Key \<Rightarrow> Key option" where
  "limits_field j k =
     map_option (\<lambda>l. k\<lparr>KeyLimits := l\<rparr>) (dec_struct False Limits_fields j (KeyLimits k))"

definition Key_fields :: "(string \<Rightarrow> int option) \<Rightarrow> Key field list" where
  "Key_fields parseTime =
     [(''keyId'', string_field (\<lambda>s. KeyID_update (\<lambda>_. s))),
      (''tokenHash'', string_field (\<lambda>s. TokenHash_update (\<lambda>_. s))),
      (''status'', string_field (\<lambda>s. Status_update (\<lambda>_. s))),
      (''expiresAt'', time_field parseTime),
      (''allowedModels'', strings_field (\<lambda>xs. AllowedModels_update (\<lambda>_. xs))),
      (''creditAllowedModels'', strings_field (\<lambda>xs. CreditAllowedModels_update (\<lambda>_. xs))),
      (''creditDeniedModels'', strings_field (\<lambda>xs. CreditDeniedModels_update (\<lambda>_. xs))),
      (''passthroughEndpoints'', strings_field (\<lambda>xs. PassthroughEndpoints_update (\<lambda>_. xs))),
      (''limits'', limits_field),
      (''quotaExhausted'', bool_field (\<lambda>b. QuotaExhausted_update (\<lambda>_. b))),
      (''upstreamCredentials'',
        strmap_field UpstreamCredentials (\<lambda>m. UpstreamCredentials_update (\<lambda>_. m))),
      (''creditPending'', bool_field (\<lambda>b. CreditPending_update (\<lambda>_. b))),
      (''recordBodies'', bool_field (\<lambda>b. RecordBodies_update (\<lambda>_. b)))]"

definition Key_zero :: Key where
  "Key_zero = \<lparr>KeyID = [], TokenHash = [], Status = [], ExpiresAt = None, AllowedModels = [],
     CreditAllowedModels = [], CreditDeniedModels = [], PassthroughEndpoints = [],
     KeyLimits = \<lparr>Rpm = 0, Tpm = 0, Concurrency = 0\<rparr>, QuotaExhausted = False,
     UpstreamCredentials = [], CreditPending = False, RecordBodies = False\<rparr>"

definition dec_Key :: "(string \<Rightarrow> int option) \<Rightarrow> json \<Rightarrow> Key option" where
  "dec_Key parseTime j = dec_struct False (Key_fields parseTime) j Key_zero"

text \<open>The envelope; its three pointer members tell absent from zero.\<close>

record envelope =
  envFormatVersion :: int
  envGeneration :: int
  envServiceEnabled :: "bool option"
  envModels :: "json list option"
  envKeys :: "json list option"
  envPassthroughRef :: string

definition list_pointer :: "(json list option \<Rightarrow> 'r \<Rightarrow> 'r) \<Rightarrow> json \<Rightarrow> 'r \<Rightarrow> 'r option" where
  "list_pointer upd j r =
     (case j of JNull \<Rightarrow> Some (upd None r) | JArr xs \<Rightarrow> Some (upd (Some xs) r) | _ \<Rightarrow> None)"

definition bool_pointer :: "(bool option \<Rightarrow> 'r \<Rightarrow> 'r) \<Rightarrow> json \<Rightarrow> 'r \<Rightarrow> 'r option" where
  "bool_pointer upd j r =
     (case j of JNull \<Rightarrow> Some (upd None r) | JBool b \<Rightarrow> Some (upd (Some b) r) | _ \<Rightarrow> None)"

definition envelope_fields :: "envelope field list" where
  "envelope_fields =
     [(''formatVersion'', int_field (\<lambda>n. envFormatVersion_update (\<lambda>_. n))),
      (''generation'', int_field (\<lambda>n. envGeneration_update (\<lambda>_. n))),
      (''serviceEnabled'', bool_pointer (\<lambda>b. envServiceEnabled_update (\<lambda>_. b))),
      (''models'', list_pointer (\<lambda>l. envModels_update (\<lambda>_. l))),
      (''keys'', list_pointer (\<lambda>l. envKeys_update (\<lambda>_. l))),
      (''passthroughRef'', string_field (\<lambda>s. envPassthroughRef_update (\<lambda>_. s)))]"

definition envelope_zero :: envelope where
  "envelope_zero = \<lparr>envFormatVersion = 0, envGeneration = 0, envServiceEnabled = None,
     envModels = None, envKeys = None, envPassthroughRef = []\<rparr>"

definition dec_envelope :: "bool \<Rightarrow> json \<Rightarrow> envelope option" where
  "dec_envelope fromControl j = dec_struct (\<not> fromControl) envelope_fields j envelope_zero"

section \<open>Entry checks\<close>

datatype problem =
    PassthroughUnknown string
  | ModelUnreadable nat
  | ModelFieldsRequired nat
  | ModelVisibility string string
  | ModelAxis string string
  | ModelUpstream string string
  | ModelFallback string string
  | ModelDuplicate string
  | KeyUnreadable nat
  | CredentialsCollide string string
  | PatternUnusable string string string
  | KeyIDRequired nat
  | KeyHash string
  | KeyStatus string string
  | KeyDuplicate string

datatype load_error =
    NotADocument
  | ServiceEnabledMissing
  | ListsMissing
  | EntryRefused problem

definition is_hex :: "char \<Rightarrow> bool" where
  "is_hex c \<longleftrightarrow> is_digit c \<or> 97 \<le> (of_char c :: nat) \<and> (of_char c :: nat) \<le> 102
     \<or> 65 \<le> (of_char c :: nat) \<and> (of_char c :: nat) \<le> 70"

definition validHash :: "string \<Rightarrow> bool" where
  "validHash h =
     (if length h \<noteq> 64 then False
      else if \<not> (even (length h) \<and> list_all is_hex h) then False
      else h = ToLower h)"

text \<open>\<open>seen\<close> and \<open>out\<close> hold the same tokens, so the result list serves as both.\<close>

fun endpoint_loop :: "string list \<Rightarrow> string list \<Rightarrow> string list" where
  "endpoint_loop out [] = out"
| "endpoint_loop out (token # tokens) =
     (let lower = ToLower (TrimSpace token) in
      if lower = [] \<or> lower \<in> set out then endpoint_loop out tokens
      else endpoint_loop (out @ [lower]) tokens)"

definition normalizeEndpoints :: "string list \<Rightarrow> string list" where
  "normalizeEndpoints tokens = (if tokens = [] then [] else endpoint_loop [] tokens)"

fun pattern_loop :: "string list \<Rightarrow> string list \<Rightarrow> string + string list" where
  "pattern_loop normed [] = Inr normed"
| "pattern_loop normed (pattern # ps) =
     (let lower = ToLower (TrimSpace pattern) in
      if lower = [] \<or> \<not> creditModelPattern lower then Inl pattern
      else pattern_loop (normed @ [lower]) ps)"

definition normalizeCreditPatterns ::
  "string list \<Rightarrow> string \<Rightarrow> string \<Rightarrow> string list \<times> problem option" where
  "normalizeCreditPatterns patterns keyID field =
     (if patterns = [] then (patterns, None)
      else case pattern_loop [] patterns of
             Inl bad \<Rightarrow> (patterns, Some (PatternUnusable keyID field bad))
           | Inr normed \<Rightarrow> (normed, None))"

text \<open>The loop over a key's credentials, in whatever order the map yields them.\<close>

fun credential_loop :: "string gomap \<Rightarrow> string gomap \<Rightarrow> string gomap \<times> string option" where
  "credential_loop normed [] = (normed, None)"
| "credential_loop normed ((ref, cred) # rest) =
     (if cred = [] then credential_loop normed rest
      else let lower = ToLower ref in
        if map_of normed lower \<noteq> None then (normed, Some lower)
        else credential_loop (AList.update lower cred normed) rest)"

definition known_ref :: "string list option \<Rightarrow> string \<Rightarrow> bool" where
  "known_ref known ref = (case known of None \<Rightarrow> True | Some refs \<Rightarrow> ref \<in> set refs)"

definition modelProblem :: "Model \<Rightarrow> nat \<Rightarrow> string list option \<Rightarrow> string list \<Rightarrow> problem option" where
  "modelProblem m i known seen =
     (if PublicName m = [] \<or> UpstreamRef m = [] \<or> UpstreamModel m = [] then Some (ModelFieldsRequired i)
      else if Visibility m \<notin> {[], ModelPublic, ModelRestricted}
        then Some (ModelVisibility (PublicName m) (Visibility m))
      else if BudgetAxis m \<notin> {[], AxisToken, AxisCredit}
        then Some (ModelAxis (PublicName m) (BudgetAxis m))
      else if \<not> known_ref known (ToLower (UpstreamRef m))
        then Some (ModelUpstream (PublicName m) (UpstreamRef m))
      else if FallbackRef m \<noteq> [] \<and> \<not> known_ref known (ToLower (FallbackRef m))
        then Some (ModelFallback (PublicName m) (FallbackRef m))
      else if PublicName m \<in> set seen then Some (ModelDuplicate (PublicName m))
      else None)"

definition keyProblem :: "Key \<Rightarrow> nat \<Rightarrow> string list \<Rightarrow> problem option" where
  "keyProblem k i seen =
     (if KeyID k = [] then Some (KeyIDRequired i)
      else if \<not> validHash (TokenHash k) then Some (KeyHash (KeyID k))
      else if Status k \<notin> {KeyActive, KeySuspended, KeyRevoked} then Some (KeyStatus (KeyID k) (Status k))
      else if TokenHash k \<in> set seen then Some (KeyDuplicate (KeyID k))
      else None)"

section \<open>Reading one entry\<close>

text \<open>The body of the model loop: the model to append, or why the entry cannot be used.\<close>

definition read_model ::
  "string list option \<Rightarrow> nat \<Rightarrow> json \<Rightarrow> string list \<Rightarrow> problem + Model" where
  "read_model known i raw seen =
     (case dec_Model raw of
        None \<Rightarrow> Inl (ModelUnreadable i)
      | Some m0 \<Rightarrow>
          let m = m0\<lparr>UpstreamRef := ToLower (UpstreamRef m0), FallbackRef := ToLower (FallbackRef m0)\<rparr>
          in case modelProblem m i known seen of Some p \<Rightarrow> Inl p | None \<Rightarrow> Inr m)"

definition normalize_credentials :: "Key \<Rightarrow> Key \<times> problem option" where
  "normalize_credentials k =
     (if UpstreamCredentials k = [] then (k, None)
      else case credential_loop [] (UpstreamCredentials k) of (normed, collision) \<Rightarrow>
        (k\<lparr>UpstreamCredentials := normed\<rparr>, map_option (CredentialsCollide (KeyID k)) collision))"

definition read_key ::
  "(string \<Rightarrow> int option) \<Rightarrow> nat \<Rightarrow> json \<Rightarrow> string list \<Rightarrow> problem + Key" where
  "read_key parseTime i raw seen =
     (case dec_Key parseTime raw of
        None \<Rightarrow> Inl (KeyUnreadable i)
      | Some k0 \<Rightarrow>
        (case normalize_credentials k0 of
           (k1, Some p) \<Rightarrow> Inl p
         | (k1, None) \<Rightarrow>
        (case normalizeCreditPatterns (CreditAllowedModels k1) (KeyID k1) ''creditAllowedModels'' of
           (allowed, Some p) \<Rightarrow> Inl p
         | (allowed, None) \<Rightarrow>
        (case normalizeCreditPatterns (CreditDeniedModels k1) (KeyID k1) ''creditDeniedModels'' of
           (denied, Some p) \<Rightarrow> Inl p
         | (denied, None) \<Rightarrow>
             let k = k1\<lparr>CreditAllowedModels := allowed, CreditDeniedModels := denied,
                       PassthroughEndpoints := normalizeEndpoints (PassthroughEndpoints k1)\<rparr>
             in case keyProblem k i seen of Some p \<Rightarrow> Inl p | None \<Rightarrow> Inr k))))"

section \<open>The whole document\<close>

record state =
  doc :: Document
  byHash :: "Key gomap"
  byPublic :: "Model gomap"
  loadedAt :: int
  rejected :: nat
  dropReasons :: "problem list"

text \<open>
  The two entry loops have one shape: read the next entry against the identities accepted so far,
  append it, or drop it. From the control plane a drop is counted; from a file it ends the load.
\<close>

fun load_entries ::
  "bool \<Rightarrow> (nat \<Rightarrow> json \<Rightarrow> string list \<Rightarrow> problem + 'e) \<Rightarrow> ('e \<Rightarrow> string) \<Rightarrow> nat \<Rightarrow> json list \<Rightarrow>
     'e list \<Rightarrow> problem list \<Rightarrow> load_error + 'e list \<times> problem list" where
  "load_entries fromControl read ident i [] acc dropped = Inr (acc, dropped)"
| "load_entries fromControl read ident i (raw # raws) acc dropped =
     (case read i raw (map ident acc) of
        Inl p \<Rightarrow> if fromControl then load_entries fromControl read ident (Suc i) raws acc (dropped @ [p])
                else Inl (EntryRefused p)
      | Inr e \<Rightarrow> load_entries fromControl read ident (Suc i) raws (acc @ [e]) dropped)"

definition index_by :: "('e \<Rightarrow> string) \<Rightarrow> 'e list \<Rightarrow> 'e gomap" where
  "index_by ident es = fold (\<lambda>e. AList.update (ident e) e) es []"

definition build ::
  "(string \<Rightarrow> int option) \<Rightarrow> int \<Rightarrow> json option \<Rightarrow> string list option \<Rightarrow> bool \<Rightarrow> load_error + state" where
  "build parseTime now raw known fromControl =
     (case Option.bind raw (dec_envelope fromControl) of
        None \<Rightarrow> Inl NotADocument
      | Some env \<Rightarrow>
        (case envServiceEnabled env of
           None \<Rightarrow> Inl ServiceEnabledMissing
         | Some enabled \<Rightarrow>
        (case (envModels env, envKeys env) of
           (Some rawModels, Some rawKeys) \<Rightarrow>
             let ref = ToLower (envPassthroughRef env);
                 unknown = (ref \<noteq> [] \<and> \<not> known_ref known ref)
             in if unknown \<and> \<not> fromControl then Inl (EntryRefused (PassthroughUnknown ref))
             else
              (case load_entries fromControl (read_model known) PublicName 0 rawModels []
                      (if unknown then [PassthroughUnknown ref] else []) of
                 Inl e \<Rightarrow> Inl e
               | Inr (models, dropped) \<Rightarrow>
              (case load_entries fromControl (read_key parseTime) TokenHash 0 rawKeys [] dropped of
                 Inl e \<Rightarrow> Inl e
               | Inr (keys, dropped') \<Rightarrow>
                   Inr \<lparr>doc = \<lparr>FormatVersion = envFormatVersion env, Generation = envGeneration env,
                              ServiceEnabled = enabled, Models = models, Keys = keys,
                              PassthroughRef = (if unknown then [] else ref)\<rparr>,
                        byHash = index_by TokenHash keys, byPublic = index_by PublicName models,
                        loadedAt = now, rejected = length dropped', dropReasons = dropped'\<rparr>))
         | _ \<Rightarrow> Inl ListsMissing)))"

definition Validate :: "(string \<Rightarrow> int option) \<Rightarrow> int \<Rightarrow> json option \<Rightarrow> load_error option" where
  "Validate parseTime now raw =
     (case build parseTime now raw None False of Inl e \<Rightarrow> Some e | Inr _ \<Rightarrow> None)"

section \<open>What the normalisations do\<close>

abbreviation "normal_form s \<equiv> ToLower (TrimSpace s)"

lemma endpoint_loop_set:
  "set (endpoint_loop out tokens) = set out \<union> {normal_form t |t. t \<in> set tokens \<and> normal_form t \<noteq> []}"
  by (induction out tokens rule: endpoint_loop.induct) (auto simp: Let_def)

lemma endpoint_loop_distinct: "distinct out \<Longrightarrow> distinct (endpoint_loop out tokens)"
  by (induction out tokens rule: endpoint_loop.induct) (auto simp: Let_def)

lemma normalizeEndpoints_set:
  "set (normalizeEndpoints tokens) = {normal_form t |t. t \<in> set tokens \<and> normal_form t \<noteq> []}"
  by (auto simp: normalizeEndpoints_def endpoint_loop_set)

lemma pattern_loop_Inr:
  "pattern_loop out ps = Inr qs \<longleftrightarrow>
     qs = out @ map normal_form ps \<and> (\<forall>p\<in>set ps. normal_form p \<noteq> [] \<and> creditModelPattern (normal_form p))"
  by (induction out ps rule: pattern_loop.induct) (auto simp: Let_def)

lemma normalizeCreditPatterns_None:
  "normalizeCreditPatterns ps kid fld = (qs, None) \<longleftrightarrow>
     qs = map normal_form ps \<and> (\<forall>p\<in>set ps. normal_form p \<noteq> [] \<and> creditModelPattern (normal_form p))"
  using pattern_loop_Inr [of "[]" ps] by (cases "pattern_loop [] ps") (auto simp: normalizeCreditPatterns_def)

text \<open>The entries that survive the credential loop, under their lowered references.\<close>

definition usable_credentials :: "string gomap \<Rightarrow> string gomap" where
  "usable_credentials creds = map (\<lambda>(r, c). (ToLower r, c)) (filter (\<lambda>(r, c). c \<noteq> []) creds)"

lemma credential_loop_None:
  "credential_loop out creds = (res, None) \<longleftrightarrow>
     res = out @ usable_credentials creds \<and>
     distinct (map fst (usable_credentials creds)) \<and>
     fst ` set out \<inter> fst ` set (usable_credentials creds) = {}"
proof (induction out creds rule: credential_loop.induct)
  case (1 out)
  then show ?case by (auto simp: usable_credentials_def)
next
  case (2 out ref cred rest)
  have upd: "map_of out k = None \<Longrightarrow> AList.update k v out = out @ [(k, v)]" for k v
    by (induction out) (auto split: if_splits)
  have dom: "map_of out k = None \<longleftrightarrow> k \<notin> fst ` set out" for k by (simp add: map_of_eq_None_iff)
  show ?case
  proof (cases "cred = []")
    case True
    then show ?thesis using 2 by (simp add: usable_credentials_def)
  next
    case False
    have cons: "usable_credentials ((ref, cred) # rest) = (ToLower ref, cred) # usable_credentials rest"
      using False by (simp add: usable_credentials_def)
    show ?thesis
    proof (cases "map_of out (ToLower ref) = None")
      case True
      then show ?thesis using 2(2) [OF False] False dom by (auto simp: upd cons Let_def)
    next
      case dup: False
      then show ?thesis using False dom [of "ToLower ref"] by (auto simp: cons Let_def)
    qed
  qed
qed

lemma normalize_credentials_None:
  "normalize_credentials k = (k', None) \<longleftrightarrow>
     k' = k\<lparr>UpstreamCredentials := usable_credentials (UpstreamCredentials k)\<rparr> \<and>
     distinct (map fst (usable_credentials (UpstreamCredentials k)))"
proof (cases "UpstreamCredentials k")
  case Nil
  then show ?thesis by (auto simp: normalize_credentials_def usable_credentials_def)
next
  case (Cons a b)
  obtain out c where loop: "credential_loop [] (UpstreamCredentials k) = (out, c)" by fastforce
  have "normalize_credentials k =
      (k\<lparr>UpstreamCredentials := out\<rparr>, map_option (CredentialsCollide (KeyID k)) c)"
    using Cons loop by (simp add: normalize_credentials_def)
  moreover have "c = None \<longleftrightarrow> distinct (map fst (usable_credentials (UpstreamCredentials k)))"
    "c = None \<Longrightarrow> out = usable_credentials (UpstreamCredentials k)"
    using credential_loop_None [of "[]" "UpstreamCredentials k" out] loop
      credential_loop_None [of "[]" "UpstreamCredentials k" "usable_credentials (UpstreamCredentials k)"]
    by auto
  ultimately show ?thesis by auto
qed

section \<open>Accepted entries\<close>

definition wf_model :: "string list option \<Rightarrow> Model \<Rightarrow> bool" where
  "wf_model known m \<longleftrightarrow>
     PublicName m \<noteq> [] \<and> UpstreamRef m \<noteq> [] \<and> UpstreamModel m \<noteq> [] \<and>
     Visibility m \<in> {[], ModelPublic, ModelRestricted} \<and> BudgetAxis m \<in> {[], AxisToken, AxisCredit} \<and>
     ToLower (UpstreamRef m) = UpstreamRef m \<and> ToLower (FallbackRef m) = FallbackRef m \<and>
     known_ref known (UpstreamRef m) \<and> (FallbackRef m = [] \<or> known_ref known (FallbackRef m))"

definition usable_pattern :: "string \<Rightarrow> bool" where
  "usable_pattern p \<longleftrightarrow> p \<noteq> [] \<and> creditModelPattern p \<and> ToLower p = p"

definition wf_key :: "Key \<Rightarrow> bool" where
  "wf_key k \<longleftrightarrow>
     KeyID k \<noteq> [] \<and> validHash (TokenHash k) \<and> Status k \<in> {KeyActive, KeySuspended, KeyRevoked} \<and>
     list_all usable_pattern (CreditAllowedModels k) \<and> list_all usable_pattern (CreditDeniedModels k) \<and>
     list_all (\<lambda>e. e \<noteq> [] \<and> ToLower (TrimSpace e) = e) (PassthroughEndpoints k) \<and>
     distinct (map fst (UpstreamCredentials k)) \<and>
     list_all (\<lambda>(r, c). ToLower r = r \<and> c \<noteq> []) (UpstreamCredentials k)"

text \<open>What the gateway keeps of an entry's two money lists, compared with the entry as decoded.\<close>

definition fence_kept :: "(string \<Rightarrow> int option) \<Rightarrow> json \<Rightarrow> Key \<Rightarrow> bool" where
  "fence_kept parseTime raw k \<longleftrightarrow>
     (case dec_Key parseTime raw of None \<Rightarrow> False
      | Some k0 \<Rightarrow> CreditAllowedModels k = map normal_form (CreditAllowedModels k0) \<and>
                  CreditDeniedModels k = map normal_form (CreditDeniedModels k0))"

lemma read_model_Inr:
  assumes "read_model known i raw seen = Inr m"
  shows "wf_model known m" "PublicName m \<notin> set seen"
  using assms
  by (auto simp: read_model_def Let_def modelProblem_def wf_model_def split: option.splits if_splits)

lemma read_key_Inr:
  assumes "read_key parseTime i raw seen = Inr k"
  shows "wf_key k \<and> TokenHash k \<notin> set seen \<and> fence_kept parseTime raw k"
proof -
  from assms obtain k0 k1 allowed denied where
    k0: "dec_Key parseTime raw = Some k0" "normalize_credentials k0 = (k1, None)"
    "normalizeCreditPatterns (CreditAllowedModels k1) (KeyID k1) ''creditAllowedModels'' = (allowed, None)"
    "normalizeCreditPatterns (CreditDeniedModels k1) (KeyID k1) ''creditDeniedModels'' = (denied, None)"
    and k: "k = k1\<lparr>CreditAllowedModels := allowed, CreditDeniedModels := denied,
                       PassthroughEndpoints := normalizeEndpoints (PassthroughEndpoints k1)\<rparr>"
    and ok: "keyProblem k i seen = None"
    by (auto simp: read_key_def Let_def split: option.splits prod.splits)
  have creds: "k1 = k0\<lparr>UpstreamCredentials := usable_credentials (UpstreamCredentials k0)\<rparr>"
    "distinct (map fst (usable_credentials (UpstreamCredentials k0)))"
    using k0(2) by (auto simp: normalize_credentials_None)
  have idem: "normal_form (normal_form t) = normal_form t" for t by (simp add: ToLower_TrimSpace)
  have "KeyID k \<noteq> []" "validHash (TokenHash k)" "Status k \<in> {KeyActive, KeySuspended, KeyRevoked}"
    "TokenHash k \<notin> set seen"
    using ok unfolding keyProblem_def by (auto split: if_splits)
  moreover have "list_all usable_pattern (CreditAllowedModels k)" "list_all usable_pattern (CreditDeniedModels k)"
    using k0(3,4) k by (auto simp: normalizeCreditPatterns_None usable_pattern_def list_all_iff)
  moreover have "list_all (\<lambda>e. e \<noteq> [] \<and> normal_form e = e) (PassthroughEndpoints k)"
    using k by (auto simp: normalizeEndpoints_set list_all_iff idem)
  moreover have "UpstreamCredentials k = usable_credentials (UpstreamCredentials k0)"
    using k creds by simp
  moreover have "fence_kept parseTime raw k"
    using k0 k creds by (auto simp: fence_kept_def normalizeCreditPatterns_None)
  ultimately show ?thesis
    using creds(2) by (auto simp: wf_key_def list_all_iff usable_credentials_def)
qed

section \<open>The entry loop\<close>

text \<open>
  What the loop needs of a reader: an accepted entry is good, its identity is new, and it stands in
  a fixed relation to the bytes it was read from.
\<close>

locale entry_reader =
  fixes read :: "nat \<Rightarrow> json \<Rightarrow> string list \<Rightarrow> problem + 'e"
    and ident :: "'e \<Rightarrow> string"
    and good :: "json \<Rightarrow> 'e \<Rightarrow> bool"
  assumes read_good: "read i raw seen = Inr e \<Longrightarrow> good raw e"
    and read_fresh: "read i raw seen = Inr e \<Longrightarrow> ident e \<notin> set seen"
begin

lemma entries_good:
  "load_entries c read ident i raws acc dropped = Inr (es, ds) \<Longrightarrow>
     e \<in> set es \<Longrightarrow> e \<in> set acc \<or> (\<exists>raw\<in>set raws. good raw e)"
proof (induction raws arbitrary: i acc dropped)
  case (Cons raw raws)
  show ?case
  proof (cases "read i raw (map ident acc)")
    case (Inl p)
    then show ?thesis using Cons.prems Cons.IH by (fastforce split: if_splits)
  next
    case (Inr x)
    then have "e \<in> set (acc @ [x]) \<or> (\<exists>raw\<in>set raws. good raw e)"
      using Cons.prems Cons.IH [of "Suc i" "acc @ [x]" dropped] by simp
    then show ?thesis using read_good [OF Inr] by auto
  qed
qed simp

lemma entries_distinct:
  "load_entries c read ident i raws acc dropped = Inr (es, ds) \<Longrightarrow>
     distinct (map ident acc) \<Longrightarrow> distinct (map ident es)"
proof (induction raws arbitrary: i acc dropped)
  case (Cons raw raws)
  show ?case
  proof (cases "read i raw (map ident acc)")
    case (Inl p)
    then show ?thesis using Cons by (auto split: if_splits)
  next
    case (Inr x)
    then have "distinct (map ident (acc @ [x]))" using read_fresh [OF Inr] Cons.prems(2) by auto
    then show ?thesis using Inr Cons.prems(1) Cons.IH [of "Suc i" "acc @ [x]" dropped] by simp
  qed
qed simp

lemma entries_count:
  "load_entries c read ident i raws acc dropped = Inr (es, ds) \<Longrightarrow>
     length es + length ds = length acc + length dropped + length raws \<and> (\<not> c \<longrightarrow> ds = dropped)"
  by (induction raws arbitrary: i acc dropped) (fastforce split: sum.splits if_splits)+

lemma entries_total: "\<exists>es ds. load_entries True read ident i raws acc dropped = Inr (es, ds)"
  by (induction raws arbitrary: i acc dropped) (auto split: sum.splits)

end

interpretation models_in: entry_reader "read_model known" PublicName "\<lambda>raw. wf_model known"
  by unfold_locales (auto dest: read_model_Inr)

interpretation keys_in: entry_reader "read_key parseTime" TokenHash "\<lambda>raw k. wf_key k \<and> fence_kept parseTime raw k"
  by unfold_locales (auto dest: read_key_Inr)

lemma map_of_index_by:
  assumes "distinct (map ident es)"
  shows "map_of (index_by ident es) x = Some e \<longleftrightarrow> e \<in> set es \<and> ident e = x"
proof -
  have "map_of (fold (\<lambda>e. AList.update (ident e) e) es m) x = Some e \<longleftrightarrow>
      e \<in> set es \<and> ident e = x \<or> x \<notin> ident ` set es \<and> map_of m x = Some e" for m
    using assms by (induction es arbitrary: m) (auto simp: go_maps)
  then show ?thesis by (simp add: index_by_def)
qed

section \<open>The loaded state\<close>

text \<open>The envelope \<open>build\<close> goes on with: the service flag and both lists are there.\<close>

definition complete_envelope :: "bool \<Rightarrow> json option \<Rightarrow> (bool \<times> json list \<times> json list \<times> envelope) option" where
  "complete_envelope c raw =
     (case Option.bind raw (dec_envelope c) of None \<Rightarrow> None
      | Some env \<Rightarrow>
         (case (envServiceEnabled env, envModels env, envKeys env) of
            (Some enabled, Some rawModels, Some rawKeys) \<Rightarrow> Some (enabled, rawModels, rawKeys, env)
          | _ \<Rightarrow> None))"

abbreviation ref_dropped :: "string list option \<Rightarrow> envelope \<Rightarrow> bool" where
  "ref_dropped known env \<equiv>
     envPassthroughRef env \<noteq> [] \<and> \<not> known_ref known (ToLower (envPassthroughRef env))"

lemma build_Inr:
  assumes "build parseTime now raw known c = Inr st"
  obtains enabled rawModels rawKeys env models dropped keys dropped' where
    "complete_envelope c raw = Some (enabled, rawModels, rawKeys, env)"
    "ref_dropped known env \<Longrightarrow> c"
    "load_entries c (read_model known) PublicName 0 rawModels []
       (if ref_dropped known env then [PassthroughUnknown (ToLower (envPassthroughRef env))] else []) =
       Inr (models, dropped)"
    "load_entries c (read_key parseTime) TokenHash 0 rawKeys [] dropped = Inr (keys, dropped')"
    "Models (doc st) = models" "Keys (doc st) = keys" "ServiceEnabled (doc st) = enabled"
    "Generation (doc st) = envGeneration env"
    "PassthroughRef (doc st) = (if ref_dropped known env then [] else ToLower (envPassthroughRef env))"
    "byHash st = index_by TokenHash keys" "byPublic st = index_by PublicName models"
    "dropReasons st = dropped'" "rejected st = length dropped'"
  using assms
  by (auto simp: build_def complete_envelope_def Let_def
      split: option.splits sum.splits prod.splits if_splits)

definition wf_state :: "string list option \<Rightarrow> state \<Rightarrow> bool" where
  "wf_state known st \<longleftrightarrow>
     list_all wf_key (Keys (doc st)) \<and> list_all (wf_model known) (Models (doc st)) \<and>
     distinct (map TokenHash (Keys (doc st))) \<and> distinct (map PublicName (Models (doc st))) \<and>
     (PassthroughRef (doc st) \<noteq> [] \<longrightarrow> known_ref known (PassthroughRef (doc st))) \<and>
     length (dropReasons st) = rejected st"

lemma build_index:
  assumes "build parseTime now raw known fromControl = Inr st"
  shows "map_of (byHash st) h = Some k \<longleftrightarrow> k \<in> set (Keys (doc st)) \<and> TokenHash k = h"
    "map_of (byPublic st) n = Some m \<longleftrightarrow> m \<in> set (Models (doc st)) \<and> PublicName m = n"
  by (rule build_Inr [OF assms];
      auto simp: map_of_index_by dest!: models_in.entries_distinct keys_in.entries_distinct)+

text \<open>
  C25. Every state the loader publishes is well formed, whoever wrote the document: its keys have an
  id, a hash of 64 lower-case hex digits and a known status; their money lists hold only patterns
  of the grammar, their credentials lower-cased, non-empty and unambiguous; its models name
  configured upstreams; no two entries share an identity; and the lookup maps answer a hash (or a
  public name) with an entry exactly when the document holds it.
\<close>

theorem build_wellformed:
  assumes "build parseTime now raw known fromControl = Inr st"
  shows "wf_state known st \<and>
    (\<forall>h k. map_of (byHash st) h = Some k \<longleftrightarrow> k \<in> set (Keys (doc st)) \<and> TokenHash k = h) \<and>
    (\<forall>n m. map_of (byPublic st) n = Some m \<longleftrightarrow> m \<in> set (Models (doc st)) \<and> PublicName m = n)"
proof (rule build_Inr [OF assms])
  fix enabled rawModels rawKeys env models dropped keys dropped'
  assume loads: "load_entries fromControl (read_model known) PublicName 0 rawModels []
      (if ref_dropped known env then [PassthroughUnknown (ToLower (envPassthroughRef env))] else []) =
      Inr (models, dropped)"
      "load_entries fromControl (read_key parseTime) TokenHash 0 rawKeys [] dropped = Inr (keys, dropped')"
    and st: "Models (doc st) = models" "Keys (doc st) = keys"
      "PassthroughRef (doc st) = (if ref_dropped known env then [] else ToLower (envPassthroughRef env))"
      "dropReasons st = dropped'" "rejected st = length dropped'"
  have distinct: "distinct (map PublicName models)" "distinct (map TokenHash keys)"
    using models_in.entries_distinct [OF loads(1)] keys_in.entries_distinct [OF loads(2)] by simp_all
  have "list_all (wf_model known) models" "list_all wf_key keys"
    using models_in.entries_good [OF loads(1)] keys_in.entries_good [OF loads(2)]
    by (auto simp: list_all_iff)
  then show ?thesis
    using distinct build_index [OF assms] by (simp add: st wf_state_def)
qed


text \<open>
  Strictness follows the writer. From a file nothing is dropped: a document loads only when
  every entry does. From the control plane a complete envelope always loads, and each entry that
  did not make it is counted, so entries accepted plus entries rejected are the entries written
  (a passthrough reference this host does not know counts as one).
\<close>

theorem build_accounts_for_entries:
  assumes "complete_envelope fromControl raw = Some (enabled, rawModels, rawKeys, env)"
  shows "(fromControl \<longrightarrow> (\<exists>st. build parseTime now raw known True = Inr st)) \<and>
    (\<forall>st. build parseTime now raw known fromControl = Inr st \<longrightarrow>
       length (Models (doc st)) + length (Keys (doc st)) + rejected st =
         length rawModels + length rawKeys + (if ref_dropped known env then 1 else 0) \<and>
       (\<not> fromControl \<longrightarrow> rejected st = 0 \<and>
          length (Models (doc st)) = length rawModels \<and> length (Keys (doc st)) = length rawKeys))"
proof (intro conjI allI impI)
  assume c: fromControl
  let ?d = "if ref_dropped known env then [PassthroughUnknown (ToLower (envPassthroughRef env))] else []"
  obtain ms ds where ms: "load_entries True (read_model known) PublicName 0 rawModels [] ?d = Inr (ms, ds)"
    using models_in.entries_total by blast
  obtain ks ds' where "load_entries True (read_key parseTime) TokenHash 0 rawKeys [] ds = Inr (ks, ds')"
    using keys_in.entries_total by blast
  then show "\<exists>st. build parseTime now raw known True = Inr st"
    using assms c ms
    by (auto simp: build_def complete_envelope_def Let_def split: option.splits if_splits)
next
  fix st assume load: "build parseTime now raw known fromControl = Inr st"
  have env: "complete_envelope fromControl raw = Some (e', rm, rk, env') \<Longrightarrow>
      rm = rawModels \<and> rk = rawKeys \<and> env' = env" for e' rm rk env' using assms by simp
  obtain models dropped keys dropped' where
    ref: "ref_dropped known env \<longrightarrow> fromControl"
    and ms: "load_entries fromControl (read_model known) PublicName 0 rawModels []
      (if ref_dropped known env then [PassthroughUnknown (ToLower (envPassthroughRef env))] else []) =
      Inr (models, dropped)"
    and ks: "load_entries fromControl (read_key parseTime) TokenHash 0 rawKeys [] dropped = Inr (keys, dropped')"
    and st: "Models (doc st) = models" "Keys (doc st) = keys" "rejected st = length dropped'"
    by (rule build_Inr [OF load], drule env) (elim conjE, hypsubst, blast)
  note counts = models_in.entries_count [OF ms] keys_in.entries_count [OF ks]
  show "length (Models (doc st)) + length (Keys (doc st)) + rejected st =
      length rawModels + length rawKeys + (if ref_dropped known env then 1 else 0)"
    using counts by (auto simp: st split: if_splits)
  assume strict: "\<not> fromControl"
  have "length dropped' = 0" using counts ref strict by auto
  then show "rejected st = 0" "length (Models (doc st)) = length rawModels"
    "length (Keys (doc st)) = length rawKeys"
    using counts ref strict by (auto simp: st)
qed

text \<open>
  A Go map has no order, and the loader ranges over a key's credentials: whichever order it
  gets, the verdict is the same, and so is the credential every later lookup finds.
\<close>

theorem credentials_order_irrelevant:
  assumes "distinct (map fst cs)" "distinct (map fst ds)" "set cs = set ds"
  shows "(snd (normalize_credentials (k\<lparr>UpstreamCredentials := cs\<rparr>)) = None) =
         (snd (normalize_credentials (k\<lparr>UpstreamCredentials := ds\<rparr>)) = None) \<and>
    (snd (normalize_credentials (k\<lparr>UpstreamCredentials := cs\<rparr>)) = None \<longrightarrow>
       CredentialFor (fst (normalize_credentials (k\<lparr>UpstreamCredentials := cs\<rparr>))) ref =
       CredentialFor (fst (normalize_credentials (k\<lparr>UpstreamCredentials := ds\<rparr>))) ref)"
proof -
  let ?u = usable_credentials
  have "mset cs = mset ds" using assms by (meson distinct_map set_eq_iff_mset_eq_distinct)
  then have "mset (?u cs) = mset (?u ds)" by (simp add: usable_credentials_def)
  then have same: "mset (map fst (?u cs)) = mset (map fst (?u ds))" "set (?u cs) = set (?u ds)"
    by (simp, metis mset_eq_setD)
  then have dist: "distinct (map fst (?u cs)) = distinct (map fst (?u ds))"
    by (metis mset_eq_imp_distinct_iff)
  have verdict: "snd (normalize_credentials (k\<lparr>UpstreamCredentials := es\<rparr>)) = None \<longleftrightarrow>
      distinct (map fst (?u es))" for es
    using normalize_credentials_None [of "k\<lparr>UpstreamCredentials := es\<rparr>"] by (metis Key.select_convs(11)
        Key.surjective Key.update_convs(11) prod.collapse snd_conv)
  show ?thesis
  proof (intro conjI impI)
    assume "snd (normalize_credentials (k\<lparr>UpstreamCredentials := cs\<rparr>)) = None"
    then have d: "distinct (map fst (?u cs))" "distinct (map fst (?u ds))" using verdict dist by auto
    then have "normalize_credentials (k\<lparr>UpstreamCredentials := cs\<rparr>) = (k\<lparr>UpstreamCredentials := ?u cs\<rparr>, None)"
      "normalize_credentials (k\<lparr>UpstreamCredentials := ds\<rparr>) = (k\<lparr>UpstreamCredentials := ?u ds\<rparr>, None)"
      by (simp_all add: normalize_credentials_None)
    moreover have "map_of (?u cs) = map_of (?u ds)" "?u cs = [] \<longleftrightarrow> ?u ds = []"
      using d same map_of_perm by (blast, metis set_empty)
    ultimately show "CredentialFor (fst (normalize_credentials (k\<lparr>UpstreamCredentials := cs\<rparr>))) ref =
       CredentialFor (fst (normalize_credentials (k\<lparr>UpstreamCredentials := ds\<rparr>))) ref"
      by (simp add: CredentialFor_def)
  qed (use verdict dist in auto)
qed

section \<open>A document\<close>

definition sample_hash :: string where
  "sample_hash = replicate 64 (CHR ''a'')"

text \<open>One model, one usable key with both lists, one key whose allow list holds a bare star.\<close>

definition sample_document :: json where
  "sample_document = JObj
     [(''generation'', JNum ''7''), (''serviceEnabled'', JBool True), (''passthroughRef'', JStr ''OpenRouter''),
      (''models'', JArr [JObj [(''publicName'', JStr ''pickle-general''), (''upstreamRef'', JStr ''VLLM''),
          (''upstreamModel'', JStr ''qwen'')]]),
      (''keys'', JArr
         [JObj [(''keyId'', JStr ''k1''), (''tokenHash'', JStr sample_hash), (''status'', JStr ''ACTIVE''),
            (''creditAllowedModels'', JArr [JStr ''OpenAI/*'']), (''creditDeniedModels'', JArr [JStr ''openai/*-pro'']),
            (''upstreamCredentials'', JObj [(''OpenRouter'', JStr ''secret''), (''vllm'', JStr [])])],
          JObj [(''keyId'', JStr ''k2''),
            (''creditAllowedModels'', JArr [JStr ''*''])]])]"

definition sample_state :: state where
  "sample_state = projr (build (\<lambda>_. None) 0 (Some sample_document) None True)"

lemma sample_facts:
  "case build (\<lambda>_. None) 0 (Some sample_document) None True of
     Inl _ \<Rightarrow> False
   | Inr st \<Rightarrow> (length (Models (doc st)), map TokenHash (Keys (doc st))) = (1, [sample_hash])"
  by code_simp

lemma sample_envelope:
  "case complete_envelope True (Some sample_document) of
     None \<Rightarrow> False | Some (e, ms, ks, env) \<Rightarrow> length ms = 1 \<and> length ks = 2"
  by code_simp

lemma sample_loads:
  "build (\<lambda>_. None) 0 (Some sample_document) None True = Inr sample_state"
  "length (Models (doc sample_state)) = 1" "map TokenHash (Keys (doc sample_state)) = [sample_hash]"
  using sample_facts by (auto simp: sample_state_def split: sum.splits)

lemma sample_key:
  "hd (Keys (doc sample_state)) \<in> set (Keys (doc sample_state))"
  "TokenHash (hd (Keys (doc sample_state))) = sample_hash" "length (Keys (doc sample_state)) = 1"
  using sample_loads(3) by (auto simp: map_eq_Cons_conv)

theorem build_wellformed_witness:
  "map_of (byHash sample_state) sample_hash = Some (hd (Keys (doc sample_state))) \<and> wf_state None sample_state"
  using build_wellformed [OF sample_loads(1)] sample_key(1,2) by blast


theorem build_accounts_for_entries_witness: "rejected sample_state = 1"
proof -
  obtain e ms ks env where
    env: "complete_envelope True (Some sample_document) = Some (e, ms, ks, env)" "length ms = 1" "length ks = 2"
    using sample_envelope by (auto split: option.splits prod.splits)
  have "length (Models (doc sample_state)) + length (Keys (doc sample_state)) + rejected sample_state =
      length ms + length ks + 0"
    using build_accounts_for_entries [OF env(1), THEN conjunct2, rule_format, OF sample_loads(1)]
    by (simp add: known_ref_def)
  then show ?thesis using env(2,3) sample_loads(2) sample_key(3) by simp
qed

theorem credentials_order_irrelevant_witness:
  "CredentialFor (fst (normalize_credentials (Key_zero\<lparr>UpstreamCredentials := [(''A'', ''x''), (''b'', ''y'')]\<rparr>))) ''a'' =
   CredentialFor (fst (normalize_credentials (Key_zero\<lparr>UpstreamCredentials := [(''b'', ''y''), (''A'', ''x'')]\<rparr>))) ''a''"
proof -
  have "snd (normalize_credentials (Key_zero\<lparr>UpstreamCredentials := [(''A'', ''x''), (''b'', ''y'')]\<rparr>)) = None"
    by code_simp
  then show ?thesis
    using credentials_order_irrelevant
      [of "[(''A'', ''x''), (''b'', ''y'')]" "[(''b'', ''y''), (''A'', ''x'')]" Key_zero "''a''"]
    by auto
qed

end
