(* ===== verification/Snapshot_Store.thy ===== *)
theory Snapshot_Store
  imports Snapshot_Load
begin

text \<open>
  The store of \<open>internal/snapshot/snapshot.go\<close>: it asks a source for a newer document, validates and
  swaps it, and guards the generation across restarts with a high-water file. A source is any state
  with a load and an accept operation; the store is generic in it, as in the source code. Operating
  system outcomes (what the source meets, whether a write succeeds, the clock) come in with each
  call.
\<close>

section \<open>State\<close>

datatype 'err store_error =
    SourceFailed 'err
  | NothingToServe
  | BuildFailed load_error
  | WentBackwards int int

record ('s, 'err) Store =
  cur :: "state option"
  source :: 's
  known :: "string list option"
  reloadFailures :: int
  highWaterFile :: "string option"
  highWater :: int
  allowGenReset :: bool
  fromControl :: bool
  lastError :: "'err store_error option"

record Options =
  KnownUpstreams :: "string list option"
  AllowGenerationReset :: bool
  FromControlPlane :: bool

text \<open>
  What one call meets: the source's environment, the clock, and whether the high-water file can be
  written. A source answers with an error, with \<^const>\<open>None\<close> for no change, or with a document's bytes.
\<close>

record 'e call_env =
  srcEnv :: 'e
  clock :: int
  hwWrites :: bool

type_synonym ('s, 'e, 'err) source_load = "'s \<Rightarrow> 'e \<Rightarrow> int \<Rightarrow> ('err + string option) \<times> 's"
type_synonym ('s, 'e) source_accept = "'s \<Rightarrow> 'e \<Rightarrow> 's"

text \<open>The library's readers: JSON text and RFC 3339 instants.\<close>

record readers =
  parse :: "string \<Rightarrow> json option"
  parseTime :: "string \<Rightarrow> int option"

section \<open>High-water file\<close>

definition readHighWater :: "string option \<Rightarrow> int" where
  "readHighWater file =
     (case file of None \<Rightarrow> 0
      | Some raw \<Rightarrow> (case parse_int64 (TrimSpace raw) of None \<Rightarrow> 0 | Some n \<Rightarrow> if n < 0 then 0 else n))"

text \<open>Written to a temporary file and renamed, so a failed write leaves the old content.\<close>

definition writeHighWater :: "bool \<Rightarrow> int \<Rightarrow> string option \<Rightarrow> string option" where
  "writeHighWater ok gen file = (if ok then Some (itoa gen @ [CHR 0x0A]) else file)"

section \<open>Operations\<close>

definition served_generation :: "('s, 'err) Store \<Rightarrow> int" where
  "served_generation s = (case cur s of None \<Rightarrow> 0 | Some st \<Rightarrow> Generation (doc st))"

definition reload ::
  "readers \<Rightarrow> ('s, 'e, 'err) source_load \<Rightarrow> ('s, 'e) source_accept \<Rightarrow> 'e call_env \<Rightarrow>
     ('s, 'err) Store \<Rightarrow> 'err store_error option \<times> ('s, 'err) Store" where
  "reload rd load accept e s =
     (case load (source s) (srcEnv e) (served_generation s) of
        (Inl err, src) \<Rightarrow> (Some (SourceFailed err), s\<lparr>source := src\<rparr>)
      | (Inr None, src) \<Rightarrow>
          (if cur s = None then (Some NothingToServe, s\<lparr>source := src\<rparr>) else (None, s\<lparr>source := src\<rparr>))
      | (Inr (Some raw), src) \<Rightarrow>
          (case build (parseTime rd) (clock e) (parse rd raw) (known s) (fromControl s) of
             Inl err \<Rightarrow> (Some (BuildFailed err), s\<lparr>source := src\<rparr>)
           | Inr st \<Rightarrow>
               let gen = Generation (doc st);
                   floor = (case cur s of None \<Rightarrow> highWater s
                            | Some prev \<Rightarrow> if Generation (doc prev) > highWater s
                                          then Generation (doc prev) else highWater s)
               in if gen < floor \<and> \<not> allowGenReset s
                  then (Some (WentBackwards gen floor), s\<lparr>source := src\<rparr>)
                  else
                    let s1 = s\<lparr>cur := Some st, source := accept src (srcEnv e)\<rparr>
                    in (None,
                        if gen > highWater s
                        then s1\<lparr>highWater := gen,
                                highWaterFile := writeHighWater (hwWrites e) gen (highWaterFile s)\<rparr>
                        else s1)))"

definition Open ::
  "readers \<Rightarrow> ('s, 'e, 'err) source_load \<Rightarrow> ('s, 'e) source_accept \<Rightarrow> 'e call_env \<Rightarrow>
     's \<Rightarrow> string option \<Rightarrow> Options \<Rightarrow> 'err store_error + ('s, 'err) Store" where
  "Open rd load accept e src file opts =
     (let s = \<lparr>cur = None, source = src, known = map_option (map ToLower) (KnownUpstreams opts),
               reloadFailures = 0, highWaterFile = file, highWater = readHighWater file,
               allowGenReset = AllowGenerationReset opts, fromControl = FromControlPlane opts,
               lastError = None\<rparr>
      in case reload rd load accept e s of
           (Some err, _) \<Rightarrow> Inl err
         | (None, s') \<Rightarrow> Inr s')"

definition Refresh ::
  "readers \<Rightarrow> ('s, 'e, 'err) source_load \<Rightarrow> ('s, 'e) source_accept \<Rightarrow> 'e call_env \<Rightarrow>
     ('s, 'err) Store \<Rightarrow> ('s, 'err) Store" where
  "Refresh rd load accept e s =
     (case reload rd load accept e s of
        (Some err, s') \<Rightarrow> s'\<lparr>reloadFailures := reloadFailures s' + 1, lastError := Some err\<rparr>
      | (None, s') \<Rightarrow> s'\<lparr>reloadFailures := 0, lastError := None\<rparr>)"

text \<open>What a request reads: the document and the two lookups, all of one state.\<close>

definition Current :: "('s, 'err) Store \<Rightarrow> (Document \<times> (string \<Rightarrow> Key option) \<times> (string \<Rightarrow> Model option)) option" where
  "Current s = map_option (\<lambda>st. (doc st, map_of (byHash st), map_of (byPublic st))) (cur s)"

definition RejectedEntries :: "('s, 'err) Store \<Rightarrow> nat" where
  "RejectedEntries s = (case cur s of None \<Rightarrow> 0 | Some st \<Rightarrow> rejected st)"

section \<open>Reading back the high-water mark\<close>

lemma TrimSpace_digits:
  assumes "ds \<noteq> []" "list_all (\<lambda>c. \<not> is_space c) ds"
  shows "TrimSpace (ds @ [CHR 0x0A]) = ds"
proof -
  have "dropWhile is_space (ds @ [CHR 0x0A]) = ds @ [CHR 0x0A]" using assms by (cases ds) auto
  moreover have "dropWhile is_space (rev ds) = rev ds"
    using assms by (cases ds rule: rev_cases) auto
  ultimately show ?thesis by (simp add: TrimSpace_def trim_right_def is_space_def [of "CHR 0x0A"])
qed

lemma itoa_no_space: "0 \<le> n \<Longrightarrow> itoa n \<noteq> [] \<and> list_all (\<lambda>c. \<not> is_space c) (itoa n)"
  using digits_of_digit [of "nat n"] digits_of_nonempty [of "nat n"]
  by (auto simp: itoa_def list_all_iff is_digit_def is_space_def)

lemma readHighWater_write:
  assumes "0 \<le> gen" "in_int64 gen"
  shows "readHighWater (writeHighWater True gen file) = gen"
  using assms itoa_no_space [of gen]
  by (simp add: readHighWater_def writeHighWater_def TrimSpace_digits parse_int64_itoa)

lemma readHighWater_nonneg: "0 \<le> readHighWater file"
  by (simp add: readHighWater_def split: option.splits)

lemma dec_members_invariant:
  assumes "\<And>f j r r'. f \<in> set flds \<Longrightarrow> snd f j r = Some r' \<Longrightarrow> P r \<Longrightarrow> P r'"
  shows "dec_members strict flds kvs r = Some r' \<Longrightarrow> P r \<Longrightarrow> P r'"
  using assms
proof (induction strict flds kvs r rule: dec_members.induct)
  case (2 strict flds name v kvs r)
  show ?case
  proof (cases "List.find (\<lambda>f. EqualFold (fst f) name) flds")
    case None
    then show ?thesis using 2 by (auto split: if_splits)
  next
    case (Some f)
    then have f: "f \<in> set flds" by (auto simp: find_Some_iff)
    with 2(3) Some obtain r1 where r1: "snd f v r = Some r1" "dec_members strict flds kvs r1 = Some r'"
      by (auto split: option.splits)
    moreover have "P r1" using 2(5) [OF f r1(1)] 2(4) by simp
    ultimately show ?thesis by (intro 2(2) [OF Some r1(1) r1(2) _ 2(5)])
  qed
qed simp

lemma dec_envelope_int64: "dec_envelope c j = Some env \<Longrightarrow> in_int64 (envGeneration env)"
proof -
  have fld: "in_int64 (envGeneration r')"
    if "f \<in> set envelope_fields" "snd f j r = Some r'" "in_int64 (envGeneration r)" for f j r r'
    using that parse_int64_range
    by (auto simp: envelope_fields_def int_field_def string_field_def list_pointer_def bool_pointer_def
        split: json.splits)
  have "dec_members (\<not> c) envelope_fields kvs r = Some r' \<Longrightarrow> in_int64 (envGeneration r) \<Longrightarrow>
      in_int64 (envGeneration r')" for kvs r r'
    using dec_members_invariant [of envelope_fields "\<lambda>r. in_int64 (envGeneration r)"] fld by blast
  moreover have "in_int64 (envGeneration envelope_zero)" by (simp add: envelope_zero_def in_int64_def)
  ultimately show "dec_envelope c j = Some env \<Longrightarrow> ?thesis"
    by (auto simp: dec_envelope_def dec_struct_def split: json.splits)
qed

lemma build_generation_int64:
  assumes "build pt now raw kn c = Inr st" shows "in_int64 (Generation (doc st))"
proof (rule build_Inr [OF assms])
  fix enabled rawModels rawKeys env
  assume "complete_envelope c raw = Some (enabled, rawModels, rawKeys, env)"
    "Generation (doc st) = envGeneration env"
  then show ?thesis
    using dec_envelope_int64 by (fastforce simp: complete_envelope_def split: option.splits bind_splits)
qed

section \<open>One reload\<close>

text \<open>The ways a reload can end: refused, nothing new, or a document applied.\<close>

lemma reload_cases [consumes 1, case_names Refused Unchanged Applied]:
  assumes "reload rd load accept e s = (r, s')"
  obtains err out src where "r = Some err"
      "load (source s) (srcEnv e) (served_generation s) = (out, src)" "s' = s\<lparr>source := src\<rparr>"
  | src where "r = None" "cur s \<noteq> None" "s' = s\<lparr>source := src\<rparr>"
      "load (source s) (srcEnv e) (served_generation s) = (Inr None, src)"
  | raw src st where "r = None" "load (source s) (srcEnv e) (served_generation s) = (Inr (Some raw), src)"
      "build (parseTime rd) (clock e) (parse rd raw) (known s) (fromControl s) = Inr st"
      "cur s' = Some st" "source s' = accept src (srcEnv e)"
      "allowGenReset s \<or> highWater s \<le> Generation (doc st) \<and>
         (cur s \<noteq> None \<longrightarrow> served_generation s \<le> Generation (doc st))"
      "highWater s' = max (highWater s) (Generation (doc st))"
      "highWaterFile s' = (if Generation (doc st) > highWater s
         then writeHighWater (hwWrites e) (Generation (doc st)) (highWaterFile s) else highWaterFile s)"
      "allowGenReset s' = allowGenReset s" "known s' = known s" "fromControl s' = fromControl s"
  using assms unfolding reload_def served_generation_def
  by (auto simp: Let_def split: prod.splits sum.splits option.splits if_splits)

section \<open>Sources\<close>

text \<open>
  What the store relies on: asking a source for a document commits nothing, only \<open>Accept\<close> does.
  \<open>persisted\<close> is what a source keeps of the documents it has delivered (the file identity it will
  not read again, the restart cache).
\<close>

locale snapshot_source =
  fixes load :: "('s, 'e, 'err) source_load"
    and accept :: "('s, 'e) source_accept"
    and persisted :: "'s \<Rightarrow> 'p"
  assumes load_commits_nothing: "load s e g = (out, s') \<Longrightarrow> persisted s' = persisted s"
begin

text \<open>A reload that does not end in a published state leaves no trace in the source.\<close>

lemma refused_not_persisted:
  "reload rd load accept e s = (Some err, s') \<Longrightarrow>
     persisted (source s') = persisted (source s) \<and> cur s' = cur s \<and> highWaterFile s' = highWaterFile s"
  by (cases rule: reload_cases, assumption) (auto dest: load_commits_nothing)

lemma refresh_persists_only_applied:
  assumes "persisted (source (Refresh rd load accept e s)) \<noteq> persisted (source s)"
  shows "\<exists>raw src st. load (source s) (srcEnv e) (served_generation s) = (Inr (Some raw), src) \<and>
    build (parseTime rd) (clock e) (parse rd raw) (known s) (fromControl s) = Inr st \<and>
    cur (Refresh rd load accept e s) = Some st \<and>
    source (Refresh rd load accept e s) = accept src (srcEnv e) \<and>
    lastError (Refresh rd load accept e s) = None"
proof -
  obtain r s' where r: "reload rd load accept e s = (r, s')" by fastforce
  then show ?thesis
  proof (cases rule: reload_cases)
    case Refused
    then show ?thesis using r assms by (auto simp: Refresh_def dest: load_commits_nothing)
  next
    case Unchanged
    then show ?thesis using r assms by (auto simp: Refresh_def dest: load_commits_nothing)
  next
    case Applied
    then show ?thesis using r by (auto simp: Refresh_def)
  qed
qed

end

section \<open>Generations across restarts\<close>

text \<open>A gateway process, or the high-water file it left behind when it stopped.\<close>

datatype ('s, 'err) system =
    Running "('s, 'err) Store"
  | Down "string option"

text \<open>
  A running store refreshes; a process stops, whatever state it is in; a stopped one is started with
  any source state and any environment, which may fail. The high-water file can be written (the
  code logs a failure and goes on, so only then does the guard reach across a restart).
\<close>

inductive system_step ::
  "readers \<Rightarrow> ('s, 'e, 'err) source_load \<Rightarrow> ('s, 'e) source_accept \<Rightarrow> Options \<Rightarrow>
     ('s, 'err) system \<Rightarrow> ('s, 'err) system \<Rightarrow> bool"
  for rd load accept opts where
  refresh: "hwWrites e \<Longrightarrow>
     system_step rd load accept opts (Running s) (Running (Refresh rd load accept e s))"
| stop: "system_step rd load accept opts (Running s) (Down (highWaterFile s))"
| start: "hwWrites e \<Longrightarrow> Open rd load accept e src file opts = Inr s \<Longrightarrow>
     system_step rd load accept opts (Down file) (Running s)"
| start_fails: "Open rd load accept e src file opts = Inl err \<Longrightarrow>
     system_step rd load accept opts (Down file) (Down file)"

inductive_cases system_stepE: "system_step rd load accept opts a b"

definition generation_level :: "('s, 'err) system \<Rightarrow> int" where
  "generation_level sys =
     (case sys of Running s \<Rightarrow> served_generation s | Down file \<Rightarrow> readHighWater file)"

text \<open>The guard's invariant: what is served, what is remembered and what is on disk agree.\<close>

definition guarded :: "('s, 'err) system \<Rightarrow> bool" where
  "guarded sys = (case sys of Down file \<Rightarrow> True
     | Running s \<Rightarrow> \<not> allowGenReset s \<and> cur s \<noteq> None \<and> highWater s = served_generation s \<and>
         readHighWater (highWaterFile s) = highWater s)"

lemma reload_guarded:
  assumes "reload rd load accept e s = (None, s')" "hwWrites e" "\<not> allowGenReset s"
    and "readHighWater (highWaterFile s) = highWater s"
    and "cur s \<noteq> None \<Longrightarrow> highWater s = served_generation s"
  shows "guarded (Running s') \<and> highWater s \<le> served_generation s'"
  using assms(1)
proof (cases rule: reload_cases)
  case Unchanged
  then show ?thesis using assms by (auto simp: guarded_def served_generation_def)
next
  case (Applied raw src st)
  have "0 \<le> highWater s" using assms(4) readHighWater_nonneg by metis
  moreover have "in_int64 (Generation (doc st))" using Applied build_generation_int64 by blast
  ultimately show ?thesis
    using Applied assms by (auto simp: guarded_def served_generation_def readHighWater_write)
qed simp

lemma system_step_guarded:
  assumes "system_step rd load accept opts a b" "guarded a" "\<not> AllowGenerationReset opts"
  shows "guarded b \<and> generation_level a \<le> generation_level b"
  using assms(1)
proof cases
  case (refresh e s)
  obtain r s' where r: "reload rd load accept e s = (r, s')" by fastforce
  show ?thesis
  proof (cases r)
    case None
    then have "guarded (Running s') \<and> highWater s \<le> served_generation s'"
      using reload_guarded [of rd load accept e s s'] r refresh assms(2) by (auto simp: guarded_def)
    then show ?thesis
      using refresh r None assms(2)
      by (auto simp: Refresh_def guarded_def generation_level_def served_generation_def)
  next
    case (Some err)
    from r obtain src where "s' = s\<lparr>source := src\<rparr>"
      using Some by (cases rule: reload_cases) auto
    then show ?thesis
      using refresh r Some assms(2)
      by (auto simp: Refresh_def guarded_def generation_level_def served_generation_def)
  qed
next
  case (stop s)
  then show ?thesis using assms(2) by (auto simp: guarded_def generation_level_def)
next
  case (start e src hw s)
  then obtain s0 where s0: "reload rd load accept e s0 = (None, s)" "cur s0 = None"
    "highWater s0 = readHighWater hw" "highWaterFile s0 = hw" "\<not> allowGenReset s0"
    using assms(3) by (auto simp: Open_def Let_def split: prod.splits option.splits)
  then have "guarded (Running s) \<and> highWater s0 \<le> served_generation s"
    using start(3) by (intro reload_guarded) auto
  then show ?thesis using start s0 by (simp add: generation_level_def)
next
  case start_fails
  then show ?thesis by (simp add: guarded_def)
qed


end
