(* ===== verification/Snapshot_Source.thy ===== *)
theory Snapshot_Source
  imports Snapshot_Store
begin

text \<open>
  The two document sources of \<open>internal/snapshot/source.go\<close>, a watched file and the control plane,
  with the sync request and its sanitized error text. Both interpret \<open>snapshot_source\<close>, so the
  store's lemmas hold for them. The HTTP exchange, the file system's answers and the JSON text
  reader are inputs.
\<close>

section \<open>File source\<close>

record FileSource =
  lastModTime :: int
  lastSize :: int
  pendingModTime :: int
  pendingSize :: int

text \<open>What \<open>os.Stat\<close> says (modification time and size) and what reading the file gives.\<close>

record file_env =
  fileStat :: "(int \<times> int) option"
  fileContent :: "string option"

datatype source_error =
    SnapshotFile
  | ControlPlane
  | ControlPlaneStatus nat string

definition file_Load :: "(FileSource, file_env, source_error) source_load" where
  "file_Load s e served =
     (case fileStat e of
        None \<Rightarrow> (Inl SnapshotFile, s)
      | Some (modTime, sz) \<Rightarrow>
          if served \<noteq> 0 \<and> modTime = lastModTime s \<and> sz = lastSize s then (Inr None, s)
          else (case fileContent e of
                  None \<Rightarrow> (Inl SnapshotFile, s)
                | Some raw \<Rightarrow> (Inr (Some raw), s\<lparr>pendingModTime := modTime, pendingSize := sz\<rparr>)))"

definition file_Accept :: "(FileSource, file_env) source_accept" where
  "file_Accept s e = s\<lparr>lastModTime := pendingModTime s, lastSize := pendingSize s\<rparr>"

interpretation file_src: snapshot_source file_Load file_Accept "\<lambda>s. (lastModTime s, lastSize s)"
  by unfold_locales (auto simp: file_Load_def split: option.splits prod.splits if_splits)

section \<open>The sync request\<close>

definition SupportedFormat :: int where "SupportedFormat = 1"
definition maxReportedError :: nat where "maxReportedError = 500"
definition maxDocumentBytes :: nat where "maxDocumentBytes = 32 * 2 ^ 20"

record PassiveUpstreamObservation =
  passiveLastAttemptAt :: int
  passiveLastSuccessAt :: int
  passiveLastFailureAt :: int
  passiveLastFailureType :: string
  passiveConsecutiveFailures :: int
  passiveCooldownUntil :: int

record ActiveUpstreamObservation =
  activeStatus :: string
  activeIntervalSeconds :: int
  activeLastAttemptAt :: int
  activeLastSuccessAt :: int
  activeLastFailureAt :: int
  activeLastFailureType :: string
  activeConsecutiveFailures :: int
  activeLatencyMs :: int
  activeModelCount :: int

record CatalogObservation =
  catalogStatus :: string
  ExpectedModelCount :: int
  MissingModelCount :: int
  UnexpectedModelCount :: int
  MissingPublicModels :: "string list"

record UpstreamObservation =
  obsRef :: string
  obsPassive :: PassiveUpstreamObservation
  obsActive :: ActiveUpstreamObservation
  obsCatalog :: CatalogObservation

record SyncGauges =
  gInFlight :: int
  gMaxInFlight :: int
  gUpstreamRefs :: "string list"
  gRejectedEntries :: int
  gReloadFailures :: int
  gLastError :: string
  gBodiesDropped :: int
  gUsageShipFailures :: int
  gSpoolWriteFailures :: int
  gStartedAt :: int
  gUpstreamObservationFormat :: int
  gUpstreams :: "UpstreamObservation list"
  gLastUsageShipSuccessAt :: int
  gUsageQueueObservedAt :: int
  gOldestUnshippedEventAt :: int
  gQueuedUsageEvents :: int
  gQueuedUsageBytes :: int
  gUsageQueueScanFailures :: int

text \<open>
  The request carries the gauges field by field, zero when nobody supplies them, and what the source
  itself knows.
\<close>

record SyncRequest = SyncGauges +
  AppliedGeneration :: int
  reqSupportedFormat :: int
  AgentVersion :: string

definition SyncGauges_zero :: SyncGauges where
  "SyncGauges_zero =
     \<lparr>gInFlight = 0, gMaxInFlight = 0, gUpstreamRefs = [], gRejectedEntries = 0, gReloadFailures = 0,
      gLastError = [], gBodiesDropped = 0, gUsageShipFailures = 0, gSpoolWriteFailures = 0,
      gStartedAt = 0, gUpstreamObservationFormat = 0, gUpstreams = [], gLastUsageShipSuccessAt = 0,
      gUsageQueueObservedAt = 0, gOldestUnshippedEventAt = 0, gQueuedUsageEvents = 0,
      gQueuedUsageBytes = 0, gUsageQueueScanFailures = 0\<rparr>"

definition sanitizeReported :: "string \<Rightarrow> string" where
  "sanitizeReported s =
     (if s = [] then []
      else TrimSpace (take maxReportedError
        (map (\<lambda>r. if (of_char r :: nat) < 0x20 \<or> (of_char r :: nat) = 0x7f then CHR 0x20 else r) s)))"

definition sync_request :: "string \<Rightarrow> SyncGauges option \<Rightarrow> int \<Rightarrow> SyncRequest" where
  "sync_request version gauges served =
     SyncGauges.extend
       (case gauges of None \<Rightarrow> SyncGauges_zero
        | Some g \<Rightarrow> g\<lparr>gLastError := sanitizeReported (gLastError g)\<rparr>)
       (SyncRequest.fields served SupportedFormat version)"

section \<open>Control-plane source\<close>

record HTTPSource =
  cacheFile :: "string option"
  pending :: "string option"
  delivered :: bool

text \<open>
  What one exchange meets: the control plane as a function of the request, and the local disk's
  answers for the cache. A response is a transport failure, or a status with the body and whether
  reading it failed.
\<close>

datatype http_response =
    TransportFailed
  | Answered nat string bool

record http_env =
  respond :: "SyncRequest \<Rightarrow> http_response"
  agent :: string
  gaugesNow :: "SyncGauges option"
  cacheReadable :: bool
  cacheWritable :: bool

record probe =
  probeKeys :: "json option"
  probeModels :: "json option"

definition raw_pointer :: "(json option \<Rightarrow> 'r \<Rightarrow> 'r) \<Rightarrow> json \<Rightarrow> 'r \<Rightarrow> 'r option" where
  "raw_pointer upd j r = (case j of JNull \<Rightarrow> Some (upd None r) | _ \<Rightarrow> Some (upd (Some j) r))"

definition dec_probe :: "json \<Rightarrow> probe option" where
  "dec_probe j =
     dec_struct False
       [(''keys'', raw_pointer (\<lambda>v. probeKeys_update (\<lambda>_. v))),
        (''models'', raw_pointer (\<lambda>v. probeModels_update (\<lambda>_. v)))]
       j \<lparr>probeKeys = None, probeModels = None\<rparr>"

definition fetch :: "(string \<Rightarrow> json option) \<Rightarrow> http_env \<Rightarrow> int \<Rightarrow> source_error + string option" where
  "fetch parseText e served =
     (case respond e (sync_request (agent e) (gaugesNow e) served) of
        TransportFailed \<Rightarrow> Inl ControlPlane
      | Answered status body readFails \<Rightarrow>
          if status \<noteq> 200 then Inl (ControlPlaneStatus status (TrimSpace (take 512 body)))
          else if readFails then Inl ControlPlane
          else let raw = take maxDocumentBytes body in
            case Option.bind (parseText raw) dec_probe of
              None \<Rightarrow> Inl ControlPlane
            | Some p \<Rightarrow>
                if probeKeys p = None \<and> probeModels p = None then Inr None else Inr (Some raw))"

definition cached :: "HTTPSource \<Rightarrow> http_env \<Rightarrow> string option" where
  "cached s e = (if cacheReadable e then cacheFile s else None)"

definition http_Load :: "(string \<Rightarrow> json option) \<Rightarrow> (HTTPSource, http_env, source_error) source_load" where
  "http_Load parseText s e served =
     (case fetch parseText e served of
        Inr (Some raw) \<Rightarrow> (Inr (Some raw), s\<lparr>pending := Some raw, delivered := True\<rparr>)
      | Inr None \<Rightarrow>
          (case (served = 0 \<and> \<not> delivered s, cached s e) of
             (True, Some c) \<Rightarrow> (Inr (Some c), s\<lparr>delivered := True, pending := None\<rparr>)
           | _ \<Rightarrow> (Inr None, s\<lparr>delivered := True\<rparr>))
      | Inl err \<Rightarrow>
          (case (\<not> delivered s, cached s e) of
             (True, Some c) \<Rightarrow> (Inr (Some c), s\<lparr>delivered := True, pending := None\<rparr>)
           | _ \<Rightarrow> (Inl err, s)))"

definition writeCache :: "bool \<Rightarrow> string \<Rightarrow> HTTPSource \<Rightarrow> HTTPSource" where
  "writeCache ok raw s = (if ok then s\<lparr>cacheFile := Some raw\<rparr> else s)"

definition http_Accept :: "(HTTPSource, http_env) source_accept" where
  "http_Accept s e =
     (case pending s of None \<Rightarrow> s
      | Some raw \<Rightarrow> (writeCache (cacheWritable e) raw s)\<lparr>pending := None\<rparr>)"

interpretation http_src: snapshot_source "http_Load parseText" http_Accept cacheFile
  by unfold_locales
    (auto simp: http_Load_def split: sum.splits option.splits prod.splits if_splits bool.splits)

section \<open>Properties\<close>

lemma trim_right_length: "length (trim_right p s) \<le> length s"
  by (simp add: trim_right_def) (metis length_dropWhile_le length_rev)

lemma TrimSpace_length: "length (TrimSpace s) \<le> length s"
  unfolding TrimSpace_def by (meson le_trans length_dropWhile_le trim_right_length)

lemma set_trim_right: "set (trim_right p s) \<subseteq> set s"
  by (auto simp: trim_right_def dest: set_dropWhileD)

lemma set_TrimSpace: "set (TrimSpace s) \<subseteq> set s"
  unfolding TrimSpace_def using set_trim_right set_dropWhileD by fastforce

text \<open>
  The error text reported to the control plane fits the field and carries no control
  characters, whatever an upstream or a parser put into the error.
\<close>

theorem sync_request_error_safe:
  "length (gLastError (sync_request version gauges served)) \<le> maxReportedError \<and>
   list_all (\<lambda>c. 0x20 \<le> (of_char c :: nat) \<and> (of_char c :: nat) \<noteq> 0x7f)
     (gLastError (sync_request version gauges served))"
proof -
  let ?clean = "\<lambda>c :: char. 0x20 \<le> (of_char c :: nat) \<and> (of_char c :: nat) \<noteq> 0x7f"
  have "length (sanitizeReported s) \<le> maxReportedError" for s
    by (auto simp: sanitizeReported_def intro: order.trans [OF TrimSpace_length])
  moreover have "\<forall>c \<in> set (sanitizeReported s). ?clean c" for s
  proof
    fix c assume "c \<in> set (sanitizeReported s)"
    then have "c \<in> set (map (\<lambda>r. if (of_char r :: nat) < 0x20 \<or> (of_char r :: nat) = 0x7f then CHR 0x20 else r) s)"
      unfolding sanitizeReported_def using set_TrimSpace set_take_subset
      by (fastforce split: if_splits)
    then show "?clean c" by (auto split: if_splits)
  qed
  ultimately show ?thesis
    by (auto simp: sync_request_def list_all_iff SyncGauges.extend_def SyncGauges_zero_def split: option.splits)
qed


text \<open>
  A file the store refused is not forgotten: as long as it lies there unchanged, every refresh
  offers it again and fails again, so the failure keeps being counted and reported.
\<close>

theorem refused_file_is_retried:
  assumes "reload rd file_Load file_Accept e s = (Some (BuildFailed err), s')"
    and "served_generation s \<noteq> 0"
  shows "reload rd file_Load file_Accept e s' = (Some (BuildFailed err), s') \<and>
    reloadFailures (Refresh rd file_Load file_Accept e s') = reloadFailures s' + 1 \<and>
    served_generation s' = served_generation s"
proof -
  obtain raw m n where ld: "fileStat e' = Some (m, n)" "fileContent e' = Some raw"
    "\<not> (m = lastModTime (source s) \<and> n = lastSize (source s))"
    "build (parseTime rd) (clock e) (parse rd raw) (known s) (fromControl s) = Inl err"
    and s': "s' = s\<lparr>source := (source s)\<lparr>pendingModTime := m, pendingSize := n\<rparr>\<rparr>"
    if "e' = srcEnv e" for e'
    using assms unfolding reload_def
    by (auto simp: file_Load_def Let_def split: option.splits prod.splits sum.splits if_splits)
  have served: "served_generation s' = served_generation s" using s' by (simp add: served_generation_def)
  have "reload rd file_Load file_Accept e s' = (Some (BuildFailed err), s')"
    using ld [OF refl] s' assms(2) by (auto simp: reload_def file_Load_def served_generation_def)
  then show ?thesis using served by (simp add: Refresh_def)
qed

section \<open>Concrete runs\<close>

definition tiny_document :: json where
  "tiny_document = JObj [(''generation'', JNum ''3''), (''serviceEnabled'', JBool True),
     (''models'', JArr []), (''keys'', JArr [])]"

text \<open>A reader that knows one text.\<close>

definition tiny_readers :: readers where
  "tiny_readers = \<lparr>parse = (\<lambda>t. if t = ''D'' then Some tiny_document else None), parseTime = (\<lambda>_. None)\<rparr>"

definition tiny_file :: "string \<Rightarrow> file_env call_env" where
  "tiny_file content =
     \<lparr>srcEnv = \<lparr>fileStat = Some (1, 1), fileContent = Some content\<rparr>, clock = 0, hwWrites = True\<rparr>"

definition tiny_http :: "http_env call_env" where
  "tiny_http = \<lparr>srcEnv = \<lparr>respond = (\<lambda>r. Answered 200 ''D'' False), agent = ''v1'', gaugesNow = None,
     cacheReadable = True, cacheWritable = True\<rparr>, clock = 0, hwWrites = True\<rparr>"

definition tiny_state :: state where
  "tiny_state = \<lparr>doc = \<lparr>FormatVersion = 0, Generation = 3, ServiceEnabled = True, Models = [], Keys = [],
     PassthroughRef = []\<rparr>, byHash = [], byPublic = [], loadedAt = 0, rejected = 0, dropReasons = []\<rparr>"

definition tiny_store :: "'s \<Rightarrow> state option \<Rightarrow> ('s, source_error) Store" where
  "tiny_store src st = \<lparr>cur = st, source = src, known = None, reloadFailures = 0, highWaterFile = None,
     highWater = 0, allowGenReset = False, fromControl = True, lastError = None\<rparr>"

definition fresh_file :: FileSource where
  "fresh_file = \<lparr>lastModTime = 0, lastSize = 0, pendingModTime = 0, pendingSize = 0\<rparr>"

definition fresh_http :: HTTPSource where
  "fresh_http = \<lparr>cacheFile = None, pending = None, delivered = False\<rparr>"

definition default_options :: Options where
  "default_options = \<lparr>KnownUpstreams = None, AllowGenerationReset = False, FromControlPlane = True\<rparr>"

lemma tiny_build: "build (\<lambda>_. None) 0 (Some tiny_document) None True = Inr tiny_state"
  by code_simp


theorem refused_file_is_retried_witness:
  "reloadFailures (Refresh tiny_readers file_Load file_Accept (tiny_file ''bad'')
     (snd (reload tiny_readers file_Load file_Accept (tiny_file ''bad'') (tiny_store fresh_file (Some tiny_state))))) = 1"
proof -
  let ?r = "reload tiny_readers file_Load file_Accept (tiny_file ''bad'') (tiny_store fresh_file (Some tiny_state))"
  have r: "fst ?r = Some (BuildFailed NotADocument)" "reloadFailures (snd ?r) = 0"
    by (simp_all add: reload_def file_Load_def tiny_file_def tiny_store_def tiny_readers_def fresh_file_def
        served_generation_def tiny_state_def build_def)
  have "served_generation (tiny_store fresh_file (Some tiny_state) :: (FileSource, source_error) Store) \<noteq> 0"
    by (simp add: served_generation_def tiny_store_def tiny_state_def)
  then show ?thesis
    using refused_file_is_retried [of tiny_readers "tiny_file ''bad''" "tiny_store fresh_file (Some tiny_state)"
        NotADocument "snd ?r"] r by (metis add_0 prod.collapse)
qed


end
