(* ===== verification/Spool.thy ===== *)
theory Spool
  imports Go_Json
begin

text \<open>
  The usage spool of \<open>internal/spool/spool.go\<close>: the event, the cost literal it may carry, the day files
  an append goes to, and retention. A day file is its bytes; the directory is a Go map from day to
  file. The formatting of an instant as a UTC day is the library's and comes in as the day itself.
\<close>

section \<open>Events\<close>

record Event =
  EventUUID :: string
  EvGeneration :: int
  EvKeyID :: string
  PublicModelName :: string
  EvBudgetAxis :: string
  EvUpstreamRef :: string
  Attempts :: "int option"
  EvStatus :: string
  ErrorType :: string
  InputTokens :: int
  OutputTokens :: int
  Estimated :: bool
  LatencyMs :: int
  TtftMs :: int
  RequestedAt :: int
  EvEndpoint :: string
  ServedModelName :: string
  CostUsd :: string
  ImageCount :: int
  CachedInputTokens :: int
  ReasoningTokens :: int
  Streamed :: bool

abbreviation "StatusOK \<equiv> ''OK''"
abbreviation "StatusAuthRejected \<equiv> ''AUTH_REJECTED''"
abbreviation "StatusRateLimited \<equiv> ''RATE_LIMITED''"
abbreviation "StatusBadRequest \<equiv> ''BAD_REQUEST''"
abbreviation "StatusUpstreamErr \<equiv> ''UPSTREAM_ERROR''"
abbreviation "StatusTimeout \<equiv> ''TIMEOUT''"
abbreviation "StatusCanceled \<equiv> ''CANCELED''"

definition Event_zero :: Event where
  "Event_zero = \<lparr>EventUUID = [], EvGeneration = 0, EvKeyID = [], PublicModelName = [], EvBudgetAxis = [],
     EvUpstreamRef = [], Attempts = None, EvStatus = [], ErrorType = [], InputTokens = 0, OutputTokens = 0,
     Estimated = False, LatencyMs = 0, TtftMs = 0, RequestedAt = 0, EvEndpoint = [], ServedModelName = [],
     CostUsd = [], ImageCount = 0, CachedInputTokens = 0, ReasoningTokens = 0, Streamed = False\<rparr>"

section \<open>Cost\<close>

definition costLiteralMax :: nat where "costLiteralMax = 32"
definition costExponentMax :: int where "costExponentMax = 30"

text \<open>
  A \<open>json.Number\<close> is a number literal of the JSON grammar. It is below zero when it has a minus sign
  and a digit other than zero before its exponent; a value that small in magnitude to be rounded to
  zero, or too large for a float, has an exponent the next check refuses.
\<close>

definition is_exp :: "char \<Rightarrow> bool" where
  "is_exp c \<longleftrightarrow> c = CHR ''e'' \<or> c = CHR ''E''"

definition negative_literal :: "string \<Rightarrow> bool" where
  "negative_literal n \<longleftrightarrow>
     n \<noteq> [] \<and> hd n = CHR ''-'' \<and> (\<exists>c\<in>set (takeWhile (\<lambda>c. \<not> is_exp c) n). is_digit c \<and> c \<noteq> CHR ''0'')"

definition CostLiteral :: "string \<Rightarrow> string" where
  "CostLiteral n =
     (if n = [] \<or> length n > costLiteralMax then []
      else if negative_literal n then []
      else case dropWhile (\<lambda>c. \<not> is_exp c) n of
        [] \<Rightarrow> n
      | c # digits \<Rightarrow>
          (case parse_int64 digits of
             None \<Rightarrow> []
           | Some x \<Rightarrow> if x > costExponentMax \<or> x < - costExponentMax then [] else n))"

section \<open>Days\<close>

definition leap :: "int \<Rightarrow> bool" where
  "leap y \<longleftrightarrow> y mod 4 = 0 \<and> (y mod 100 \<noteq> 0 \<or> y mod 400 = 0)"

definition month_days :: "int \<Rightarrow> int list" where
  "month_days y = [31, if leap y then 29 else 28, 31, 30, 31, 30, 31, 31, 30, 31, 30, 31]"

definition day_ns :: int where "day_ns = 86400 * 1000000000"

text \<open>\<open>time.Parse("20060102", day)\<close>: the instant a day of the calendar begins, in UTC.\<close>

definition parse_day :: "string \<Rightarrow> int option" where
  "parse_day s =
     (if length s \<noteq> 8 \<or> \<not> list_all is_digit s then None
      else
        let y = digits_value (take 4 s); m = nat (digits_value (take 2 (drop 4 s)));
            d = digits_value (drop 6 s)
        in if m < 1 \<or> m > 12 \<or> d < 1 \<or> d > month_days y ! (m - 1) then None
           else
             let before_year = 365 * y + (y + 3) div 4 - (y + 99) div 100 + (y + 399) div 400;
                 before_month = sum_list (take (m - 1) (month_days y))
             in Some ((before_year + before_month + d - 1 - 719528) * day_ns))"

section \<open>Files\<close>

definition fileName :: "string \<Rightarrow> string" where
  "fileName day = ''usage-'' @ day @ ''.jsonl''"

definition dayOf :: "string \<Rightarrow> string" where
  "dayOf base =
     (if \<not> HasPrefix base ''usage-'' \<or> \<not> HasSuffix base ''.jsonl'' then []
      else let day = TrimSuffix (TrimPrefix base ''usage-'') ''.jsonl'' in
        if parse_day day = None then [] else day)"

text \<open>
  The writer remembers the day it last opened and its file: none, an open one, or one it closed on the
  way to a day whose file then could not be opened.
\<close>

datatype handle = NoFile | OpenFile | ClosedFile

record Writer =
  curDay :: string
  handle :: handle

definition Open_Writer :: Writer where
  "Open_Writer = \<lparr>curDay = [], handle = NoFile\<rparr>"

definition Close_Writer :: "Writer \<Rightarrow> Writer" where
  "Close_Writer w = w\<lparr>handle := NoFile\<rparr>"

type_synonym directory = "string gomap"

definition fileOf :: "directory \<Rightarrow> string \<Rightarrow> string" where
  "fileOf dir name = (case map_of dir name of None \<Rightarrow> [] | Some c \<Rightarrow> c)"

text \<open>
  One append. \<open>opens\<close> says whether the day's file can be opened, \<open>written\<close> how many bytes of the line reach
  the disk: a full one truncates the write, which is then an error.
\<close>

definition Write ::
  "string \<Rightarrow> string \<Rightarrow> bool \<Rightarrow> nat \<Rightarrow> Writer \<Rightarrow> directory \<Rightarrow> bool \<times> Writer \<times> directory" where
  "Write line day opens written w dir =
     (let reopen = (handle w = NoFile \<or> day \<noteq> curDay w) in
      if reopen \<and> \<not> opens then (False, w\<lparr>handle := (if handle w = NoFile then NoFile else ClosedFile)\<rparr>, dir)
      else if \<not> reopen \<and> handle w = ClosedFile then (False, w, dir)
      else
        let bytes = line @ [CHR 0x0A];
            dir' = AList.update (fileName day) (fileOf dir (fileName day) @ take written bytes) dir
        in (written \<ge> length bytes, w\<lparr>curDay := day, handle := OpenFile\<rparr>, dir'))"

text \<open>Whether retention deletes a file; \<open>keep\<close> is \<^const>\<open>None\<close> when nothing ships.\<close>

definition prunes :: "int \<Rightarrow> int \<Rightarrow> (string \<Rightarrow> bool) option \<Rightarrow> string \<Rightarrow> string \<Rightarrow> bool" where
  "prunes now retentionDays keep current base =
     (if retentionDays \<le> 0 then False
      else if \<not> (HasPrefix base ''usage-'' \<and> HasSuffix base ''.jsonl'') then False
      else
        let day = TrimSuffix (TrimPrefix base ''usage-'') ''.jsonl'' in
        if day = current then False
        else case parse_day day of None \<Rightarrow> False
        | Some d \<Rightarrow>
            if \<not> d < now - retentionDays * day_ns then False
            else (case keep of None \<Rightarrow> True | Some k \<Rightarrow> k day))"

text \<open>\<open>removable\<close> says which removals the file system carries out.\<close>

definition Prune ::
  "int \<Rightarrow> int \<Rightarrow> (string \<Rightarrow> bool) option \<Rightarrow> (string \<Rightarrow> bool) \<Rightarrow> Writer \<Rightarrow> directory \<Rightarrow> directory" where
  "Prune now retentionDays keep removable w dir =
     filter (\<lambda>(base, content). \<not> (prunes now retentionDays keep (curDay w) base \<and> removable base)) dir"

section \<open>Event identifiers\<close>

definition hex_digit :: "nat \<Rightarrow> char" where
  "hex_digit n = char_of (if n < 10 then 48 + n else 87 + n)"

definition hex_encode :: "nat list \<Rightarrow> string" where
  "hex_encode bs = concat (map (\<lambda>b. [hex_digit (b div 16), hex_digit (b mod 16)]) bs)"

text \<open>The sixteen random bytes, with version and variant set, in the 8-4-4-4-12 form.\<close>

definition uuid_bytes :: "nat list \<Rightarrow> nat list" where
  "uuid_bytes b = b[6 := b ! 6 mod 16 + 64, 8 := b ! 8 mod 64 + 128]"

definition NewEventUUID :: "nat list option \<Rightarrow> int \<Rightarrow> string" where
  "NewEventUUID rand now =
     (case rand of None \<Rightarrow> ''t-'' @ itoa now | Some b \<Rightarrow>
      let dst = hex_encode (uuid_bytes b) in
      take 8 dst @ ''-'' @ take 4 (drop 8 dst) @ ''-'' @ take 4 (drop 12 dst) @ ''-'' @
      take 4 (drop 16 dst) @ ''-'' @ take 12 (drop 20 dst))"

section \<open>Facts\<close>

lemma fileName_day: "parse_day day \<noteq> None \<Longrightarrow> dayOf (fileName day) = day"
proof -
  have "HasPrefix (fileName day) ''usage-''" "HasSuffix (fileName day) ''.jsonl''"
    by (auto simp: fileName_def HasPrefix_def HasSuffix_iff)
  moreover have "TrimSuffix (TrimPrefix (fileName day) ''usage-'') ''.jsonl'' = day"
    by (simp add: fileName_def TrimPrefix_def TrimSuffix_def HasPrefix_def HasSuffix_def)
  ultimately show "parse_day day \<noteq> None \<Longrightarrow> ?thesis" by (auto simp: dayOf_def)
qed

lemma HasSuffix_append: "HasSuffix (p @ r) s \<Longrightarrow> length s \<le> length r \<Longrightarrow> HasSuffix r s"
  by (auto simp: HasSuffix_iff append_eq_append_conv2)

lemma dayOf_fileName: "dayOf base \<noteq> [] \<Longrightarrow> base = fileName (dayOf base) \<and> parse_day (dayOf base) \<noteq> None"
proof -
  assume d: "dayOf base \<noteq> []"
  then have pre: "HasPrefix base ''usage-''" and suf: "HasSuffix base ''.jsonl''"
    and day: "dayOf base = TrimSuffix (TrimPrefix base ''usage-'') ''.jsonl''" "parse_day (dayOf base) \<noteq> None"
    by (auto simp: dayOf_def Let_def split: if_splits)
  obtain r where r: "base = ''usage-'' @ r" using pre by (auto simp: HasPrefix_iff)
  have "length (dayOf base) = 8" using day(2) by (auto simp: parse_day_def split: if_splits)
  moreover have "dayOf base = TrimSuffix r ''.jsonl''" using day(1) r by (simp add: TrimPrefix_def HasPrefix_def)
  moreover have "HasSuffix r ''.jsonl''"
  proof (cases "6 \<le> length r")
    case True
    then show ?thesis using HasSuffix_append [OF suf [unfolded r]] by simp
  next
    case False
    then have "TrimSuffix r ''.jsonl'' = r" by (simp add: TrimSuffix_def HasSuffix_def)
    then show ?thesis using False calculation by simp
  qed
  then obtain q where "r = q @ ''.jsonl''" by (auto simp: HasSuffix_iff)
  ultimately have "base = fileName (dayOf base)" using r by (simp add: fileName_def TrimSuffix_def HasSuffix_def)
  then show ?thesis using day(2) by blast
qed

section \<open>Retention\<close>

text \<open>
  What retention relies on: a day its predicate releases is safe to delete, in every state the
  component behind the predicate can be in.
\<close>

locale retention =
  fixes inv :: "'s \<Rightarrow> bool"
    and keep :: "'s \<Rightarrow> string \<Rightarrow> bool"
    and spool :: "'s \<Rightarrow> directory"
    and safe :: "'s \<Rightarrow> string \<Rightarrow> string \<Rightarrow> bool"
  assumes keep_safe: "inv s \<Longrightarrow> keep s day \<Longrightarrow> map_of (spool s) (fileName day) = Some content \<Longrightarrow> safe s day content"
    and files_distinct: "inv s \<Longrightarrow> distinct (map fst (spool s))"
begin

lemma prune_deletes_safe:
  assumes "inv s" "map_of (spool s) base = Some content"
    and "map_of (Prune now days (Some (keep s)) removable w (spool s)) base = None"
  shows "\<exists>day. base = fileName day \<and> day \<noteq> curDay w \<and> parse_day day \<noteq> None \<and> safe s day content"
proof -
  have "prunes now days (Some (keep s)) (curDay w) base"
    using assms files_distinct [OF assms(1)] by (auto simp: Prune_def map_of_filter split: if_splits)
  then have p: "HasPrefix base ''usage-''" "HasSuffix base ''.jsonl''"
    and k: "TrimSuffix (TrimPrefix base ''usage-'') ''.jsonl'' \<noteq> curDay w"
      "parse_day (TrimSuffix (TrimPrefix base ''usage-'') ''.jsonl'') \<noteq> None"
      "keep s (TrimSuffix (TrimPrefix base ''usage-'') ''.jsonl'')"
    by (auto simp: prunes_def Let_def split: if_splits option.splits)
  let ?day = "TrimSuffix (TrimPrefix base ''usage-'') ''.jsonl''"
  have d: "dayOf base = ?day" using p k by (auto simp: dayOf_def Let_def)
  moreover have "?day \<noteq> []" using k(2) by (auto simp: parse_day_def)
  ultimately have base: "base = fileName ?day" using dayOf_fileName [of base] by simp
  then have "map_of (spool s) (fileName ?day) = Some content" using assms(2) by simp
  then show ?thesis using base k keep_safe [OF assms(1) k(3)] by blast
qed

lemma prune_keeps_rest:
  assumes "inv s"
  shows "map_of (Prune now days (Some (keep s)) removable w (spool s)) base \<in> {None, map_of (spool s) base}"
  using files_distinct [OF assms] by (auto simp: Prune_def map_of_filter split: option.splits)

end

end
