(* ===== verification/Reporter.thy ===== *)
theory Reporter
  imports Spool "HOL-Library.List_Lexorder" "HOL-Library.Char_ord"
begin

text \<open>
  The usage reporter of \<open>internal/reporter/reporter.go\<close>: the checkpoint, the walk over the spool's day
  files, the batches, and the predicate retention asks before it deletes a file. The control plane's
  answers, the file system's and the clock are inputs; the spool directory and the checkpoint file are
  part of the state, as are two logs of what the control plane did with the events it was sent.
  \<open>valid\<close> is \<open>json.Valid\<close> on a line.
\<close>

section \<open>Events of a file\<close>

definition is_event :: "(string \<Rightarrow> bool) \<Rightarrow> string \<Rightarrow> bool" where
  "is_event valid line \<longleftrightarrow> TrimSpace line \<noteq> [] \<and> valid (TrimSpace line)"

definition events :: "(string \<Rightarrow> bool) \<Rightarrow> string list \<Rightarrow> string list" where
  "events valid ls = map TrimSpace (filter (is_event valid) ls)"

section \<open>State\<close>

type_synonym checkpoint = "int gomap"

definition checkpoint_offsetOf :: "checkpoint \<Rightarrow> string \<Rightarrow> int" where
  "checkpoint_offsetOf c day = (case map_of c day of None \<Rightarrow> 0 | Some n \<Rightarrow> n)"

definition checkpoint_set :: "string \<Rightarrow> int \<Rightarrow> checkpoint \<Rightarrow> checkpoint" where
  "checkpoint_set day offset c = AList.update day offset c"

text \<open>An instant is in nanoseconds; \<^const>\<open>None\<close> is the zero \<open>time.Time\<close>.\<close>

record Gauges =
  LastSuccessAt :: "int option"
  QueueObservedAt :: "int option"
  OldestUnshippedAt :: "int option"
  QueuedEvents :: int
  QueuedBytes :: int
  QueueScanFailures :: int

record Reporter =
  batchSize :: int
  ckpt :: checkpoint
  loadedCkpt :: bool
  shipFailures :: int
  gauges :: Gauges
  queueScanFailures :: int

text \<open>
  What a request to the control plane ends in: no answer at all, or a status. An answer that is missing
  from the list is one that did not come.
\<close>

datatype post_answer = NoAnswer | Answer int

text \<open>The checkpoint file: missing, not readable, not JSON, or a JSON value.\<close>

datatype ckpt_file = Missing | Unreadable | Garbage | Parsed json

record outbox = Reporter +
  spoolDir :: directory
  ckptFile :: ckpt_file
  answers :: "post_answer list"
  saves :: "bool list"
  acked :: "string list"
  refused :: "string list"

datatype postError = Unreachable | HttpStatus int

datatype ship_error = PostFailed postError | SaveFailed | LoadFailed | FileFailed

definition Gauges_zero :: Gauges where
  "Gauges_zero = \<lparr>LastSuccessAt = None, QueueObservedAt = None, OldestUnshippedAt = None,
     QueuedEvents = 0, QueuedBytes = 0, QueueScanFailures = 0\<rparr>"

text \<open>A process that starts over whatever is on the disk, with everything the control plane ever logged.\<close>

definition New :: "int \<Rightarrow> outbox \<Rightarrow> outbox" where
  "New n s = s\<lparr>batchSize := n, ckpt := [], loadedCkpt := False, shipFailures := 0,
     gauges := Gauges_zero, queueScanFailures := 0\<rparr>"

section \<open>Checkpoint\<close>

definition offsets_field :: "json \<Rightarrow> checkpoint \<Rightarrow> checkpoint option" where
  "offsets_field j c =
     (case j of
        JNull \<Rightarrow> Some []
      | JObj kvs \<Rightarrow>
          (case all_some (map (\<lambda>(k, v). map_option (Pair k) (dec_int v)) kvs) of
             None \<Rightarrow> None
           | Some es \<Rightarrow> Some (fold (\<lambda>(k, v). AList.update k v) es c))
      | _ \<Rightarrow> None)"

definition dec_checkpoint :: "json \<Rightarrow> checkpoint option" where
  "dec_checkpoint j = dec_struct False [(''offsets'', offsets_field)] j []"

definition enc_checkpoint :: "checkpoint \<Rightarrow> json" where
  "enc_checkpoint c = JObj [(''offsets'', JObj (map (\<lambda>(day, n). (day, JNum (itoa n))) c))]"

definition loadCheckpoint :: "outbox \<Rightarrow> ship_error option \<times> outbox" where
  "loadCheckpoint s =
     (if loadedCkpt s then (None, s)
      else case ckptFile s of
        Missing \<Rightarrow> (None, s\<lparr>loadedCkpt := True\<rparr>)
      | Unreadable \<Rightarrow> (Some LoadFailed, s)
      | Garbage \<Rightarrow> (None, s\<lparr>ckpt := [], loadedCkpt := True\<rparr>)
      | Parsed j \<Rightarrow>
          (None, s\<lparr>ckpt := (case dec_checkpoint j of None \<Rightarrow> [] | Some c \<Rightarrow> c), loadedCkpt := True\<rparr>))"

definition saveCheckpoint :: "outbox \<Rightarrow> ship_error option \<times> outbox" where
  "saveCheckpoint s =
     (case saves s of
        False # rest \<Rightarrow> (Some SaveFailed, s\<lparr>saves := rest\<rparr>)
      | bs \<Rightarrow> (None, s\<lparr>saves := tl bs, ckptFile := Parsed (enc_checkpoint (ckpt s))\<rparr>))"

definition commit :: "string \<Rightarrow> int \<Rightarrow> outbox \<Rightarrow> ship_error option \<times> outbox" where
  "commit day offset s = saveCheckpoint (s\<lparr>ckpt := checkpoint_set day offset (ckpt s)\<rparr>)"

definition offsetOf :: "outbox \<Rightarrow> string \<Rightarrow> int" where
  "offsetOf s day = checkpoint_offsetOf (ckpt s) day"

section \<open>Posting a batch\<close>

definition batchFault :: "int list" where
  "batchFault = [400, 409, 413, 422]"

definition permanent :: "postError \<Rightarrow> bool" where
  "permanent err = (case err of Unreachable \<Rightarrow> False | HttpStatus st \<Rightarrow> st \<in> set batchFault)"

definition post :: "int \<Rightarrow> string list \<Rightarrow> outbox \<Rightarrow> postError option \<times> outbox" where
  "post now batch s =
     (let s1 = s\<lparr>answers := tl (answers s)\<rparr> in
      case answers s of
        Answer st # _ \<Rightarrow>
          if st < 200 \<or> st \<ge> 300 then (Some (HttpStatus st), s1)
          else (None, s1\<lparr>gauges := (gauges s)\<lparr>LastSuccessAt := Some now\<rparr>, acked := acked s @ batch\<rparr>)
      | _ \<Rightarrow> (Some Unreachable, s1))"

text \<open>The closure of \<open>shipFile\<close>: the error, how many events went out, and the state.\<close>

definition flushBatch ::
  "int \<Rightarrow> string \<Rightarrow> string list \<Rightarrow> int \<Rightarrow> int \<Rightarrow> outbox \<Rightarrow> ship_error option \<times> int \<times> outbox" where
  "flushBatch now day batch batchEnd sent s =
     (if batch = [] then (None, sent, s)
      else case post now batch s of
        (None, s1) \<Rightarrow>
          (case commit day batchEnd s1 of (err, s2) \<Rightarrow> (err, sent + int (length batch), s2))
      | (Some err, s1) \<Rightarrow>
          if \<not> permanent err then (Some (PostFailed err), sent, s1)
          else
            let s2 = s1\<lparr>shipFailures := shipFailures s1 + 1, refused := refused s1 @ batch\<rparr> in
            (case commit day batchEnd s2 of (e, s3) \<Rightarrow> (e, sent, s3)))"

section \<open>Walking the spool\<close>

fun ship_lines ::
  "(string \<Rightarrow> bool) \<Rightarrow> int \<Rightarrow> string \<Rightarrow> string list \<Rightarrow> string list \<Rightarrow> int \<Rightarrow> int \<Rightarrow> int \<Rightarrow> outbox \<Rightarrow>
     ship_error option \<times> int \<times> outbox" where
  "ship_lines valid now day [] batch pos batchEnd sent s = flushBatch now day batch batchEnd sent s"
| "ship_lines valid now day (line # ls) batch pos batchEnd sent s =
     (let pos = pos + int (length line); trimmed = TrimSpace line in
      if trimmed = [] then ship_lines valid now day ls batch pos pos sent s
      else if \<not> valid trimmed then ship_lines valid now day ls batch pos pos sent s
      else
        let batch = batch @ [trimmed]; batchEnd = pos in
        if int (length batch) \<ge> batchSize s
        then (case flushBatch now day batch batchEnd sent s of
                (Some err, sent, s) \<Rightarrow> (Some err, sent, s)
              | (None, sent, s) \<Rightarrow> ship_lines valid now day ls [] pos batchEnd sent s)
        else ship_lines valid now day ls batch pos batchEnd sent s)"

definition shipFile ::
  "(string \<Rightarrow> bool) \<Rightarrow> (string \<Rightarrow> bool) \<Rightarrow> int \<Rightarrow> string \<Rightarrow> string \<Rightarrow> int \<Rightarrow> outbox \<Rightarrow>
     ship_error option \<times> int \<times> outbox" where
  "shipFile valid opens now path day offset s =
     (case map_of (spoolDir s) path of
        None \<Rightarrow> (None, 0, s)
      | Some content \<Rightarrow>
          if \<not> opens path then (Some FileFailed, 0, s)
          else if offset < 0 then (Some FileFailed, 0, s)
          else ship_lines valid now day (complete_lines (drop (nat offset) content)) [] offset offset 0 s)"

fun flush_files ::
  "(string \<Rightarrow> bool) \<Rightarrow> (string \<Rightarrow> bool) \<Rightarrow> int \<Rightarrow> string list \<Rightarrow> int \<Rightarrow> outbox \<Rightarrow>
     ship_error option \<times> int \<times> outbox" where
  "flush_files valid opens now [] sum_sent s = (None, sum_sent, s)"
| "flush_files valid opens now (path # paths) sum_sent s =
     (let day = dayOf path in
      if day = [] then flush_files valid opens now paths sum_sent s
      else case shipFile valid opens now path day (offsetOf s day) s of
        (Some err, sent, s) \<Rightarrow> (Some err, sum_sent + sent, s)
      | (None, sent, s) \<Rightarrow> flush_files valid opens now paths (sum_sent + sent) s)"

definition spool_files :: "outbox \<Rightarrow> string list" where
  "spool_files s =
     sort (filter (\<lambda>p. HasPrefix p ''usage-'' \<and> HasSuffix p ''.jsonl'') (map fst (spoolDir s)))"

section \<open>Gauges\<close>

text \<open>
  One line of the scan: the running event count and oldest instant, and whether the line was readable.
  \<open>requestedAt\<close> reads an event's instant, \<^const>\<open>None\<close> when it has none.
\<close>

definition scan_line ::
  "(string \<Rightarrow> bool) \<Rightarrow> (string \<Rightarrow> int option) \<Rightarrow> string \<Rightarrow> int \<times> int option \<times> bool \<Rightarrow> int \<times> int option \<times> bool" where
  "scan_line valid requestedAt line acc =
     (case acc of (queued, oldest, whole) \<Rightarrow>
        let trimmed = TrimSpace line in
        if trimmed = [] then acc
        else if \<not> valid trimmed then (queued, oldest, False)
        else (queued + 1,
              (case requestedAt trimmed of None \<Rightarrow> oldest
               | Some t \<Rightarrow> (case oldest of None \<Rightarrow> Some t | Some b \<Rightarrow> if t < b then Some t else oldest)),
              whole))"

definition scan_file ::
  "(string \<Rightarrow> bool) \<Rightarrow> (string \<Rightarrow> int option) \<Rightarrow> (string \<Rightarrow> bool) \<Rightarrow> outbox \<Rightarrow> string \<Rightarrow>
     int \<times> (int \<times> int option \<times> bool) \<Rightarrow> int \<times> (int \<times> int option \<times> bool)" where
  "scan_file valid requestedAt opens s path acc =
     (case acc of (queuedBytes, queued, oldest, whole) \<Rightarrow>
        let day = dayOf path in
        if day = [] then acc
        else case map_of (spoolDir s) path of
          None \<Rightarrow> (queuedBytes, queued, oldest, False)
        | Some content \<Rightarrow>
            if \<not> opens path then (queuedBytes, queued, oldest, False)
            else
              let off = offsetOf s day; sz = int (length content);
                  queuedBytes = (if sz > off then queuedBytes + (sz - off) else queuedBytes)
              in if off < 0 then (queuedBytes, queued, oldest, False)
                 else (queuedBytes, fold (scan_line valid requestedAt)
                        (complete_lines (drop (nat off) content)) (queued, oldest, whole)))"

definition refreshQueueGauges ::
  "(string \<Rightarrow> bool) \<Rightarrow> (string \<Rightarrow> int option) \<Rightarrow> (string \<Rightarrow> bool) \<Rightarrow> int \<Rightarrow> outbox \<Rightarrow> outbox" where
  "refreshQueueGauges valid requestedAt opens now s =
     (case loadCheckpoint s of
        (Some _, s) \<Rightarrow> s\<lparr>queueScanFailures := queueScanFailures s + 1\<rparr>
      | (None, s) \<Rightarrow>
          (case fold (scan_file valid requestedAt opens s) (spool_files s) (0, 0, None, True) of
             (queuedBytes, queued, oldest, whole) \<Rightarrow>
               if \<not> whole then s\<lparr>queueScanFailures := queueScanFailures s + 1\<rparr>
               else s\<lparr>gauges := (gauges s)\<lparr>QueueObservedAt := Some now, OldestUnshippedAt := oldest,
                      QueuedEvents := queued, QueuedBytes := queuedBytes\<rparr>\<rparr>))"

definition QueueGauges :: "outbox \<Rightarrow> Gauges" where
  "QueueGauges s = (gauges s)\<lparr>QueueScanFailures := queueScanFailures s\<rparr>"

section \<open>Flushing and retention\<close>

definition Flush ::
  "(string \<Rightarrow> bool) \<Rightarrow> (string \<Rightarrow> int option) \<Rightarrow> (string \<Rightarrow> bool) \<Rightarrow> int \<Rightarrow> outbox \<Rightarrow>
     ship_error option \<times> int \<times> outbox" where
  "Flush valid requestedAt opens now s =
     (case (case loadCheckpoint s of
              (Some err, s) \<Rightarrow> (Some err, 0, s)
            | (None, s) \<Rightarrow> flush_files valid opens now (spool_files s) 0 s) of
        (err, sum_sent, s) \<Rightarrow> (err, sum_sent, refreshQueueGauges valid requestedAt opens now s))"

definition maxBackoff :: int where "maxBackoff = 300 * 1000000000"

text \<open>The wait of \<open>Run\<close> after a pass.\<close>

definition next_backoff :: "int \<Rightarrow> int \<Rightarrow> ship_error option \<Rightarrow> int" where
  "next_backoff interval backoff err =
     (if err \<noteq> None then min (backoff * 2) maxBackoff else interval)"

definition ShippedThrough :: "outbox \<Rightarrow> checkpoint option \<times> outbox" where
  "ShippedThrough s =
     (case loadCheckpoint s of (Some _, s) \<Rightarrow> (None, s) | (None, s) \<Rightarrow> (Some (ckpt s), s))"

definition FullyShipped :: "string \<Rightarrow> outbox \<Rightarrow> bool \<times> outbox" where
  "FullyShipped day s =
     (case ShippedThrough s of
        (None, s) \<Rightarrow> (False, s)
      | (Some offsets, s) \<Rightarrow>
          (case map_of offsets day of None \<Rightarrow> (False, s)
           | Some off \<Rightarrow>
               (case map_of (spoolDir s) (fileName day) of None \<Rightarrow> (False, s)
                | Some content \<Rightarrow> (off \<ge> int (length content), s))))"

section \<open>Lines and logs\<close>

lemma events_append [simp]: "events valid (xs @ ys) = events valid xs @ events valid ys"
  by (simp add: events_def)

lemma events_Nil [simp]: "events valid [] = []"
  by (simp add: events_def)

lemma events_Cons:
  "events valid (l # ls) = (if is_event valid l then TrimSpace l # events valid ls else events valid ls)"
  by (simp add: events_def)

text \<open>What the control plane has answered for, either way.\<close>

definition logged :: "outbox \<Rightarrow> string set" where
  "logged s = set (acked s) \<union> set (refused s)"

text \<open>An offset is confirmed when it ends a line and every event before it has been answered for.\<close>

definition confirmed :: "(string \<Rightarrow> bool) \<Rightarrow> string set \<Rightarrow> string \<Rightarrow> int \<Rightarrow> bool" where
  "confirmed valid logs content n \<longleftrightarrow>
     (\<exists>before after. complete_lines content = before @ after \<and> n = int (length (concat before)) \<and>
        set (events valid before) \<subseteq> logs)"

lemma confirmed_mono:
  assumes "confirmed valid logs content n" "logs \<subseteq> logs'"
  shows "confirmed valid logs' (content @ extra) n"
proof -
  obtain before after where b: "complete_lines content = before @ after"
    "n = int (length (concat before))" "set (events valid before) \<subseteq> logs"
    using assms(1) unfolding confirmed_def by blast
  obtain ls where "complete_lines (content @ extra) = before @ after @ ls"
    using complete_lines_append [of content extra] b(1) by auto
  then show ?thesis using b assms(2) unfolding confirmed_def by blast
qed

lemma confirmed_mono_logs: "confirmed valid logs content n \<Longrightarrow> logs \<subseteq> logs' \<Longrightarrow> confirmed valid logs' content n"
  using confirmed_mono [of valid logs content n logs' "[]"] by simp

lemma confirmed_all:
  assumes "confirmed valid logs content n" "n \<ge> int (length content)"
  shows "set (events valid (complete_lines content)) \<subseteq> logs"
proof -
  obtain before after where b: "complete_lines content = before @ after"
    "n = int (length (concat before))" "set (events valid before) \<subseteq> logs"
    using assms(1) unfolding confirmed_def by blast
  have "complete_lines (drop (length (concat before)) content) = after"
    using complete_lines_drop [OF b(1)] by blast
  moreover have "drop (length (concat before)) content = []" using assms(2) b(2) by simp
  ultimately have "after = []" by (simp add: complete_lines.simps [of "[]"])
  then show ?thesis using b by simp
qed

section \<open>The checkpoint survives a restart\<close>

lemma parse_itoa: "parse_int64 (itoa n) = Some k \<Longrightarrow> k = n"
proof -
  assume a: "parse_int64 (itoa n) = Some k"
  have sign: "hd (digits_of m) \<noteq> CHR ''-''" "hd (digits_of m) \<noteq> CHR ''+''" for m
    using digits_of_hd [of m] by (auto simp: is_digit_def)
  show "k = n"
    using a sign by (auto simp: itoa_def parse_int64_def Let_def digits_value_digits_of split: if_splits)
qed

definition stored :: "ckpt_file \<Rightarrow> checkpoint" where
  "stored f = (case f of Parsed j \<Rightarrow> (case dec_checkpoint j of None \<Rightarrow> [] | Some c \<Rightarrow> c) | _ \<Rightarrow> [])"

lemma distinct_stored: "distinct (map fst (stored f))"
proof -
  have up: "distinct (map fst m) \<Longrightarrow> distinct (map fst (fold (\<lambda>(k, v). AList.update k v) es m))"
    for m :: checkpoint and es
    by (induction es arbitrary: m) (auto simp: go_maps split: prod.splits)
  have "dec_members False [(''offsets'', offsets_field)] kvs c = Some c' \<Longrightarrow>
          distinct (map fst c) \<Longrightarrow> distinct (map fst c')" for kvs c c'
    by (induction False "[(''offsets'', offsets_field)]" kvs c rule: dec_members.induct)
      (auto simp: offsets_field_def up split: if_splits option.splits json.splits)
  then show ?thesis
    by (auto simp: stored_def dec_checkpoint_def dec_struct_def split: ckpt_file.splits option.splits json.splits)
qed

lemma stored_enc:
  assumes "distinct (map fst c)" "map_of (stored (Parsed (enc_checkpoint c))) day = Some n"
  shows "map_of c day = Some n"
proof -
  let ?rd = "all_some (map (\<lambda>(k, v). map_option (Pair k) (dec_int v)) (map (\<lambda>(day, n). (day, JNum (itoa n))) c))"
  have es: "es = c" if "?rd = Some es" for es
  proof -
    have "map (\<lambda>(day, n). map_option (Pair day) (parse_int64 (itoa n))) c = map Some es"
      using that by (simp add: all_some_iff dec_int_def o_def case_prod_unfold)
    then show ?thesis
    proof (induction c arbitrary: es)
      case (Cons p c)
      then show ?case by (cases es; cases p) (auto dest: parse_itoa)
    qed simp
  qed
  have "EqualFold ''offsets'' ''offsets''" by (simp add: EqualFold_def)
  then have "\<exists>es. ?rd = Some es \<and> map_of (fold (\<lambda>(k, v). AList.update k v) es []) day = Some n"
    using assms(2)
    by (auto simp: stored_def dec_checkpoint_def enc_checkpoint_def dec_struct_def offsets_field_def
        split: option.splits)
  then have "map_of (fold (\<lambda>(k, v) m. AList.update k v m) c []) day = Some n"
    using es by (auto simp: case_prod_unfold)
  then have "map_of (rev c) day = Some n" by (simp add: go_object_fold split: option.splits)
  then show ?thesis using assms(1) by (metis distinct_rev map_of_perm rev_map set_rev)
qed

section \<open>The invariant of the checkpoint\<close>

definition sound :: "(string \<Rightarrow> bool) \<Rightarrow> string set \<Rightarrow> outbox \<Rightarrow> checkpoint \<Rightarrow> bool" where
  "sound valid pruned s c \<longleftrightarrow>
     (\<forall>day n. map_of c day = Some n \<longrightarrow> day \<in> pruned \<or>
        (\<exists>content. map_of (spoolDir s) (fileName day) = Some content \<and> confirmed valid (logged s) content n))"

definition outbox_inv :: "(string \<Rightarrow> bool) \<Rightarrow> string set \<Rightarrow> outbox \<Rightarrow> bool" where
  "outbox_inv valid pruned s \<longleftrightarrow>
     distinct (map fst (spoolDir s)) \<and> distinct (map fst (ckpt s)) \<and>
     (\<not> loadedCkpt s \<longrightarrow> ckpt s = []) \<and>
     (\<forall>day\<in>pruned. map_of (spoolDir s) (fileName day) = None) \<and>
     sound valid pruned s (ckpt s) \<and> sound valid pruned s (stored (ckptFile s))"

text \<open>One state grows out of another: the spool is the same and no answer is forgotten.\<close>

definition grows :: "outbox \<Rightarrow> outbox \<Rightarrow> bool" where
  "grows s s' \<longleftrightarrow> spoolDir s' = spoolDir s \<and> batchSize s' = batchSize s \<and> logged s \<subseteq> logged s'"

lemma grows_refl [simp]: "grows s s"
  by (simp add: grows_def)

lemma grows_trans: "grows s t \<Longrightarrow> grows t u \<Longrightarrow> grows s u"
  by (auto simp: grows_def)

lemma sound_grows: "sound valid pruned s c \<Longrightarrow> grows s s' \<Longrightarrow> sound valid pruned s' c"
  unfolding sound_def grows_def by (metis confirmed_mono_logs)

lemma sound_cong: "spoolDir s' = spoolDir s \<Longrightarrow> logged s' = logged s \<Longrightarrow> sound valid pruned s' c = sound valid pruned s c"
  by (simp add: sound_def)

lemma soundD:
  assumes "sound valid pruned s c" "map_of c day = Some n" "map_of (spoolDir s) (fileName day) = Some content"
    and "\<forall>day\<in>pruned. map_of (spoolDir s) (fileName day) = None"
  shows "confirmed valid (logged s) content n"
  using assms unfolding sound_def by force

lemma sound_empty [simp]: "sound valid pruned s []"
  by (simp add: sound_def)

lemma outbox_inv_step:
  assumes "outbox_inv valid pruned s" "spoolDir s' = spoolDir s" "logged s' = logged s"
    and "distinct (map fst (ckpt s'))" "\<not> loadedCkpt s' \<Longrightarrow> ckpt s' = []"
    and "sound valid pruned s (ckpt s')" "sound valid pruned s (stored (ckptFile s'))"
  shows "outbox_inv valid pruned s'"
  using assms sound_cong [OF assms(2,3)] unfolding outbox_inv_def by simp

lemma loadCheckpoint_inv:
  assumes "outbox_inv valid pruned s" "loadCheckpoint s = (r, s')"
  shows "outbox_inv valid pruned s' \<and> grows s s' \<and> (r = None \<longrightarrow> loadedCkpt s') \<and> ckptFile s' = ckptFile s"
proof -
  have k: "ckpt s' = ckpt s \<or> ckpt s' = stored (ckptFile s)" "spoolDir s' = spoolDir s" "logged s' = logged s"
    "batchSize s' = batchSize s" "ckptFile s' = ckptFile s" "\<not> loadedCkpt s' \<longrightarrow> s' = s"
    "r = None \<longrightarrow> loadedCkpt s'"
    using assms(2) by (auto simp: loadCheckpoint_def stored_def logged_def split: if_splits ckpt_file.splits)
  have "distinct (map fst (ckpt s'))" "sound valid pruned s (ckpt s')" "sound valid pruned s (stored (ckptFile s'))"
    using k(1,5) assms(1) distinct_stored [of "ckptFile s"] by (auto simp: outbox_inv_def)
  moreover have "\<not> loadedCkpt s' \<Longrightarrow> ckpt s' = []" using k(6) assms(1) by (auto simp: outbox_inv_def)
  ultimately show ?thesis using outbox_inv_step [OF assms(1) k(2,3)] k by (simp add: grows_def)
qed

lemma commit_inv:
  assumes "outbox_inv valid pruned s" "loadedCkpt s" "commit day n s = (r, s')"
    and "map_of (spoolDir s) (fileName day) = Some content" "confirmed valid (logged s) content n"
  shows "outbox_inv valid pruned s' \<and> grows s s' \<and> loadedCkpt s'"
proof -
  let ?c = "checkpoint_set day n (ckpt s)"
  have "map_of ?c = (map_of (ckpt s))(day \<mapsto> n)" by (simp add: checkpoint_set_def go_maps)
  then have c: "sound valid pruned s ?c" "distinct (map fst ?c)"
    using assms(1,4,5) distinct_update_keys [of "ckpt s" day n]
    by (simp_all add: outbox_inv_def sound_def checkpoint_set_def del: map_of_eq_Some_iff)
  then have "sound valid pruned s (stored (Parsed (enc_checkpoint ?c)))"
    using stored_enc [OF c(2)] unfolding sound_def by blast
  moreover have k: "ckpt s' = ?c" "spoolDir s' = spoolDir s" "logged s' = logged s" "batchSize s' = batchSize s"
    "loadedCkpt s'" "ckptFile s' = ckptFile s \<or> ckptFile s' = Parsed (enc_checkpoint ?c)"
    using assms(2,3) by (auto simp: commit_def saveCheckpoint_def logged_def split: list.splits bool.splits)
  moreover have "sound valid pruned s (stored (ckptFile s))" using assms(1) by (simp add: outbox_inv_def)
  ultimately have "sound valid pruned s (stored (ckptFile s'))" by auto
  then show ?thesis using outbox_inv_step [OF assms(1) k(2,3)] c k by (simp add: grows_def)
qed

lemma outbox_inv_log:
  assumes "outbox_inv valid pruned s" "grows s s'" "ckpt s' = ckpt s" "ckptFile s' = ckptFile s" "loadedCkpt s' = loadedCkpt s"
  shows "outbox_inv valid pruned s'"
proof -
  have "spoolDir s' = spoolDir s" using assms(2) by (simp add: grows_def)
  then show ?thesis using assms sound_grows unfolding outbox_inv_def by metis
qed

lemma flushBatch_inv:
  assumes inv: "outbox_inv valid pruned s" and l: "loadedCkpt s"
    and f: "flushBatch now day batch batchEnd sent s = (r, sent', s')"
    and d: "map_of (spoolDir s) (fileName day) = Some content"
    and p: "complete_lines content = before @ after" "batchEnd = int (length (concat before))"
    and b: "set (events valid before) \<subseteq> logged s \<union> set batch"
  shows "outbox_inv valid pruned s' \<and> grows s s' \<and> loadedCkpt s' \<and>
    (r = None \<longrightarrow> set (events valid before) \<subseteq> logged s')"
proof (cases "batch = []")
  case True
  then show ?thesis using assms by (auto simp: flushBatch_def)
next
  case False
  obtain e s1 where post: "post now batch s = (e, s1)" by fastforce
  then have s1: "grows s s1" "ckpt s1 = ckpt s" "ckptFile s1 = ckptFile s" "loadedCkpt s1 = loadedCkpt s"
    "e = None \<longrightarrow> set batch \<subseteq> logged s1"
    by (auto simp: post_def Let_def grows_def logged_def split: list.splits post_answer.splits if_splits)
  have done_step: "outbox_inv valid pruned s' \<and> grows s s' \<and> loadedCkpt s' \<and> set (events valid before) \<subseteq> logged s'"
    if "commit day batchEnd s2 = (r, s')" "grows s1 s2" "ckpt s2 = ckpt s1" "ckptFile s2 = ckptFile s1"
      "loadedCkpt s2 = loadedCkpt s1" "set batch \<subseteq> logged s2" for s2
  proof -
    have g: "grows s s2" using s1(1) that(2) grows_trans by blast
    then have i: "outbox_inv valid pruned s2" using outbox_inv_log [OF inv] s1 that by simp
    have "set (events valid before) \<subseteq> logged s2" using b g that(6) by (auto simp: grows_def)
    then have "confirmed valid (logged s2) content batchEnd" using p unfolding confirmed_def by blast
    then have "outbox_inv valid pruned s' \<and> grows s2 s' \<and> loadedCkpt s'"
      using commit_inv [OF i _ that(1)] d g l s1 that by (simp add: grows_def)
    then show ?thesis using g grows_trans \<open>set (events valid before) \<subseteq> logged s2\<close> by (auto simp: grows_def)
  qed
  show ?thesis
  proof (cases e)
    case None
    then show ?thesis using f post False s1 done_step [of s1]
      by (auto simp: flushBatch_def split: prod.splits)
  next
    case (Some err)
    show ?thesis
    proof (cases "permanent err")
      case True
      let ?s2 = "s1\<lparr>shipFailures := shipFailures s1 + 1, refused := refused s1 @ batch\<rparr>"
      have "grows s1 ?s2" "set batch \<subseteq> logged ?s2" by (auto simp: grows_def logged_def)
      then show ?thesis using f post False Some True s1 done_step [of ?s2]
        by (auto simp: flushBatch_def Let_def split: prod.splits)
    next
      case False
      then have "s' = s1" "r \<noteq> None" using f post \<open>batch \<noteq> []\<close> Some by (auto simp: flushBatch_def)
      then show ?thesis using outbox_inv_log [OF inv] s1 l by auto
    qed
  qed
qed

lemma ship_lines_inv:
  assumes "outbox_inv valid pruned s" "loadedCkpt s"
    and "ship_lines valid now day ls batch pos batchEnd sent s = (r, sent', s')"
    and "map_of (spoolDir s) (fileName day) = Some content"
    and "complete_lines content = before @ ls" "pos = int (length (concat before))" "batchEnd = pos"
    and "set (events valid before) \<subseteq> logged s \<union> set batch"
  shows "outbox_inv valid pruned s' \<and> grows s s' \<and> loadedCkpt s'"
  using assms
proof (induction ls arbitrary: before batch pos batchEnd sent s)
  case Nil
  then show ?case
    using flushBatch_inv [OF Nil.prems(1,2) _ Nil.prems(4,5), of now batch batchEnd sent r sent' s'] by simp
next
  case (Cons l ls)
  let ?pos = "pos + int (length l)"
  have nxt: "complete_lines content = (before @ [l]) @ ls" "?pos = int (length (concat (before @ [l])))"
    using Cons.prems by simp_all
  show ?case
  proof (cases "is_event valid l")
    case False
    then have "ship_lines valid now day ls batch ?pos ?pos sent s = (r, sent', s')"
      using Cons.prems(3) by (auto simp: Let_def is_event_def split: if_splits)
    then show ?thesis using Cons.IH [of s batch ?pos ?pos sent "before @ [l]"] Cons.prems nxt False
      by (simp add: events_Cons)
  next
    case ev: True
    let ?batch = "batch @ [TrimSpace l]"
    have cover: "set (events valid (before @ [l])) \<subseteq> logged s \<union> set ?batch"
      using Cons.prems(8) ev by (auto simp: events_Cons)
    show ?thesis
    proof (cases "int (length ?batch) \<ge> batchSize s")
      case False
      then have "ship_lines valid now day ls ?batch ?pos ?pos sent s = (r, sent', s')"
        using Cons.prems(3) ev by (auto simp: Let_def is_event_def)
      then show ?thesis using Cons.IH [of s ?batch ?pos ?pos sent "before @ [l]"] Cons.prems nxt cover
        by simp
    next
      case True
      obtain e sent1 s1 where f: "flushBatch now day ?batch ?pos sent s = (e, sent1, s1)"
        by (metis prod_cases3)
      have i: "outbox_inv valid pruned s1 \<and> grows s s1 \<and> loadedCkpt s1 \<and>
          (e = None \<longrightarrow> set (events valid (before @ [l])) \<subseteq> logged s1)"
        using flushBatch_inv [OF Cons.prems(1,2) f Cons.prems(4) nxt cover] .
      show ?thesis
      proof (cases e)
        case None
        then have "ship_lines valid now day ls [] ?pos ?pos sent1 s1 = (r, sent', s')"
          using Cons.prems(3) ev True f by (auto simp: Let_def is_event_def)
        then have "outbox_inv valid pruned s' \<and> grows s1 s' \<and> loadedCkpt s'"
          using Cons.IH [of s1 "[]" ?pos ?pos sent1 "before @ [l]"] i None Cons.prems(4) nxt
          by (simp add: grows_def)
        then show ?thesis using i grows_trans by blast
      next
        case (Some err)
        then have "s' = s1" using Cons.prems(3) ev True f by (auto simp: Let_def is_event_def)
        then show ?thesis using i by blast
      qed
    qed
  qed
qed

text \<open>The offset of a day whose file is there is a confirmed one.\<close>

lemma offset_confirmed:
  assumes "outbox_inv valid pruned s" "map_of (spoolDir s) (fileName day) = Some content"
  shows "confirmed valid (logged s) content (offsetOf s day)"
proof (cases "map_of (ckpt s) day")
  case None
  then show ?thesis
    by (auto simp: offsetOf_def checkpoint_offsetOf_def confirmed_def intro: exI [of _ "[]"])
next
  case (Some n)
  then show ?thesis
    using soundD [of valid pruned s "ckpt s", OF _ Some] assms
    by (auto simp: outbox_inv_def offsetOf_def checkpoint_offsetOf_def simp del: map_of_eq_Some_iff)
qed

lemma shipFile_inv:
  assumes "outbox_inv valid pruned s" "loadedCkpt s"
    and "shipFile valid opens now (fileName day) day (offsetOf s day) s = (r, sent, s')"
  shows "outbox_inv valid pruned s' \<and> grows s s' \<and> loadedCkpt s'"
proof (cases "map_of (spoolDir s) (fileName day)")
  case None
  then show ?thesis using assms by (simp add: shipFile_def)
next
  case (Some content)
  then obtain before after where p: "complete_lines content = before @ after"
    "offsetOf s day = int (length (concat before))" "set (events valid before) \<subseteq> logged s"
    using offset_confirmed [OF assms(1)] unfolding confirmed_def by blast
  show ?thesis
  proof (cases "opens (fileName day)")
    case True
    then have "ship_lines valid now day after [] (offsetOf s day) (offsetOf s day) 0 s = (r, sent, s')"
      using assms(3) Some p complete_lines_drop [OF p(1)] by (simp add: shipFile_def)
    then show ?thesis using ship_lines_inv [OF assms(1,2) _ Some p(1)] p by simp
  qed (use assms Some in \<open>simp add: shipFile_def\<close>)
qed

lemma flush_files_inv:
  assumes "outbox_inv valid pruned s" "loadedCkpt s" "flush_files valid opens now paths n s = (r, m, s')"
  shows "outbox_inv valid pruned s' \<and> grows s s' \<and> loadedCkpt s'"
  using assms
proof (induction paths arbitrary: n s)
  case (Cons path paths)
  show ?case
  proof (cases "dayOf path = []")
    case True
    then show ?thesis using Cons by simp
  next
    case False
    then have path: "path = fileName (dayOf path)" using dayOf_fileName by blast
    obtain e k s1 where f: "shipFile valid opens now path (dayOf path) (offsetOf s (dayOf path)) s = (e, k, s1)"
      by (metis prod_cases3)
    have i: "outbox_inv valid pruned s1 \<and> grows s s1 \<and> loadedCkpt s1"
      using shipFile_inv [OF Cons.prems(1,2)] f path by metis
    show ?thesis
    proof (cases e)
      case None
      then have "flush_files valid opens now paths (n + k) s1 = (r, m, s')"
        using Cons.prems(3) False f by simp
      then show ?thesis using Cons.IH i grows_trans by blast
    qed (use Cons.prems(3) False f i in auto)
  qed
qed simp

lemma refreshQueueGauges_inv:
  assumes "outbox_inv valid pruned s"
  shows "outbox_inv valid pruned (refreshQueueGauges valid requestedAt opens now s) \<and>
    grows s (refreshQueueGauges valid requestedAt opens now s)"
proof -
  obtain r s1 where l: "loadCheckpoint s = (r, s1)" by fastforce
  let ?s' = "refreshQueueGauges valid requestedAt opens now s"
  have k: "spoolDir ?s' = spoolDir s1" "logged ?s' = logged s1" "batchSize ?s' = batchSize s1"
    "ckpt ?s' = ckpt s1" "ckptFile ?s' = ckptFile s1" "loadedCkpt ?s' = loadedCkpt s1"
    using l by (auto simp: refreshQueueGauges_def logged_def split: option.splits prod.splits)
  have i: "outbox_inv valid pruned s1" "grows s s1" using loadCheckpoint_inv [OF assms l] by auto
  moreover have "grows s1 ?s'" using k by (simp add: grows_def)
  ultimately show ?thesis using outbox_inv_log [OF i(1)] k grows_trans by blast
qed

lemma Flush_inv:
  assumes "outbox_inv valid pruned s"
  shows "outbox_inv valid pruned (snd (snd (Flush valid requestedAt opens now s))) \<and>
    grows s (snd (snd (Flush valid requestedAt opens now s)))"
proof -
  obtain r s1 where l: "loadCheckpoint s = (r, s1)" by fastforce
  obtain e n s2 where f: "flush_files valid opens now (spool_files s1) 0 s1 = (e, n, s2)" by (metis prod_cases3)
  let ?s2 = "if r = None then s2 else s1"
  have "outbox_inv valid pruned ?s2 \<and> grows s ?s2"
    using loadCheckpoint_inv [OF assms l] flush_files_inv [OF _ _ f] grows_trans by auto
  moreover have "snd (snd (Flush valid requestedAt opens now s)) =
      refreshQueueGauges valid requestedAt opens now ?s2"
    using l f by (cases r) (auto simp: Flush_def)
  ultimately show ?thesis using refreshQueueGauges_inv grows_trans by metis
qed

text \<open>A day that is fully shipped has been answered for, event by event.\<close>

lemma FullyShipped_safe:
  assumes "outbox_inv valid pruned s" "fst (FullyShipped day s)"
    and "map_of (spoolDir s) (fileName day) = Some content"
  shows "set (events valid (complete_lines content)) \<subseteq> logged s"
proof -
  obtain r s1 where l: "loadCheckpoint s = (r, s1)" by fastforce
  then have i: "outbox_inv valid pruned s1" "grows s s1" "logged s1 = logged s"
    using loadCheckpoint_inv [OF assms(1) l]
    by (auto simp: loadCheckpoint_def logged_def split: if_splits ckpt_file.splits)
  then have d: "map_of (spoolDir s1) (fileName day) = Some content" using assms(3) by (simp add: grows_def)
  then obtain n where "map_of (ckpt s1) day = Some n" "n \<ge> int (length content)"
    using assms(2) l by (auto simp: FullyShipped_def ShippedThrough_def split: option.splits)
  then have "offsetOf s1 day \<ge> int (length content)" by (simp add: offsetOf_def checkpoint_offsetOf_def)
  then show ?thesis using confirmed_all [OF offset_confirmed [OF i(1) d]] i by simp
qed

text \<open>
  Retention with the reporter's predicate: the interface of \<open>spool.Prune\<close> holds of \<^const>\<open>FullyShipped\<close>
  in every state the invariant allows, with any set of days already gone.
\<close>

definition safe_to_delete :: "(string \<Rightarrow> bool) \<Rightarrow> outbox \<Rightarrow> string \<Rightarrow> string \<Rightarrow> bool" where
  "safe_to_delete valid s day content \<longleftrightarrow> set (events valid (complete_lines content)) \<subseteq> logged s"

interpretation ret: retention "outbox_inv valid pruned" "\<lambda>s day. fst (FullyShipped day s)" spoolDir
  "safe_to_delete valid"
  for valid pruned
  by unfold_locales (simp_all add: safe_to_delete_def FullyShipped_safe del: map_of_eq_Some_iff, simp add: outbox_inv_def)

section \<open>The life of the spool\<close>

text \<open>
  The outbox, the writer and the days retention has deleted. A request appends to the day it started on
  (the write may fail or be cut short by a full disk); the reporter flushes, with whatever answers and
  disk faults come; the sync reads the checkpoint; retention prunes with the reporter's predicate; the
  process restarts; the checkpoint file is damaged. A request does not outlive retention: it never
  appends to a day that was already deleted.
\<close>

type_synonym site = "outbox \<times> Writer \<times> string set"

inductive site_step :: "(string \<Rightarrow> bool) \<Rightarrow> (string \<Rightarrow> int option) \<Rightarrow> site \<Rightarrow> site \<Rightarrow> bool"
  for valid requestedAt where
  append: "day \<notin> pruned \<Longrightarrow> parse_day day \<noteq> None \<Longrightarrow>
     Write line day opens written w (spoolDir s) = (ok, w', dir) \<Longrightarrow>
     site_step valid requestedAt (s, w, pruned) (s\<lparr>spoolDir := dir\<rparr>, w', pruned)"
| flush: "Flush valid requestedAt opens now (s\<lparr>answers := as, saves := bs\<rparr>) = (r, n, s') \<Longrightarrow>
     site_step valid requestedAt (s, w, pruned) (s', w, pruned)"
| ask: "ShippedThrough s = (r, s') \<Longrightarrow> site_step valid requestedAt (s, w, pruned) (s', w, pruned)"
| prune: "dir = Prune now days (Some (\<lambda>day. fst (FullyShipped day s))) removable w (spoolDir s) \<Longrightarrow>
     site_step valid requestedAt (s, w, pruned)
       (s\<lparr>spoolDir := dir\<rparr>, w,
        pruned \<union> {day. map_of (spoolDir s) (fileName day) \<noteq> None \<and> map_of dir (fileName day) = None})"
| restart: "site_step valid requestedAt (s, w, pruned) (New n s, Open_Writer, pruned)"
| damage: "f \<in> {Missing, Unreadable, Garbage} \<Longrightarrow>
     site_step valid requestedAt (s, w, pruned) (s\<lparr>ckptFile := f\<rparr>, w, pruned)"

inductive_cases site_stepE: "site_step valid requestedAt a b"

definition site_inv :: "(string \<Rightarrow> bool) \<Rightarrow> site \<Rightarrow> bool" where
  "site_inv valid st = (case st of (s, w, pruned) \<Rightarrow> outbox_inv valid pruned s)"

definition spooled :: "(string \<Rightarrow> bool) \<Rightarrow> outbox \<Rightarrow> string set" where
  "spooled valid s = (\<Union>(base, content)\<in>set (spoolDir s). set (events valid (complete_lines content)))"

text \<open>A fresh installation.\<close>

definition first_start :: "int \<Rightarrow> outbox" where
  "first_start n = \<lparr>batchSize = n, ckpt = [], loadedCkpt = False, shipFailures = 0, gauges = Gauges_zero,
     queueScanFailures = 0, spoolDir = [], ckptFile = Missing, answers = [], saves = [], acked = [], refused = []\<rparr>"

lemma first_start_inv: "outbox_inv valid {} (first_start n)"
  by (simp add: outbox_inv_def first_start_def stored_def)

lemma fileName_inj [simp]: "fileName a = fileName b \<longleftrightarrow> a = b"
  by (simp add: fileName_def)

lemma mem_spooled:
  "distinct (map fst (spoolDir s)) \<Longrightarrow>
     e \<in> spooled valid s \<longleftrightarrow>
       (\<exists>base content. map_of (spoolDir s) base = Some content \<and> e \<in> set (events valid (complete_lines content)))"
  by (auto simp: spooled_def)

lemma Write_dir:
  assumes "Write line day opens written w dir = (ok, w', dir')"
  obtains "dir' = dir"
  | more_bytes where "dir' = AList.update (fileName day) (fileOf dir (fileName day) @ more_bytes) dir"
  using assms by (auto simp: Write_def Let_def split: if_splits)

lemma events_prefix: "set (events valid (complete_lines content)) \<subseteq> set (events valid (complete_lines (content @ extra)))"
  using complete_lines_append [of content extra] by auto

lemma append_inv:
  assumes inv: "outbox_inv valid pruned s" and "day \<notin> pruned"
    and d: "dir = AList.update (fileName day) (fileOf (spoolDir s) (fileName day) @ extra) (spoolDir s)"
  shows "outbox_inv valid pruned (s\<lparr>spoolDir := dir\<rparr>)"
    and "spooled valid s \<subseteq> spooled valid (s\<lparr>spoolDir := dir\<rparr>)"
proof -
  let ?s' = "s\<lparr>spoolDir := dir\<rparr>"
  have l: "logged ?s' = logged s" by (simp add: logged_def)
  have dist: "distinct (map fst (spoolDir s))" "distinct (map fst dir)"
    using inv d by (simp_all add: outbox_inv_def go_maps)
  have keep: "\<exists>extra. map_of dir base = Some (content @ extra)" if "map_of (spoolDir s) base = Some content" for base content
    using that d by (cases "base = fileName day") (auto simp: go_maps fileOf_def intro: exI [of _ "[]"])
  have snd: "sound valid pruned ?s' c" if snd_s: "sound valid pruned s c" for c
    unfolding sound_def
  proof (intro allI impI)
    fix dy n
    assume a: "map_of c dy = Some n"
    show "dy \<in> pruned \<or> (\<exists>content. map_of (spoolDir ?s') (fileName dy) = Some content \<and> confirmed valid (logged ?s') content n)"
    proof (cases "dy \<in> pruned")
      case False
      then obtain content where "map_of (spoolDir s) (fileName dy) = Some content" "confirmed valid (logged s) content n"
        using snd_s a unfolding sound_def by blast
      then show ?thesis using keep [of "fileName dy" content] confirmed_mono [of valid "logged s" content n "logged s"] l
        by auto
    qed simp
  qed
  have "\<forall>dy\<in>pruned. map_of dir (fileName dy) = None"
    using inv assms(2) d by (auto simp: outbox_inv_def go_maps)
  then show "outbox_inv valid pruned ?s'" using inv dist snd by (simp add: outbox_inv_def)
  show "spooled valid s \<subseteq> spooled valid ?s'"
  proof
    fix e
    assume "e \<in> spooled valid s"
    then obtain base content where b: "map_of (spoolDir s) base = Some content" "e \<in> set (events valid (complete_lines content))"
      using mem_spooled [OF dist(1)] by blast
    then obtain ex where "map_of dir base = Some (content @ ex)" using keep by blast
    then show "e \<in> spooled valid ?s'" using mem_spooled [of ?s' e valid] dist(2) b(2) events_prefix [of valid content ex] by force
  qed
qed

lemma prune_inv:
  assumes inv: "outbox_inv valid pruned s"
    and d: "dir = Prune now days (Some (\<lambda>day. fst (FullyShipped day s))) removable w (spoolDir s)"
    and p: "pruned' = pruned \<union> {day. map_of (spoolDir s) (fileName day) \<noteq> None \<and> map_of dir (fileName day) = None}"
  shows "outbox_inv valid pruned' (s\<lparr>spoolDir := dir\<rparr>)"
    and "spooled valid s \<subseteq> spooled valid (s\<lparr>spoolDir := dir\<rparr>) \<union> logged s"
proof -
  let ?s' = "s\<lparr>spoolDir := dir\<rparr>"
  have l: "logged ?s' = logged s" by (simp add: logged_def)
  have rest: "map_of dir base = None \<or> map_of dir base = map_of (spoolDir s) base" for base
    using ret.prune_keeps_rest [OF inv, of now days removable w base] d by simp
  have "distinct (map fst dir)" using inv d by (simp add: outbox_inv_def Prune_def distinct_map_filter)
  moreover have "sound valid pruned' ?s' c" if snd_s: "sound valid pruned s c" for c
    unfolding sound_def
  proof (intro allI impI)
    fix dy n
    assume a: "map_of c dy = Some n"
    show "dy \<in> pruned' \<or> (\<exists>content. map_of (spoolDir ?s') (fileName dy) = Some content \<and> confirmed valid (logged ?s') content n)"
    proof (cases "dy \<in> pruned'")
      case False
      then have "dy \<notin> pruned" using p by simp
      then obtain content where "map_of (spoolDir s) (fileName dy) = Some content" "confirmed valid (logged s) content n"
        using snd_s a unfolding sound_def by blast
      then show ?thesis using rest [of "fileName dy"] False p l by auto
    qed simp
  qed
  moreover have "\<forall>dy\<in>pruned'. map_of dir (fileName dy) = None"
    using inv p rest by (auto simp: outbox_inv_def) (metis option.distinct(1))+
  ultimately show "outbox_inv valid pruned' ?s'" using inv by (simp add: outbox_inv_def)
  show "spooled valid s \<subseteq> spooled valid ?s' \<union> logged s"
  proof
    fix e
    assume "e \<in> spooled valid s"
    then obtain base content where b: "map_of (spoolDir s) base = Some content" "e \<in> set (events valid (complete_lines content))"
      using mem_spooled inv unfolding outbox_inv_def by blast
    show "e \<in> spooled valid ?s' \<union> logged s"
    proof (cases "map_of dir base")
      case None
      then show ?thesis using ret.prune_deletes_safe [OF inv b(1), of now days removable w] d b(2) by (auto simp: safe_to_delete_def)
    next
      case (Some x)
      then show ?thesis using rest [of base] b mem_spooled [of ?s' e valid] \<open>distinct (map fst dir)\<close> by auto
    qed
  qed
qed

lemma site_step_inv:
  assumes "site_step valid requestedAt (s, w, pruned) (s', w', pruned')" "outbox_inv valid pruned s"
  shows "outbox_inv valid pruned' s' \<and> logged s \<subseteq> logged s' \<and> spooled valid s \<subseteq> spooled valid s' \<union> logged s'"
  using assms(1)
proof (cases rule: site_step.cases)
  case (append day line opens written ok dir)
  from append(5) show ?thesis
  proof (cases rule: Write_dir)
    case 1
    then show ?thesis using append assms(2) by simp
  next
    case 2
    then show ?thesis using append append_inv [OF assms(2) append(3) 2] by (auto simp: logged_def)
  qed
next
  case (flush opens now bs as r n)
  let ?s = "s\<lparr>answers := as, saves := bs\<rparr>"
  have "grows s ?s" by (simp add: grows_def logged_def)
  then have i: "outbox_inv valid pruned ?s" using outbox_inv_log [OF assms(2)] by simp
  have "outbox_inv valid pruned s' \<and> grows ?s s'" using Flush_inv [OF i] flush(3) by (metis snd_conv)
  then show ?thesis using flush by (auto simp: grows_def spooled_def logged_def)
next
  case (ask r)
  obtain e s1 where "loadCheckpoint s = (e, s1)" by fastforce
  then have "s' = s1" "outbox_inv valid pruned s1 \<and> grows s s1"
    using ask(3) loadCheckpoint_inv [OF assms(2)] by (auto simp: ShippedThrough_def split: option.splits)
  then show ?thesis using ask by (auto simp: grows_def spooled_def)
next
  case (prune dir now days removable)
  then show ?thesis using prune_inv [OF assms(2) prune(4) refl] by (auto simp: logged_def)
next
  case (restart n)
  have "grows (s\<lparr>batchSize := n\<rparr>) (New n s)" by (simp add: New_def grows_def logged_def)
  moreover have "sound valid pruned (New n s) c = sound valid pruned s c" for c
    by (rule sound_cong) (simp_all add: New_def logged_def)
  ultimately show ?thesis using assms(2) restart by (auto simp: outbox_inv_def New_def logged_def spooled_def)
next
  case (damage f)
  have "stored f = []" using damage by (auto simp: stored_def)
  then show ?thesis
    using outbox_inv_step [OF assms(2), of "s\<lparr>ckptFile := f\<rparr>"] assms(2) damage
    by (auto simp: logged_def spooled_def outbox_inv_def)
qed

lemma site_run_inv:
  assumes "(site_step valid requestedAt)\<^sup>*\<^sup>* a b" "site_inv valid a"
  shows "site_inv valid b \<and> logged (fst a) \<subseteq> logged (fst b) \<and>
    spooled valid (fst a) \<subseteq> spooled valid (fst b) \<union> logged (fst b)"
  using assms
proof (induction rule: rtranclp_induct)
  case (step y z)
  obtain s w p s' w' p' where yz: "y = (s, w, p)" "z = (s', w', p')" by (metis prod_cases3)
  then have "outbox_inv valid p' s' \<and> logged s \<subseteq> logged s' \<and> spooled valid s \<subseteq> spooled valid s' \<union> logged s'"
    using step site_step_inv [of valid requestedAt s w p s' w' p'] by (simp add: site_inv_def)
  then show ?case using step yz by (auto simp: site_inv_def)
qed simp


section \<open>A control plane that accepts everything\<close>

text \<open>Every answer is an acceptance, there are at least \<open>k\<close> of them, and the checkpoint can be written.\<close>

definition accepting :: "nat \<Rightarrow> outbox \<Rightarrow> bool" where
  "accepting k s \<longleftrightarrow> k \<le> length (answers s) \<and>
     (\<forall>a\<in>set (answers s). \<exists>st. a = Answer st \<and> 200 \<le> st \<and> st < 300) \<and> False \<notin> set (saves s)"

lemma accepting_mono: "accepting k s \<Longrightarrow> m \<le> k \<Longrightarrow> accepting m s"
  by (simp add: accepting_def)

lemma commit_saves:
  "False \<notin> set (saves s) \<Longrightarrow>
     commit day n s = (None, s\<lparr>ckpt := checkpoint_set day n (ckpt s), saves := tl (saves s),
       ckptFile := Parsed (enc_checkpoint (checkpoint_set day n (ckpt s)))\<rparr>)"
  by (cases "saves s") (auto simp: commit_def saveCheckpoint_def split: bool.splits)

lemma flushBatch_accepting:
  assumes "accepting (Suc k) s" "batch \<noteq> []"
  shows "\<exists>s'. flushBatch now day batch n sent s = (None, sent + int (length batch), s') \<and> accepting k s' \<and>
    acked s' = acked s @ batch \<and> refused s' = refused s \<and> spoolDir s' = spoolDir s \<and> batchSize s' = batchSize s \<and>
    ckpt s' = checkpoint_set day n (ckpt s) \<and> loadedCkpt s' = loadedCkpt s"
proof -
  obtain st as where a: "answers s = Answer st # as" "200 \<le> st" "st < 300"
    using assms(1) by (cases "answers s") (auto simp: accepting_def)
  let ?s1 = "s\<lparr>answers := as, gauges := (gauges s)\<lparr>LastSuccessAt := Some now\<rparr>, acked := acked s @ batch\<rparr>"
  have p: "post now batch s = (None, ?s1)" using a by (simp add: post_def)
  have "False \<notin> set (saves s)" using assms(1) by (simp add: accepting_def)
  then have t: "False \<notin> set (tl (saves s))" by (cases "saves s") auto
  have c: "commit day n ?s1 = (None, ?s1\<lparr>ckpt := checkpoint_set day n (ckpt s), saves := tl (saves s),
       ckptFile := Parsed (enc_checkpoint (checkpoint_set day n (ckpt s)))\<rparr>)"
    using commit_saves [of ?s1 day n] \<open>False \<notin> set (saves s)\<close> by simp
  show ?thesis using assms p c t a by (auto simp: flushBatch_def accepting_def)
qed

text \<open>A day's offset stands at the end of some line, with no event in the lines between it and the ones read.\<close>

definition at_line :: "(string \<Rightarrow> bool) \<Rightarrow> string list \<Rightarrow> int \<Rightarrow> bool" where
  "at_line valid ls n \<longleftrightarrow> (\<exists>before gap. ls = before @ gap \<and> events valid gap = [] \<and> n = int (length (concat before)))"

lemma at_line_extend: "at_line valid ls n \<Longrightarrow> \<not> is_event valid l \<Longrightarrow> at_line valid (ls @ [l]) n"
  unfolding at_line_def by (metis append.assoc append_Nil2 events_Cons events_Nil events_append)

lemma at_line_end: "at_line valid ls (int (length (concat ls)))"
  unfolding at_line_def by (metis append_Nil2 events_Nil)

lemma offsetOf_set:
  assumes "ckpt s' = checkpoint_set day n (ckpt s)"
  shows "offsetOf s' d = (if d = day then n else offsetOf s d)"
  using assms by (simp add: offsetOf_def checkpoint_offsetOf_def checkpoint_set_def go_maps)

lemma ship_lines_accepting:
  assumes "accepting (length batch + length (events valid ls) + k) s"
    and "batch = [] \<Longrightarrow> at_line valid before (offsetOf s day)"
  shows "\<exists>s'. ship_lines valid now day ls batch (int (length (concat before))) (int (length (concat before))) sent s =
      (None, sent + int (length batch + length (events valid ls)), s') \<and> accepting k s' \<and>
    acked s' = acked s @ batch @ events valid ls \<and> refused s' = refused s \<and> spoolDir s' = spoolDir s \<and>
    (\<forall>d. d \<noteq> day \<longrightarrow> offsetOf s' d = offsetOf s d) \<and> at_line valid (before @ ls) (offsetOf s' day)"
  using assms
proof (induction ls arbitrary: before batch sent s)
  case Nil
  show ?case
  proof (cases "batch = []")
    case True
    then show ?thesis using Nil accepting_mono by (auto simp: flushBatch_def)
  next
    case False
    have "accepting (Suc k) s" using Nil.prems(1) False accepting_mono by (cases batch) auto
    from flushBatch_accepting [OF this False, of now day "int (length (concat before))" sent]
    show ?thesis using at_line_end by (auto simp: offsetOf_set)
  qed
next
  case (Cons l ls)
  have len: "int (length (concat before)) + int (length l) = int (length (concat (before @ [l])))" by simp
  show ?case
  proof (cases "is_event valid l")
    case False
    then have e: "events valid (l # ls) = events valid ls" by (simp add: events_Cons)
    have "ship_lines valid now day (l # ls) batch (int (length (concat before))) (int (length (concat before))) sent s =
        ship_lines valid now day ls batch (int (length (concat (before @ [l])))) (int (length (concat (before @ [l])))) sent s"
      using False len by (auto simp: Let_def is_event_def)
    then show ?thesis
      using Cons.IH [of batch s "before @ [l]" sent] Cons.prems False at_line_extend by (simp add: e)
  next
    case ev: True
    let ?batch = "batch @ [TrimSpace l]" and ?pos = "int (length (concat (before @ [l])))"
    have e: "events valid (l # ls) = TrimSpace l # events valid ls" using ev by (simp add: events_Cons)
    show ?thesis
    proof (cases "int (length ?batch) \<ge> batchSize s")
      case False
      then have "ship_lines valid now day (l # ls) batch (int (length (concat before))) (int (length (concat before))) sent s =
          ship_lines valid now day ls ?batch ?pos ?pos sent s"
        using ev len by (simp add: Let_def is_event_def)
      then show ?thesis using Cons.IH [of ?batch s "before @ [l]" sent] Cons.prems by (simp add: e)
    next
      case True
      have "accepting (Suc (length (events valid ls) + k)) s" using Cons.prems(1) accepting_mono by (auto simp: e)
      from flushBatch_accepting [OF this, of ?batch now day ?pos sent] obtain s1 where
        f: "flushBatch now day ?batch ?pos sent s = (None, sent + int (length ?batch), s1)"
        and s1: "accepting (length (events valid ls) + k) s1" "acked s1 = acked s @ ?batch" "refused s1 = refused s"
          "spoolDir s1 = spoolDir s" "ckpt s1 = checkpoint_set day ?pos (ckpt s)"
        by auto
      have "at_line valid (before @ [l]) (offsetOf s1 day)" using s1(5) at_line_end [of valid "before @ [l]"] by (simp add: offsetOf_set)
      moreover have "ship_lines valid now day (l # ls) batch (int (length (concat before))) (int (length (concat before))) sent s =
          ship_lines valid now day ls [] ?pos ?pos (sent + int (length ?batch)) s1"
        using ev len True f by (simp add: Let_def is_event_def)
      ultimately show ?thesis
        using Cons.IH [of "[]" s1 "before @ [l]" "sent + int (length ?batch)"] s1
        by (auto simp: e offsetOf_set)
    qed
  qed
qed

text \<open>The events of a file its checkpoint has not passed yet.\<close>

definition pending :: "(string \<Rightarrow> bool) \<Rightarrow> outbox \<Rightarrow> string \<Rightarrow> string list" where
  "pending valid s path =
     (if dayOf path = [] then []
      else case map_of (spoolDir s) path of None \<Rightarrow> []
      | Some content \<Rightarrow> events valid (complete_lines (drop (nat (offsetOf s (dayOf path))) content)))"

definition pending_all :: "(string \<Rightarrow> bool) \<Rightarrow> outbox \<Rightarrow> string list" where
  "pending_all valid s = concat (map (pending valid (snd (loadCheckpoint s))) (spool_files s))"

lemma shipFile_accepting:
  assumes "outbox_inv valid pruned s" "accepting (length (pending valid s path) + k) s" "\<forall>p. opens p"
    and "day = dayOf path" "day \<noteq> []"
  shows "\<exists>s'. shipFile valid opens now path day (offsetOf s day) s = (None, int (length (pending valid s path)), s') \<and>
    accepting k s' \<and> acked s' = acked s @ pending valid s path \<and> refused s' = refused s \<and> spoolDir s' = spoolDir s \<and>
    (\<forall>d. d \<noteq> day \<longrightarrow> offsetOf s' d = offsetOf s d) \<and> pending valid s' path = []"
proof -
  have path: "path = fileName day" using assms(4,5) dayOf_fileName [of path] by simp
  show ?thesis
  proof (cases "map_of (spoolDir s) path")
    case None
    then show ?thesis using assms by (simp add: shipFile_def pending_def)
  next
    case (Some content)
    then obtain before after where p: "complete_lines content = before @ after"
      "offsetOf s day = int (length (concat before))"
      using offset_confirmed [OF assms(1)] path unfolding confirmed_def by blast
    then have d: "complete_lines (drop (nat (offsetOf s day)) content) = after"
      using complete_lines_drop [OF p(1)] by simp
    then have pend: "pending valid s path = events valid after" using assms(4,5) Some by (simp add: pending_def)
    then have "accepting (length ([] :: string list) + length (events valid after) + k) s" using assms(2) by simp
    from ship_lines_accepting [OF this, of before day now 0] obtain s' where
      s': "ship_lines valid now day after [] (offsetOf s day) (offsetOf s day) 0 s = (None, int (length (events valid after)), s')"
      "accepting k s'" "acked s' = acked s @ events valid after" "refused s' = refused s" "spoolDir s' = spoolDir s"
      "\<forall>d. d \<noteq> day \<longrightarrow> offsetOf s' d = offsetOf s d" "at_line valid (complete_lines content) (offsetOf s' day)"
      using p at_line_end [of valid before] by auto
    obtain b gap where "complete_lines content = b @ gap" "events valid gap = []" "offsetOf s' day = int (length (concat b))"
      using s'(7) unfolding at_line_def by blast
    then have "pending valid s' path = []"
      using Some s'(5) assms(4) complete_lines_drop [of content b gap] by (simp add: pending_def)
    moreover have "shipFile valid opens now path day (offsetOf s day) s = (None, int (length (pending valid s path)), s')"
      using Some s'(1) d p(2) pend assms(3) by (simp add: shipFile_def)
    ultimately show ?thesis using s' pend by auto
  qed
qed

lemma pending_other:
  assumes "path' \<noteq> path" "dayOf path \<noteq> []" "spoolDir s' = spoolDir s"
    and "\<forall>d. d \<noteq> dayOf path \<longrightarrow> offsetOf s' d = offsetOf s d"
  shows "pending valid s' path' = pending valid s path'"
proof (cases "dayOf path' = []")
  case True
  then show ?thesis by (simp add: pending_def)
next
  case False
  then have "dayOf path' \<noteq> dayOf path" using assms(1,2) dayOf_fileName [of path] dayOf_fileName [of path'] by metis
  then have "offsetOf s' (dayOf path') = offsetOf s (dayOf path')" using assms(4) by simp
  then show ?thesis using assms(3) by (simp add: pending_def split: option.splits)
qed

lemma flush_files_accepting:
  assumes "outbox_inv valid pruned s" "loadedCkpt s" "\<forall>p. opens p" "distinct paths"
    and "accepting (length (concat (map (pending valid s) paths))) s"
  shows "\<exists>s'. flush_files valid opens now paths n s =
      (None, n + int (length (concat (map (pending valid s) paths))), s') \<and>
    acked s' = acked s @ concat (map (pending valid s) paths) \<and> refused s' = refused s \<and> spoolDir s' = spoolDir s \<and>
    (\<forall>p. p \<notin> set paths \<longrightarrow> pending valid s' p = pending valid s p) \<and> (\<forall>p\<in>set paths. pending valid s' p = [])"
  using assms
proof (induction paths arbitrary: n s)
  case (Cons path paths)
  show ?case
  proof (cases "dayOf path = []")
    case True
    then have none: "pending valid s' path = []" for s' by (simp add: pending_def)
    then have "accepting (length (concat (map (pending valid s) paths))) s" using Cons.prems(5) by simp
    from Cons.IH [OF Cons.prems(1,2,3) _ this, of n] Cons.prems(4) show ?thesis using True none by auto
  next
    case False
    have "accepting (length (pending valid s path) + length (concat (map (pending valid s) paths))) s"
      using Cons.prems(5) by simp
    from shipFile_accepting [OF Cons.prems(1) this Cons.prems(3) refl False, of now] obtain s1 where
      f: "shipFile valid opens now path (dayOf path) (offsetOf s (dayOf path)) s = (None, int (length (pending valid s path)), s1)"
      and s1: "accepting (length (concat (map (pending valid s) paths))) s1" "acked s1 = acked s @ pending valid s path"
        "refused s1 = refused s" "spoolDir s1 = spoolDir s" "pending valid s1 path = []"
        "\<forall>d. d \<noteq> dayOf path \<longrightarrow> offsetOf s1 d = offsetOf s d"
      by auto
    have other: "pending valid s1 p = pending valid s p" if "p \<noteq> path" for p
      using pending_other [OF that False s1(4,6)] .
    then have same: "map (pending valid s1) paths = map (pending valid s) paths"
      using Cons.prems(4) by (metis (no_types, lifting) distinct.simps(2) map_eq_conv)
    have path: "path = fileName (dayOf path)" using False dayOf_fileName by blast
    have i: "outbox_inv valid pruned s1" "loadedCkpt s1"
      using shipFile_inv [OF Cons.prems(1,2)] f path by metis+
    have acc: "accepting (length (concat (map (pending valid s1) paths))) s1"
      using s1(1) unfolding same .
    have dis: "distinct paths" "path \<notin> set paths" using Cons.prems(4) by auto
    from Cons.IH [OF i Cons.prems(3) dis(1) acc, of "n + int (length (pending valid s path))"] obtain s' where
      s': "flush_files valid opens now paths (n + int (length (pending valid s path))) s1 =
        (None, n + int (length (pending valid s path)) + int (length (concat (map (pending valid s) paths))), s')"
      "acked s' = acked s1 @ concat (map (pending valid s) paths)" "refused s' = refused s1" "spoolDir s' = spoolDir s1"
      "\<forall>p. p \<notin> set paths \<longrightarrow> pending valid s' p = pending valid s1 p" "\<forall>p\<in>set paths. pending valid s' p = []"
      unfolding same by blast
    have "flush_files valid opens now (path # paths) n s =
        (None, n + int (length (concat (map (pending valid s) (path # paths)))), s')"
      using f s'(1) False by (simp add: Let_def)
    then show ?thesis using s' s1 other dis by auto
  qed
qed simp

lemma refresh_keeps:
  assumes "loadedCkpt s"
  shows "let s' = refreshQueueGauges valid requestedAt opens now s in
    acked s' = acked s \<and> refused s' = refused s \<and> spoolDir s' = spoolDir s \<and> ckpt s' = ckpt s \<and> loadedCkpt s'"
  using assms by (auto simp: refreshQueueGauges_def loadCheckpoint_def Let_def split: prod.splits)

lemma pending_cong:
  "spoolDir s' = spoolDir s \<Longrightarrow> ckpt s' = ckpt s \<Longrightarrow> pending valid s' = pending valid s"
  by (auto simp: pending_def offsetOf_def fun_eq_iff split: option.splits)

text \<open>
  C16. A healthy link drains the spool, exactly once and in order. In any state the system can reach, when
  the day files can be opened, the checkpoint can be read and written, and the control plane accepts
  every batch, one flush succeeds, sends precisely the events no checkpoint has passed (file by file in
  the order of their days, line by line), reports their number, refuses none, and leaves nothing
  pending: the next flush sends no event again.
\<close>

theorem flush_ships_everything:
  assumes "(site_step valid requestedAt)\<^sup>*\<^sup>* (first_start n, Open_Writer, {}) (s, w, p)"
    and "loadedCkpt s \<or> ckptFile s \<noteq> Unreadable" "\<forall>path. opens path"
    and "accepting (length (pending_all valid s)) (s\<lparr>answers := as, saves := bs\<rparr>)"
  shows "\<exists>s'. Flush valid requestedAt opens now (s\<lparr>answers := as, saves := bs\<rparr>) =
      (None, int (length (pending_all valid s)), s') \<and>
    acked s' = acked s @ pending_all valid s \<and> refused s' = refused s \<and>
    spoolDir s' = spoolDir s \<and> pending_all valid s' = []"
proof -
  let ?s = "s\<lparr>answers := as, saves := bs\<rparr>"
  have "outbox_inv valid p s"
    using site_run_inv [OF assms(1)] by (simp add: site_inv_def first_start_inv)
  then have i: "outbox_inv valid p ?s"
    using outbox_inv_log [of valid p s ?s] by (simp add: grows_def logged_def)
  define s1 where "s1 = snd (loadCheckpoint ?s)"
  have l: "loadCheckpoint ?s = (None, s1)" and s1: "acked s1 = acked s" "refused s1 = refused s"
    "spoolDir s1 = spoolDir s" "answers s1 = as" "saves s1 = bs" "ckpt s1 = ckpt (snd (loadCheckpoint s))"
    using assms(2) by (auto simp: s1_def loadCheckpoint_def split: ckpt_file.splits)
  have sp: "spoolDir (snd (loadCheckpoint s)) = spoolDir s"
    by (auto simp: loadCheckpoint_def split: ckpt_file.splits)
  have all: "pending_all valid s = concat (map (pending valid s1) (spool_files s1))"
    using pending_cong [of s1 "snd (loadCheckpoint s)" valid] s1 sp by (simp add: pending_all_def spool_files_def)
  have i1: "outbox_inv valid p s1" "loadedCkpt s1" using loadCheckpoint_inv [OF i l] by auto
  have "distinct (spool_files s1)" using i1(1) by (simp add: spool_files_def outbox_inv_def)
  moreover have "accepting (length (concat (map (pending valid s1) (spool_files s1)))) s1"
    using assms(4) s1 all by (simp add: accepting_def)
  ultimately obtain s2 where f: "flush_files valid opens now (spool_files s1) 0 s1 =
      (None, int (length (pending_all valid s)), s2)"
    and s2: "acked s2 = acked s1 @ pending_all valid s" "refused s2 = refused s1" "spoolDir s2 = spoolDir s1"
      "\<forall>path\<in>set (spool_files s1). pending valid s2 path = []"
    using flush_files_accepting [OF i1 assms(3), of "spool_files s1" now 0] all by auto
  have i2: "loadedCkpt s2" using flush_files_inv [OF i1 f] by blast
  let ?s' = "refreshQueueGauges valid requestedAt opens now s2"
  have k: "acked ?s' = acked s2" "refused ?s' = refused s2" "spoolDir ?s' = spoolDir s2" "ckpt ?s' = ckpt s2" "loadedCkpt ?s'"
    using refresh_keeps [OF i2, of valid requestedAt opens now] by (auto simp: Let_def)
  have "snd (loadCheckpoint ?s') = ?s'" using k(5) by (simp add: loadCheckpoint_def)
  then have "pending_all valid ?s' = []"
    using pending_cong [OF k(3,4), of valid] k(3) s2(3,4) by (simp add: pending_all_def spool_files_def)
  moreover have "Flush valid requestedAt opens now ?s = (None, int (length (pending_all valid s)), ?s')"
    using l f by (simp add: Flush_def)
  ultimately show ?thesis using k s1 s2 by auto
qed

section \<open>Tails without events\<close>

lemma ship_lines_no_events:
  "events valid ls = [] \<Longrightarrow> ship_lines valid now day ls [] pos batchEnd sent s = (None, sent, s)"
  by (induction ls arbitrary: pos batchEnd)
    (auto simp: flushBatch_def events_Cons is_event_def Let_def split: if_splits)

lemma shipFile_no_events:
  assumes "map_of (spoolDir s) (fileName day) = Some content" "0 \<le> n" "opens (fileName day)"
    and "events valid (complete_lines (drop (nat n) content)) = []"
  shows "shipFile valid opens now (fileName day) day n s = (None, 0, s)"
  using assms by (simp add: shipFile_def ship_lines_no_events)

text \<open>
  A pass that finds only lines it cannot read commits nothing. When the bytes past a day's checkpoint
  hold no event (blank lines, lines cut short by a full disk, a last line that was never ended), shipping
  the file succeeds, sends nothing and changes nothing, so a day with such a tail is not fully shipped
  after the pass, however healthy the link: retention keeps its file.
\<close>

theorem eventless_tail_stays:
  assumes "loadedCkpt s" "map_of (spoolDir s) (fileName day) = Some content" "opens (fileName day)"
    and "0 \<le> offsetOf s day" "offsetOf s day < int (length content)"
    and "events valid (complete_lines (drop (nat (offsetOf s day)) content)) = []"
  shows "shipFile valid opens now (fileName day) day (offsetOf s day) s = (None, 0, s) \<and>
    \<not> fst (FullyShipped day s)"
proof -
  have "map_of (ckpt s) day = Some n \<Longrightarrow> n < int (length content)" for n
    using assms(5) by (simp add: offsetOf_def checkpoint_offsetOf_def)
  moreover have "shipFile valid opens now (fileName day) day (offsetOf s day) s = (None, 0, s)"
    using assms by (intro shipFile_no_events)
  ultimately show ?thesis using assms(1,2)
    by (auto simp: FullyShipped_def ShippedThrough_def loadCheckpoint_def split: option.splits)
qed

section \<open>Samples\<close>

definition sample_valid :: "string \<Rightarrow> bool" where
  "sample_valid l = (hd l = CHR ''{'' \<and> hd (rev l) = CHR ''}'')"

definition sample_line :: string where "sample_line = ''{1}''"

definition sample_day :: string where "sample_day = ''20260102''"

definition sample_site :: "string \<Rightarrow> outbox" where
  "sample_site content = (first_start 2)\<lparr>spoolDir := [(fileName sample_day, content)]\<rparr>"

lemma sample_append:
  "site_step sample_valid (\<lambda>_. None) (first_start 2, Open_Writer, {})
     (sample_site (sample_line @ [newline]), \<lparr>curDay = sample_day, handle = OpenFile\<rparr>, {})"
proof -
  have "Write sample_line sample_day True 4 Open_Writer (spoolDir (first_start 2)) =
      (True, \<lparr>curDay = sample_day, handle = OpenFile\<rparr>, [(fileName sample_day, sample_line @ [newline])])"
    by (simp add: Write_def Open_Writer_def first_start_def fileOf_def sample_line_def)
  moreover have "parse_day sample_day \<noteq> None" by code_simp
  ultimately show ?thesis using site_step.append [of sample_day "{}"] by (fastforce simp: sample_site_def)
qed

lemma sample_pending:
  "pending_all sample_valid (sample_site (sample_line @ [newline])) = [sample_line]"
  "spooled sample_valid (sample_site (sample_line @ [newline])) = {sample_line}"
  by code_simp+

lemma sample_run:
  "(site_step sample_valid (\<lambda>_. None))\<^sup>*\<^sup>* (first_start 2, Open_Writer, {})
     (sample_site (sample_line @ [newline]), \<lparr>curDay = sample_day, handle = OpenFile\<rparr>, {})"
  using sample_append by (rule r_into_rtranclp)

definition sample_flushed :: outbox where
  "sample_flushed = snd (snd (Flush sample_valid (\<lambda>_. None) (\<lambda>_. True) 0
     ((sample_site (sample_line @ [newline]))\<lparr>answers := [Answer 200], saves := []\<rparr>)))"

lemma sample_flush:
  "(site_step sample_valid (\<lambda>_. None))\<^sup>*\<^sup>*
     (sample_site (sample_line @ [newline]), \<lparr>curDay = sample_day, handle = OpenFile\<rparr>, {})
     (sample_flushed, \<lparr>curDay = sample_day, handle = OpenFile\<rparr>, {})"
proof -
  obtain r n s' where f: "Flush sample_valid (\<lambda>_. None) (\<lambda>_. True) 0
     ((sample_site (sample_line @ [newline]))\<lparr>answers := [Answer 200], saves := []\<rparr>) = (r, n, s')"
    by (metis prod_cases3)
  then have "sample_flushed = s'" by (simp add: sample_flushed_def)
  then show ?thesis using site_step.flush [OF f] by (intro r_into_rtranclp) simp
qed


theorem flush_ships_everything_witness:
  "\<exists>s'. Flush sample_valid (\<lambda>_. None) (\<lambda>_. True) 0
     ((sample_site (sample_line @ [newline]))\<lparr>answers := [Answer 200], saves := []\<rparr>) = (None, 1, s') \<and>
   acked s' = [sample_line]"
proof -
  have "accepting (length (pending_all sample_valid (sample_site (sample_line @ [newline]))))
     ((sample_site (sample_line @ [newline]))\<lparr>answers := [Answer 200], saves := []\<rparr>)"
    by (simp add: sample_pending accepting_def)
  then show ?thesis
    using flush_ships_everything [OF sample_run, of "\<lambda>_. True" "[]" "[Answer 200]" 0] sample_pending(1)
    by (auto simp: sample_site_def first_start_def)
qed

theorem eventless_tail_stays_witness:
  "\<not> fst (FullyShipped sample_day ((sample_site (''cut'' @ [newline]))\<lparr>loadedCkpt := True\<rparr>))"
proof -
  let ?s = "(sample_site (''cut'' @ [newline]))\<lparr>loadedCkpt := True\<rparr>"
  have "offsetOf ?s sample_day = 0" by code_simp
  moreover have "events sample_valid (complete_lines (''cut'' @ [newline])) = []" by code_simp
  ultimately show ?thesis
    using eventless_tail_stays [of ?s sample_day "''cut'' @ [newline]" "\<lambda>_. True" sample_valid 0]
    by (simp add: sample_site_def)
qed

end
