(* ===== verification/Rate_Limits.thy ===== *)
theory Rate_Limits
  imports Gateway_Prelude
begin

text \<open>
  The per-key limiter of \<open>internal/limits/limits.go\<close>: request and token buckets, the concurrency
  count, leases and garbage collection. Key states are objects the map and the release closures
  share, so they live in a heap and both hold addresses. Instants and durations are nanoseconds;
  bucket levels are rationals where the code has \<open>float64\<close>, so rounding is not modelled. A mutex
  serializes every operation, which makes a run a sequence of operations.
\<close>

section \<open>State\<close>

datatype Reason = OK | RpmLimit | TpmLimit | ConcurrencyLimit

text \<open>The zero time of a bucket that was never filled is \<^const>\<open>None\<close>.\<close>

record bucket =
  level :: rat
  lastFill :: "int option"

record keyState =
  rpmB :: bucket
  tpmB :: bucket
  inFlight :: int
  lastSeen :: int

text \<open>A lease is the state a release closure captures: the key state's address and its flag.\<close>

record Limiter =
  perKey :: "nat gomap"
  heap :: "keyState list"
  leases :: "(nat \<times> bool) list"
  lastGC :: "int option"

record Decision =
  Lease :: "nat option"
  DReason :: Reason
  RetryAfter :: int
  RemainingRequests :: int

definition second :: int where "second = 1000000000"
definition minute :: int where "minute = 60 * second"
definition gcEvery :: int where "gcEvery = 10 * minute"
definition idleTTL :: int where "idleTTL = 60 * minute"

definition New :: Limiter where
  "New = \<lparr>perKey = [], heap = [], leases = [], lastGC = None\<rparr>"

definition bucket_zero :: bucket where "bucket_zero = \<lparr>level = 0, lastFill = None\<rparr>"

definition keyState_zero :: keyState where
  "keyState_zero = \<lparr>rpmB = bucket_zero, tpmB = bucket_zero, inFlight = 0, lastSeen = 0\<rparr>"

section \<open>Operations\<close>

definition minutes :: "int \<Rightarrow> rat" where
  "minutes d = of_int d / of_int minute"

definition refill :: "int \<Rightarrow> int \<Rightarrow> bucket \<Rightarrow> bucket" where
  "refill now perMinute b =
     (case lastFill b of
        None \<Rightarrow> b\<lparr>level := of_int perMinute, lastFill := Some now\<rparr>
      | Some prev \<Rightarrow>
          let elapsed = minutes (now - prev) in
          if elapsed \<le> 0 then b
          else b\<lparr>level := min (level b + elapsed * of_int perMinute) (of_int perMinute),
                 lastFill := Some now\<rparr>)"

definition refillWait :: "rat \<Rightarrow> rat \<Rightarrow> int \<Rightarrow> int" where
  "refillWait lvl target perMinute =
     (if perMinute \<le> 0 \<or> lvl \<ge> target then second
      else let d = \<lfloor>(target - lvl) / of_int perMinute * of_int minute\<rfloor>
           in if d < second then second else d)"

definition gcLocked :: "int \<Rightarrow> Limiter \<Rightarrow> Limiter" where
  "gcLocked now l =
     (if (case lastGC l of None \<Rightarrow> False | Some g \<Rightarrow> now - g < gcEvery) then l
      else l\<lparr>lastGC := Some now,
             perKey := filter (\<lambda>(k, a). \<not> (inFlight (heap l ! a) = 0 \<and> now - lastSeen (heap l ! a) > idleTTL))
                         (perKey l)\<rparr>)"

text \<open>The key's state, allocated on first use.\<close>

definition stateOf :: "string \<Rightarrow> Limiter \<Rightarrow> nat \<times> Limiter" where
  "stateOf keyID l =
     (case map_of (perKey l) keyID of
        Some a \<Rightarrow> (a, l)
      | None \<Rightarrow> (length (heap l),
          l\<lparr>perKey := AList.update keyID (length (heap l)) (perKey l), heap := heap l @ [keyState_zero]\<rparr>))"

definition put :: "nat \<Rightarrow> keyState \<Rightarrow> Limiter \<Rightarrow> Limiter" where
  "put a st l = l\<lparr>heap := (heap l)[a := st]\<rparr>"

definition refused :: "Reason \<Rightarrow> int \<Rightarrow> Decision" where
  "refused reason wait = \<lparr>Lease = None, DReason = reason, RetryAfter = wait, RemainingRequests = -1\<rparr>"

definition Acquire :: "int \<Rightarrow> string \<Rightarrow> int \<Rightarrow> int \<Rightarrow> int \<Rightarrow> Limiter \<Rightarrow> Decision \<times> Limiter" where
  "Acquire now keyID rpm tpm conc l0 =
     (let (a, l) = stateOf keyID (gcLocked now l0);
          st0 = heap l ! a;
          st = st0\<lparr>lastSeen := now, rpmB := refill now rpm (rpmB st0), tpmB := refill now tpm (tpmB st0)\<rparr>
      in if inFlight st \<ge> conc then (refused ConcurrencyLimit second, put a st l)
         else if level (rpmB st) < 1
           then (refused RpmLimit (refillWait (level (rpmB st)) 1 rpm), put a st l)
         else if level (tpmB st) < 0
           then (refused TpmLimit (refillWait (level (tpmB st)) 0 tpm), put a st l)
         else
           let b = (rpmB st)\<lparr>level := level (rpmB st) - 1\<rparr>;
               st' = st\<lparr>rpmB := b, inFlight := inFlight st + 1\<rparr>
           in (\<lparr>Lease = Some (length (leases l)), DReason = OK, RetryAfter = 0,
                RemainingRequests = \<lfloor>level b\<rfloor>\<rparr>,
               (put a st' l)\<lparr>leases := leases l @ [(a, False)]\<rparr>))"

definition Release :: "nat \<Rightarrow> Limiter \<Rightarrow> Limiter" where
  "Release i l =
     (case leases l ! i of (a, released) \<Rightarrow>
        if released then l
        else let st = heap l ! a in
          (if inFlight st > 0 then put a (st\<lparr>inFlight := inFlight st - 1\<rparr>) l else l)
            \<lparr>leases := (leases l)[i := (a, True)]\<rparr>)"

definition ChargeTokens :: "int \<Rightarrow> string \<Rightarrow> int \<Rightarrow> int \<Rightarrow> Limiter \<Rightarrow> Limiter" where
  "ChargeTokens now keyID tpm tokens l =
     (if tokens \<le> 0 then l
      else case map_of (perKey l) keyID of
        None \<Rightarrow> l
      | Some a \<Rightarrow>
          let st = heap l ! a; b = refill now tpm (tpmB st)
          in put a (st\<lparr>tpmB := b\<lparr>level := level b - of_int tokens\<rparr>\<rparr>) l)"

definition InFlight :: "string \<Rightarrow> Limiter \<Rightarrow> int" where
  "InFlight keyID l = (case map_of (perKey l) keyID of None \<Rightarrow> 0 | Some a \<Rightarrow> inFlight (heap l ! a))"

section \<open>Runs\<close>

datatype event =
    EAcquire string int int int
  | ERelease nat
  | ECharge string int int

text \<open>One operation at an instant; a release is of a lease that was handed out.\<close>

fun exec :: "int \<Rightarrow> event \<Rightarrow> Limiter \<Rightarrow> Decision option \<times> Limiter" where
  "exec now (EAcquire k rpm tpm conc) l = (case Acquire now k rpm tpm conc l of (d, l') \<Rightarrow> (Some d, l'))"
| "exec now (ERelease i) l = (None, if i < length (leases l) then Release i l else l)"
| "exec now (ECharge k tpm n) l = (None, ChargeTokens now k tpm n l)"

fun run :: "(int \<times> event) list \<Rightarrow> Limiter \<Rightarrow> Limiter" where
  "run [] l = l"
| "run ((now, e) # es) l = run es (snd (exec now e l))"

text \<open>How many requests of a key a run admits.\<close>

fun admits :: "string \<Rightarrow> event \<Rightarrow> Decision option \<Rightarrow> nat" where
  "admits k (EAcquire k' rpm tpm conc) (Some d) = (if k' = k \<and> DReason d = OK then 1 else 0)"
| "admits k e d = 0"

fun admitted :: "string \<Rightarrow> (int \<times> event) list \<Rightarrow> Limiter \<Rightarrow> nat" where
  "admitted k [] l = 0"
| "admitted k ((now, e) # es) l =
     (case exec now e l of (d, l') \<Rightarrow> admits k e d + admitted k es l')"

section \<open>Concurrency\<close>

definition outstanding :: "nat \<Rightarrow> (nat \<times> bool) list \<Rightarrow> nat" where
  "outstanding a ls = length (filter (\<lambda>x. x = (a, False)) ls)"

text \<open>
  The map and the leases point into the heap, no state is shared by two keys, an open lease's state
  is still in the map, and every state's count is the number of its open leases.
\<close>

definition lim_inv :: "Limiter \<Rightarrow> bool" where
  "lim_inv l \<longleftrightarrow>
     distinct (map fst (perKey l)) \<and> distinct (map snd (perKey l)) \<and>
     (\<forall>a\<in>snd ` set (perKey l). a < length (heap l)) \<and>
     (\<forall>x\<in>set (leases l). fst x < length (heap l) \<and> (\<not> snd x \<longrightarrow> fst x \<in> snd ` set (perKey l))) \<and>
     (\<forall>a<length (heap l). inFlight (heap l ! a) = int (outstanding a (leases l)))"

lemma outstanding_append: "outstanding a (ls @ [(b, False)]) = outstanding a ls + (if a = b then 1 else 0)"
  by (auto simp: outstanding_def)

lemma outstanding_pos_iff: "outstanding a ls > 0 \<longleftrightarrow> (a, False) \<in> set ls"
  by (auto simp: outstanding_def filter_empty_conv)

lemma outstanding_close:
  assumes "i < length ls" "ls ! i = (b, False)"
  shows "outstanding b ls = Suc (outstanding b (ls[i := (b, True)]))"
    and "a \<noteq> b \<Longrightarrow> outstanding a (ls[i := (b, True)]) = outstanding a ls"
proof -
  have ls: "ls = take i ls @ (b, False) # drop (Suc i) ls" using assms by (metis id_take_nth_drop)
  have up: "ls[i := (b, True)] = take i ls @ (b, True) # drop (Suc i) ls"
    using assms by (simp add: upd_conv_take_nth_drop)
  show "outstanding b ls = Suc (outstanding b (ls[i := (b, True)]))"
    unfolding outstanding_def up by (subst (1) ls) simp
  show "a \<noteq> b \<Longrightarrow> outstanding a (ls[i := (b, True)]) = outstanding a ls"
    unfolding outstanding_def up by (subst (3) ls) simp
qed

lemma gcLocked_simps [simp]: "heap (gcLocked now l) = heap l" "leases (gcLocked now l) = leases l"
  by (auto simp: gcLocked_def)

lemma gcLocked_inv: "lim_inv l \<Longrightarrow> lim_inv (gcLocked now l)"
proof -
  assume inv: "lim_inv l"
  let ?keep = "\<lambda>(k, a). \<not> (inFlight (heap l ! a) = 0 \<and> now - lastSeen (heap l ! a) > idleTTL)"
  have "a \<in> snd ` set (filter ?keep (perKey l))" if "(a, False) \<in> set (leases l)" for a
  proof -
    have "a < length (heap l)" "a \<in> snd ` set (perKey l)" using inv that by (force simp: lim_inv_def)+
    moreover have "inFlight (heap l ! a) \<noteq> 0"
      using inv that calculation(1) outstanding_pos_iff [of a "leases l"] by (auto simp: lim_inv_def)
    ultimately show ?thesis by force
  qed
  then show ?thesis
    using inv by (auto simp: lim_inv_def gcLocked_def distinct_map_filter)
qed

lemma stateOf_inv:
  assumes "lim_inv l" "stateOf k l = (a, l')"
  shows "lim_inv l'" "map_of (perKey l') k = Some a" "a < length (heap l')"
    "leases l' = leases l" "\<And>k'. k' \<noteq> k \<Longrightarrow> map_of (perKey l') k' = map_of (perKey l) k'"
    "\<And>b. b < length (heap l) \<Longrightarrow> heap l' ! b = heap l ! b" "length (heap l) \<le> length (heap l')"
    "heap l' ! a = (case map_of (perKey l) k of None \<Rightarrow> keyState_zero | Some b \<Rightarrow> heap l ! b)"
proof -
  have upd: "AList.update k v m = m @ [(k, v)]" if "map_of m k = None" for v and m :: "nat gomap"
    using that by (induction m) (auto split: if_splits)
  have open0: "outstanding (length (heap l)) (leases l) = 0"
    using assms(1) outstanding_pos_iff [of "length (heap l)" "leases l"] by (fastforce simp: lim_inv_def)
  show "lim_inv l'"
  proof (cases "map_of (perKey l) k")
    case None
    then have l': "l' = l\<lparr>perKey := perKey l @ [(k, length (heap l))], heap := heap l @ [keyState_zero]\<rparr>"
      using assms(2) by (auto simp: stateOf_def upd)
    have "k \<notin> fst ` set (perKey l)" using None by (simp add: map_of_eq_None_iff)
    moreover have "length (heap l) \<notin> snd ` set (perKey l)" using assms(1) by (auto simp: lim_inv_def)
    ultimately show ?thesis
      using assms(1) open0 unfolding l' by (auto simp: lim_inv_def nth_append keyState_zero_def less_Suc_eq)
  qed (use assms in \<open>simp add: stateOf_def\<close>)
  show "a < length (heap l')"
    using assms by (auto simp: stateOf_def lim_inv_def dest: map_of_SomeD split: option.splits)
qed (use assms(2) in \<open>auto simp: stateOf_def go_maps nth_append split: option.splits\<close>)

lemma put_inv:
  assumes "lim_inv l" "inFlight st = inFlight (heap l ! a)"
  shows "lim_inv (put a st l)"
  using assms by (cases "a < length (heap l)") (auto simp: lim_inv_def put_def nth_list_update)

lemma Acquire_cases:
  assumes "Acquire now k rpm tpm conc l0 = (d, l')"
  obtains a l st where "stateOf k (gcLocked now l0) = (a, l)"
    "st = (heap l ! a)\<lparr>lastSeen := now, rpmB := refill now rpm (rpmB (heap l ! a)),
            tpmB := refill now tpm (tpmB (heap l ! a))\<rparr>"
    "DReason d \<noteq> OK \<and> Lease d = None \<and> l' = put a st l \<or>
     DReason d = OK \<and> Lease d = Some (length (leases l)) \<and> inFlight st < conc \<and>
       level (rpmB st) \<ge> 1 \<and> level (tpmB st) \<ge> 0 \<and>
       l' = (put a (st\<lparr>rpmB := (rpmB st)\<lparr>level := level (rpmB st) - 1\<rparr>, inFlight := inFlight st + 1\<rparr>) l)
             \<lparr>leases := leases l @ [(a, False)]\<rparr>"
  using assms unfolding Acquire_def
  by (auto simp: Let_def refused_def split: prod.splits if_splits)

lemma Acquire_inv:
  assumes "lim_inv l0" "Acquire now k rpm tpm conc l0 = (d, l')"
  shows "lim_inv l'" "DReason d = OK \<Longrightarrow> InFlight k l' \<le> conc"
proof -
  obtain a l st where a: "stateOf k (gcLocked now l0) = (a, l)"
    and st: "st = (heap l ! a)\<lparr>lastSeen := now, rpmB := refill now rpm (rpmB (heap l ! a)),
            tpmB := refill now tpm (tpmB (heap l ! a))\<rparr>"
    and l': "DReason d \<noteq> OK \<and> Lease d = None \<and> l' = put a st l \<or>
     DReason d = OK \<and> Lease d = Some (length (leases l)) \<and> inFlight st < conc \<and>
       level (rpmB st) \<ge> 1 \<and> level (tpmB st) \<ge> 0 \<and>
       l' = (put a (st\<lparr>rpmB := (rpmB st)\<lparr>level := level (rpmB st) - 1\<rparr>, inFlight := inFlight st + 1\<rparr>) l)
             \<lparr>leases := leases l @ [(a, False)]\<rparr>"
    using assms(2) by (rule Acquire_cases)
  note so = stateOf_inv [OF gcLocked_inv [OF assms(1)] a]
  have inm: "a \<in> snd ` set (perKey l)" using so(2) map_of_SomeD by force
  show "lim_inv l'"
    using l'
  proof (elim disjE conjE)
    assume "l' = put a st l"
    then show ?thesis using put_inv [OF so(1), of st a] st by simp
  next
    assume "l' = (put a (st\<lparr>rpmB := (rpmB st)\<lparr>level := level (rpmB st) - 1\<rparr>, inFlight := inFlight st + 1\<rparr>) l)
             \<lparr>leases := leases l @ [(a, False)]\<rparr>"
    then show ?thesis
      using so(1,3) inm st by (auto simp: lim_inv_def put_def nth_list_update outstanding_append)
  qed
  show "InFlight k l' \<le> conc" if "DReason d = OK"
    using that l' so(2,3) by (auto simp: InFlight_def put_def)
qed

lemma Release_inv:
  assumes "lim_inv l" "i < length (leases l)"
  shows "lim_inv (Release i l)"
proof (cases "leases l ! i")
  case (Pair a r)
  show ?thesis
  proof (cases r)
    case False
    with Pair have op: "leases l ! i = (a, False)" by simp
    then have mem: "(a, False) \<in> set (leases l)" using assms(2) nth_mem by metis
    then have a: "a < length (heap l)" using assms(1) by (force simp: lim_inv_def)
    then have "inFlight (heap l ! a) > 0"
      using assms(1) mem outstanding_pos_iff [of a "leases l"] by (auto simp: lim_inv_def)
    then have l': "Release i l = l\<lparr>heap := (heap l)[a := (heap l ! a)\<lparr>inFlight := inFlight (heap l ! a) - 1\<rparr>],
        leases := (leases l)[i := (a, True)]\<rparr>"
      using op by (simp add: Release_def put_def Let_def)
    have "inFlight (heap l ! b) = int (outstanding b (leases l))" if "b < length (heap l)" for b
      using assms(1) that by (simp add: lim_inv_def)
    then have counts: "inFlight ((heap l)[a := (heap l ! a)\<lparr>inFlight := inFlight (heap l ! a) - 1\<rparr>] ! b) =
        int (outstanding b ((leases l)[i := (a, True)]))" if "b < length (heap l)" for b
      using that outstanding_close [OF assms(2) op] a by (cases "b = a") auto
    have "fst x < length (heap l) \<and> (\<not> snd x \<longrightarrow> fst x \<in> snd ` set (perKey l))"
      if "x \<in> set ((leases l)[i := (a, True)])" for x
    proof -
      have "x = (a, True) \<or> x \<in> set (leases l)" using that set_update_subset_insert by fast
      then show ?thesis using assms(1) a unfolding lim_inv_def by auto
    qed
    then show ?thesis
      using assms(1) counts unfolding l' lim_inv_def by simp
  qed (use Pair assms in \<open>simp add: Release_def\<close>)
qed

lemma Charge_inv: "lim_inv l \<Longrightarrow> lim_inv (ChargeTokens now k tpm n l)"
  by (auto simp: ChargeTokens_def Let_def split: option.splits intro: put_inv)

lemma exec_inv: "lim_inv l \<Longrightarrow> lim_inv (snd (exec now e l))"
  by (cases e) (auto simp: Acquire_inv(1) Release_inv Charge_inv split: prod.splits)

lemma run_inv: "lim_inv l \<Longrightarrow> lim_inv (run es l)"
  by (induction es arbitrary: l) (auto simp: exec_inv split: prod.splits)

lemma New_inv: "lim_inv New"
  by (simp add: lim_inv_def New_def)

section \<open>Request rate\<close>

text \<open>What the request bucket of a key depends on.\<close>

definition rview :: "string \<Rightarrow> Limiter \<Rightarrow> (bucket \<times> int) option" where
  "rview k l = map_option (\<lambda>a. (rpmB (heap l ! a), lastSeen (heap l ! a))) (map_of (perKey l) k)"

lemma minutes_nonneg: "0 \<le> minutes d \<longleftrightarrow> 0 \<le> d" "minutes d \<le> 0 \<longleftrightarrow> d \<le> 0"
  by (simp_all add: minutes_def minute_def second_def zero_le_divide_iff divide_le_0_iff)

lemma minutes_0 [simp]: "minutes 0 = 0"
  by (simp add: minutes_def)

lemma minutes_add: "minutes (a + b) = minutes a + minutes b"
  by (simp add: minutes_def add_divide_distrib)

lemma put_rview_other:
  assumes "lim_inv l" "map_of (perKey l) k' = Some a" "k \<noteq> k'"
  shows "rview k (put a st l) = rview k l"
proof (cases "map_of (perKey l) k")
  case (Some b)
  have "b \<noteq> a"
  proof
    assume "b = a"
    then have "(k, a) \<in> set (perKey l)" "(k', a) \<in> set (perKey l)" using Some assms(2) map_of_SomeD by metis+
    moreover have "inj_on snd (set (perKey l))" using assms(1) by (simp add: lim_inv_def distinct_map)
    ultimately show False using assms(3) by (metis inj_onD prod.inject snd_conv)
  qed
  then show ?thesis using Some by (simp add: rview_def put_def)
qed (simp add: rview_def put_def)

lemma put_rview_same:
  assumes "a < length (heap l)" "rpmB st = rpmB (heap l ! a)" "lastSeen st = lastSeen (heap l ! a)"
  shows "rview k (put a st l) = rview k l"
  using assms by (auto simp: rview_def put_def nth_list_update map_option_case split: option.splits)

lemma put_rview_key:
  assumes "a < length (heap l)" "map_of (perKey l) k = Some a"
  shows "rview k (put a st l) = Some (rpmB st, lastSeen st)"
  using assms by (simp add: rview_def put_def)

lemma Release_rview:
  assumes "lim_inv l" "i < length (leases l)"
  shows "rview k (Release i l) = rview k l"
proof -
  have "fst (leases l ! i) < length (heap l)" using assms nth_mem by (fastforce simp: lim_inv_def)
  then have "rview k (put (fst (leases l ! i)) (st\<lparr>inFlight := n\<rparr>) l) = rview k l"
    if "st = heap l ! fst (leases l ! i)" for st n using put_rview_same that by simp
  then show ?thesis
    by (auto simp: Release_def Let_def rview_def put_def split: prod.splits)
qed

lemma Charge_rview:
  assumes "lim_inv l" shows "rview k (ChargeTokens now k' tpm n l) = rview k l"
proof (cases "map_of (perKey l) k'")
  case (Some a)
  then have "a < length (heap l)" using assms by (auto simp: lim_inv_def dest: map_of_SomeD)
  then show ?thesis using Some by (simp add: ChargeTokens_def Let_def put_rview_same)
qed (simp add: ChargeTokens_def)

lemma gc_rview:
  assumes "lim_inv l"
  shows "rview k (gcLocked now l) = rview k l \<or>
    rview k (gcLocked now l) = None \<and> (\<exists>b seen. rview k l = Some (b, seen) \<and> now - seen > idleTTL)"
proof -
  have d: "distinct (map fst (perKey l))" using assms by (simp add: lim_inv_def)
  show ?thesis
    by (auto simp: rview_def gcLocked_def map_of_filter [OF d] split: option.splits)
qed

text \<open>The requests a key could still make at instant \<open>t\<close>, and the state of its bucket between calls.\<close>

definition avail :: "int \<Rightarrow> (bucket \<times> int) option \<Rightarrow> int \<Rightarrow> rat" where
  "avail R v t = (case v of None \<Rightarrow> of_int R
     | Some (b, seen) \<Rightarrow> min (of_int R) (level b + minutes (t - seen) * of_int R))"

definition rate_ok :: "int \<Rightarrow> int \<Rightarrow> (bucket \<times> int) option \<Rightarrow> bool" where
  "rate_ok R t v = (case v of None \<Rightarrow> True
     | Some (b, seen) \<Rightarrow> lastFill b = Some seen \<and> seen \<le> t \<and> 0 \<le> level b \<and> level b \<le> of_int R)"

lemma avail_bounds: "0 < R \<Longrightarrow> rate_ok R t v \<Longrightarrow> 0 \<le> avail R v t \<and> avail R v t \<le> of_int R"
  by (auto simp: avail_def rate_ok_def minutes_nonneg split: option.splits)

lemma avail_passes:
  assumes "0 < R" "rate_ok R t v" "t \<le> t'"
  shows "avail R v t' \<le> avail R v t + minutes (t' - t) * of_int R" "rate_ok R t' v"
proof -
  have m: "minutes (t' - seen) = minutes (t' - t) + minutes (t - seen)" for seen
    using minutes_add [of "t' - t" "t - seen"] by simp
  have p: "0 \<le> minutes (t' - t) * of_int R" using assms by (simp add: minutes_nonneg)
  show "avail R v t' \<le> avail R v t + minutes (t' - t) * of_int R"
  proof (cases v)
    case (Some x)
    obtain b seen where x: "x = (b, seen)" by fastforce
    have mn: "min r (z + (x + y)) \<le> min r (z + y) + x" if "0 \<le> x" for x y z r :: rat
      using that by linarith
    have "minutes (t' - seen) * of_int R = minutes (t' - t) * of_int R + minutes (t - seen) * of_int R"
      by (simp add: m [of seen] distrib_right)
    then show ?thesis using mn [OF p] Some x by (simp add: avail_def)
  qed (use p in \<open>simp add: avail_def\<close>)
  show "rate_ok R t' v" using assms by (auto simp: rate_ok_def split: option.splits)
qed

lemma avail_gc:
  assumes "0 < R" "rate_ok R now v" "v = Some (b, seen)" "now - seen > idleTTL"
  shows "avail R v now = avail R None now"
proof -
  have "minutes idleTTL \<le> minutes (now - seen)"
    using assms(4) by (simp add: minutes_def minute_def second_def divide_right_mono)
  moreover have "1 \<le> minutes idleTTL" by (simp add: minutes_def idleTTL_def minute_def second_def)
  ultimately have "of_int R \<le> minutes (now - seen) * of_int R" using assms(1) by simp
  then show ?thesis using assms(2,3) by (auto simp: avail_def rate_ok_def)
qed

lemma refill_avail:
  assumes "0 < R" "rate_ok R now v"
  shows "case v of None \<Rightarrow> refill now R bucket_zero = \<lparr>level = avail R v now, lastFill = Some now\<rparr>
    | Some (b, seen) \<Rightarrow> refill now R b = \<lparr>level = avail R v now, lastFill = Some now\<rparr>"
proof (cases v)
  case None
  then show ?thesis by (simp add: refill_def avail_def bucket_zero_def)
next
  case (Some x)
  obtain b seen where x: "x = (b, seen)" by fastforce
  then have b: "b = \<lparr>level = level b, lastFill = Some seen\<rparr>" "seen \<le> now" "level b \<le> of_int R"
    using assms(2) Some by (auto simp: rate_ok_def)
  show ?thesis
  proof (cases "now = seen")
    case True
    then have "refill now R b = b" by (subst (1 2) b(1)) (simp add: refill_def)
    then show ?thesis using b Some x True by (simp add: avail_def)
  next
    case False
    then have "\<not> minutes (now - seen) \<le> 0" using b(2) by (simp add: minutes_nonneg)
    moreover have "lastFill b = Some seen" by (subst b(1)) simp
    ultimately have "refill now R b =
        \<lparr>level = min (of_int R) (level b + minutes (now - seen) * of_int R), lastFill = Some now\<rparr>"
      by (simp add: refill_def Let_def min.commute)
    then show ?thesis using Some x by (simp add: avail_def)
  qed
qed

lemma Acquire_rate:
  assumes "lim_inv l0" "0 < R" "rate_ok R now (rview k l0)"
    and "Acquire now k' rpm tpm conc l0 = (d, l')" "k' = k \<Longrightarrow> rpm = R"
  shows "rate_ok R now (rview k l') \<and>
    avail R (rview k l') now + (if k' = k \<and> DReason d = OK then 1 else 0) \<le> avail R (rview k l0) now"
proof -
  obtain a l st where a: "stateOf k' (gcLocked now l0) = (a, l)"
    and st: "st = (heap l ! a)\<lparr>lastSeen := now, rpmB := refill now rpm (rpmB (heap l ! a)),
            tpmB := refill now tpm (tpmB (heap l ! a))\<rparr>"
    and l': "DReason d \<noteq> OK \<and> Lease d = None \<and> l' = put a st l \<or>
     DReason d = OK \<and> Lease d = Some (length (leases l)) \<and> inFlight st < conc \<and>
       level (rpmB st) \<ge> 1 \<and> level (tpmB st) \<ge> 0 \<and>
       l' = (put a (st\<lparr>rpmB := (rpmB st)\<lparr>level := level (rpmB st) - 1\<rparr>, inFlight := inFlight st + 1\<rparr>) l)
             \<lparr>leases := leases l @ [(a, False)]\<rparr>"
    using assms(4) by (rule Acquire_cases)
  let ?g = "gcLocked now l0"
  have g: "lim_inv ?g" using gcLocked_inv assms(1) .
  note so = stateOf_inv [OF g a]
  have gc: "rate_ok R now (rview k ?g) \<and> avail R (rview k ?g) now = avail R (rview k l0) now"
    using gc_rview [OF assms(1), of k now] assms(3) avail_gc [OF assms(2,3)] by (auto simp: rate_ok_def)
  have lease: "rview k (x\<lparr>leases := y\<rparr>) = rview k x" for x y by (simp add: rview_def)
  show ?thesis
  proof (cases "k' = k")
    case False
    have "rview k l = rview k ?g"
    proof (cases "map_of (perKey ?g) k")
      case (Some b)
      then have "b < length (heap ?g)" using g by (auto simp: lim_inv_def dest: map_of_SomeD)
      then show ?thesis using so(5) [of k] so(6) [of b] False Some by (auto simp: rview_def)
    qed (use so(5) [of k] False in \<open>simp add: rview_def\<close>)
    then have "rview k l' = rview k ?g"
      using l' put_rview_other [OF so(1,2), of k] False lease by auto
    then show ?thesis using gc False by simp
  next
    case True
    let ?A = "avail R (rview k ?g) now"
    have "rpmB st = \<lparr>level = ?A, lastFill = Some now\<rparr>"
      using refill_avail [OF assms(2) gc [THEN conjunct1]] so(8) assms(5) True st
      by (auto simp: rview_def keyState_zero_def split: option.splits)
    moreover have "0 \<le> ?A \<and> ?A \<le> of_int R" using avail_bounds [OF assms(2)] gc by blast
    moreover have "lastSeen st = now" using st by simp
    ultimately show ?thesis
      using l' put_rview_key [OF so(3), of k] so(2) True lease gc
      by (auto simp: rate_ok_def avail_def minutes_def)
  qed
qed

definition uses_rpm :: "string \<Rightarrow> int \<Rightarrow> (int \<times> event) list \<Rightarrow> bool" where
  "uses_rpm k R es \<longleftrightarrow>
     list_all (\<lambda>(t, e). case e of EAcquire k' rpm tpm conc \<Rightarrow> k' = k \<longrightarrow> rpm = R | _ \<Rightarrow> True) es"

lemma run_rate:
  assumes "lim_inv l" "0 < R" "rate_ok R t (rview k l)" "sorted (t # map fst es)" "uses_rpm k R es"
  shows "rate_ok R (last (t # map fst es)) (rview k (run es l)) \<and>
    of_nat (admitted k es l) + avail R (rview k (run es l)) (last (t # map fst es)) \<le>
      avail R (rview k l) t + minutes (last (t # map fst es) - t) * of_int R"
  using assms
proof (induction es arbitrary: l t)
  case (Cons x es)
  obtain now e where x: "x = (now, e)" by fastforce
  obtain d l' where ex: "exec now e l = (d, l')" by fastforce
  let ?T = "last (now # map fst es)"
  let ?adm = "admits k e d"
  have now: "t \<le> now" "sorted (now # map fst es)" "uses_rpm k R es"
    using Cons.prems x by (auto simp: uses_rpm_def)
  note pass = avail_passes [OF \<open>0 < R\<close> Cons.prems(3) now(1)]
  have "rate_ok R now (rview k l') \<and> avail R (rview k l') now + of_nat ?adm \<le> avail R (rview k l) now"
  proof (cases e)
    case (EAcquire k' rpm tpm conc)
    then obtain dec where d: "d = Some dec" "Acquire now k' rpm tpm conc l = (dec, l')"
      using ex by (auto split: prod.splits)
    have "k' = k \<Longrightarrow> rpm = R" using Cons.prems(5) x EAcquire by (simp add: uses_rpm_def)
    then show ?thesis using Acquire_rate [OF Cons.prems(1,2) pass(2) d(2)] EAcquire d(1) by auto
  next
    case (ERelease i)
    then show ?thesis using ex pass(2) Release_rview [OF Cons.prems(1)] by auto
  next
    case (ECharge k' tpm n)
    then show ?thesis using ex pass(2) Charge_rview [OF Cons.prems(1)] by auto
  qed
  moreover have "lim_inv l'" using exec_inv [OF Cons.prems(1), of now e] ex by simp
  ultimately have IH: "rate_ok R ?T (rview k (run es l')) \<and>
      of_nat (admitted k es l') + avail R (rview k (run es l')) ?T \<le>
        avail R (rview k l') now + minutes (?T - now) * of_int R"
      "avail R (rview k l') now + of_nat ?adm \<le> avail R (rview k l) now"
    using Cons.IH [of l' now] now Cons.prems(2) by blast+
  have "minutes (?T - t) = minutes (?T - now) + minutes (now - t)"
    using minutes_add [of "?T - now" "now - t"] by simp
  then have "minutes (?T - t) * of_int R = minutes (?T - now) * of_int R + minutes (now - t) * of_int R"
    by (simp add: algebra_simps)
  then show ?case using IH pass(1) x ex by (auto split: prod.splits)
qed simp

text \<open>
  C23. The request limit holds over every window of every run: however the operations of all keys
  interleave (admissions, releases, token charges, collections of idle keys), a key with a limit of
  \<open>R\<close> requests a minute is admitted at most \<open>R\<close> times plus \<open>R\<close> for each minute the window lasts.
\<close>

theorem request_rate_bounded:
  assumes "sorted (map fst (us @ (t, e) # vs))" "0 < R" "uses_rpm k R (us @ (t, e) # vs)"
  shows "of_nat (admitted k ((t, e) # vs) (run us New)) \<le>
    of_int R * (1 + minutes (last (t # map fst vs) - t))"
proof -
  let ?l = "run us New" and ?es = "(t, e) # vs"
  have inv: "lim_inv ?l" using run_inv New_inv by blast
  have uses: "uses_rpm k R us" "uses_rpm k R ?es" using assms(3) by (auto simp: uses_rpm_def)
  let ?t0 = "fst (hd (us @ ?es))"
  have s0: "sorted (?t0 # map fst us)" "last (?t0 # map fst us) \<le> t" "sorted (t # map fst ?es)"
    using assms(1) by (cases us; auto simp: sorted_append last_map)+
  have "rate_ok R (last (?t0 # map fst us)) (rview k ?l)"
    using run_rate [OF New_inv assms(2) _ s0(1) uses(1)] by (simp add: rate_ok_def rview_def New_def)
  then have ok: "rate_ok R t (rview k ?l)" using avail_passes(2) assms(2) s0(2) by blast
  have "of_nat (admitted k ?es ?l) + avail R (rview k (run ?es ?l)) (last (t # map fst ?es)) \<le>
      avail R (rview k ?l) t + minutes (last (t # map fst ?es) - t) * of_int R"
    "0 \<le> avail R (rview k (run ?es ?l)) (last (t # map fst ?es))"
    using run_rate [OF inv assms(2) ok s0(3) uses(2)] avail_bounds [OF assms(2)] by blast+
  moreover have "avail R (rview k ?l) t \<le> of_int R" using avail_bounds [OF assms(2) ok] by blast
  ultimately show ?thesis by (simp add: algebra_simps del: admitted.simps run.simps)
qed

theorem request_rate_bounded_witness:
  "of_nat (admitted ''k'' [(5, EAcquire ''k'' 1 10 9), (6, EAcquire ''k'' 1 10 9), (minute + 6, EAcquire ''k'' 1 10 9)]
     (run [] New)) \<le> (of_int 1 * (1 + minutes (minute + 1)) :: rat)"
proof -
  have "sorted (map fst ([] @ [(5, EAcquire ''k'' 1 10 9), (6, EAcquire ''k'' 1 10 9), (minute + 6, EAcquire ''k'' 1 10 9)]))"
    by (simp add: minute_def second_def)
  then show ?thesis
    using request_rate_bounded [of "[]" 5 "EAcquire ''k'' 1 10 9"
        "[(6, EAcquire ''k'' 1 10 9), (minute + 6, EAcquire ''k'' 1 10 9)]" 1 "''k''"]
    by (simp add: uses_rpm_def add.commute del: admitted.simps run.simps)
qed

section \<open>Leases\<close>

lemma InFlight_open_leases:
  "lim_inv l \<Longrightarrow> InFlight k l =
     (case map_of (perKey l) k of None \<Rightarrow> 0 | Some a \<Rightarrow> int (outstanding a (leases l)))"
  by (auto simp: InFlight_def lim_inv_def dest: map_of_SomeD split: option.splits)

lemma InFlight_gc: "lim_inv l \<Longrightarrow> InFlight k (gcLocked now l) = InFlight k l"
  by (auto simp: InFlight_def gcLocked_def map_of_filter lim_inv_def split: option.splits)

text \<open>
  C12. The concurrency count is exact: in every state a run reaches, a key's count is the number of
  its leases not yet released. An admission leaves it one higher and within the limit asked for, the
  lease's release takes it back down by one, and releasing again changes nothing.
\<close>

theorem concurrency_count_exact:
  assumes "l = run es New" and "Acquire now k rpm tpm conc l = (d, l')" and "DReason d = OK"
  shows "InFlight k l' \<le> conc \<and> InFlight k l' = InFlight k l + 1 \<and>
    (\<exists>i. Lease d = Some i \<and> InFlight k (Release i l') = InFlight k l \<and>
         Release i (Release i l') = Release i l') \<and>
    (\<forall>k'. InFlight k' l' =
       (case map_of (perKey l') k' of None \<Rightarrow> 0 | Some a \<Rightarrow> int (outstanding a (leases l'))))"
proof -
  have inv: "lim_inv l" using assms(1) run_inv New_inv by blast
  note inv' = Acquire_inv [OF inv assms(2)]
  obtain a l1 st where a: "stateOf k (gcLocked now l) = (a, l1)"
    and st: "st = (heap l1 ! a)\<lparr>lastSeen := now, rpmB := refill now rpm (rpmB (heap l1 ! a)),
            tpmB := refill now tpm (tpmB (heap l1 ! a))\<rparr>"
    and d: "Lease d = Some (length (leases l1))"
    and l': "l' = (put a (st\<lparr>rpmB := (rpmB st)\<lparr>level := level (rpmB st) - 1\<rparr>, inFlight := inFlight st + 1\<rparr>) l1)
             \<lparr>leases := leases l1 @ [(a, False)]\<rparr>"
    using assms(2,3) by (auto elim!: Acquire_cases)
  note so = stateOf_inv [OF gcLocked_inv [OF inv] a]
  have "inFlight (heap l1 ! a) = InFlight k (gcLocked now l)"
    using so(8) by (auto simp: InFlight_def keyState_zero_def split: option.splits)
  then have up: "InFlight k l' = InFlight k l + 1"
    using so(2,3) st l' InFlight_gc [OF inv] by (simp add: InFlight_def put_def)
  have "0 \<le> InFlight k l" using InFlight_open_leases [OF inv] by (auto split: option.splits)
  then have "InFlight k (Release (length (leases l1)) l') = InFlight k l"
    using so(2,3) l' up by (auto simp: InFlight_def Release_def put_def Let_def)
  moreover have "Release (length (leases l1)) (Release (length (leases l1)) l') = Release (length (leases l1)) l'"
    using l' by (auto simp: Release_def put_def Let_def)
  ultimately show ?thesis using inv' assms(3) up d InFlight_open_leases by blast
qed

theorem concurrency_count_exact_witness:
  "InFlight ''k'' (snd (Acquire 5 ''k'' 1 10 9 (run [] New))) \<le> 9"
proof -
  have "DReason (fst (Acquire 5 ''k'' 1 10 9 (run [] New))) = OK" by code_simp
  then show ?thesis
    by (intro concurrency_count_exact [OF refl prod.collapse [symmetric], THEN conjunct1])
qed

section \<open>A request's stay\<close>

text \<open>What the operations of a request in between leave alone: who is known, the leases, the counts.\<close>

definition same_load :: "Limiter \<Rightarrow> Limiter \<Rightarrow> bool" where
  "same_load l l' \<longleftrightarrow> perKey l' = perKey l \<and> leases l' = leases l \<and> map inFlight (heap l') = map inFlight (heap l)"

lemma same_load_refl [simp]: "same_load l l"
  by (simp add: same_load_def)

lemma same_load_trans: "same_load l l' \<Longrightarrow> same_load l' l'' \<Longrightarrow> same_load l l''"
  by (simp add: same_load_def)

lemma same_load_nth: "same_load l l' \<Longrightarrow> a < length (heap l) \<Longrightarrow> inFlight (heap l' ! a) = inFlight (heap l ! a)"
  by (metis length_map nth_map same_load_def)

lemma same_load_length: "same_load l l' \<Longrightarrow> length (heap l') = length (heap l)"
  by (metis length_map same_load_def)

lemma same_load_inv: "lim_inv l \<Longrightarrow> same_load l l' \<Longrightarrow> lim_inv l'"
  using same_load_nth [of l l'] same_load_length [of l l'] unfolding lim_inv_def by (simp add: same_load_def)

lemma Charge_same_load: "lim_inv l \<Longrightarrow> same_load l (ChargeTokens now k tpm n l)"
  by (auto simp: ChargeTokens_def same_load_def put_def Let_def lim_inv_def map_update split: option.splits
      intro!: list_update_same_conv [THEN iffD2] dest!: map_of_SomeD)

lemma same_load_InFlight:
  assumes "lim_inv l" "same_load l l'" shows "InFlight k l' = InFlight k l"
proof -
  have "a < length (heap l)" if "map_of (perKey l) k = Some a" for a
    using assms(1) that by (auto simp: lim_inv_def dest: map_of_SomeD)
  then show ?thesis
    using assms(2) same_load_nth [OF assms(2)] by (auto simp: InFlight_def same_load_def split: option.splits)
qed

lemma stateOf_InFlight:
  assumes "lim_inv l" "stateOf k l = (a, l')" shows "InFlight k' l' = InFlight k' l"
  using stateOf_inv(2,5,6,8) [OF assms] assms(1)
  by (cases "k' = k") (auto simp: InFlight_def keyState_zero_def lim_inv_def split: option.splits dest!: map_of_SomeD)

lemma refused_InFlight:
  assumes "lim_inv l0" "Acquire now k rpm tpm conc l0 = (d, l')" "DReason d \<noteq> OK"
  shows "lim_inv l' \<and> InFlight k' l' = InFlight k' l0"
proof -
  obtain a l st where a: "stateOf k (gcLocked now l0) = (a, l)" and st: "st = (heap l ! a)\<lparr>lastSeen := now, rpmB := refill now rpm (rpmB (heap l ! a)),
            tpmB := refill now tpm (tpmB (heap l ! a))\<rparr>"
    and l': "l' = put a st l"
    using assms(2,3) by (auto elim!: Acquire_cases)
  note so = stateOf_inv [OF gcLocked_inv [OF assms(1)] a]
  have "InFlight k' l = InFlight k' (gcLocked now l0)" by (rule stateOf_InFlight [OF gcLocked_inv [OF assms(1)] a])
  moreover have "InFlight k' l' = InFlight k' l"
    using so(3) st unfolding l' by (auto simp: InFlight_def put_def nth_list_update split: option.splits)
  ultimately show ?thesis using InFlight_gc [OF assms(1)] Acquire_inv(1) [OF assms(1,2)] by simp
qed

text \<open>Taken, charged to and given back, a lease leaves every key's count where it was.\<close>

lemma lease_bracket:
  assumes "lim_inv l0" "Acquire now k rpm tpm conc l0 = (d, l1)" "DReason d = OK" "Lease d = Some i" "same_load l1 l2"
  shows "lim_inv (Release i l2) \<and> InFlight k' (Release i l2) = InFlight k' l0"
proof -
  obtain a l st where a: "stateOf k (gcLocked now l0) = (a, l)" and st: "st = (heap l ! a)\<lparr>lastSeen := now, rpmB := refill now rpm (rpmB (heap l ! a)),
            tpmB := refill now tpm (tpmB (heap l ! a))\<rparr>"
    and i: "i = length (leases l)"
    and l1: "l1 = (put a (st\<lparr>rpmB := (rpmB st)\<lparr>level := level (rpmB st) - 1\<rparr>, inFlight := inFlight st + 1\<rparr>) l)
             \<lparr>leases := leases l @ [(a, False)]\<rparr>"
    using assms(2,3,4) by (auto elim!: Acquire_cases)
  note so = stateOf_inv [OF gcLocked_inv [OF assms(1)] a]
  have len: "i < length (leases l2)" and op: "leases l2 ! i = (a, False)"
    using assms(5) l1 i by (auto simp: same_load_def put_def)
  have hlen: "length (heap l2) = length (heap l)" using same_load_length [OF assms(5)] l1 by (simp add: put_def)
  have count: "inFlight (heap l2 ! b) = inFlight (heap l ! b) + (if b = a then 1 else 0)" if "b < length (heap l)" for b
    using same_load_nth [OF assms(5), of b] that l1 st by (auto simp: put_def nth_list_update)
  have "0 \<le> inFlight (heap l ! a)" using so(1,3) by (auto simp: lim_inv_def)
  then have rel: "Release i l2 = l2\<lparr>heap := (heap l2)[a := (heap l2 ! a)\<lparr>inFlight := inFlight (heap l2 ! a) - 1\<rparr>],
      leases := (leases l2)[i := (a, True)]\<rparr>"
    using op count [OF so(3)] by (simp add: Release_def put_def Let_def)
  have "InFlight k' (Release i l2) = InFlight k' l"
  proof -
    have "perKey l2 = perKey l" using assms(5) l1 by (simp add: same_load_def put_def)
    moreover have "b < length (heap l)" if "map_of (perKey l) k' = Some b" for b
      using so(1) that by (auto simp: lim_inv_def dest: map_of_SomeD)
    ultimately show ?thesis
      using count hlen so(3) unfolding rel InFlight_def by (auto simp: nth_list_update split: option.splits)
  qed
  moreover have "InFlight k' l = InFlight k' (gcLocked now l0)" by (rule stateOf_InFlight [OF gcLocked_inv [OF assms(1)] a])
  moreover have "lim_inv (Release i l2)"
    using Release_inv [OF same_load_inv [OF Acquire_inv(1) [OF assms(1,2)] assms(5)] len] .
  ultimately show ?thesis using InFlight_gc [OF assms(1)] by simp
qed

section \<open>Token debt\<close>

text \<open>
  A completion charged late pushes the token bucket into debt, and admission waits for it to refill.
  Collection of idle keys bounds that wait at an hour: a key idle for longer starts afresh, whatever
  it owed.
\<close>

lemma idle_key_starts_without_debt:
  "DReason (fst (Acquire (2 * idleTTL) ''k'' 10 10 9
     (ChargeTokens 6 ''k'' 10 100000 (Release 0 (snd (Acquire 5 ''k'' 10 10 9 New)))))) = OK"
  "DReason (fst (Acquire (idleTTL) ''k'' 10 10 9
     (ChargeTokens 6 ''k'' 10 100000 (Release 0 (snd (Acquire 5 ''k'' 10 10 9 New)))))) = TpmLimit"
  by code_simp+

end
