(* ===== verification/Large_Body.thy ===== *)
theory Large_Body
  imports Gateway_Prelude
begin

text \<open>
  \<open>internal/server/largebody.go\<close>: the pool of slots for bodies above the ordinary bound, the time a
  large answer may take to write, and the request body the transport reads and the pipeline lets go.
  A lease is the position of its \<open>sync.Once\<close> in the pool's list; a nil pool is \<^const>\<open>None\<close>.
\<close>

section \<open>Slots\<close>

record largeBodySlots =
  total_slots :: int
  used :: int
  released :: "bool list"

type_synonym pool = "largeBodySlots option"

definition newLargeBodySlots :: "int \<Rightarrow> pool" where
  "newLargeBodySlots n =
     (if n \<le> 0 then None else Some \<lparr>total_slots = n, used = 0, released = []\<rparr>)"

definition acquire :: "pool \<Rightarrow> nat option \<times> pool" where
  "acquire p =
     (case p of None \<Rightarrow> (None, p)
      | Some l \<Rightarrow>
          if used l \<ge> total_slots l then (None, p)
          else (Some (length (released l)), Some (l\<lparr>used := used l + 1, released := released l @ [False]\<rparr>)))"

definition release :: "nat \<Rightarrow> pool \<Rightarrow> pool" where
  "release i p =
     (case p of None \<Rightarrow> None
      | Some l \<Rightarrow>
          if i < length (released l) \<and> \<not> released l ! i
          then Some (l\<lparr>used := used l - 1, released := (released l)[i := True]\<rparr>) else Some l)"

definition inUse :: "pool \<Rightarrow> int" where
  "inUse p = (case p of None \<Rightarrow> 0 | Some l \<Rightarrow> used l)"

section \<open>Writing a large answer\<close>

definition largeWriteFloor :: int where "largeWriteFloor = 60 * 1000000000"
definition largeWriteSecPerMiB :: int where "largeWriteSecPerMiB = 2"
definition largeWriteBytesInMiB :: int where "largeWriteBytesInMiB = 1048576"

definition largeWriteBudget :: "int \<Rightarrow> int" where
  "largeWriteBudget n = largeWriteFloor + largeWriteSecPerMiB * (n div largeWriteBytesInMiB) * 1000000000"

section \<open>The body sent upstream\<close>

text \<open>The holder's bytes, gone after the release; a reader is an offset into them.\<close>

datatype read_error = EOF | BodyReleased

definition body_release :: "string option \<Rightarrow> string option" where
  "body_release b = None"

definition body_Read :: "string option \<Rightarrow> nat \<Rightarrow> nat \<Rightarrow> (read_error + string) \<times> nat" where
  "body_Read b off n =
     (case b of None \<Rightarrow> (Inl BodyReleased, off)
      | Some bytes \<Rightarrow>
          if off \<ge> length bytes then (Inl EOF, off)
          else let got = take n (drop off bytes) in (Inr got, off + length got))"

text \<open>A transport that reads to the end with buffers of the given sizes: what it got, and how it ended.\<close>

fun read_all :: "string option \<Rightarrow> nat \<Rightarrow> nat list \<Rightarrow> string \<times> read_error option" where
  "read_all b off [] = ([], None)"
| "read_all b off (n # ns) =
     (case body_Read b off n of
        (Inl e, _) \<Rightarrow> ([], Some e)
      | (Inr got, off') \<Rightarrow> (case read_all b off' ns of (rest, e) \<Rightarrow> (got @ rest, e)))"

section \<open>Pools of slots\<close>

text \<open>
  What the handlers rely on, for any pool: a lease it grants is new and counts until it is released, a
  refusal changes nothing and happens only when the pool is full, and a release frees that lease alone.
\<close>

locale slot_pool =
  fixes inv :: "'s \<Rightarrow> bool"
    and take_slot :: "'s \<Rightarrow> 'l option \<times> 's"
    and free_slot :: "'l \<Rightarrow> 's \<Rightarrow> 's"
    and held :: "'s \<Rightarrow> 'l set"
    and capacity :: "'s \<Rightarrow> nat"
  assumes granted: "inv s \<Longrightarrow> take_slot s = (Some l, s') \<Longrightarrow>
      inv s' \<and> l \<notin> held s \<and> held s' = insert l (held s) \<and> capacity s' = capacity s"
    and full: "inv s \<Longrightarrow> take_slot s = (None, s') \<Longrightarrow> s' = s \<and> card (held s) = capacity s"
    and freed: "inv s \<Longrightarrow> inv (free_slot l s) \<and> held (free_slot l s) = held s - {l} \<and>
      capacity (free_slot l s) = capacity s"
    and bounded: "inv s \<Longrightarrow> finite (held s) \<and> card (held s) \<le> capacity s"
begin

text \<open>A request that takes a slot and gives it back leaves the others' slots as they were.\<close>

lemma bracket:
  assumes "inv s" "take_slot s = (Some l, s')"
  shows "held (free_slot l s') = held s" "held (free_slot l (free_slot l s')) = held s"
  using granted [OF assms] freed [of s' l] freed [of "free_slot l s'" l] by auto

lemma grants_when_room:
  assumes "inv s" "card (held s) < capacity s"
  shows "\<exists>l s'. take_slot s = (Some l, s')"
  using assms full [of s] by (cases "take_slot s") (metis option.exhaust order_less_irrefl)

end

definition leases :: "pool \<Rightarrow> nat set" where
  "leases p = (case p of None \<Rightarrow> {} | Some l \<Rightarrow> {i. i < length (released l) \<and> \<not> released l ! i})"

definition pool_size :: "pool \<Rightarrow> nat" where
  "pool_size p = (case p of None \<Rightarrow> 0 | Some l \<Rightarrow> nat (total_slots l))"

definition pool_inv :: "pool \<Rightarrow> bool" where
  "pool_inv p \<longleftrightarrow> (case p of None \<Rightarrow> True
     | Some l \<Rightarrow> 0 < total_slots l \<and> used l = int (card (leases p)) \<and> used l \<le> total_slots l)"

lemma finite_leases [simp]: "finite (leases p)"
  by (simp add: leases_def split: option.splits)

lemma leases_Some: "leases (Some l) = {i. i < length (released l) \<and> \<not> released l ! i}"
  by (simp add: leases_def)

lemma acquire_leases:
  assumes "acquire p = (Some i, p')"
  shows "i \<notin> leases p" "leases p' = insert i (leases p)"
  using assms by (auto simp: acquire_def leases_def nth_append split: option.splits if_splits)

lemma release_leases: "leases (release i p) = leases p - {i}"
  by (cases p) (auto simp: release_def leases_def nth_list_update split: if_splits)

lemma acquire_inv:
  assumes "pool_inv p" "acquire p = (Some i, p')"
  shows "pool_inv p' \<and> pool_size p' = pool_size p"
proof -
  obtain l where p: "p = Some l" "p' = Some (l\<lparr>used := used l + 1, released := released l @ [False]\<rparr>)"
    "used l < total_slots l"
    using assms(2) by (auto simp: acquire_def split: option.splits if_splits)
  have "card (leases p') = card (leases p) + 1"
    using acquire_leases [OF assms(2)] by simp
  then show ?thesis using assms(1) p by (simp add: pool_inv_def pool_size_def)
qed

lemma release_inv: "pool_inv p \<Longrightarrow> pool_inv (release i p) \<and> pool_size (release i p) = pool_size p"
proof (cases "i \<in> leases p")
  case True
  assume inv: "pool_inv p"
  from True obtain l where p: "p = Some l" "i < length (released l)" "\<not> released l ! i"
    by (auto simp: leases_def split: option.splits)
  have "card (leases (release i p)) = card (leases p) - 1" "card (leases p) > 0"
    using True by (auto simp: release_leases card_gt_0_iff)
  then show ?thesis using inv p by (auto simp: pool_inv_def pool_size_def release_def)
next
  case False
  assume inv: "pool_inv p"
  from False have "release i p = p" by (auto simp: release_def leases_def split: option.splits)
  then show ?thesis using inv by simp
qed

lemma acquire_None:
  assumes "pool_inv p" "acquire p = (None, p')"
  shows "p' = p \<and> card (leases p) = pool_size p"
  using assms
  by (auto simp: acquire_def pool_inv_def pool_size_def leases_def split: option.splits if_splits)

interpretation large: slot_pool pool_inv acquire release leases pool_size
proof
  fix p p' :: pool and i
  show "pool_inv p \<Longrightarrow> acquire p = (Some i, p') \<Longrightarrow>
      pool_inv p' \<and> i \<notin> leases p \<and> leases p' = insert i (leases p) \<and> pool_size p' = pool_size p"
    using acquire_inv acquire_leases by blast
  show "pool_inv p \<Longrightarrow> acquire p = (None, p') \<Longrightarrow> p' = p \<and> card (leases p) = pool_size p"
    by (rule acquire_None)
  show "pool_inv p \<Longrightarrow> pool_inv (release i p) \<and> leases (release i p) = leases p - {i} \<and>
      pool_size (release i p) = pool_size p"
    using release_inv release_leases by blast
  show "pool_inv p \<Longrightarrow> finite (leases p) \<and> card (leases p) \<le> pool_size p"
    by (auto simp: pool_inv_def pool_size_def leases_def split: option.splits)
qed

section \<open>Sequences of requests\<close>

text \<open>Requests that take slots and let them go, some of them more than once.\<close>

datatype pool_op = Take | Free nat

definition pool_step :: "pool_op \<Rightarrow> pool \<Rightarrow> pool" where
  "pool_step a p = (case a of Take \<Rightarrow> snd (acquire p) | Free i \<Rightarrow> release i p)"

lemma pool_step_inv: "pool_inv p \<Longrightarrow> pool_inv (pool_step a p) \<and> pool_size (pool_step a p) = pool_size p"
proof (cases a)
  case Take
  assume "pool_inv p"
  then show ?thesis using Take acquire_inv [of p] acquire_None [of p]
    by (cases "acquire p"; cases "fst (acquire p)") (auto simp: pool_step_def)
qed (simp add: pool_step_def release_inv)

lemma pool_run_inv: "pool_inv p \<Longrightarrow> pool_inv (fold pool_step as p) \<and> pool_size (fold pool_step as p) = pool_size p"
  by (induction as arbitrary: p) (auto simp: pool_step_inv)

lemma newLargeBodySlots_inv: "pool_inv (newLargeBodySlots n)"
  by (auto simp: newLargeBodySlots_def pool_inv_def leases_def)

text \<open>
  The pool bounds what is in memory at once. After any sequence of takes and releases (releases
  repeated included) on a pool of \<open>n\<close> slots, the gauge is the number of leases granted and not yet
  released, it is between zero and \<open>n\<close>, and a further request is granted exactly when it is below \<open>n\<close>.
\<close>

theorem slots_bounded:
  assumes "p = fold pool_step as (newLargeBodySlots n)"
  shows "inUse p = int (card (leases p)) \<and> 0 \<le> inUse p \<and> inUse p \<le> max 0 n \<and>
    (fst (acquire p) \<noteq> None \<longleftrightarrow> inUse p < n)"
proof -
  have "pool_inv (newLargeBodySlots n)" "pool_size (newLargeBodySlots n) = nat n"
    by (rule newLargeBodySlots_inv) (auto simp: newLargeBodySlots_def pool_size_def)
  then have p: "pool_inv p" "pool_size p = nat n" using pool_run_inv assms by auto
  then have u: "inUse p = int (card (leases p))" "inUse p \<le> max 0 n"
    by (auto simp: pool_inv_def inUse_def leases_def pool_size_def split: option.splits)
  have "fst (acquire p) \<noteq> None \<longleftrightarrow> card (leases p) < nat n"
  proof
    assume "fst (acquire p) \<noteq> None"
    then obtain i p' where a: "acquire p = (Some i, p')" by (cases "acquire p") auto
    have "card (leases p') \<le> pool_size p'" using large.bounded large.granted [OF p(1) a] by blast
    then show "card (leases p) < nat n" using large.granted [OF p(1) a] p(2) by simp
  next
    assume "card (leases p) < nat n"
    then show "fst (acquire p) \<noteq> None" using large.grants_when_room [OF p(1)] p(2) by force
  qed
  then show ?thesis using u by linarith
qed

theorem slots_bounded_witness:
  "inUse (fold pool_step [Take, Take, Free 0, Free 0, Take, Take] (newLargeBodySlots 2)) \<le> 2"
  using slots_bounded [OF refl, of "[Take, Take, Free 0, Free 0, Take, Take]" 2] by linarith

lemma read_all_prefix:
  assumes "read_all (Some bytes) off ns = (got, e)" "off \<le> length bytes"
  shows "\<exists>rest. drop off bytes = got @ rest \<and> (e = Some EOF \<longrightarrow> rest = []) \<and> e \<noteq> Some BodyReleased"
  using assms
proof (induction ns arbitrary: off got)
  case (Cons n ns)
  show ?case
  proof (cases "off \<ge> length bytes")
    case True
    then show ?thesis using Cons.prems by (auto simp: body_Read_def)
  next
    case False
    let ?got = "take n (drop off bytes)"
    obtain rest e' where r: "read_all (Some bytes) (off + length ?got) ns = (rest, e')" by fastforce
    then have g: "got = ?got @ rest" "e = e'" using Cons.prems False by (auto simp: body_Read_def Let_def)
    have "off + length ?got \<le> length bytes" using False by simp
    from Cons.IH [OF r [folded g(2)] this] obtain rs where
      rs: "drop (off + length ?got) bytes = rest @ rs" "e = Some EOF \<longrightarrow> rs = []" "e \<noteq> Some BodyReleased"
      by blast
    have "drop off bytes = ?got @ drop (length ?got) (drop off bytes)"
      by (metis append_take_drop_id length_take min.commute take_take take_all_iff nle_le)
    then have "drop off bytes = got @ rs" using rs(1) g(1) by (simp add: add.commute)
    then show ?thesis using rs by blast
  qed
qed auto

text \<open>
  The upstream never receives a short body as a whole one. Whatever the sizes of its buffers, a
  transport that reads the held body to its end has read exactly its bytes, and one that reads after
  the body was let go gets an error, never an end.
\<close>

theorem upstream_body_whole:
  "(snd (read_all (Some bytes) 0 ns) = Some EOF \<longrightarrow> fst (read_all (Some bytes) 0 ns) = bytes) \<and>
   snd (read_all (body_release (Some bytes)) off (n # ns)) = Some BodyReleased"
proof -
  obtain got e where r: "read_all (Some bytes) 0 ns = (got, e)" by fastforce
  show ?thesis using read_all_prefix [OF r] r by (auto simp: body_release_def body_Read_def)
qed

theorem upstream_body_whole_witness:
  "fst (read_all (Some ''abc'') 0 [2, 5, 5]) = ''abc''"
  using upstream_body_whole [of "''abc''" "[2, 5, 5]" 0 0] by (simp add: body_Read_def)

end
