(* ===== verification/Admission.thy ===== *)
theory Admission
  imports Upstream Snapshot_Load Rate_Limits Large_Body Spool
begin

text \<open>
  The judgements of \<open>serveProtocol\<close> (\<open>internal/server/pipeline.go\<close>) before anything is sent, in the order
  of the code, with the authentication of \<open>server.go\<close>. Each yields a value or a \<open>halt\<close>: the error the
  caller gets, and the status and error type of the usage record. \<open>HashToken\<close> is a parameter, and so is
  the text of a raw member, whose length the size guard reads. A Go map is judged in the order of its
  association list, where the runtime's order is arbitrary.
\<close>

section \<open>Refusals\<close>

record halt =
  haltErr :: apiError
  haltStatus :: string
  haltType :: string

definition refuse :: "apiError \<Rightarrow> string \<Rightarrow> halt" where
  "refuse e status = \<lparr>haltErr = e, haltStatus = status, haltType = errCode e\<rparr>"

definition refuseAs :: "apiError \<Rightarrow> string \<Rightarrow> string \<Rightarrow> halt" where
  "refuseAs e status ty = \<lparr>haltErr = e, haltStatus = status, haltType = ty\<rparr>"

definition refuseWith :: "refusal \<Rightarrow> string \<Rightarrow> halt" where
  "refuseWith rf status = (if errorType rf = [] then refuse (refErr rf) status else refuseAs (refErr rf) status (errorType rf))"

section \<open>Who is asking\<close>

definition bearerValue :: "(string \<Rightarrow> string) \<Rightarrow> string" where
  "bearerValue get =
     (let h = get ''Authorization'' in
      if length h \<le> 7 \<or> \<not> EqualFold (take 7 h) ''bearer '' then [] else TrimSpace (drop 7 h))"

definition bearerToken :: "(string \<Rightarrow> string) \<Rightarrow> apiError + string" where
  "bearerToken get = (if bearerValue get \<noteq> [] then Inr (bearerValue get) else Inl errMissingKey)"

definition messagesToken :: "(string \<Rightarrow> string) \<Rightarrow> apiError + string" where
  "messagesToken get =
     (if bearerValue get \<noteq> [] then Inr (bearerValue get)
      else if TrimSpace (get ''X-Api-Key'') \<noteq> [] then Inr (TrimSpace (get ''X-Api-Key''))
      else Inl errMissingKeyMessages)"

definition readToken :: "protocol \<Rightarrow> (string \<Rightarrow> string) \<Rightarrow> apiError + string" where
  "readToken p get = (if headerKeys p then messagesToken get else bearerToken get)"

definition authenticateToken ::
  "(string \<Rightarrow> string) \<Rightarrow> int \<Rightarrow> string \<Rightarrow> (string \<Rightarrow> Key option) \<Rightarrow> (Key option \<times> apiError) + Key" where
  "authenticateToken hashToken now token lookupKey =
     (case lookupKey (hashToken token) of
        None \<Rightarrow> Inl (None, errInvalidKey)
      | Some key \<Rightarrow>
          if Status key = KeyRevoked then Inl (Some key, errKeyRevoked)
          else if Status key = KeySuspended then Inl (Some key, errKeySuspended)
          else (case ExpiresAt key of
                  Some t \<Rightarrow> if now > t then Inl (Some key, errKeyExpired) else Inr key
                | None \<Rightarrow> Inr key))"

text \<open>Up to the in-flight cap: the key, or a halt with the key the record is attributed to.\<close>

definition admitKey ::
  "(string \<Rightarrow> string) \<Rightarrow> int \<Rightarrow> protocol \<Rightarrow> (string \<Rightarrow> string) \<Rightarrow> state \<Rightarrow> (halt \<times> Key option) + Key" where
  "admitKey hashToken now p get snap =
     (if \<not> ServiceEnabled (doc snap) then Inl (refuse errServiceDisabled StatusAuthRejected, None)
      else case readToken p get of
        Inl missing \<Rightarrow> Inl (refuse missing StatusAuthRejected, None)
      | Inr token \<Rightarrow>
          (case authenticateToken hashToken now token (map_of (byHash snap)) of
             Inl (k, e) \<Rightarrow> Inl (refuse e StatusAuthRejected, k)
           | Inr key \<Rightarrow>
               if \<not> AllowsEndpoint key (capability p)
               then Inl (refuse (errEndpointNotAllowed (endpointLabel (capability p))) StatusAuthRejected, Some key)
               else if QuotaExhausted key \<and> UpstreamCredentials key = []
               then Inl (refuse errQuotaExhausted StatusRateLimited, Some key)
               else Inr key))"

section \<open>The body\<close>

text \<open>
  A request on the wire: \<open>body\<close> is what arrives, \<open>broken\<close> that the upload stopped after it. A declared
  length of -1 is none.
\<close>

record wire_request =
  rqMethod :: string
  rqHeader :: "string \<Rightarrow> string"
  contentLength :: int
  rqBody :: string
  broken :: bool

record bodyLimits =
  limRequest :: int
  limLargeRequest :: int
  limLargeResponse :: int

text \<open>The bound that applies, and the slot taken for it.\<close>

definition bodyLimit :: "bodyLimits \<Rightarrow> wire_request \<Rightarrow> pool \<Rightarrow> (halt + int \<times> nat option) \<times> pool" where
  "bodyLimit lims rq slots =
     (if contentLength rq > limRequest lims
      then (if slots = None \<or> contentLength rq > limLargeRequest lims
            then (Inl (refuse errRequestTooLarge StatusBadRequest), slots)
            else (case acquire slots of
                    (None, slots) \<Rightarrow> (Inl (refuse errLargeRequestBusy StatusRateLimited), slots)
                  | (Some i, slots) \<Rightarrow> (Inr (limLargeRequest lims, Some i), slots)))
      else (Inr (limRequest lims, None), slots))"

definition readBody :: "int \<Rightarrow> wire_request \<Rightarrow> halt + string" where
  "readBody limit rq =
     (if int (length (rqBody rq)) > limit then Inl (refuse errRequestTooLarge StatusBadRequest)
      else if broken rq then Inl (refuseAs errRequestBodyUnreadable StatusCanceled ''request_body_read_failed'')
      else Inr (rqBody rq))"

definition decodeParams :: "(string \<Rightarrow> json option) \<Rightarrow> string \<Rightarrow> halt + params" where
  "decodeParams decode raw =
     (case Option.bind (decode raw) dec_object of
        None \<Rightarrow> Inl (refuse errBadJSON StatusBadRequest) | Some m \<Rightarrow> Inr m)"

definition streamFlag :: "params \<Rightarrow> bool" where
  "streamFlag m = (case Option.bind (map_of m ''stream'') dec_bool of None \<Rightarrow> False | Some b \<Rightarrow> b)"

section \<open>The model\<close>

definition resolveModel :: "protocol \<Rightarrow> state \<Rightarrow> params \<Rightarrow> halt + parsedRequest \<times> Model" where
  "resolveModel p snap m =
     (case parseReq p m of
        Inl rf \<Rightarrow> Inl (refuseWith rf StatusBadRequest)
      | Inr req \<Rightarrow>
          if IsPresetModelName (publicModel req)
          then Inl (refuseAs errPresetNotAllowed StatusBadRequest ''preset_not_allowed'')
          else (case (case map_of (byPublic snap) (publicModel req) of
                        Some model \<Rightarrow> Some model | None \<Rightarrow> passthroughModel (doc snap) (publicModel req)) of
                  None \<Rightarrow> Inl (refuse errModelNotFound StatusBadRequest)
                | Some model \<Rightarrow> Inr (req, model)))"

definition effectiveAxis :: "Model \<Rightarrow> string" where
  "effectiveAxis model =
     (if BudgetAxis model = [] \<or> BudgetAxis model = AxisToken then AxisToken
      else if BudgetAxis model = AxisCredit then AxisCredit else [])"

definition tokenParam :: "bool \<Rightarrow> protocol \<Rightarrow> string \<times> json \<Rightarrow> halt option" where
  "tokenParam reasoningOK p kv =
     (if reasoningOK \<and> fst kv = reasoningParam p
      then (if validReasoningEffort (snd kv) then None
            else Some (refuse (errInvalidParamValue (fst kv)) StatusBadRequest))
      else map_option (\<lambda>rf. refuseWith rf StatusBadRequest) (tokenAxisParam p (fst kv)))"

definition judgeModel :: "Upstream gomap \<Rightarrow> protocol \<Rightarrow> Key \<Rightarrow> Model \<Rightarrow> params \<Rightarrow> halt option" where
  "judgeModel ups p key model m =
     (case (if CreditAxis model then None else creditOnly p) of
        Some e \<Rightarrow> Some (refuse e StatusBadRequest)
      | None \<Rightarrow>
      case (if CreditAxis model then None
                 else first_some (tokenParam (reasoningParam p \<noteq> [] \<and> reasoningOpen ups model) p) m) of
        Some h \<Rightarrow> Some h
      | None \<Rightarrow>
          if \<not> AllowsModel key model then Some (refuse errModelNotAllowed StatusBadRequest)
          else if CreditAxis model then None
          else map_option (\<lambda>e. refuse e StatusBadRequest) (fenceTokenTools m))"

definition judgeCredit :: "protocol \<Rightarrow> state \<Rightarrow> Key \<Rightarrow> Model \<Rightarrow> string \<Rightarrow> params \<Rightarrow> halt option" where
  "judgeCredit p snap key model name m =
     (if \<not> ServesCreditModel key model
      then (if IsRouterModelName name
            then Some (refuseAs (errRouterModelNotSupported name) StatusBadRequest ''router_model_not_supported'')
            else Some (refuseAs errCreditModelNotAllowed StatusBadRequest ''credit_model_not_allowed''))
      else case runFences (fences p) (doc snap) (map_of (byPublic snap)) key model m of
        Some rf \<Rightarrow> Some (refuseWith rf StatusBadRequest)
      | None \<Rightarrow>
          if CredentialFor key (UpstreamRef model) = []
          then (if CreditPending key then Some (refuse errCreditPending StatusAuthRejected)
                else Some (refuse errCreditUnavailable StatusAuthRejected))
          else None)"

section \<open>The limits of a key\<close>

record limit_defaults =
  DefaultRpm :: int
  DefaultTpm :: int
  DefaultConcurrency :: int

definition keyLimits :: "limit_defaults \<Rightarrow> Key \<Rightarrow> int \<times> int \<times> int" where
  "keyLimits d k =
     (let or_default = (\<lambda>n dflt. if n \<le> 0 then dflt else n) in
      (or_default (Rpm (KeyLimits k)) (DefaultRpm d), or_default (Tpm (KeyLimits k)) (DefaultTpm d),
       or_default (Concurrency (KeyLimits k)) (DefaultConcurrency d)))"

definition limitRefusal :: "Reason \<Rightarrow> halt" where
  "limitRefusal r =
     (case r of RpmLimit \<Rightarrow> refuse errRateRequests StatusRateLimited
      | TpmLimit \<Rightarrow> refuse errRateTokens StatusRateLimited
      | _ \<Rightarrow> refuse errRateConcurrency StatusRateLimited)"

section \<open>Lengths\<close>

text \<open>The fields that bound the answer are read in turn and taken out; the smallest wins.\<close>

fun readCaps :: "Model \<Rightarrow> string list \<Rightarrow> int \<Rightarrow> params \<Rightarrow> halt + int \<times> params" where
  "readCaps model [] asked m = Inr (asked, m)"
| "readCaps model (f # fs) asked m =
     (case map_of m f of
        None \<Rightarrow> readCaps model fs asked m
      | Some raw \<Rightarrow>
          let m = AList.delete f m in
          if raw = JNull then readCaps model fs asked m
          else case dec_int raw of
            None \<Rightarrow> Inl (refuse (errInvalidParamValue f) StatusBadRequest)
          | Some n \<Rightarrow>
              if n \<le> 0 then Inl (refuse (errInvalidParamValue f) StatusBadRequest)
              else if MaxOutputTokens model > 0 \<and> n > MaxOutputTokens model
              then Inl (refuse (errOutputTooLong f (MaxOutputTokens model)) StatusBadRequest)
              else readCaps model fs (if asked = 0 \<or> n < asked then n else asked) m)"

definition outputCap :: "protocol \<Rightarrow> Model \<Rightarrow> params \<Rightarrow> halt + int \<times> params" where
  "outputCap p model m =
     (case readCaps model (capReadFields p) 0 m of
        Inl h \<Rightarrow> Inl h
      | Inr (asked, m) \<Rightarrow>
          Inr (if asked > 0 then asked else if MaxOutputTokens model > 0 then MaxOutputTokens model else 0, m))"

definition inputTooLong :: "(json \<Rightarrow> string) \<Rightarrow> Model \<Rightarrow> parsedRequest \<Rightarrow> bool" where
  "inputTooLong rawText model req \<longleftrightarrow>
     MaxInputTokens model > 0 \<and> int (length (rawText (reqInput req))) > wrap64 (MaxInputTokens model * 6)"

end
