(* ===== verification/Metering.thy ===== *)
theory Metering
  imports Json_Text Spool
begin

text \<open>
  What an answer costs: the usage objects of the three response shapes and their common form, the
  byte-based estimate, what goes into the usage event (\<open>pipeline.go\<close>), and the reading of a whole
  answer on each surface (\<open>chat.go\<close>, \<open>completions.go\<close>, \<open>messages.go\<close>, \<open>responses.go\<close>). A decoded
  answer is a Go map of values read into \<open>any\<close>. Counts are 64-bit and their sums wrap.
\<close>

section \<open>Reading values of type \<open>any\<close>\<close>

text \<open>The checked type assertions: the zero value when the member is missing or of another type.\<close>

definition as_string :: "json option \<Rightarrow> string" where
  "as_string v = (case v of Some (JStr s) \<Rightarrow> s | _ \<Rightarrow> [])"

definition as_list :: "json option \<Rightarrow> json list" where
  "as_list v = (case v of Some (JArr xs) \<Rightarrow> xs | _ \<Rightarrow> [])"

definition as_map :: "json option \<Rightarrow> params option" where
  "as_map v = (case v of Some (JObj kvs) \<Rightarrow> Some kvs | _ \<Rightarrow> None)"

text \<open>A member that is there and not null, and a member that equals a string.\<close>

definition not_nil :: "params \<Rightarrow> string \<Rightarrow> bool" where
  "not_nil m f \<longleftrightarrow> present m f \<noteq> None"

definition is_string :: "params \<Rightarrow> string \<Rightarrow> string \<Rightarrow> bool" where
  "is_string m f s \<longleftrightarrow> map_of m f = Some (JStr s)"

text \<open>Encoding a value and reading it back: members come in the order of their names.\<close>

fun remarshal :: "json \<Rightarrow> json" where
  "remarshal (JArr xs) = JArr (map remarshal xs)"
| "remarshal (JObj kvs) = JObj (sort_key fst (map (\<lambda>kv. (fst kv, remarshal (snd kv))) kvs))"
| "remarshal j = j"

section \<open>Usage\<close>

record usage =
  PromptTokens :: int
  CompletionTokens :: int
  TotalTokens :: int
  Cost :: string
  CachedTokens :: int
  usageReasoningTokens :: int

definition usage_zero :: usage where
  "usage_zero = \<lparr>PromptTokens = 0, CompletionTokens = 0, TotalTokens = 0, Cost = [], CachedTokens = 0,
     usageReasoningTokens = 0\<rparr>"

text \<open>A \<open>json.Number\<close> takes a number, or a string that spells one.\<close>

definition number_field :: "(string \<Rightarrow> 'r \<Rightarrow> 'r) \<Rightarrow> json \<Rightarrow> 'r \<Rightarrow> 'r option" where
  "number_field upd j r =
     (case j of JNum n \<Rightarrow> Some (upd n r)
      | JStr s \<Rightarrow> if isValidNumber s then Some (upd s r) else None
      | JNull \<Rightarrow> Some r | _ \<Rightarrow> None)"

definition usage_fields :: "usage field list" where
  "usage_fields =
     [(''prompt_tokens'', int_field (\<lambda>n. PromptTokens_update (\<lambda>_. n))),
      (''completion_tokens'', int_field (\<lambda>n. CompletionTokens_update (\<lambda>_. n))),
      (''total_tokens'', int_field (\<lambda>n. TotalTokens_update (\<lambda>_. n))),
      (''cost'', number_field (\<lambda>s. Cost_update (\<lambda>_. s))),
      (''prompt_tokens_details'',
        dec_struct False [(''cached_tokens'', int_field (\<lambda>n. CachedTokens_update (\<lambda>_. n)))]),
      (''completion_tokens_details'',
        dec_struct False [(''reasoning_tokens'', int_field (\<lambda>n. usageReasoningTokens_update (\<lambda>_. n)))])]"

definition dec_usage :: "json \<Rightarrow> usage option" where
  "dec_usage j = dec_struct False usage_fields (remarshal j) usage_zero"

definition nonNegative :: "int \<Rightarrow> int" where
  "nonNegative v = (if v < 0 then 0 else v)"

definition intOf :: "int option \<Rightarrow> int" where
  "intOf p = (case p of None \<Rightarrow> 0 | Some n \<Rightarrow> n)"

record messagesUsage =
  muInputTokens :: "int option"
  muOutputTokens :: "int option"
  CacheReadInputTokens :: "int option"
  CacheCreationInputTokens :: "int option"
  muCost :: "json option"
  ThinkingTokens :: "int option"
  muReasoningTokens :: "int option"

definition messagesUsage_zero :: messagesUsage where
  "messagesUsage_zero = \<lparr>muInputTokens = None, muOutputTokens = None, CacheReadInputTokens = None,
     CacheCreationInputTokens = None, muCost = None, ThinkingTokens = None, muReasoningTokens = None\<rparr>"

text \<open>A pointer is nil after null.\<close>

definition int_pointer :: "(int option \<Rightarrow> 'r \<Rightarrow> 'r) \<Rightarrow> json \<Rightarrow> 'r \<Rightarrow> 'r option" where
  "int_pointer upd j r =
     (case j of JNull \<Rightarrow> Some (upd None r)
      | JNum n \<Rightarrow> map_option (\<lambda>i. upd (Some i) r) (parse_int64 n) | _ \<Rightarrow> None)"

definition messagesUsage_fields :: "messagesUsage field list" where
  "messagesUsage_fields =
     [(''input_tokens'', int_pointer (\<lambda>p. muInputTokens_update (\<lambda>_. p))),
      (''output_tokens'', int_pointer (\<lambda>p. muOutputTokens_update (\<lambda>_. p))),
      (''cache_read_input_tokens'', int_pointer (\<lambda>p. CacheReadInputTokens_update (\<lambda>_. p))),
      (''cache_creation_input_tokens'', int_pointer (\<lambda>p. CacheCreationInputTokens_update (\<lambda>_. p))),
      (''cost'', \<lambda>j r. Some (r\<lparr>muCost := Some j\<rparr>)),
      (''output_tokens_details'', dec_struct False
        [(''thinking_tokens'', int_pointer (\<lambda>p. ThinkingTokens_update (\<lambda>_. p))),
         (''reasoning_tokens'', int_pointer (\<lambda>p. muReasoningTokens_update (\<lambda>_. p)))])]"

definition decodeMessagesUsage :: "json option \<Rightarrow> messagesUsage option" where
  "decodeMessagesUsage raw =
     (case raw of None \<Rightarrow> None | Some JNull \<Rightarrow> None
      | Some j \<Rightarrow> dec_struct False messagesUsage_fields (remarshal j) messagesUsage_zero)"

definition thinkingTokens :: "messagesUsage \<Rightarrow> int" where
  "thinkingTokens m =
     (case ThinkingTokens m of Some n \<Rightarrow> nonNegative n | None \<Rightarrow> nonNegative (intOf (muReasoningTokens m)))"

definition cost_of :: "json option \<Rightarrow> string" where
  "cost_of c = (case c of Some (JNum n) \<Rightarrow> n | _ \<Rightarrow> [])"

definition messages_normalized :: "messagesUsage \<Rightarrow> usage option" where
  "messages_normalized m =
     (case (muInputTokens m, muOutputTokens m) of
        (Some input, Some output) \<Rightarrow>
          let read = nonNegative (intOf (CacheReadInputTokens m));
              prompt = wrap64 (wrap64 (nonNegative input + read) +
                         nonNegative (intOf (CacheCreationInputTokens m)));
              completion = nonNegative output
          in Some \<lparr>PromptTokens = prompt, CompletionTokens = completion,
               TotalTokens = wrap64 (prompt + completion), Cost = cost_of (muCost m), CachedTokens = read,
               usageReasoningTokens = thinkingTokens m\<rparr>
      | _ \<Rightarrow> None)"

record responsesUsage =
  ruInputTokens :: "int option"
  ruOutputTokens :: "int option"
  ruCachedTokens :: "int option"
  ruReasoningTokens :: "int option"
  ruCost :: "json option"

definition responsesUsage_zero :: responsesUsage where
  "responsesUsage_zero = \<lparr>ruInputTokens = None, ruOutputTokens = None, ruCachedTokens = None,
     ruReasoningTokens = None, ruCost = None\<rparr>"

definition responsesUsage_fields :: "responsesUsage field list" where
  "responsesUsage_fields =
     [(''input_tokens'', int_pointer (\<lambda>p. ruInputTokens_update (\<lambda>_. p))),
      (''output_tokens'', int_pointer (\<lambda>p. ruOutputTokens_update (\<lambda>_. p))),
      (''input_tokens_details'', dec_struct False
        [(''cached_tokens'', int_pointer (\<lambda>p. ruCachedTokens_update (\<lambda>_. p)))]),
      (''output_tokens_details'', dec_struct False
        [(''reasoning_tokens'', int_pointer (\<lambda>p. ruReasoningTokens_update (\<lambda>_. p)))]),
      (''cost'', \<lambda>j r. Some (r\<lparr>ruCost := Some j\<rparr>))]"

definition responses_normalized :: "responsesUsage \<Rightarrow> usage option" where
  "responses_normalized r =
     (case (ruInputTokens r, ruOutputTokens r) of
        (Some input, Some output) \<Rightarrow>
          Some \<lparr>PromptTokens = nonNegative input, CompletionTokens = nonNegative output,
            TotalTokens = wrap64 (nonNegative input + nonNegative output), Cost = cost_of (ruCost r),
            CachedTokens = nonNegative (intOf (ruCachedTokens r)),
            usageReasoningTokens = nonNegative (intOf (ruReasoningTokens r))\<rparr>
      | _ \<Rightarrow> None)"

definition decodeResponsesUsage :: "json option \<Rightarrow> usage option" where
  "decodeResponsesUsage raw =
     (case raw of None \<Rightarrow> None | Some JNull \<Rightarrow> None
      | Some j \<Rightarrow>
          Option.bind (dec_struct False responsesUsage_fields (remarshal j) responsesUsage_zero)
            responses_normalized)"

section \<open>Settling\<close>

definition estimateTokens :: "int \<Rightarrow> int \<Rightarrow> int \<times> int" where
  "estimateTokens inputBytes contentChars = (inputBytes div 4, contentChars div 3)"

definition settleUsage :: "usage option \<Rightarrow> int \<Rightarrow> int \<Rightarrow> Event \<Rightarrow> Event" where
  "settleUsage u inputBytes contentChars ev =
     (case u of
        Some u \<Rightarrow> ev\<lparr>InputTokens := PromptTokens u, OutputTokens := CompletionTokens u,
          CostUsd := CostLiteral (Cost u), CachedInputTokens := nonNegative (CachedTokens u),
          ReasoningTokens := nonNegative (usageReasoningTokens u)\<rparr>
      | None \<Rightarrow>
          (case estimateTokens inputBytes contentChars of (input, output) \<Rightarrow>
             ev\<lparr>InputTokens := input, OutputTokens := output, Estimated := True\<rparr>))"

definition errUsageMissing :: string where "errUsageMissing = ''upstream_usage_missing''"

definition dropUsageEstimate :: "Event \<Rightarrow> Event" where
  "dropUsageEstimate ev =
     (let ev = (if EvStatus ev = StatusOK
                then ev\<lparr>EvStatus := StatusUpstreamErr, ErrorType := errUsageMissing\<rparr> else ev)
      in ev\<lparr>InputTokens := 0, OutputTokens := 0, Estimated := False, CachedInputTokens := 0,
           ReasoningTokens := 0, CostUsd := []\<rparr>)"

definition servedModelMax :: nat where "servedModelMax = 128"

definition boundServedModel :: "string \<Rightarrow> string" where
  "boundServedModel served = take servedModelMax served"

definition noteServedModel :: "string \<Rightarrow> string \<Rightarrow> Event \<Rightarrow> Event" where
  "noteServedModel requested served ev =
     (if served = [] \<or> requested = [] \<or> EqualFold requested served then ev
      else ev\<lparr>ServedModelName := boundServedModel served\<rparr>)"

text \<open>A byte that starts a character in UTF-8, and the last cut at or before \<open>n\<close> that falls on one.\<close>

definition RuneStart :: "char \<Rightarrow> bool" where
  "RuneStart c \<longleftrightarrow> (of_char c :: nat) div 64 \<noteq> 2"

fun rune_cut :: "string \<Rightarrow> nat \<Rightarrow> nat" where
  "rune_cut s 0 = 0"
| "rune_cut s (Suc n) = (if RuneStart (s ! Suc n) then Suc n else rune_cut s n)"

definition capAt :: "string \<Rightarrow> nat \<Rightarrow> string \<times> bool" where
  "capAt s limit = (if length s \<le> limit then (s, False) else (take (rune_cut s limit) s, True))"

section \<open>Whole answers\<close>

record responseResult =
  servedModel :: string
  resUsage :: "usage option"
  answer :: string
  reasoningChars :: int
  upstreamError :: bool

text \<open>Every reader puts the public name in place of the served one when the answer names a model.\<close>

definition rename_model :: "string \<Rightarrow> params \<Rightarrow> params" where
  "rename_model publicName m =
     (if map_of m ''model'' = None then m else AList.update ''model'' (JStr publicName) m)"

definition chatPayloadError :: "params \<Rightarrow> bool" where
  "chatPayloadError m \<longleftrightarrow>
     not_nil m ''error'' \<or>
     list_ex (\<lambda>choice. case as_map (Some choice) of None \<Rightarrow> False
        | Some item \<Rightarrow> is_string item ''finish_reason'' ''error'') (as_list (map_of m ''choices''))"

definition reasoningText :: "params \<Rightarrow> string" where
  "reasoningText msg =
     (let v = as_string (map_of msg ''reasoning'') in
      if v \<noteq> [] then v else as_string (map_of msg ''reasoning_content''))"

definition first_choice :: "params \<Rightarrow> params option" where
  "first_choice m = (case as_list (map_of m ''choices'') of [] \<Rightarrow> None | c # cs \<Rightarrow> as_map (Some c))"

definition readChatResponse :: "params \<Rightarrow> string \<Rightarrow> responseResult \<times> params" where
  "readChatResponse m publicName =
     (let msg = Option.bind (first_choice m) (\<lambda>first. as_map (map_of first ''message'')) in
      (\<lparr>servedModel = as_string (map_of m ''model''),
        resUsage = Option.bind (present m ''usage'') dec_usage,
        answer = (case msg of None \<Rightarrow> [] | Some b \<Rightarrow> as_string (map_of b ''content'')),
        reasoningChars = (case msg of None \<Rightarrow> 0 | Some b \<Rightarrow> int (length (reasoningText b))),
        upstreamError = chatPayloadError m\<rparr>, rename_model publicName m))"

definition readCompletionsResponse :: "params \<Rightarrow> string \<Rightarrow> responseResult \<times> params" where
  "readCompletionsResponse m publicName =
     (case readChatResponse m publicName of (res, m') \<Rightarrow>
        (res\<lparr>answer := (case first_choice m' of None \<Rightarrow> [] | Some first \<Rightarrow> as_string (map_of first ''text''))\<rparr>, m'))"

definition text_of :: "string \<Rightarrow> json list \<Rightarrow> string" where
  "text_of kind blocks =
     concat (map (\<lambda>block. case as_map (Some block) of None \<Rightarrow> []
       | Some b \<Rightarrow> if is_string b ''type'' kind then as_string (map_of b ''text'') else []) blocks)"

definition readMessagesResponse :: "params \<Rightarrow> string \<Rightarrow> responseResult \<times> params" where
  "readMessagesResponse m publicName =
     (\<lparr>servedModel = as_string (map_of m ''model''),
       resUsage = Option.bind (decodeMessagesUsage (map_of m ''usage'')) messages_normalized,
       answer = text_of ''text'' (as_list (map_of m ''content'')), reasoningChars = 0,
       upstreamError = is_string m ''type'' ''error''\<rparr>, rename_model publicName m)"

definition responseFailed :: "params \<Rightarrow> bool" where
  "responseFailed resp \<longleftrightarrow> is_string resp ''status'' ''failed'' \<or> not_nil resp ''error''"

definition responsesOutputText :: "json option \<Rightarrow> string" where
  "responsesOutputText output =
     concat (map (\<lambda>item. case as_map (Some item) of None \<Rightarrow> []
       | Some it \<Rightarrow> if is_string it ''type'' ''message''
                   then text_of ''output_text'' (as_list (map_of it ''content'')) else []) (as_list output))"

definition readResponsesResponse :: "params \<Rightarrow> string \<Rightarrow> responseResult \<times> params" where
  "readResponsesResponse m publicName =
     (\<lparr>servedModel = as_string (map_of m ''model''),
       resUsage = decodeResponsesUsage (map_of m ''usage''),
       answer = responsesOutputText (map_of m ''output''), reasoningChars = 0,
       upstreamError = responseFailed m\<rparr>, rename_model publicName m)"

section \<open>Properties\<close>

lemma rename_model_map:
  "map_of (rename_model publicName m) =
     (if map_of m ''model'' = None then map_of m else (map_of m)(''model'' \<mapsto> JStr publicName))"
  by (simp add: rename_model_def go_maps)

lemma readers_rename:
  "snd (readChatResponse m p) = rename_model p m" "snd (readCompletionsResponse m p) = rename_model p m"
  "snd (readMessagesResponse m p) = rename_model p m" "snd (readResponsesResponse m p) = rename_model p m"
  by (simp_all add: readChatResponse_def readCompletionsResponse_def readMessagesResponse_def
      readResponsesResponse_def Let_def case_prod_beta)



text \<open>The input count of the Messages surface leaves the cached parts out; that of Responses counts them.\<close>

definition with_cache :: "messagesUsage \<Rightarrow> responsesUsage" where
  "with_cache m =
     \<lparr>ruInputTokens = map_option (\<lambda>n. nonNegative n + nonNegative (intOf (CacheReadInputTokens m)) +
        nonNegative (intOf (CacheCreationInputTokens m))) (muInputTokens m),
      ruOutputTokens = muOutputTokens m, ruCachedTokens = CacheReadInputTokens m,
      ruReasoningTokens = (if ThinkingTokens m = None then muReasoningTokens m else ThinkingTokens m),
      ruCost = muCost m\<rparr>"

definition messages_sum :: "messagesUsage \<Rightarrow> int" where
  "messages_sum m = nonNegative (intOf (muInputTokens m)) + nonNegative (intOf (CacheReadInputTokens m)) +
     nonNegative (intOf (CacheCreationInputTokens m))"

lemma nonNegative_ge [simp]: "0 \<le> nonNegative n"
  by (simp add: nonNegative_def)

lemma nonNegative_id [simp]: "0 \<le> n \<Longrightarrow> nonNegative n = n"
  by (simp add: nonNegative_def)

text \<open>
  The two surfaces meter alike. As long as the counts fit a 64-bit integer when added up, a Messages
  usage object is metered exactly as the Responses object that states the same consumption with the
  cached input included: the same input, output, total, cached part, reasoning part and price; and the
  cached part never exceeds the input.
\<close>

theorem messages_usage_as_responses:
  assumes "in_int64 (messages_sum m)"
  shows "messages_normalized m = responses_normalized (with_cache m) \<and>
    (\<forall>u. messages_normalized m = Some u \<longrightarrow> CachedTokens u \<le> PromptTokens u \<and> 0 \<le> PromptTokens u)"
proof (cases "muInputTokens m")
  case None
  then show ?thesis by (simp add: messages_normalized_def responses_normalized_def with_cache_def)
next
  case (Some input)
  let ?read = "nonNegative (intOf (CacheReadInputTokens m))"
  let ?new = "nonNegative (intOf (CacheCreationInputTokens m))"
  have "0 \<le> nonNegative input" "0 \<le> ?read" "0 \<le> ?new" by simp_all
  moreover have s: "in_int64 (nonNegative input + ?read + ?new)"
    using assms Some by (simp add: messages_sum_def intOf_def)
  ultimately have "in_int64 (nonNegative input + ?read)" unfolding in_int64_def by linarith
  then have "wrap64 (wrap64 (nonNegative input + ?read) + ?new) = nonNegative input + ?read + ?new"
    using s by simp
  then show ?thesis
    using Some by (auto simp: messages_normalized_def responses_normalized_def with_cache_def Let_def
        thinkingTokens_def intOf_def split: option.splits)
qed

theorem messages_usage_as_responses_witness:
  "\<exists>u. messages_normalized (messagesUsage_zero\<lparr>muInputTokens := Some 5, muOutputTokens := Some 7,
        CacheReadInputTokens := Some 3\<rparr>) = Some u \<and> PromptTokens u = 8 \<and> CachedTokens u \<le> PromptTokens u"
proof -
  let ?m = "messagesUsage_zero\<lparr>muInputTokens := Some 5, muOutputTokens := Some 7, CacheReadInputTokens := Some 3\<rparr>"
  have "in_int64 (messages_sum ?m)" by code_simp
  moreover obtain u where "messages_normalized ?m = Some u" "PromptTokens u = 8"
    by (simp add: messages_normalized_def messagesUsage_zero_def intOf_def Let_def wrap64_def)
  ultimately show ?thesis using messages_usage_as_responses [of ?m] by blast
qed

text \<open>
  An unmetered answer is never a success with invented counts. On a surface that does not estimate, a
  record settled without the upstream's usage ends with no counts and no price and is not marked as an
  estimate, and it is not recorded as a success; one settled with it keeps the upstream's counts, and
  its price is a bounded literal or absent.
\<close>

theorem record_settled:
  "(let ev' = dropUsageEstimate (settleUsage None inputBytes contentChars ev) in
      InputTokens ev' = 0 \<and> OutputTokens ev' = 0 \<and> \<not> Estimated ev' \<and> CostUsd ev' = [] \<and> EvStatus ev' \<noteq> StatusOK) \<and>
   (let ev' = settleUsage (Some u) inputBytes contentChars ev in
      InputTokens ev' = PromptTokens u \<and> OutputTokens ev' = CompletionTokens u \<and> EvStatus ev' = EvStatus ev \<and>
      0 \<le> CachedInputTokens ev' \<and> 0 \<le> ReasoningTokens ev' \<and>
      CostUsd ev' \<in> {[], Cost u} \<and> length (CostUsd ev') \<le> costLiteralMax)"
  by (auto simp: dropUsageEstimate_def settleUsage_def estimateTokens_def Let_def CostLiteral_def
      split: list.splits option.splits)

lemma rune_cut_spec:
  "rune_cut s n \<le> n \<and> (rune_cut s n = 0 \<or> RuneStart (s ! rune_cut s n)) \<and>
   (\<forall>j. rune_cut s n < j \<and> j \<le> n \<longrightarrow> \<not> RuneStart (s ! j))"
  by (induction n) (auto simp: le_Suc_eq)

text \<open>
  A captured text is cut between characters: what is kept is a prefix of at most \<open>limit\<close> bytes, the
  whole text exactly when it is not marked as cut, and otherwise the longest prefix within the limit
  that ends where a character of UTF-8 begins, or nothing.
\<close>

theorem capture_cut_on_character:
  "\<exists>k. fst (capAt s limit) = take k s \<and> length (fst (capAt s limit)) \<le> limit \<and>
     (\<not> snd (capAt s limit) \<longleftrightarrow> fst (capAt s limit) = s) \<and>
     (if snd (capAt s limit)
      then k \<le> limit \<and> (k = 0 \<or> RuneStart (s ! k)) \<and> list_all (\<lambda>j. \<not> RuneStart (s ! j)) [Suc k..<Suc limit]
      else k = length s)"
proof (cases "length s \<le> limit")
  case True
  then show ?thesis by (simp add: capAt_def)
next
  case False
  then have "take (rune_cut s limit) s \<noteq> s" using rune_cut_spec [of s limit] by (metis le_trans length_take min.absorb2 nle_le)
  then show ?thesis using False rune_cut_spec [of s limit]
    by (intro exI [of _ "rune_cut s limit"]) (auto simp: capAt_def list_all_iff)
qed

end
