(* ===== verification/Stream_Relay.thy ===== *)
theory Stream_Relay
  imports Metering Large_Body Api_Errors
begin

text \<open>
  The stream relay of \<open>internal/server/sse.go\<close>: assembling events from lines, the bound on one event
  and the slot that raises it, keepalive comments, and how the ending of a stream is classified. What a
  surface does with an event is an \<open>extractor\<close>, a record of the operations of \<open>streamExtractor\<close> on a
  state of its own. The upstream's body comes in as its bytes and how the read ended; \<open>writable\<close> says which write to the client succeeds. A line longer than the
  reader's buffer is judged once, by its whole length, where the code judges each buffer of it: the
  length only grows, so the first buffer past the bound decides the same way.
\<close>

section \<open>Events\<close>

abbreviation LF :: char where "LF \<equiv> newline"
abbreviation CR :: char where "CR \<equiv> CHR 0x0D"

record sseEvent =
  eventName :: string
  eventId :: string
  eventRetry :: string
  eventData :: string
  badField :: bool

definition sseEvent_zero :: sseEvent where
  "sseEvent_zero = \<lparr>eventName = [], eventId = [], eventRetry = [], eventData = [], badField = False\<rparr>"

definition sseFieldMax :: nat where "sseFieldMax = 1024"

definition isControlByte :: "char \<Rightarrow> bool" where
  "isControlByte c \<longleftrightarrow> (of_char c :: nat) < 32 \<or> (of_char c :: nat) = 127"

definition sse_field :: "string \<Rightarrow> sseEvent \<Rightarrow> string \<times> sseEvent" where
  "sse_field rest e =
     (let v = TrimSpace rest in
      if length v > sseFieldMax \<or> list_ex isControlByte v then ([], e\<lparr>badField := True\<rparr>) else (v, e))"

record streamResult =
  srUsage :: usage
  haveUsage :: bool
  contentChars :: int
  srAnswer :: string
  dropped :: int
  srUpstreamError :: bool

definition streamResult_zero :: streamResult where
  "streamResult_zero = \<lparr>srUsage = usage_zero, haveUsage = False, contentChars = 0, srAnswer = [], dropped = 0,
     srUpstreamError = False\<rparr>"

record 'x extractor =
  x_event :: "sseEvent \<Rightarrow> 'x \<Rightarrow> string option \<times> 'x"
  x_done :: "'x \<Rightarrow> bool"
  x_result :: "'x \<Rightarrow> streamResult"
  x_error :: "string \<Rightarrow> string \<Rightarrow> string"
  x_terminator :: "string option"

section \<open>The relay's state\<close>

definition upstreamResponseCapBytes :: int where "upstreamResponseCapBytes = 8 * 1048576"
definition dataLineOverhead :: int where "dataLineOverhead = 32"

record 'x relay =
  ext :: 'x
  cur_event :: sseEvent
  dataLines :: "string list"
  eventBytes :: int
  eventCap :: int
  eventSlot :: "nat option"
  slots :: pool
  written :: "string list"
  writeFailed :: bool

definition writeRaw :: "(nat \<Rightarrow> bool) \<Rightarrow> string option \<Rightarrow> 'x relay \<Rightarrow> 'x relay" where
  "writeRaw writable b st =
     (case b of None \<Rightarrow> st
      | Some bytes \<Rightarrow>
          if writeFailed st then st
          else if writable (length (written st)) then st\<lparr>written := written st @ [bytes]\<rparr>
          else st\<lparr>writeFailed := True\<rparr>)"

definition resetEventCap :: "'x relay \<Rightarrow> 'x relay" where
  "resetEventCap st =
     st\<lparr>slots := (case eventSlot st of None \<Rightarrow> slots st | Some i \<Rightarrow> release i (slots st)),
        eventSlot := None, eventCap := upstreamResponseCapBytes\<rparr>"

text \<open>Whether \<open>n\<close> bytes are past the bound; a data line may take a slot to raise it once.\<close>

definition overCap :: "int \<Rightarrow> int \<Rightarrow> bool \<Rightarrow> 'x relay \<Rightarrow> bool \<times> 'x relay" where
  "overCap largeMax n is_data st =
     (if n \<le> eventCap st then (False, st)
      else if is_data \<and> eventCap st = upstreamResponseCapBytes \<and> largeMax > upstreamResponseCapBytes
      then (case acquire (slots st) of
              (Some i, p) \<Rightarrow> (n > largeMax, st\<lparr>slots := p, eventSlot := Some i, eventCap := largeMax\<rparr>)
            | (None, p) \<Rightarrow> (True, st\<lparr>slots := p\<rparr>))
      else (True, st))"

fun join_lines :: "string list \<Rightarrow> string" where
  "join_lines [] = []"
| "join_lines [l] = l"
| "join_lines (l # m # ls) = l @ LF # join_lines (m # ls)"

definition flushEvent :: "'x extractor \<Rightarrow> (nat \<Rightarrow> bool) \<Rightarrow> 'x relay \<Rightarrow> 'x relay" where
  "flushEvent X writable st =
     (if dataLines st = [] then resetEventCap (st\<lparr>cur_event := sseEvent_zero\<rparr>)
      else
        let e = (cur_event st)\<lparr>eventData := join_lines (dataLines st)\<rparr> in
        case x_event X e (ext st) of (out, x) \<Rightarrow>
          resetEventCap (writeRaw writable out
            (st\<lparr>ext := x, cur_event := sseEvent_zero, dataLines := [], eventBytes := 0\<rparr>)))"

definition processLine :: "'x extractor \<Rightarrow> (nat \<Rightarrow> bool) \<Rightarrow> string \<Rightarrow> 'x relay \<Rightarrow> 'x relay" where
  "processLine X writable line st =
     (let trimmed = TrimRight line [CR, LF] in
      if trimmed = [] then (if line \<noteq> [] then flushEvent X writable st else st)
      else if hd trimmed = CHR '':''
      then (if CR \<notin> set trimmed then writeRaw writable (Some (trimmed @ [LF, LF])) st else st)
      else if HasPrefix trimmed ''data:''
      then st\<lparr>dataLines := dataLines st @ [TrimSpace (drop 5 trimmed)],
              eventBytes := eventBytes st + int (length trimmed) + dataLineOverhead\<rparr>
      else if HasPrefix trimmed ''event:''
      then (case sse_field (drop 6 trimmed) (cur_event st) of (v, e) \<Rightarrow> st\<lparr>cur_event := e\<lparr>eventName := v\<rparr>\<rparr>)
      else if HasPrefix trimmed ''id:''
      then (case sse_field (drop 3 trimmed) (cur_event st) of (v, e) \<Rightarrow> st\<lparr>cur_event := e\<lparr>eventId := v\<rparr>\<rparr>)
      else if HasPrefix trimmed ''retry:''
      then (case sse_field (drop 6 trimmed) (cur_event st) of (v, e) \<Rightarrow> st\<lparr>cur_event := e\<lparr>eventRetry := v\<rparr>\<rparr>)
      else st)"

section \<open>The loop\<close>

datatype read_failure = ReadDeadline | ReadOverCap | ReadBroken

text \<open>How the upstream's body ends: at its end, past the request's deadline, or broken off.\<close>

datatype body_end = AtEOF | EndDeadline | EndBroken

definition end_failure :: "body_end \<Rightarrow> read_failure option" where
  "end_failure b = (case b of AtEOF \<Rightarrow> None | EndDeadline \<Rightarrow> Some ReadDeadline | EndBroken \<Rightarrow> Some ReadBroken)"

definition readLine :: "int \<Rightarrow> string \<Rightarrow> 'x relay \<Rightarrow> bool \<times> 'x relay" where
  "readLine largeMax line st = overCap largeMax (int (length line) + eventBytes st) (HasPrefix line ''data:'') st"

fun relay_loop ::
  "'x extractor \<Rightarrow> (nat \<Rightarrow> bool) \<Rightarrow> int \<Rightarrow> string list \<Rightarrow> string \<Rightarrow> body_end \<Rightarrow> 'x relay \<Rightarrow>
     read_failure option \<times> 'x relay" where
  "relay_loop X writable largeMax [] frag ending st =
     (case readLine largeMax frag st of
        (True, st) \<Rightarrow> (if writeFailed st \<or> x_done X (ext st) then None else Some ReadOverCap, st)
      | (False, st) \<Rightarrow>
          let st = processLine X writable frag st in
          if writeFailed st \<or> x_done X (ext st) then (None, st)
          else if ending = AtEOF then (None, flushEvent X writable st)
          else (end_failure ending, st))"
| "relay_loop X writable largeMax (line # ls) frag ending st =
     (case readLine largeMax line st of
        (True, st) \<Rightarrow> (if writeFailed st \<or> x_done X (ext st) then None else Some ReadOverCap, st)
      | (False, st) \<Rightarrow>
          let st = processLine X writable line st in
          if writeFailed st \<or> x_done X (ext st) then (None, st)
          else relay_loop X writable largeMax ls frag ending st)"

definition relay_start :: "'x \<Rightarrow> pool \<Rightarrow> 'x relay" where
  "relay_start x p = \<lparr>ext = x, cur_event = sseEvent_zero, dataLines = [], eventBytes = 0,
     eventCap = upstreamResponseCapBytes, eventSlot = None, slots = p, written = [], writeFailed = False\<rparr>"

section \<open>The ending\<close>

text \<open>
  The code the client sees and the record's error type; \<open>clientGone\<close> and \<open>deadline\<close> are the states of the
  two contexts when the loop is over. The prose of the error events is named, not spelled.
\<close>

definition end_stream ::
  "'x extractor \<Rightarrow> (nat \<Rightarrow> bool) \<Rightarrow> bool \<Rightarrow> bool \<Rightarrow> read_failure option \<Rightarrow> 'x relay \<Rightarrow> Event \<Rightarrow> Event \<times> 'x relay" where
  "end_stream X writable clientGone deadline readErr st ev =
     (let res = x_result X (ext st); fin = x_done X (ext st) in
      if writeFailed st \<or> clientGone
      then (ev\<lparr>EvStatus := StatusCanceled, ErrorType := ''client_disconnected''\<rparr>, st)
      else if \<not> fin \<and> (readErr = Some ReadDeadline \<or> deadline)
      then (ev\<lparr>EvStatus := StatusTimeout, ErrorType := ''request_deadline_exceeded''\<rparr>,
            writeRaw writable (Some (x_error X ''request_deadline_exceeded'' ''stream_deadline'')) st)
      else if readErr = Some ReadOverCap
      then (ev\<lparr>EvStatus := StatusUpstreamErr, ErrorType := errCode errPassthroughResponseTooLarge\<rparr>,
            writeRaw writable (Some (x_error X (errCode errPassthroughResponseTooLarge) ''stream_too_large'')) st)
      else if readErr \<noteq> None
      then (ev\<lparr>EvStatus := StatusUpstreamErr, ErrorType := ''upstream_stream_interrupted''\<rparr>,
            writeRaw writable (Some (x_error X ''upstream_stream_interrupted'' ''stream_interrupted'')) st)
      else if \<not> fin \<and> \<not> srUpstreamError res
      then (ev\<lparr>EvStatus := StatusUpstreamErr, ErrorType := ''upstream_stream_unterminated''\<rparr>,
            writeRaw writable (Some (x_error X ''upstream_stream_interrupted'' ''stream_interrupted'')) st)
      else if dropped res > 0
      then (ev\<lparr>EvStatus := StatusUpstreamErr, ErrorType := ''upstream_chunk_unreadable''\<rparr>, st)
      else if srUpstreamError res
      then (ev\<lparr>EvStatus := StatusUpstreamErr, ErrorType := errCode errUpstream\<rparr>,
            if fin then st else writeRaw writable (x_terminator X) st)
      else (ev\<lparr>EvStatus := StatusOK\<rparr>, st))"

text \<open>The whole relay: the event as settled, what is charged to the key's bucket, and the final state.\<close>

definition relayStream ::
  "'x extractor \<Rightarrow> (nat \<Rightarrow> bool) \<Rightarrow> int \<Rightarrow> string \<Rightarrow> body_end \<Rightarrow> bool \<Rightarrow> bool \<Rightarrow> int \<Rightarrow>
     'x \<Rightarrow> pool \<Rightarrow> Event \<Rightarrow> Event \<times> int \<times> 'x relay" where
  "relayStream X writable largeMax body ending clientGone deadline inputBytes x p ev =
     (case relay_loop X writable largeMax (complete_lines body) (last_fragment body) ending (relay_start x p) of
        (readErr, st) \<Rightarrow>
          (case end_stream X writable clientGone deadline readErr st ev of
             (ev, st) \<Rightarrow>
               let res = x_result X (ext st);
                   ev = settleUsage (if haveUsage res then Some (srUsage res) else None) inputBytes (contentChars res) ev
               in (ev, wrap64 (InputTokens ev + OutputTokens ev), resetEventCap st)))"

section \<open>One line at a time\<close>

lemma processLine_cases:
  obtains (Dispatch) "processLine X writable line st = flushEvent X writable st"
  | (Comment) "processLine X writable line st = writeRaw writable (Some (TrimRight line [CR, LF] @ [LF, LF])) st"
      "TrimRight line [CR, LF] \<noteq> []" "hd (TrimRight line [CR, LF]) = CHR '':''" "CR \<notin> set (TrimRight line [CR, LF])"
  | (Data) "processLine X writable line st = st\<lparr>dataLines := dataLines st @ [TrimSpace (drop 5 (TrimRight line [CR, LF]))],
      eventBytes := eventBytes st + int (length (TrimRight line [CR, LF])) + dataLineOverhead\<rparr>"
  | (Field) e where "processLine X writable line st = st\<lparr>cur_event := e\<rparr>"
proof -
  let ?t = "TrimRight line [CR, LF]" and ?p = "processLine X writable line st"
  have same: "st = st\<lparr>cur_event := cur_event st\<rparr>" by simp
  consider "?t = []" | "?t \<noteq> []" "hd ?t = CHR '':''" | "?t \<noteq> []" "hd ?t \<noteq> CHR '':''" "HasPrefix ?t ''data:''"
    | "?t \<noteq> []" "hd ?t \<noteq> CHR '':''" "\<not> HasPrefix ?t ''data:''" by blast
  then show ?thesis
  proof cases
    case 1
    then have "?p = (if line \<noteq> [] then flushEvent X writable st else st)" by (simp add: processLine_def)
    then show ?thesis using that(1) that(4) same by metis
  next
    case 2
    then have "?p = (if CR \<notin> set ?t then writeRaw writable (Some (?t @ [LF, LF])) st else st)"
      by (simp add: processLine_def)
    then show ?thesis using 2 that(2) that(4) same by metis
  next
    case 3
    then show ?thesis using that(3) by (simp add: processLine_def Let_def)
  next
    case 4
    have "\<exists>e. (if a then st\<lparr>cur_event := e1\<rparr> else if b then st\<lparr>cur_event := e2\<rparr> else if c then st\<lparr>cur_event := e3\<rparr> else st)
        = st\<lparr>cur_event := e\<rparr>" for a b c e1 e2 e3
      by (cases a; cases b; cases c) (auto intro: exI [of _ "cur_event st"])
    then have "\<exists>e. ?p = st\<lparr>cur_event := e\<rparr>"
      using 4 unfolding processLine_def Let_def case_prod_beta by simp
    then show ?thesis using that(4) by blast
  qed
qed

section \<open>What a client reads\<close>

text \<open>
  A client of server-sent events ends a line at LF, at CR, or at the two together, and takes the lines
  up to a blank one as one event; what is not ended is not read.
\<close>

function client_split :: "string \<Rightarrow> string \<Rightarrow> string list" where
  "client_split acc [] = []"
| "client_split acc (c # s) =
     (if c = LF then acc # client_split [] s
      else if c = CR then acc # client_split [] (if s \<noteq> [] \<and> hd s = LF then tl s else s)
      else client_split (acc @ [c]) s)"
  by pat_completeness auto

termination
  by (relation "measure (\<lambda>(acc, s). length s)") (auto simp: less_Suc_eq_le)

fun client_groups :: "string list \<Rightarrow> string list \<Rightarrow> string list list" where
  "client_groups g [] = []"
| "client_groups g (l # ls) =
     (if l = [] then (if g = [] then client_groups [] ls else g # client_groups [] ls)
      else client_groups (g @ [l]) ls)"

definition client_events :: "string \<Rightarrow> string list list" where
  "client_events s = client_groups [] (client_split [] s)"

text \<open>An event as it should go out: its lines, none of them empty or broken, and a blank one.\<close>

definition render :: "string list \<Rightarrow> string" where
  "render g = concat (map (\<lambda>l. l @ [LF]) g) @ [LF]"

definition line_ok :: "string \<Rightarrow> bool" where
  "line_ok l \<longleftrightarrow> l \<noteq> [] \<and> LF \<notin> set l \<and> CR \<notin> set l"

definition group_ok :: "string list \<Rightarrow> bool" where
  "group_ok g \<longleftrightarrow> g \<noteq> [] \<and> list_all line_ok g"

lemma client_split_plain:
  "LF \<notin> set l \<Longrightarrow> CR \<notin> set l \<Longrightarrow> client_split acc (l @ s) = client_split (acc @ l) s"
  by (induction l arbitrary: acc) auto

lemma client_split_line: "line_ok l \<Longrightarrow> client_split [] (l @ LF # s) = l # client_split [] s"
  using client_split_plain [of l "[]" "LF # s"] by (simp add: line_ok_def)

lemma client_split_lines:
  "list_all line_ok g \<Longrightarrow>
     client_split [] (concat (map (\<lambda>l. l @ [LF]) g) @ s) = g @ client_split [] s"
  by (induction g) (auto simp: client_split_line)

lemma client_groups_lines:
  "list_all line_ok g \<Longrightarrow> client_groups acc (g @ ls) = client_groups (acc @ g) ls"
  by (induction g arbitrary: acc) (auto simp: line_ok_def)

lemma client_events_render:
  assumes "group_ok g"
  shows "client_events (render g @ s) = g # client_events s"
  using assms client_split_lines [of g "LF # s"] client_groups_lines [of g "[]" "[] # client_split [] s"]
  by (simp add: client_events_def render_def group_ok_def)

lemma client_events_renders:
  "list_all group_ok gs \<Longrightarrow> client_events (concat (map render gs)) = gs"
  by (induction gs) (auto simp: client_events_render client_events_def [of "[]"])

text \<open>Bytes that a client reads as exactly the given events.\<close>

definition framed :: "(string list \<Rightarrow> bool) \<Rightarrow> string \<Rightarrow> bool" where
  "framed good out \<longleftrightarrow> (\<exists>gs. out = concat (map render gs) \<and> list_all group_ok gs \<and> list_all good gs)"

lemma framed_Nil [simp]: "framed good []"
  unfolding framed_def by (rule exI [of _ "[]"]) simp

lemma framed_append: "framed good a \<Longrightarrow> framed good b \<Longrightarrow> framed good (a @ b)"
  unfolding framed_def by (metis concat_append list_all_append map_append)

lemma framed_one: "group_ok g \<Longrightarrow> good g \<Longrightarrow> framed good (render g)"
  unfolding framed_def by (rule exI [of _ "[g]"]) simp

lemma framed_client: "framed good out \<Longrightarrow> list_all good (client_events out)"
  unfolding framed_def using client_events_renders by metis

section \<open>The contract of an extractor\<close>

text \<open>
  What the relay relies on for the client's sake: whatever event arrives, the extractor answers with
  bytes that a client reads as good events, and so do its error and its terminator.
\<close>

locale framed_extractor =
  fixes X :: "'x extractor"
    and xinv :: "'x \<Rightarrow> bool"
    and good :: "string list \<Rightarrow> bool"
  assumes event_framed: "xinv x \<Longrightarrow> x_event X e x = (out, x') \<Longrightarrow>
      xinv x' \<and> (case out of None \<Rightarrow> True | Some b \<Rightarrow> framed good b)"
    and error_framed: "framed good (x_error X code msg)"
    and terminator_framed: "x_terminator X = Some b \<Longrightarrow> framed good b"
    and comment_good: "good [CHR '':'' # l]"
begin

definition clean :: "'x relay \<Rightarrow> bool" where
  "clean st \<longleftrightarrow> xinv (ext st) \<and> framed good (concat (written st))"

lemma clean_writeRaw:
  assumes "clean st" "case b of None \<Rightarrow> True | Some bytes \<Rightarrow> framed good bytes"
  shows "clean (writeRaw writable b st)"
  using assms framed_append by (auto simp: clean_def writeRaw_def split: option.splits)

lemma clean_resetEventCap: "clean (resetEventCap st) \<longleftrightarrow> clean st"
  by (simp add: clean_def resetEventCap_def)

lemma clean_flushEvent: "clean st \<Longrightarrow> clean (flushEvent X writable st)"
proof (cases "dataLines st = []")
  case True
  assume "clean st"
  then show ?thesis using True by (simp add: flushEvent_def resetEventCap_def clean_def)
next
  case False
  assume c: "clean st"
  let ?e = "(cur_event st)\<lparr>eventData := join_lines (dataLines st)\<rparr>"
  obtain out x where e: "x_event X ?e (ext st) = (out, x)" by fastforce
  have "xinv x \<and> (case out of None \<Rightarrow> True | Some b \<Rightarrow> framed good b)"
    using event_framed [OF _ e] c by (simp add: clean_def)
  then show ?thesis using False c e
    by (auto simp: flushEvent_def Let_def clean_resetEventCap intro!: clean_writeRaw)
      (simp_all add: clean_def)
qed

text \<open>A line as the reader returns it: no line feed but the one at its end.\<close>

lemma clean_processLine:
  assumes "clean st" "LF \<notin> set line \<or> (\<exists>p. line = p @ [LF] \<and> LF \<notin> set p)"
  shows "clean (processLine X writable line st)"
proof -
  let ?t = "TrimRight line [CR, LF]"
  have "LF \<notin> set ?t"
    using assms(2) set_dropWhileD [of LF "\<lambda>c. c = CR \<or> c = LF" "rev (butlast line)"]
      set_dropWhileD [of LF "\<lambda>c. c = CR \<or> c = LF" "rev line"]
    by (auto simp: TrimRight_def trim_right_def)
  then have "framed good (?t @ [LF, LF])" if "?t \<noteq> []" "hd ?t = CHR '':''" "CR \<notin> set ?t"
    using that framed_one [of "[?t]" good] comment_good [of "tl ?t"]
    by (simp add: render_def group_ok_def line_ok_def) (metis list.collapse)
  then have comment: "?t \<noteq> [] \<Longrightarrow> hd ?t = CHR '':'' \<Longrightarrow> CR \<notin> set ?t \<Longrightarrow>
      clean (writeRaw writable (Some (?t @ [LF, LF])) st)"
    using clean_writeRaw [OF assms(1)] by simp
  show ?thesis
    by (cases rule: processLine_cases [of X writable line st])
      (use assms(1) clean_flushEvent [OF assms(1)] comment in \<open>simp_all add: clean_def\<close>)
qed

lemma clean_readLine: "readLine largeMax line st = (b, st') \<Longrightarrow> clean st' \<longleftrightarrow> clean st"
  by (auto simp: readLine_def overCap_def clean_def split: if_splits option.splits prod.splits)

lemma clean_relay_loop:
  assumes "clean st" "\<forall>l\<in>set ls. \<exists>p. l = p @ [LF] \<and> LF \<notin> set p" "LF \<notin> set frag"
    and "relay_loop X writable largeMax ls frag ending st = (r, st')"
  shows "clean st'"
  using assms
proof (induction ls arbitrary: st)
  case Nil
  obtain over st1 where rl: "readLine largeMax frag st = (over, st1)" by fastforce
  have c: "clean st1" using clean_readLine [OF rl] Nil.prems(1) by simp
  have p: "clean (processLine X writable frag st1)" using clean_processLine [OF c] Nil.prems(3) by blast
  have "st' \<in> {st1, processLine X writable frag st1, flushEvent X writable (processLine X writable frag st1)}"
    using Nil.prems(4) rl by (cases over) (auto simp: Let_def split: if_splits)
  then show ?case using c p clean_flushEvent [OF p] by blast
next
  case (Cons l ls)
  obtain over st1 where rl: "readLine largeMax l st = (over, st1)" by fastforce
  have c: "clean st1" using clean_readLine [OF rl] Cons.prems(1) by simp
  have p: "clean (processLine X writable l st1)" using clean_processLine [OF c] Cons.prems(2) by simp
  have "st' \<in> {st1, processLine X writable l st1} \<or>
      relay_loop X writable largeMax ls frag ending (processLine X writable l st1) = (r, st')"
    using Cons.prems(4) rl by (cases over) (auto simp: Let_def split: if_splits)
  then show ?case using c p Cons.IH [OF p _ Cons.prems(3)] Cons.prems(2) by auto
qed

lemma clean_end_stream:
  "clean st \<Longrightarrow> end_stream X writable clientGone deadline readErr st ev = (ev', st') \<Longrightarrow> clean st'"
  using error_framed terminator_framed clean_writeRaw
  by (auto simp: end_stream_def Let_def split: if_splits option.splits)

lemma relay_framed:
  assumes "xinv x" "relayStream X writable largeMax body ending clientGone deadline inputBytes x p ev = (ev', n, st)"
  shows "list_all good (client_events (concat (written st)))"
proof -
  obtain r st1 where l: "relay_loop X writable largeMax (complete_lines body) (last_fragment body) ending (relay_start x p) = (r, st1)"
    by fastforce
  obtain ev1 st2 where e: "end_stream X writable clientGone deadline r st1 ev = (ev1, st2)" by fastforce
  have "clean (relay_start x p)" using assms(1) by (simp add: clean_def relay_start_def)
  then have "clean st1" using clean_relay_loop [OF _ _ last_fragment_shape l] complete_lines_shape by blast
  then have "clean st2" using clean_end_stream e by blast
  moreover have "st = resetEventCap st2" using assms(2) l e by (auto simp: relayStream_def Let_def)
  ultimately have "clean st" using clean_resetEventCap by simp
  then show ?thesis using framed_client by (simp add: clean_def)
qed

end

section \<open>Slots and memory\<close>

text \<open>
  The relay holds at most one slot, on top of those of other requests, and only while the event being
  assembled has the large bound; what it holds of an event is within the bound that applies.
\<close>

definition buffered :: "'x relay \<Rightarrow> int" where
  "buffered st = int (sum_list (map length (dataLines st)))"

definition relay_inv :: "int \<Rightarrow> nat set \<Rightarrow> 'x relay \<Rightarrow> bool" where
  "relay_inv largeMax others st \<longleftrightarrow>
     pool_inv (slots st) \<and>
     (case eventSlot st of
        None \<Rightarrow> leases (slots st) = others \<and> eventCap st = upstreamResponseCapBytes
      | Some i \<Rightarrow> i \<notin> others \<and> leases (slots st) = insert i others \<and> eventCap st = largeMax \<and>
          upstreamResponseCapBytes < largeMax) \<and>
     (dataLines st = [] \<longrightarrow> eventBytes st = 0) \<and>
     buffered st \<le> eventBytes st \<and> eventBytes st \<le> eventCap st + dataLineOverhead"

lemma relay_inv_reset:
  assumes "relay_inv largeMax others st"
  shows "leases (slots (resetEventCap st)) = others \<and> pool_inv (slots (resetEventCap st))"
  using assms large.freed
  by (auto simp: relay_inv_def resetEventCap_def release_leases split: option.splits)

lemma relay_inv_write: "relay_inv largeMax others (writeRaw writable b st) \<longleftrightarrow> relay_inv largeMax others st"
  by (simp add: relay_inv_def writeRaw_def buffered_def split: option.splits)

lemma relay_inv_reset_empty:
  assumes "relay_inv largeMax others st" "dataLines st = []"
  shows "relay_inv largeMax others (resetEventCap st)"
proof -
  have "eventBytes (resetEventCap st) = 0" "dataLines (resetEventCap st) = []" "eventSlot (resetEventCap st) = None"
    "eventCap (resetEventCap st) = upstreamResponseCapBytes"
    using assms by (simp_all add: relay_inv_def resetEventCap_def)
  then show ?thesis
    using relay_inv_reset [OF assms(1)]
    by (simp add: relay_inv_def buffered_def upstreamResponseCapBytes_def dataLineOverhead_def)
qed

lemma relay_inv_flush:
  assumes "relay_inv largeMax others st"
  shows "relay_inv largeMax others (flushEvent X writable st)"
proof (cases "dataLines st = []")
  case True
  have "relay_inv largeMax others (st\<lparr>cur_event := sseEvent_zero\<rparr>)"
    using assms by (simp add: relay_inv_def buffered_def split: option.splits)
  then show ?thesis using True relay_inv_reset_empty [of largeMax others "st\<lparr>cur_event := sseEvent_zero\<rparr>"]
    by (simp add: flushEvent_def)
next
  case False
  obtain out x where e: "x_event X ((cur_event st)\<lparr>eventData := join_lines (dataLines st)\<rparr>) (ext st) = (out, x)"
    by fastforce
  let ?s = "st\<lparr>ext := x, cur_event := sseEvent_zero, dataLines := [], eventBytes := 0\<rparr>"
  have "relay_inv largeMax others ?s"
    using assms by (auto simp: relay_inv_def buffered_def upstreamResponseCapBytes_def dataLineOverhead_def split: option.splits)
  then have "relay_inv largeMax others (writeRaw writable out ?s)" by (simp add: relay_inv_write)
  moreover have "dataLines (writeRaw writable out ?s) = []" by (simp add: writeRaw_def split: option.splits)
  ultimately have "relay_inv largeMax others (resetEventCap (writeRaw writable out ?s))"
    by (rule relay_inv_reset_empty)
  then show ?thesis using False e by (simp add: flushEvent_def Let_def)
qed

lemma length_TrimRight: "length (TrimRight s cs) \<le> length s" "length (TrimSpace s) \<le> length s"
  by (simp_all add: TrimRight_def TrimSpace_def trim_right_def)
    (metis length_dropWhile_le length_rev order_trans)+

lemma relay_inv_process:
  assumes "relay_inv largeMax others st" "int (length line) + eventBytes st \<le> eventCap st"
  shows "relay_inv largeMax others (processLine X writable line st)"
proof (cases rule: processLine_cases [of X writable line st])
  case Data
  let ?t = "TrimRight line [CR, LF]"
  have "length (TrimSpace (drop 5 ?t)) \<le> length ?t" using length_TrimRight(2) [of "drop 5 ?t"] by simp
  moreover have "length ?t \<le> length line" by (rule length_TrimRight)
  ultimately show ?thesis
    using assms Data by (auto simp: relay_inv_def buffered_def dataLineOverhead_def split: option.splits)
next
  case (Field e)
  then show ?thesis using assms(1) by (simp add: relay_inv_def buffered_def split: option.splits)
qed (use assms(1) in \<open>simp_all add: relay_inv_flush relay_inv_write\<close>)

lemma relay_inv_read:
  assumes "relay_inv largeMax others st" "readLine largeMax line st = (over, st')"
  shows "relay_inv largeMax others st' \<and> (\<not> over \<longrightarrow> int (length line) + eventBytes st' \<le> eventCap st')"
proof (cases "int (length line) + eventBytes st \<le> eventCap st \<or> eventCap st \<noteq> upstreamResponseCapBytes \<or>
    \<not> HasPrefix line ''data:'' \<or> largeMax \<le> upstreamResponseCapBytes")
  case True
  then show ?thesis using assms by (auto simp: readLine_def overCap_def split: if_splits)
next
  case False
  obtain r p where a: "acquire (slots st) = (r, p)" by fastforce
  have none: "eventSlot st = None" using assms(1) False by (auto simp: relay_inv_def split: option.splits)
  show ?thesis
  proof (cases r)
    case None
    then have "st' = st\<lparr>slots := p\<rparr>" "p = slots st" over
      using assms False a large.full [of "slots st" p] by (auto simp: readLine_def overCap_def relay_inv_def)
    then show ?thesis using assms(1) by simp
  next
    case (Some i)
    then have st': "st' = st\<lparr>slots := p, eventSlot := Some i, eventCap := largeMax\<rparr>"
      "over \<longleftrightarrow> int (length line) + eventBytes st > largeMax"
      using assms False a by (auto simp: readLine_def overCap_def)
    have "pool_inv p \<and> i \<notin> leases (slots st) \<and> leases p = insert i (leases (slots st))"
      using large.granted [of "slots st" i p] assms(1) a Some by (auto simp: relay_inv_def)
    then show ?thesis using st' assms(1) none False by (auto simp: relay_inv_def buffered_def)
  qed
qed

lemma relay_inv_loop:
  assumes "relay_inv largeMax others st" "relay_loop X writable largeMax ls frag ending st = (r, st')"
  shows "relay_inv largeMax others st'"
  using assms
proof (induction ls arbitrary: st)
  case Nil
  obtain over st1 where rl: "readLine largeMax frag st = (over, st1)" by fastforce
  note i = relay_inv_read [OF Nil.prems(1) rl]
  have "st' = st1 \<or> \<not> over \<and> st' \<in> {processLine X writable frag st1, flushEvent X writable (processLine X writable frag st1)}"
    using Nil.prems(2) rl by (cases over) (auto simp: Let_def split: if_splits)
  then show ?case using i relay_inv_process [of largeMax others st1 frag X writable] relay_inv_flush by blast
next
  case (Cons l ls)
  obtain over st1 where rl: "readLine largeMax l st = (over, st1)" by fastforce
  note i = relay_inv_read [OF Cons.prems(1) rl]
  have "st' = st1 \<or> \<not> over \<and> (st' = processLine X writable l st1 \<or>
      relay_loop X writable largeMax ls frag ending (processLine X writable l st1) = (r, st'))"
    using Cons.prems(2) rl by (cases over) (auto simp: Let_def split: if_splits)
  then show ?case using i relay_inv_process [of largeMax others st1 l X writable] Cons.IH by blast
qed

lemma relay_start_inv: "pool_inv p \<Longrightarrow> relay_inv largeMax (leases p) (relay_start x p)"
  by (simp add: relay_inv_def relay_start_def buffered_def upstreamResponseCapBytes_def dataLineOverhead_def)

lemma end_stream_slots:
  assumes "end_stream X writable clientGone deadline r st ev = (ev', st')"
  shows "relay_inv largeMax others st' \<longleftrightarrow> relay_inv largeMax others st"
proof -
  have "st' = st \<or> (\<exists>b. st' = writeRaw writable b st)"
    using assms by (auto simp: end_stream_def Let_def split: if_splits)
  then show ?thesis using relay_inv_write by metis
qed

lemma relayStream_slots:
  assumes "pool_inv p" "relayStream X writable largeMax body ending clientGone deadline inputBytes x p ev = (ev', charged, st)"
  shows "leases (slots st) = leases p \<and> pool_inv (slots st)"
proof -
  obtain r1 st1 where l1: "relay_loop X writable largeMax (complete_lines body) (last_fragment body) ending (relay_start x p) = (r1, st1)"
    by fastforce
  obtain ev1 st2 where e: "end_stream X writable clientGone deadline r1 st1 ev = (ev1, st2)" by fastforce
  have "relay_inv largeMax (leases p) st2"
    using relay_inv_loop [OF relay_start_inv [OF assms(1)] l1] end_stream_slots [OF e] by blast
  moreover have "st = resetEventCap st2" using assms(2) l1 e by (simp add: relayStream_def Let_def)
  ultimately show ?thesis using relay_inv_reset by blast
qed

text \<open>
  C37. A stream costs one bounded event. Whatever the upstream sends, for however long, at every moment
  the data lines held for the event being assembled add up to no more than the ordinary bound and one
  line's overhead, or to the large bound and that overhead while the relay holds exactly one slot of
  the pool; and when the stream is over, however it ends, the slots of the other requests are what they
  were and none is left behind.
\<close>

theorem stream_memory_bounded:
  assumes "pool_inv p"
  shows "(let st = snd (relay_loop X writable largeMax ls frag ending (relay_start x p)) in
      if eventSlot st = None
      then buffered st \<le> upstreamResponseCapBytes + dataLineOverhead \<and> leases (slots st) = leases p
      else buffered st \<le> largeMax + dataLineOverhead \<and> card (leases (slots st)) = Suc (card (leases p))) \<and>
    leases (slots (snd (snd (relayStream X writable largeMax body ending clientGone deadline inputBytes x p ev)))) = leases p"
proof -
  obtain r st where l: "relay_loop X writable largeMax ls frag ending (relay_start x p) = (r, st)" by fastforce
  have i: "relay_inv largeMax (leases p) st" using relay_inv_loop [OF relay_start_inv [OF assms] l] .
  obtain ev' charged st2 where e: "relayStream X writable largeMax body ending clientGone deadline inputBytes x p ev = (ev', charged, st2)"
    by (metis prod_cases3)
  then have "leases (slots (snd (snd (relayStream X writable largeMax body ending clientGone deadline inputBytes x p ev)))) = leases p"
    using relayStream_slots [OF assms e] by simp
  then show ?thesis using i l by (auto simp: relay_inv_def Let_def split: option.splits)
qed

text \<open>
  C17. A stream recorded as a success was one: the upstream's own end arrived, every event was relayed and
  none dropped, the upstream reported no error, every write reached the client and the client was still
  there. Conversely such a stream is a success unless the read broke before the end was seen.
\<close>

theorem stream_success_means_complete:
  assumes "relayStream X writable largeMax body ending clientGone deadline inputBytes x p ev = (ev', charged, st)"
    and "x_done X (ext st) \<or> EvStatus ev' = StatusOK"
  shows "EvStatus ev' = StatusOK \<longleftrightarrow>
      x_done X (ext st) \<and> \<not> writeFailed st \<and> \<not> clientGone \<and> dropped (x_result X (ext st)) \<le> 0 \<and>
      \<not> srUpstreamError (x_result X (ext st)) \<and>
      fst (relay_loop X writable largeMax (complete_lines body) (last_fragment body) ending (relay_start x p)) = None"
proof -
  obtain r st1 where l: "relay_loop X writable largeMax (complete_lines body) (last_fragment body) ending (relay_start x p) = (r, st1)"
    by fastforce
  obtain ev1 st2 where e: "end_stream X writable clientGone deadline r st1 ev = (ev1, st2)" by fastforce
  have s: "EvStatus ev' = EvStatus ev1" "ext st = ext st2" "writeFailed st = writeFailed st2"
    using assms(1) l e by (auto simp: relayStream_def Let_def settleUsage_def resetEventCap_def split: option.splits prod.splits)
  have x: "ext st2 = ext st1" "EvStatus ev1 = StatusOK \<longrightarrow> st2 = st1" "writeFailed st1 \<longrightarrow> writeFailed st2"
    "x_done X (ext st1) \<and> r = None \<longrightarrow> st2 = st1"
    using e by (auto simp: end_stream_def Let_def writeRaw_def split: if_splits option.splits)
  have "EvStatus ev1 = StatusOK \<longleftrightarrow> x_done X (ext st1) \<and> \<not> writeFailed st1 \<and> \<not> clientGone \<and>
      dropped (x_result X (ext st1)) \<le> 0 \<and> \<not> srUpstreamError (x_result X (ext st1)) \<and> r = None"
    if "x_done X (ext st1) \<or> EvStatus ev1 = StatusOK"
    using e that by (auto simp: end_stream_def Let_def split: if_splits)
  then show ?thesis using assms(2) s x l by auto
qed

end
