(* ===== verification/Bodies.thy ===== *)
theory Bodies
  imports Metering
begin

text \<open>
  Capture of prompts and answers (\<open>internal/bodies/bodies.go\<close>, with \<open>capRequest\<close> of \<open>chat.go\<close>): the
  bounds on one record, the queue with its two bounds, and the loop that ships batches. A sink that is
  off is \<^const>\<open>None\<close>. \<open>Offer\<close> is the hand-over as one request sees it; its three atomic operations and
  those of the loop are the steps of the relation \<open>body_step\<close>, so that requests may interleave.
\<close>

section \<open>Records\<close>

definition ResponseCapBytes :: nat where "ResponseCapBytes = 256 * 1024"
definition RequestCapBytes :: nat where "RequestCapBytes = 64 * 1024"
definition BatchCapBytes :: int where "BatchCapBytes = 4 * 1048576"
definition recordOverheadBytes :: nat where "recordOverheadBytes = 256"

record Record =
  RecEventUUID :: string
  RecKeyID :: string
  RecRequestedAt :: int
  RecRequest :: string
  RecResponse :: string
  RequestTruncated :: bool
  ResponseTruncated :: bool

definition record_size :: "Record \<Rightarrow> int" where
  "record_size r = int (length (RecRequest r) + length (RecResponse r) + recordOverheadBytes)"

definition capString :: "string \<Rightarrow> string \<times> bool" where
  "capString s = capAt s ResponseCapBytes"

definition capRequest :: "string \<Rightarrow> string \<times> bool" where
  "capRequest raw =
     (if length raw \<le> RequestCapBytes then (raw, False)
      else (quote_string (fst (capAt raw RequestCapBytes)), True))"

section \<open>The sink\<close>

definition maxRecord :: int where
  "maxRecord = int (RequestCapBytes + ResponseCapBytes + recordOverheadBytes)"

definition queueBytes :: "int \<Rightarrow> int" where
  "queueBytes depth = (let n = depth * maxRecord div 8 in if n > maxRecord then n else maxRecord)"

record Sink =
  queue :: "Record list"
  queueSize :: nat
  batchSize :: int
  queuedBytes :: int
  maxBytes :: int
  sinkDropped :: int

definition new_Sink :: "nat \<Rightarrow> int \<Rightarrow> Sink" where
  "new_Sink n b = \<lparr>queue = [], queueSize = n, batchSize = b, queuedBytes = 0,
     maxBytes = queueBytes (int n), sinkDropped = 0\<rparr>"

definition Dropped :: "Sink option \<Rightarrow> int" where
  "Dropped s = (case s of None \<Rightarrow> 0 | Some k \<Rightarrow> sinkDropped k)"

definition Enabled :: "Sink option \<Rightarrow> bool" where
  "Enabled s \<longleftrightarrow> s \<noteq> None"

text \<open>The atomic operations of a hand-over: the bound, the send that never blocks, the count.\<close>

definition offer_fits :: "Record \<Rightarrow> Sink \<Rightarrow> bool" where
  "offer_fits r k \<longleftrightarrow> queuedBytes k + record_size r \<le> maxBytes k"

definition offer_drop :: "Sink \<Rightarrow> Sink" where
  "offer_drop k = k\<lparr>sinkDropped := sinkDropped k + 1\<rparr>"

definition offer_room :: "Sink \<Rightarrow> bool" where
  "offer_room k \<longleftrightarrow> length (queue k) < queueSize k"

definition offer_send :: "Record \<Rightarrow> Sink \<Rightarrow> Sink" where
  "offer_send r k = k\<lparr>queue := queue k @ [r]\<rparr>"

definition offer_count :: "Record \<Rightarrow> Sink \<Rightarrow> Sink" where
  "offer_count r k = k\<lparr>queuedBytes := queuedBytes k + record_size r\<rparr>"

definition Offer :: "Record option \<Rightarrow> Sink option \<Rightarrow> Sink option" where
  "Offer r s =
     (case (s, r) of
        (Some k, Some r) \<Rightarrow>
          Some (if \<not> offer_fits r k then offer_drop k
                else if offer_room k then offer_count r (offer_send r k) else offer_drop k)
      | _ \<Rightarrow> s)"

section \<open>The loop\<close>

text \<open>
  What the loop holds: a record taken off the queue and not yet counted down, the batch with its size,
  and what was shipped. \<open>ok\<close> says that the post was accepted, \<open>over\<close> that the loop's context has ended.
\<close>

record shipper =
  taken :: "Record option"
  pending :: "Record list"
  pendingBytes :: int
  shipped :: "Record list"

definition shipper_zero :: shipper where
  "shipper_zero = \<lparr>taken = None, pending = [], pendingBytes = 0, shipped = []\<rparr>"

definition post_accepted :: "nat \<Rightarrow> bool" where
  "post_accepted code \<longleftrightarrow> \<not> (code < 200 \<or> code \<ge> 300)"

definition flush_batch :: "bool \<Rightarrow> bool \<Rightarrow> shipper \<times> Sink \<Rightarrow> shipper \<times> Sink" where
  "flush_batch ok over sk =
     (case sk of (h, k) \<Rightarrow>
        if pending h = [] then (h, k)
        else (h\<lparr>pending := [], pendingBytes := 0, shipped := (if ok then shipped h @ pending h else shipped h)\<rparr>,
              if \<not> ok \<and> \<not> over then k\<lparr>sinkDropped := sinkDropped k + int (length (pending h))\<rparr> else k))"

definition count_down :: "bool \<Rightarrow> bool \<Rightarrow> Record \<Rightarrow> shipper \<times> Sink \<Rightarrow> shipper \<times> Sink" where
  "count_down ok over r sk =
     (case sk of (h, k) \<Rightarrow>
        let k = k\<lparr>queuedBytes := queuedBytes k - record_size r\<rparr>;
            h = h\<lparr>taken := None, pending := pending h @ [r], pendingBytes := pendingBytes h + record_size r\<rparr>
        in if int (length (pending h)) \<ge> batchSize k \<or> pendingBytes h \<ge> BatchCapBytes
           then flush_batch ok over (h, k) else (h, k))"

section \<open>Interleavings\<close>

text \<open>Requests between the bound and the send, and between the send and the count.\<close>

record body_system =
  sink :: Sink
  shipping :: shipper
  checked :: "Record list"
  uncounted :: "Record list"
  offered :: nat

inductive body_step :: "body_system \<Rightarrow> body_system \<Rightarrow> bool" where
  check_pass: "offer_fits r (sink s) \<Longrightarrow>
     body_step s (s\<lparr>checked := r # checked s, offered := Suc (offered s)\<rparr>)"
| check_drop: "\<not> offer_fits r (sink s) \<Longrightarrow>
     body_step s (s\<lparr>sink := offer_drop (sink s), offered := Suc (offered s)\<rparr>)"
| send: "r \<in> set (checked s) \<Longrightarrow> offer_room (sink s) \<Longrightarrow>
     body_step s (s\<lparr>sink := offer_send r (sink s), checked := remove1 r (checked s),
                   uncounted := r # uncounted s\<rparr>)"
| send_drop: "r \<in> set (checked s) \<Longrightarrow> \<not> offer_room (sink s) \<Longrightarrow>
     body_step s (s\<lparr>sink := offer_drop (sink s), checked := remove1 r (checked s)\<rparr>)"
| count: "r \<in> set (uncounted s) \<Longrightarrow>
     body_step s (s\<lparr>sink := offer_count r (sink s), uncounted := remove1 r (uncounted s)\<rparr>)"
| receive: "queue (sink s) = r # q \<Longrightarrow> taken (shipping s) = None \<Longrightarrow>
     body_step s (s\<lparr>sink := (sink s)\<lparr>queue := q\<rparr>, shipping := (shipping s)\<lparr>taken := Some r\<rparr>\<rparr>)"
| account: "taken (shipping s) = Some r \<Longrightarrow> count_down ok False r (shipping s, sink s) = (h, k) \<Longrightarrow>
     body_step s (s\<lparr>shipping := h, sink := k\<rparr>)"
| beat: "taken (shipping s) = None \<Longrightarrow> flush_batch ok False (shipping s, sink s) = (h, k) \<Longrightarrow>
     body_step s (s\<lparr>shipping := h, sink := k\<rparr>)"

definition body_start :: "nat \<Rightarrow> int \<Rightarrow> body_system" where
  "body_start n b = \<lparr>sink = new_Sink n b, shipping = shipper_zero, checked = [], uncounted = [], offered = 0\<rparr>"

section \<open>Bounds and counts\<close>

definition record_bytes :: "Record list \<Rightarrow> int" where
  "record_bytes rs = sum_list (map record_size rs)"

definition in_hand :: "body_system \<Rightarrow> Record list" where
  "in_hand s = (case taken (shipping s) of None \<Rightarrow> [] | Some r \<Rightarrow> [r])"

text \<open>A step after which at most \<open>n\<close> hand-overs are under way, of records of at most \<open>m\<close> bytes.\<close>

definition step_within :: "nat \<Rightarrow> int \<Rightarrow> body_system \<Rightarrow> body_system \<Rightarrow> bool" where
  "step_within n m s s' \<longleftrightarrow> body_step s s' \<and> length (checked s') + length (uncounted s') \<le> n \<and>
     (\<forall>r\<in>set (checked s'). record_size r \<le> m)"

text \<open>Every record offered is somewhere: handed over, queued, in the loop's hands, shipped or counted as dropped.\<close>

definition places :: "body_system \<Rightarrow> int" where
  "places s = int (length (checked s) + length (queue (sink s)) + length (in_hand s) +
     length (pending (shipping s)) + length (shipped (shipping s))) + sinkDropped (sink s)"

definition body_inv :: "nat \<Rightarrow> int \<Rightarrow> nat \<Rightarrow> body_system \<Rightarrow> bool" where
  "body_inv n m depth s \<longleftrightarrow>
     queueSize (sink s) = depth \<and> maxBytes (sink s) = queueBytes (int depth) \<and> length (queue (sink s)) \<le> depth \<and>
     queuedBytes (sink s) = record_bytes (queue (sink s)) + record_bytes (in_hand s) - record_bytes (uncounted s) \<and>
     record_bytes (queue (sink s)) + record_bytes (in_hand s) + record_bytes (checked s)
       \<le> maxBytes (sink s) + int (n - 1) * m \<and>
     (\<forall>r\<in>set (checked s) \<union> set (uncounted s). record_size r \<le> m) \<and>
     length (checked s) + length (uncounted s) \<le> n \<and> int (offered s) = places s"

lemma record_bytes_simps [simp]:
  "record_bytes [] = 0" "record_bytes (r # rs) = record_size r + record_bytes rs"
  "record_bytes (rs @ rs') = record_bytes rs + record_bytes rs'"
  by (simp_all add: record_bytes_def)

lemma record_bytes_remove1: "r \<in> set rs \<Longrightarrow> record_bytes (remove1 r rs) = record_bytes rs - record_size r"
  by (induction rs) auto

lemma length_remove1_mem: "r \<in> set rs \<Longrightarrow> Suc (length (remove1 r rs)) = length rs"
  by (induction rs) auto

lemma record_bytes_le:
  "(\<forall>r\<in>set rs. record_size r \<le> m) \<Longrightarrow> record_bytes rs \<le> int (length rs) * m"
  by (induction rs) (auto simp: distrib_right)

lemma record_size_pos: "0 < record_size r"
  by (simp add: record_size_def recordOverheadBytes_def)

lemmas sink_defs = offer_drop_def offer_send_def offer_count_def offer_room_def offer_fits_def

text \<open>What the loop does with the record in its hands changes the count and where the record is.\<close>

lemma flush_batch_keeps:
  assumes "flush_batch ok False (h, k) = (h', k')"
  shows "queue k' = queue k \<and> queueSize k' = queueSize k \<and> maxBytes k' = maxBytes k \<and> queuedBytes k' = queuedBytes k \<and>
    taken h' = taken h \<and>
    int (length (pending h') + length (shipped h')) + sinkDropped k' =
      int (length (pending h) + length (shipped h)) + sinkDropped k"
  using assms by (auto simp: flush_batch_def split: if_splits)

lemma count_down_keeps:
  assumes "count_down ok False r (h, k) = (h', k')"
  shows "queue k' = queue k \<and> queueSize k' = queueSize k \<and> maxBytes k' = maxBytes k \<and>
    queuedBytes k' = queuedBytes k - record_size r \<and> taken h' = None \<and>
    int (length (pending h') + length (shipped h')) + sinkDropped k' =
      int (length (pending h) + length (shipped h)) + sinkDropped k + 1"
  using assms flush_batch_keeps [of ok _ _ h' k']
  by (force simp: count_down_def Let_def split: if_splits)

lemma body_inv_pass:
  assumes "body_inv n m depth s" "offer_fits r (sink s)" "length (checked s) + length (uncounted s) < n" "record_size r \<le> m"
  shows "body_inv n m depth (s\<lparr>checked := r # checked s, offered := Suc (offered s)\<rparr>)"
proof -
  let ?u = "record_bytes (uncounted s)" and ?c = "record_bytes (checked s)"
  have "?u \<le> int (length (uncounted s)) * m" "?c \<le> int (length (checked s)) * m"
    using assms(1) by (auto simp: body_inv_def intro!: record_bytes_le)
  then have "?u + ?c \<le> int (length (checked s) + length (uncounted s)) * m" by (simp add: distrib_right)
  also have "\<dots> \<le> int (n - 1) * m"
    using assms(3,4) record_size_pos [of r] by (intro mult_right_mono) auto
  finally have "record_bytes (queue (sink s)) + record_bytes (in_hand s) + record_size r + ?c
      \<le> maxBytes (sink s) + int (n - 1) * m"
    using assms(1,2) by (simp add: body_inv_def offer_fits_def)
  then show ?thesis using assms by (auto simp: body_inv_def in_hand_def places_def)
qed

lemma body_inv_step:
  assumes "body_inv n m depth s" "step_within n m s s'"
  shows "body_inv n m depth s'"
proof -
  have w: "length (checked s') + length (uncounted s') \<le> n" "\<forall>r\<in>set (checked s'). record_size r \<le> m"
    and st: "body_step s s'"
    using assms(2) by (auto simp: step_within_def)
  show ?thesis
    using st
  proof cases
    case (check_pass r)
    then show ?thesis using body_inv_pass [OF assms(1) check_pass(2)] w by simp
  next
    case (check_drop r)
    then show ?thesis using assms(1) by (auto simp: body_inv_def in_hand_def places_def sink_defs)
  next
    case (send r)
    then have "length (checked s) = Suc (length (remove1 r (checked s)))" by (simp add: length_remove1_mem)
    with send show ?thesis using assms(1) w set_remove1_subset [of r "checked s"]
      by (auto simp: body_inv_def in_hand_def places_def sink_defs record_bytes_remove1)
  next
    case (send_drop r)
    then have "length (checked s) = Suc (length (remove1 r (checked s)))" by (simp add: length_remove1_mem)
    with send_drop show ?thesis using assms(1) w record_size_pos [of r]
      by (auto simp: body_inv_def in_hand_def places_def sink_defs record_bytes_remove1)
  next
    case (count r)
    then show ?thesis using assms(1) w notin_set_remove1 [of _ "uncounted s" r]
      by (auto simp: body_inv_def in_hand_def places_def sink_defs record_bytes_remove1 length_remove1)
  next
    case (receive r q)
    then show ?thesis using assms(1) by (auto simp: body_inv_def in_hand_def places_def)
  next
    case (account r ok h k)
    then show ?thesis using assms(1) count_down_keeps [OF account(3)] record_size_pos [of r]
      by (auto simp: body_inv_def in_hand_def places_def)
  next
    case (beat ok h k)
    then show ?thesis using assms(1) flush_batch_keeps [OF beat(3)]
      by (auto simp: body_inv_def in_hand_def places_def)
  qed
qed

lemma queueBytes_ge: "maxRecord \<le> queueBytes d" "0 < maxRecord"
  by (simp_all add: queueBytes_def maxRecord_def RequestCapBytes_def ResponseCapBytes_def recordOverheadBytes_def)

lemma body_inv_start: "0 \<le> m \<Longrightarrow> body_inv n m depth (body_start depth b)"
  using queueBytes_ge(1) [of "int depth"] queueBytes_ge(2)
  by (simp add: body_inv_def body_start_def new_Sink_def shipper_zero_def in_hand_def places_def)

text \<open>
  C35. The capture queue is bounded however requests interleave. With at most \<open>n\<close> hand-overs under way at
  once, of records of at most \<open>m\<close> bytes each, the queue never holds more records than its depth nor
  more than its memory bound and one record for every other hand-over under way; when none is, the
  counter is the size of the queue; and every record ever offered is handed over, queued, batched,
  shipped or counted as dropped, once.
\<close>

theorem capture_queue_bounded:
  assumes "(step_within n m)\<^sup>*\<^sup>* (body_start depth b) s" and "0 \<le> m"
  shows "length (queue (sink s)) \<le> depth \<and>
    record_bytes (queue (sink s)) \<le> queueBytes (int depth) + int (n - 1) * m \<and>
    (uncounted s = [] \<and> taken (shipping s) = None \<longrightarrow> queuedBytes (sink s) = record_bytes (queue (sink s))) \<and>
    int (offered s) = places s"
proof -
  have "body_inv n m depth s"
    using assms(1)
  proof (induction rule: rtranclp_induct)
    case base
    then show ?case using assms(2) by (rule body_inv_start)
  next
    case (step y z)
    then show ?case using body_inv_step by blast
  qed
  moreover have "0 \<le> record_bytes rs" for rs
    by (induction rs) (auto simp: record_size_def)
  then have "0 \<le> record_bytes (in_hand s)" "0 \<le> record_bytes (checked s)" by blast+
  ultimately show ?thesis by (auto simp: body_inv_def in_hand_def)
qed

definition small_record :: Record where
  "small_record = \<lparr>RecEventUUID = ''u'', RecKeyID = ''k'', RecRequestedAt = 0, RecRequest = ''hi'', RecResponse = ''ho'',
     RequestTruncated = False, ResponseTruncated = False\<rparr>"

theorem capture_queue_bounded_witness:
  "let s = (body_start 4 1)\<lparr>sink := offer_send small_record (new_Sink 4 1), uncounted := [small_record], offered := 1\<rparr>
   in record_bytes (queue (sink s)) \<le> queueBytes 4 + 0 \<and> int (offered s) = places s"
proof -
  let ?s0 = "body_start 4 1" and ?s1 = "(body_start 4 1)\<lparr>checked := [small_record], offered := 1\<rparr>"
  let ?s2 = "(body_start 4 1)\<lparr>sink := offer_send small_record (new_Sink 4 1), uncounted := [small_record], offered := 1\<rparr>"
  have fits: "offer_fits small_record (new_Sink 4 1)" and room: "offer_room (new_Sink 4 1)"
    and size: "record_size small_record \<le> 1000"
    by (simp_all add: offer_fits_def offer_room_def new_Sink_def record_size_def small_record_def queueBytes_def
        maxRecord_def RequestCapBytes_def ResponseCapBytes_def recordOverheadBytes_def)
  have "body_step ?s0 ?s1"
    using check_pass [of small_record ?s0] fits by (simp add: body_start_def)
  then have first: "step_within 1 1000 ?s0 ?s1" using size by (simp add: step_within_def body_start_def)
  have "body_step ?s1 ?s2"
    using send [of small_record ?s1] room by (simp add: body_start_def)
  then have "step_within 1 1000 ?s1 ?s2" by (simp add: step_within_def body_start_def)
  with first have "(step_within 1 1000)\<^sup>*\<^sup>* ?s0 ?s2" by (meson r_into_rtranclp rtranclp.rtrancl_into_rtrancl)
  from capture_queue_bounded [OF this] show ?thesis by (simp add: Let_def)
qed

section \<open>A prompt that is never captured\<close>

lemma rune_cut_start: "0 < n \<Longrightarrow> RuneStart (s ! n) \<Longrightarrow> rune_cut s n = n"
  by (cases n) simp_all

lemma escape_length: "length s \<le> length (concat (map escape_char s))"
proof (induction s)
  case (Cons c s)
  have "escape_char c \<noteq> []" by (simp add: escape_char_def Let_def)
  then show ?case using Cons by (cases "escape_char c") auto
qed simp

lemma angle_escape: "length (concat (map escape_char (replicate n (CHR ''<'')))) = 6 * n"
  by (induction n) (simp_all add: escape_char_def)

text \<open>
  A long prompt of markup is lost for good on a small queue. Past its bound a prompt is cut and then
  encoded as a JSON string, and the encoding, not the cut, is what the record carries: a quotation mark
  doubles and an angle bracket grows sixfold. Such a record can be larger than the largest record the
  queue's memory bound was made for, so a sink of depth eight or less drops it on arrival even when it
  is empty.
\<close>

theorem markup_prompt_never_captured:
  assumes "lead \<noteq> []" "length lead \<le> 100" "RequestCapBytes \<le> n" "depth \<le> 8"
    and "capRequest (lead @ replicate n (CHR ''<'') @ closing) = (req, cut_short)"
  shows "cut_short \<and> length req > RequestCapBytes \<and>
    Offer (Some (r\<lparr>RecRequest := req, RequestTruncated := cut_short\<rparr>)) (Some (new_Sink depth b)) =
      Some (offer_drop (new_Sink depth b))"
proof -
  let ?raw = "lead @ replicate n (CHR ''<'') @ closing" and ?k = "RequestCapBytes - length lead"
  have cap: "RequestCapBytes = 65536" by (simp add: RequestCapBytes_def)
  have len: "length ?raw > RequestCapBytes" using assms(1,3) by (cases lead) auto
  have "?raw ! RequestCapBytes = CHR ''<''"
  proof -
    have "length lead > 0" using assms(1) by simp
    then have "\<not> RequestCapBytes < length lead" "RequestCapBytes - length lead < n" using assms(2,3) cap by linarith+
    then show ?thesis by (simp add: nth_append)
  qed
  then have "RuneStart (?raw ! RequestCapBytes)" by (simp add: RuneStart_def)
  then have "rune_cut ?raw RequestCapBytes = RequestCapBytes" using cap by (intro rune_cut_start) auto
  then have "fst (capAt ?raw RequestCapBytes) = take RequestCapBytes ?raw" using len by (simp add: capAt_def)
  also have "\<dots> = lead @ replicate ?k (CHR ''<'')"
    using assms(2,3) cap by (simp add: min_def)
  finally have "req = quote_string (lead @ replicate ?k (CHR ''<''))" and c: cut_short
    using assms(5) len by (auto simp: capRequest_def)
  then have "length req \<ge> 6 * ?k"
    using angle_escape [of ?k] by (simp add: quote_string_def)
  then have big: "length req \<ge> 392616" using assms(2) cap by simp
  have "int depth * maxRecord div 8 \<le> maxRecord"
    using assms(4) by (simp add: maxRecord_def RequestCapBytes_def ResponseCapBytes_def recordOverheadBytes_def)
  then have "maxBytes (new_Sink depth b) = maxRecord" by (simp add: new_Sink_def queueBytes_def Let_def)
  then have "\<not> offer_fits (r\<lparr>RecRequest := req, RequestTruncated := cut_short\<rparr>) (new_Sink depth b)"
    using big by (simp add: offer_fits_def new_Sink_def record_size_def maxRecord_def RequestCapBytes_def
        ResponseCapBytes_def recordOverheadBytes_def)
  then show ?thesis using c big cap by (simp add: Offer_def)
qed

theorem markup_prompt_never_captured_witness:
  "Offer (Some (small_record\<lparr>RecRequest := fst (capRequest (''[>'' @ replicate 65536 (CHR ''<'') @ '']'')),
        RequestTruncated := True\<rparr>)) (Some (new_Sink 8 1)) = Some (offer_drop (new_Sink 8 1))"
proof -
  let ?raw = "''[>'' @ replicate 65536 (CHR ''<'') @ '']''"
  obtain req c where r: "capRequest ?raw = (req, c)" by fastforce
  have "RequestCapBytes \<le> 65536" by (simp add: RequestCapBytes_def)
  from markup_prompt_never_captured [OF _ _ this _ r, of 8 small_record 1] show ?thesis using r by auto
qed

end
