(* ===== verification/Stream_Surfaces.thy ===== *)
theory Stream_Surfaces
  imports Stream_Relay Bodies
begin

text \<open>
  How each surface reads its upstream's stream: chat and legacy completions (\<open>chat.go\<close>), the named events
  of the Messages surface (\<open>sse_named.go\<close>, \<open>messages.go\<close>) and Responses (\<open>responses.go\<close>). \<open>decode\<close> is the
  value a JSON decoder finds first in an event's data, \<^const>\<open>None\<close> when it reports an error; a number
  outside the grammar of JSON is such an error. The model a surface saw served is kept in its state and
  noted on the usage event when the stream is over.
\<close>

section \<open>Payloads\<close>

text \<open>Decoding into a map: an error, the nil map after null, or a map.\<close>

definition decode_map :: "(string \<Rightarrow> json option) \<Rightarrow> string \<Rightarrow> params option option" where
  "decode_map decode payload =
     (case decode payload of None \<Rightarrow> None
      | Some j \<Rightarrow>
          if \<not> wf_json j then None
          else (case to_any j of JObj m \<Rightarrow> Some (Some m) | JNull \<Rightarrow> Some None | _ \<Rightarrow> None))"

definition members :: "params option \<Rightarrow> params" where
  "members m = (case m of None \<Rightarrow> [] | Some kvs \<Rightarrow> kvs)"

definition marshal_map :: "params option \<Rightarrow> string" where
  "marshal_map m = (case m of None \<Rightarrow> ''null'' | Some kvs \<Rightarrow> marshal (JObj kvs))"

definition data_frame :: "string \<Rightarrow> string" where
  "data_frame payload = ''data: '' @ payload @ [LF, LF]"

definition done_frame :: string where "done_frame = data_frame ''[DONE]''"

record streamArgs =
  publicName :: string
  sentModel :: string
  forwardUsage :: bool
  capturing :: bool

section \<open>Chat and legacy completions\<close>

record chunk =
  chunkOut :: string
  parsed :: "params option"
  chunkServed :: string
  chunkUsage :: "usage option"
  chunkContent :: string
  chunkChars :: int
  choicesEmpty :: bool
  chunkError :: bool

definition stripUsage :: "chunk \<Rightarrow> string" where
  "stripUsage c = marshal_map (map_option (AList.delete ''usage'') (parsed c))"

definition rewriteChunk :: "(string \<Rightarrow> json option) \<Rightarrow> string \<Rightarrow> string \<Rightarrow> bool \<Rightarrow> chunk option" where
  "rewriteChunk decode payload public legacyText =
     (case decode_map decode payload of None \<Rightarrow> None
      | Some mm \<Rightarrow>
          let m = members mm; mm' = map_option (rename_model public) mm;
              choices = as_list (map_of m ''choices'');
              first = (if choices = [] then None else as_map (Some (hd choices)));
              delta = Option.bind first (\<lambda>f. as_map (map_of f ''delta''));
              content = (case first of None \<Rightarrow> []
                | Some f \<Rightarrow> if legacyText then as_string (map_of f ''text'')
                    else (case delta of None \<Rightarrow> [] | Some d \<Rightarrow> as_string (map_of d ''content'')));
              reasoning = (case delta of None \<Rightarrow> 0
                | Some d \<Rightarrow> if legacyText then 0 else int (length (reasoningText d)))
          in Some \<lparr>chunkOut = marshal_map mm', parsed = mm', chunkServed = as_string (map_of m ''model''),
               chunkUsage = Option.bind (present m ''usage'') dec_usage, chunkContent = content,
               chunkChars = int (length content) + reasoning, choicesEmpty = (choices = []),
               chunkError = chatPayloadError m\<rparr>)"

record chatStream =
  csRes :: streamResult
  csAnswer :: string
  csServed :: "string option"
  sawDone :: bool

definition chatStream_zero :: chatStream where
  "chatStream_zero = \<lparr>csRes = streamResult_zero, csAnswer = [], csServed = None, sawDone = False\<rparr>"

definition chat_drop :: "chatStream \<Rightarrow> chatStream" where
  "chat_drop c = c\<lparr>csRes := (csRes c)\<lparr>dropped := dropped (csRes c) + 1\<rparr>\<rparr>"

text \<open>What a parsed chunk does to the meters, before the usage chunk is judged.\<close>

definition chat_meter :: "chunk \<Rightarrow> chatStream \<Rightarrow> chatStream" where
  "chat_meter ck c =
     (let res = csRes c;
          res = res\<lparr>srUpstreamError := srUpstreamError res \<or> chunkError ck\<rparr>;
          res = (case chunkUsage ck of None \<Rightarrow> res | Some u \<Rightarrow> res\<lparr>srUsage := u, haveUsage := True\<rparr>)
      in c\<lparr>csRes := res,
           csServed := (if csServed c = None \<and> chunkServed ck \<noteq> [] then Some (chunkServed ck) else csServed c)\<rparr>)"

definition chat_event ::
  "(string \<Rightarrow> json option) \<Rightarrow> streamArgs \<Rightarrow> bool \<Rightarrow> sseEvent \<Rightarrow> chatStream \<Rightarrow> string option \<times> chatStream" where
  "chat_event decode a legacyText e c =
     (let payload = eventData e in
      if payload = ''[DONE]'' then (Some done_frame, c\<lparr>sawDone := True\<rparr>)
      else case rewriteChunk decode payload (publicName a) legacyText of
        None \<Rightarrow>
          if payload = [] \<or> hd payload \<noteq> CHR 0x7B
          then (if CR \<in> set payload then (None, chat_drop c) else (Some (data_frame payload), c))
          else (None, chat_drop c)
      | Some ck \<Rightarrow>
          let c = chat_meter ck c in
          if chunkUsage ck \<noteq> None \<and> \<not> forwardUsage a \<and> choicesEmpty ck \<and> \<not> chunkError ck then (None, c)
          else
            let out = (if chunkUsage ck \<noteq> None \<and> \<not> forwardUsage a then stripUsage ck else chunkOut ck);
                c = c\<lparr>csRes := (csRes c)\<lparr>contentChars := contentChars (csRes c) + chunkChars ck\<rparr>,
                      csAnswer := (if capturing a \<and> chunkContent ck \<noteq> [] \<and> length (csAnswer c) < ResponseCapBytes
                                   then csAnswer c @ chunkContent ck else csAnswer c)\<rparr>
            in (Some (data_frame out), c))"

definition chat_error :: "string \<Rightarrow> string \<Rightarrow> string" where
  "chat_error code msg =
     data_frame (CHR 0x7B # quote_string ''error'' @ '':'' @ [CHR 0x7B] @
       quote_string ''message'' @ '':'' @ quote_string msg @ '','' @
       quote_string ''type'' @ '':'' @ quote_string ''server_error'' @ '','' @
       quote_string ''code'' @ '':'' @ quote_string code @ [CHR 0x7D, CHR 0x7D]) @ done_frame"

definition chat_extractor :: "(string \<Rightarrow> json option) \<Rightarrow> streamArgs \<Rightarrow> bool \<Rightarrow> chatStream extractor" where
  "chat_extractor decode a legacyText =
     \<lparr>x_event = chat_event decode a legacyText, x_done = sawDone,
      x_result = (\<lambda>c. (csRes c)\<lparr>srAnswer := csAnswer c\<rparr>), x_error = chat_error,
      x_terminator = Some done_frame\<rparr>"

section \<open>Named events and the Messages stream\<close>

fun split_lf :: "string \<Rightarrow> string \<Rightarrow> string list" where
  "split_lf acc [] = [acc]"
| "split_lf acc (c # s) = (if c = LF then acc # split_lf [] s else split_lf (acc @ [c]) s)"

definition sseFrame :: "string \<Rightarrow> string \<Rightarrow> string" where
  "sseFrame name payload =
     (if name \<noteq> [] then ''event: '' @ name @ [LF] else []) @
     concat (map (\<lambda>line. ''data: '' @ line @ [LF]) (split_lf [] payload)) @ [LF]"

record messagesStream =
  msRes :: streamResult
  msEnded :: bool
  msInput :: int
  msCacheRead :: int
  msCacheCreation :: int
  sawStart :: bool
  sawDelta :: bool
  msServed :: "string option"

definition messagesStream_zero :: messagesStream where
  "messagesStream_zero = \<lparr>msRes = streamResult_zero, msEnded = False, msInput = 0, msCacheRead = 0,
     msCacheCreation = 0, sawStart = False, sawDelta = False, msServed = None\<rparr>"

definition messages_settle :: "messagesStream \<Rightarrow> messagesStream" where
  "messages_settle m =
     (let prompt = wrap64 (wrap64 (msInput m + msCacheRead m) + msCacheCreation m);
          u = (srUsage (msRes m))\<lparr>PromptTokens := prompt, CachedTokens := msCacheRead m,
                TotalTokens := wrap64 (prompt + CompletionTokens (srUsage (msRes m)))\<rparr>
      in m\<lparr>msRes := (msRes m)\<lparr>srUsage := u, haveUsage := sawStart m \<and> sawDelta m\<rparr>\<rparr>)"

definition on_start ::
  "streamArgs \<Rightarrow> params \<Rightarrow> messagesStream \<Rightarrow> string option \<times> messagesStream" where
  "on_start a payload m =
     (case as_map (map_of payload ''message'') of None \<Rightarrow> (None, m)
      | Some msg \<Rightarrow>
          let served = as_string (map_of msg ''model'');
              m = (if map_of msg ''model'' \<noteq> None \<and> msServed m = None \<and> served \<noteq> []
                   then m\<lparr>msServed := Some served\<rparr> else m);
              msg' = rename_model (publicName a) msg;
              m = (case decodeMessagesUsage (map_of msg' ''usage'') of None \<Rightarrow> m
                | Some mu \<Rightarrow>
                    (case muInputTokens mu of None \<Rightarrow> m
                     | Some input \<Rightarrow> m\<lparr>sawStart := True, msInput := nonNegative input,
                         msCacheRead := nonNegative (intOf (CacheReadInputTokens mu)),
                         msCacheCreation := nonNegative (intOf (CacheCreationInputTokens mu))\<rparr>))
          in (Some (marshal (JObj (AList.update ''message'' (JObj msg') payload))), messages_settle m))"

definition on_delta :: "params \<Rightarrow> messagesStream \<Rightarrow> messagesStream" where
  "on_delta payload m =
     (case decodeMessagesUsage (map_of payload ''usage'') of None \<Rightarrow> m
      | Some mu \<Rightarrow>
          (case muOutputTokens mu of None \<Rightarrow> m
           | Some output \<Rightarrow>
               let m = m\<lparr>sawDelta := True\<rparr>;
                   m = (case muInputTokens mu of None \<Rightarrow> m
                     | Some n \<Rightarrow> m\<lparr>sawStart := True, msInput := nonNegative n\<rparr>);
                   m = (case CacheReadInputTokens mu of None \<Rightarrow> m | Some n \<Rightarrow> m\<lparr>msCacheRead := nonNegative n\<rparr>);
                   m = (case CacheCreationInputTokens mu of None \<Rightarrow> m
                     | Some n \<Rightarrow> m\<lparr>msCacheCreation := nonNegative n\<rparr>);
                   u = (srUsage (msRes m))\<lparr>CompletionTokens := nonNegative output,
                         usageReasoningTokens := thinkingTokens mu\<rparr>;
                   u = (if cost_of (muCost mu) \<noteq> [] then u\<lparr>Cost := cost_of (muCost mu)\<rparr> else u)
               in messages_settle (m\<lparr>msRes := (msRes m)\<lparr>srUsage := u\<rparr>\<rparr>)))"

definition on_content :: "params \<Rightarrow> messagesStream \<Rightarrow> messagesStream" where
  "on_content payload m =
     (case as_map (map_of payload ''delta'') of None \<Rightarrow> m
      | Some delta \<Rightarrow>
          if is_string delta ''type'' ''text_delta''
          then m\<lparr>msRes := (msRes m)\<lparr>contentChars := contentChars (msRes m) +
                 int (length (as_string (map_of delta ''text'')))\<rparr>\<rparr> else m)"

definition messages_read ::
  "(string \<Rightarrow> json option) \<Rightarrow> streamArgs \<Rightarrow> sseEvent \<Rightarrow> messagesStream \<Rightarrow> string option \<times> messagesStream" where
  "messages_read decode a e m =
     (case decode_map decode (eventData e) of None \<Rightarrow> (None, m)
      | Some mm \<Rightarrow>
          if eventName e = ''message_start'' then on_start a (members mm) m
          else if eventName e = ''message_delta'' then (Some (eventData e), on_delta (members mm) m)
          else if eventName e = ''content_block_delta'' then (Some (eventData e), on_content (members mm) m)
          else (Some (eventData e), m))"

definition messages_drop :: "messagesStream \<Rightarrow> messagesStream" where
  "messages_drop m = m\<lparr>msRes := (msRes m)\<lparr>dropped := dropped (msRes m) + 1\<rparr>\<rparr>"

definition named_event ::
  "(string \<Rightarrow> json option) \<Rightarrow> streamArgs \<Rightarrow> sseEvent \<Rightarrow> messagesStream \<Rightarrow> string option \<times> messagesStream" where
  "named_event decode a e m =
     (if badField e then (None, messages_drop m)
      else case messages_read decode a e m of
        (None, m) \<Rightarrow> (None, messages_drop m)
      | (Some payload, m) \<Rightarrow>
          let m = (if eventName e = ''error'' then m\<lparr>msRes := (msRes m)\<lparr>srUpstreamError := True\<rparr>\<rparr> else m);
              m = (if eventName e = ''message_stop'' then m\<lparr>msEnded := True\<rparr> else m)
          in (Some (sseFrame (eventName e) payload), m))"

definition anthropicStreamErrorType :: "string \<Rightarrow> string" where
  "anthropicStreamErrorType code =
     (if code = ''request_deadline_exceeded'' then ''timeout_error'' else ''api_error'')"

definition anthropicErrorBody :: "string \<Rightarrow> string \<Rightarrow> string \<Rightarrow> string \<Rightarrow> string" where
  "anthropicErrorBody kind code msg requestID =
     marshal (JObj [(''type'', JStr ''error''),
       (''error'', JObj [(''type'', JStr kind), (''message'', JStr msg), (''code'', JStr code)]),
       (''request_id'', JStr requestID)])"

definition messages_extractor ::
  "(string \<Rightarrow> json option) \<Rightarrow> streamArgs \<Rightarrow> string \<Rightarrow> messagesStream extractor" where
  "messages_extractor decode a requestID =
     \<lparr>x_event = named_event decode a, x_done = (\<lambda>m. msEnded m \<or> srUpstreamError (msRes m)), x_result = msRes,
      x_error = (\<lambda>code msg. sseFrame ''error'' (anthropicErrorBody (anthropicStreamErrorType code) code msg requestID)),
      x_terminator = None\<rparr>"

section \<open>Responses\<close>

definition responsesEnds :: "string list" where
  "responsesEnds = [''response.completed'', ''response.incomplete'', ''response.failed'']"

record responsesStream =
  rsRes :: streamResult
  rsEnded :: bool
  rsServed :: "string option"

definition responsesStream_zero :: responsesStream where
  "responsesStream_zero = \<lparr>rsRes = streamResult_zero, rsEnded = False, rsServed = None\<rparr>"

definition note_first :: "params \<Rightarrow> responsesStream \<Rightarrow> responsesStream" where
  "note_first place x =
     (let served = as_string (map_of place ''model'') in
      if rsServed x = None \<and> served \<noteq> [] then x\<lparr>rsServed := Some served\<rparr> else x)"

text \<open>The model is renamed at the top of the payload and in its response object.\<close>

definition rename_places :: "string \<Rightarrow> params \<Rightarrow> params" where
  "rename_places public payload =
     (case as_map (map_of payload ''response'') of None \<Rightarrow> rename_model public payload
      | Some resp \<Rightarrow>
          rename_model public (AList.update ''response'' (JObj (rename_model public resp)) payload))"

definition response_ends :: "params \<Rightarrow> responsesStream \<Rightarrow> responsesStream" where
  "response_ends payload x =
     (case as_map (map_of payload ''response'') of None \<Rightarrow> x
      | Some resp \<Rightarrow>
          let kind = as_string (map_of payload ''type'') in
          if kind \<notin> set responsesEnds then x
          else
            let res = rsRes x;
                res = (case decodeResponsesUsage (map_of resp ''usage'') of None \<Rightarrow> res
                       | Some u \<Rightarrow> res\<lparr>srUsage := u, haveUsage := True\<rparr>);
                res = (if kind = ''response.failed'' \<or> responseFailed resp then res\<lparr>srUpstreamError := True\<rparr> else res)
            in x\<lparr>rsRes := res\<rparr>)"

definition responses_event ::
  "(string \<Rightarrow> json option) \<Rightarrow> streamArgs \<Rightarrow> sseEvent \<Rightarrow> responsesStream \<Rightarrow> string option \<times> responsesStream" where
  "responses_event decode a e x =
     (if eventData e = ''[DONE]'' then (None, x)
      else case decode_map decode (eventData e) of
        None \<Rightarrow> (None, x\<lparr>rsRes := (rsRes x)\<lparr>dropped := dropped (rsRes x) + 1\<rparr>\<rparr>)
      | Some mm \<Rightarrow>
          let payload = members mm; kind = as_string (map_of payload ''type'');
              x = note_first (members (as_map (map_of payload ''response''))) (note_first payload x);
              out = marshal_map (map_option (rename_places (publicName a)) mm);
              x = response_ends (rename_places (publicName a) payload) x;
              vendorError = (kind = ''error'' \<or> kind = [] \<and> not_nil payload ''error'');
              res = rsRes x;
              res = (if vendorError then res\<lparr>srUpstreamError := True\<rparr>
                     else if kind = ''response.output_text.delta''
                     then res\<lparr>contentChars := contentChars res + int (length (as_string (map_of payload ''delta'')))\<rparr>
                     else res)
          in if kind \<in> set responsesEnds \<or> vendorError
             then (Some (data_frame out @ done_frame), x\<lparr>rsRes := res, rsEnded := True\<rparr>)
             else (Some (data_frame out), x\<lparr>rsRes := res\<rparr>))"

definition responses_error :: "string \<Rightarrow> string \<Rightarrow> string" where
  "responses_error code msg =
     data_frame (marshal (JObj [(''type'', JStr ''error''), (''code'', JStr code), (''message'', JStr msg),
       (''param'', JNull)])) @ done_frame"

definition responses_extractor :: "(string \<Rightarrow> json option) \<Rightarrow> streamArgs \<Rightarrow> responsesStream extractor" where
  "responses_extractor decode a =
     \<lparr>x_event = responses_event decode a, x_done = rsEnded, x_result = rsRes, x_error = responses_error,
      x_terminator = Some done_frame\<rparr>"

section \<open>Frames a client reads as one event\<close>

lemma data_frame_render: "data_frame s = render [''data: '' @ s]"
  by (simp add: data_frame_def render_def)

lemma group_ok_data: "LF \<notin> set s \<Longrightarrow> CR \<notin> set s \<Longrightarrow> group_ok [''data: '' @ s]"
  by (simp add: group_ok_def line_ok_def)

lemma framed_data:
  "LF \<notin> set s \<Longrightarrow> CR \<notin> set s \<Longrightarrow> good [''data: '' @ s] \<Longrightarrow> framed good (data_frame s)"
  unfolding data_frame_render by (intro framed_one group_ok_data)

lemma decode_map_wf: "decode_map decode s = Some mm \<Longrightarrow> list_all (\<lambda>kv. wf_json (snd kv)) (members mm)"
proof -
  assume "decode_map decode s = Some mm"
  then obtain j where "wf_json j" "to_any j = JObj (members mm) \<or> mm = None"
    by (auto simp: decode_map_def members_def split: option.splits if_splits json.splits)
  then show ?thesis using wf_to_any [of j] by (auto simp: members_def)
qed

lemma wf_update: "list_all (\<lambda>kv. wf_json (snd kv)) m \<Longrightarrow> wf_json v \<Longrightarrow> list_all (\<lambda>kv. wf_json (snd kv)) (AList.update k v m)"
  by (induction m) auto

lemma wf_rename: "list_all (\<lambda>kv. wf_json (snd kv)) m \<Longrightarrow> list_all (\<lambda>kv. wf_json (snd kv)) (rename_model p m)"
  by (simp add: rename_model_def wf_update)

lemma wf_delete: "list_all (\<lambda>kv. wf_json (snd kv)) m \<Longrightarrow> list_all (\<lambda>kv. wf_json (snd kv)) (AList.delete k m)"
  by (induction m) auto

lemma wf_member: "list_all (\<lambda>kv. wf_json (snd kv)) m \<Longrightarrow> map_of m k = Some v \<Longrightarrow> wf_json v"
  by (auto simp: list_all_iff dest!: map_of_SomeD)

lemma wf_rename_places:
  assumes "list_all (\<lambda>kv. wf_json (snd kv)) m"
  shows "list_all (\<lambda>kv. wf_json (snd kv)) (rename_places p m)"
proof (cases "as_map (map_of m ''response'')")
  case None
  then show ?thesis using assms by (simp add: rename_places_def wf_rename)
next
  case (Some resp)
  then have "map_of m ''response'' = Some (JObj resp)" by (auto simp: as_map_def split: option.splits json.splits)
  then have "wf_json (JObj resp)" using wf_member [OF assms] by blast
  then have "wf_json (JObj (rename_model p resp))" by (simp add: wf_rename)
  then show ?thesis using Some assms by (simp add: rename_places_def wf_rename wf_update)
qed

lemma printable_marshal_map:
  "list_all (\<lambda>kv. wf_json (snd kv)) (members mm) \<Longrightarrow> printable (marshal_map mm)"
  using marshal_printable [of "JObj (members mm)"] by (auto simp: marshal_map_def members_def split: option.splits)

section \<open>What a client may be told\<close>

text \<open>The names of models a payload carries where a client looks for them are the public one.\<close>

definition names_public :: "string \<Rightarrow> params \<Rightarrow> bool" where
  "names_public public m \<longleftrightarrow>
     map_of m ''model'' \<in> {None, Some (JStr public)} \<and>
     (case as_map (map_of m ''response'') of None \<Rightarrow> True
      | Some resp \<Rightarrow> map_of resp ''model'' \<in> {None, Some (JStr public)})"

definition public_event :: "string \<Rightarrow> string list \<Rightarrow> bool" where
  "public_event public g \<longleftrightarrow>
     (\<exists>l. g = [CHR '':'' # l]) \<or> g = [''data: [DONE]''] \<or> g = [''data: null''] \<or>
     (\<exists>m. g = [''data: '' @ marshal (JObj m)] \<and> names_public public m)"

lemma names_public_rename: "names_public public (rename_places public m)"
proof (cases "as_map (map_of m ''response'')")
  case None
  then show ?thesis by (auto simp: names_public_def rename_places_def rename_model_map)
next
  case (Some resp)
  then show ?thesis
    by (auto simp: names_public_def rename_places_def rename_model_map go_maps as_map_def)
qed

lemma framed_done: "framed (public_event public) done_frame"
  unfolding done_frame_def by (rule framed_data) (simp_all add: public_event_def)

lemma framed_object:
  assumes "wf_json (JObj m)" "names_public public m"
  shows "framed (public_event public) (data_frame (marshal (JObj m)))"
proof (rule framed_data)
  show "LF \<notin> set (marshal (JObj m))" "CR \<notin> set (marshal (JObj m))"
    using printable_break [OF marshal_printable [OF assms(1)]] by blast+
  show "public_event public [''data: '' @ marshal (JObj m)]"
    unfolding public_event_def using assms(2) by blast
qed

lemma framed_payload:
  assumes "decode_map decode s = Some mm"
  shows "framed (public_event public) (data_frame (marshal_map (map_option (rename_places public) mm)))"
proof (cases mm)
  case None
  then show ?thesis by (auto simp: marshal_map_def public_event_def intro!: framed_data)
next
  case (Some m)
  then have "wf_json (JObj (rename_places public m))"
    using wf_rename_places [of m public] decode_map_wf [OF assms] by (simp add: members_def)
  from framed_object [OF this names_public_rename] show ?thesis using Some by (simp only: marshal_map_def option.map option.case)
qed

interpretation responses: framed_extractor "responses_extractor decode a" "\<lambda>_. True" "public_event (publicName a)"
  for decode a
proof
  fix x x' e out
  assume "x_event (responses_extractor decode a) e x = (out, x')"
  then have ev: "responses_event decode a e x = (out, x')" by (simp add: responses_extractor_def)
  show "True \<and> (case out of None \<Rightarrow> True | Some b \<Rightarrow> framed (public_event (publicName a)) b)"
  proof (cases "decode_map decode (eventData e)")
    case None
    then show ?thesis using ev by (auto simp: responses_event_def split: if_splits)
  next
    case (Some mm)
    let ?f = "data_frame (marshal_map (map_option (rename_places (publicName a)) mm))"
    have "out \<in> {None, Some ?f, Some (?f @ done_frame)}"
      using ev Some by (auto simp: responses_event_def Let_def split: if_splits)
    then show ?thesis
      using framed_payload [OF Some] framed_done framed_append by (auto split: option.splits)
  qed
next
  fix code msg
  let ?m = "[(''type'', JStr ''error''), (''code'', JStr code), (''message'', JStr msg), (''param'', JNull)]"
  have "framed (public_event (publicName a)) (data_frame (marshal (JObj ?m)))"
    by (rule framed_object) (simp_all add: names_public_def as_map_def)
  then show "framed (public_event (publicName a)) (x_error (responses_extractor decode a) code msg)"
    unfolding responses_extractor_def responses_error_def
    by (simp only: extractor.select_convs) (intro framed_append framed_done)
next
  show "x_terminator (responses_extractor decode a) = Some b \<Longrightarrow> framed (public_event (publicName a)) b" for b
    by (simp add: responses_extractor_def framed_done)
  show "public_event (publicName a) [CHR '':'' # l]" for l
    by (simp add: public_event_def)
qed

text \<open>
  C38. Nothing the relay did not read reaches a Responses client. Whatever bytes the upstream sends and
  however the stream ends, every event a client makes out of what was written (ending lines at line
  feeds and at carriage returns) is a keepalive comment, the end marker, or one JSON object of the
  relay's own encoding, in which the model is named by its public name alone, at the top and in the
  response object.
\<close>

theorem responses_client_events:
  "list_all (public_event (publicName a)) (client_events (concat (written (snd (snd
     (relayStream (responses_extractor decode a) writable largeMax body ending clientGone deadline inputBytes x p ev))))))"
proof -
  obtain ev' n st where r: "relayStream (responses_extractor decode a) writable largeMax body ending clientGone deadline
      inputBytes x p ev = (ev', n, st)" by (metis prod_cases3)
  show ?thesis using responses.relay_framed [OF TrueI r] r by simp
qed

section \<open>Chat streams\<close>

text \<open>
  On chat an event may also be a heartbeat, relayed as it came: a payload that does not open an object.
\<close>

definition chat_good :: "string \<Rightarrow> string list \<Rightarrow> bool" where
  "chat_good public g \<longleftrightarrow>
     (\<exists>s. g = [''data: '' @ s] \<and>
        ((s = [] \<or> hd s \<noteq> CHR 0x7B) \<or>
         (\<exists>m. s = marshal (JObj m) \<and> map_of m ''model'' \<in> {None, Some (JStr public)})))"

lemma chat_framed_object:
  assumes "wf_json (JObj m)" "map_of m ''model'' \<in> {None, Some (JStr public)}"
  shows "framed (chat_good public) (data_frame (marshal (JObj m)))"
proof (rule framed_data)
  show "LF \<notin> set (marshal (JObj m))" "CR \<notin> set (marshal (JObj m))"
    using printable_break [OF marshal_printable [OF assms(1)]] by blast+
  show "chat_good public [''data: '' @ marshal (JObj m)]" unfolding chat_good_def using assms(2) by blast
qed

lemma chat_framed_map:
  assumes "\<And>m. mm = Some m \<Longrightarrow> wf_json (JObj m) \<and> map_of m ''model'' \<in> {None, Some (JStr public)}"
  shows "framed (chat_good public) (data_frame (marshal_map mm))"
proof (cases mm)
  case None
  then show ?thesis by (auto simp: marshal_map_def chat_good_def intro!: framed_data)
next
  case (Some m)
  then show ?thesis using chat_framed_object [of m public] assms by (simp only: marshal_map_def option.case)
qed

lemma rewriteChunk_frames:
  assumes "rewriteChunk decode payload public legacyText = Some ck"
  shows "framed (chat_good public) (data_frame (chunkOut ck))" "framed (chat_good public) (data_frame (stripUsage ck))"
proof -
  obtain mm where d: "decode_map decode payload = Some mm" and
    ck: "chunkOut ck = marshal_map (map_option (rename_model public) mm)" "parsed ck = map_option (rename_model public) mm"
    using assms by (auto simp: rewriteChunk_def Let_def split: option.splits)
  have wf: "list_all (\<lambda>kv. wf_json (snd kv)) m" if "mm = Some m" for m
    using decode_map_wf [OF d] that by (simp add: members_def)
  show "framed (chat_good public) (data_frame (chunkOut ck))"
    unfolding ck(1) by (rule chat_framed_map) (auto simp: wf wf_rename rename_model_map split: if_splits)
  show "framed (chat_good public) (data_frame (stripUsage ck))"
    unfolding stripUsage_def ck(2)
    by (rule chat_framed_map) (auto simp: wf wf_rename wf_delete rename_model_map go_maps split: if_splits)
qed

text \<open>
  A chat client reads one event per event. As long as an upstream event has its data on one line, or
  data that decodes to an object, what is written for it is read by the client as one event: the end
  marker, a heartbeat that opens no object, or one object of the relay's encoding that names no model
  but the public one.
\<close>

theorem chat_client_events:
  assumes "LF \<notin> set (eventData e) \<or> decode_map decode (eventData e) \<noteq> None"
    and "chat_event decode a legacyText e c = (Some out, c')"
  shows "list_all (chat_good (publicName a)) (client_events out)"
proof (rule framed_client, cases "eventData e = ''[DONE]''")
  case True
  then have "out = done_frame" using assms(2) by (simp add: chat_event_def)
  moreover have "framed (chat_good (publicName a)) done_frame"
    unfolding done_frame_def by (rule framed_data) (simp_all add: chat_good_def)
  ultimately show "framed (chat_good (publicName a)) out" by simp
next
  case False
  show "framed (chat_good (publicName a)) out"
  proof (cases "rewriteChunk decode (eventData e) (publicName a) legacyText")
    case None
    then have "decode_map decode (eventData e) = None" by (auto simp: rewriteChunk_def Let_def split: option.splits)
    moreover have "out = data_frame (eventData e)" "CR \<notin> set (eventData e)"
      "eventData e = [] \<or> hd (eventData e) \<noteq> CHR 0x7B"
      using None False assms(2) by (auto simp: chat_event_def Let_def split: if_splits)
    ultimately show ?thesis using assms(1) by (auto simp: chat_good_def intro!: framed_data)
  next
    case (Some ck)
    then have "out \<in> {data_frame (chunkOut ck), data_frame (stripUsage ck)}"
      using False assms(2) by (auto simp: chat_event_def Let_def split: if_splits)
    then show ?thesis using rewriteChunk_frames [OF Some] by blast
  qed
qed

theorem chat_client_events_witness:
  "list_all (chat_good ''m'') (client_events (data_frame ''ping''))"
proof -
  let ?a = "\<lparr>publicName = ''m'', sentModel = ''v/m'', forwardUsage = False, capturing = False\<rparr>"
  let ?e = "sseEvent_zero\<lparr>eventData := ''ping''\<rparr>"
  have "chat_event (\<lambda>_. None) ?a False ?e chatStream_zero = (Some (data_frame ''ping''), chatStream_zero)"
    by (simp add: chat_event_def rewriteChunk_def decode_map_def)
  then show ?thesis using chat_client_events [of ?e "\<lambda>_. None" ?a False chatStream_zero "data_frame ''ping''"] by simp
qed

text \<open>A heartbeat of three data lines, the second of them empty, as the relay joins it.\<close>

definition vendor_object :: string where
  "vendor_object = CHR 0x7B # quote_string ''model'' @ '':'' @ quote_string ''vendor/m'' @ [CHR 0x7D]"

definition broken_heartbeat :: sseEvent where
  "broken_heartbeat = sseEvent_zero\<lparr>eventData := join_lines [''ping'', [], ''data: '' @ vendor_object]\<rparr>"

text \<open>
  A heartbeat of several lines carries a second event past the relay. A payload that does not decode
  and does not open an object is written out as it came, guarded against carriage returns and not
  against the line feeds that join its data lines: a blank one among them ends the event for the
  client, and what follows is read as an event of its own, here an object that names the upstream's
  own model.
\<close>

theorem chat_heartbeat_smuggles:
  assumes "decode (eventData broken_heartbeat) = None"
  shows "\<exists>out. chat_event decode a legacyText broken_heartbeat c = (Some out, c) \<and>
    client_events out = [[''data: ping''], [''data: '' @ vendor_object]]"
proof -
  have data: "eventData broken_heartbeat \<noteq> ''[DONE]''" "eventData broken_heartbeat \<noteq> []"
    "hd (eventData broken_heartbeat) \<noteq> CHR 0x7B" "CR \<notin> set (eventData broken_heartbeat)"
    by code_simp+
  have "rewriteChunk decode (eventData broken_heartbeat) (publicName a) legacyText = None"
    using assms by (simp add: rewriteChunk_def decode_map_def)
  then have "chat_event decode a legacyText broken_heartbeat c = (Some (data_frame (eventData broken_heartbeat)), c)"
    using data by (simp add: chat_event_def)
  moreover have "client_events (data_frame (eventData broken_heartbeat)) =
      [[''data: ping''], [''data: '' @ vendor_object]]" by code_simp
  ultimately show ?thesis by blast
qed

theorem chat_heartbeat_smuggles_witness:
  "\<exists>out. chat_event (\<lambda>_. None) \<lparr>publicName = ''m'', sentModel = ''v/m'', forwardUsage = False, capturing = False\<rparr>
     False broken_heartbeat chatStream_zero = (Some out, chatStream_zero) \<and>
   client_events out = [[''data: ping''], [''data: '' @ vendor_object]]"
  using chat_heartbeat_smuggles [of "\<lambda>_. None"] by simp

section \<open>Messages streams\<close>

definition broken_ping :: sseEvent where
  "broken_ping = sseEvent_zero\<lparr>eventName := ''ping'',
     eventData := [CHR 0x7B, CHR 0x7D, CR, CR] @ ''data: '' @ vendor_object\<rparr>"

text \<open>
  Carriage returns carry a second event past the Messages relay. Any event but the first is written
  out with the bytes that arrived, of which the decoder has read only the first value: a client ends
  lines at the carriage returns behind it and reads the rest as an event of its own.
\<close>

theorem messages_event_smuggles:
  assumes "decode (eventData broken_ping) = Some (JObj [])"
  shows "\<exists>out. named_event decode a broken_ping m = (Some out, m) \<and>
    client_events out = [[''event: ping'', [CHR ''d'', CHR ''a'', CHR ''t'', CHR ''a'', CHR '':'', CHR '' '', CHR 0x7B, CHR 0x7D]],
      [''data: '' @ vendor_object]]"
proof -
  have n: "eventName broken_ping = ''ping''" "\<not> badField broken_ping" by (simp_all add: broken_ping_def sseEvent_zero_def)
  have "decode_map decode (eventData broken_ping) = Some (Some [])"
    using assms by (simp add: decode_map_def go_object_def)
  then have "named_event decode a broken_ping m = (Some (sseFrame ''ping'' (eventData broken_ping)), m)"
    using n by (simp add: named_event_def messages_read_def)
  moreover have "client_events (sseFrame ''ping'' (eventData broken_ping)) =
      [[''event: ping'', [CHR ''d'', CHR ''a'', CHR ''t'', CHR ''a'', CHR '':'', CHR '' '', CHR 0x7B, CHR 0x7D]],
       [''data: '' @ vendor_object]]" by code_simp
  ultimately show ?thesis by blast
qed

theorem messages_event_smuggles_witness:
  "\<exists>out. named_event (\<lambda>_. Some (JObj [])) \<lparr>publicName = ''m'', sentModel = ''v/m'', forwardUsage = False, capturing = False\<rparr>
     broken_ping messagesStream_zero = (Some out, messagesStream_zero) \<and> length (client_events out) = 2"
  using messages_event_smuggles [of "\<lambda>_. Some (JObj [])"] by fastforce

text \<open>The usage object of a whole answer that reports what the start and the last delta of a stream reported.\<close>

definition stream_usage :: "messagesUsage \<Rightarrow> messagesUsage \<Rightarrow> messagesUsage" where
  "stream_usage start final = start\<lparr>muOutputTokens := muOutputTokens final, muCost := muCost final,
     ThinkingTokens := ThinkingTokens final, muReasoningTokens := muReasoningTokens final\<rparr>"

text \<open>
  A streamed Messages answer is metered like a whole one. After a start event that reports the input
  and a delta that reports the output and revises nothing, the usage read from the stream is the one a
  whole answer with the same figures is metered by; and before the delta has come there is none.
\<close>

theorem messages_stream_metered_as_whole:
  assumes "as_map (map_of p1 ''message'') = Some msg" "map_of msg ''model'' = None"
    and "decodeMessagesUsage (map_of msg ''usage'') = Some start" "muInputTokens start \<noteq> None"
    and "decodeMessagesUsage (map_of p2 ''usage'') = Some final" "muOutputTokens final \<noteq> None"
    and "muInputTokens final = None" "CacheReadInputTokens final = None" "CacheCreationInputTokens final = None"
  shows "let m1 = snd (on_start a p1 messagesStream_zero); res = msRes (on_delta p2 m1) in
    \<not> haveUsage (msRes m1) \<and> haveUsage res \<and> messages_normalized (stream_usage start final) = Some (srUsage res)"
proof -
  obtain n_in where i: "muInputTokens start = Some n_in" using assms(4) by blast
  obtain n_out where o': "muOutputTokens final = Some n_out" using assms(6) by blast
  have r: "rename_model (publicName a) msg = msg" using assms(2) by (simp add: rename_model_def)
  have "snd (on_start a p1 messagesStream_zero) = messages_settle (messagesStream_zero\<lparr>sawStart := True,
      msInput := nonNegative n_in, msCacheRead := nonNegative (intOf (CacheReadInputTokens start)),
      msCacheCreation := nonNegative (intOf (CacheCreationInputTokens start))\<rparr>)"
    using assms(1,2,3) i r by (simp add: on_start_def Let_def)
  then show ?thesis
    using assms(5,7,8,9) i o'
    by (simp add: on_delta_def messages_settle_def messagesStream_zero_def streamResult_zero_def usage_zero_def Let_def
        messages_normalized_def stream_usage_def thinkingTokens_def split: option.splits)
qed

theorem messages_stream_metered_as_whole_witness:
  "haveUsage (msRes (on_delta [(''usage'', JObj [(''output_tokens'', JNum ''7'')])]
     (snd (on_start \<lparr>publicName = ''m'', sentModel = ''v/m'', forwardUsage = False, capturing = False\<rparr>
       [(''message'', JObj [(''usage'', JObj [(''input_tokens'', JNum ''5'')])])] messagesStream_zero))))"
proof -
  let ?p1 = "[(''message'', JObj [(''usage'', JObj [(''input_tokens'', JNum ''5'')])])]"
  let ?p2 = "[(''usage'', JObj [(''output_tokens'', JNum ''7'')])]"
  let ?msg = "[(''usage'', JObj [(''input_tokens'', JNum ''5'')])]"
  have "decodeMessagesUsage (map_of ?msg ''usage'') = Some (messagesUsage_zero\<lparr>muInputTokens := Some 5\<rparr>)"
    "decodeMessagesUsage (map_of ?p2 ''usage'') = Some (messagesUsage_zero\<lparr>muOutputTokens := Some 7\<rparr>)"
    by code_simp+
  then show ?thesis
    using messages_stream_metered_as_whole [of ?p1 ?msg "messagesUsage_zero\<lparr>muInputTokens := Some 5\<rparr>" ?p2
        "messagesUsage_zero\<lparr>muOutputTokens := Some 7\<rparr>"]
    by (simp add: as_map_def messagesUsage_zero_def Let_def)
qed

section \<open>The relay on a small stream\<close>

definition demo_args :: streamArgs where
  "demo_args = \<lparr>publicName = ''m'', sentModel = ''v/m'', forwardUsage = False, capturing = False\<rparr>"

definition demo_relay :: "Event \<times> int \<times> chatStream relay" where
  "demo_relay = relayStream (chat_extractor (\<lambda>_. None) demo_args False) (\<lambda>_. True) 16777216
     (done_frame @ ''data: late'' @ [LF, LF]) AtEOF False False 10 chatStream_zero (newLargeBodySlots 2) Event_zero"

theorem stream_memory_bounded_witness:
  "leases (slots (snd (snd demo_relay))) = leases (newLargeBodySlots 2)"
  unfolding demo_relay_def by (rule conjunct2 [OF stream_memory_bounded [OF newLargeBodySlots_inv]])

lemma demo_loop:
  "relay_loop (chat_extractor (\<lambda>_. None) demo_args False) (\<lambda>_. True) 16777216
     (complete_lines (done_frame @ ''data: late'' @ [LF, LF])) (last_fragment (done_frame @ ''data: late'' @ [LF, LF]))
     AtEOF (relay_start chatStream_zero (newLargeBodySlots 2)) =
   (None, (relay_start (chatStream_zero\<lparr>sawDone := True\<rparr>) (newLargeBodySlots 2))\<lparr>written := [done_frame]\<rparr>)"
  by code_simp

theorem stream_success_means_complete_witness:
  "written (snd (snd demo_relay)) = [done_frame] \<and> EvStatus (fst demo_relay) = StatusOK"
proof -
  obtain ev' charged st where r: "demo_relay = (ev', charged, st)" by (metis prod_cases3)
  have st: "ext st = chatStream_zero\<lparr>sawDone := True\<rparr>" "written st = [done_frame]" "\<not> writeFailed st"
    using r demo_loop
    by (auto simp: demo_relay_def relayStream_def end_stream_def Let_def resetEventCap_def relay_start_def
        chat_extractor_def chatStream_zero_def streamResult_zero_def split: prod.splits)
  have "EvStatus ev' = StatusOK"
    using stream_success_means_complete [OF r [unfolded demo_relay_def]] demo_loop st
    by (simp add: chat_extractor_def chatStream_zero_def streamResult_zero_def)
  then show ?thesis
    unfolding r using st by simp
qed

end
