(* ===== verification/Generation_Cost.thy ===== *)
theory Generation_Cost
  imports Metering Upstream "HOL-Library.Multiset"
begin

text \<open>
  The price of an answer that ended without one (\<open>internal/server/generation_cost.go\<close>): who waits for the
  vendor's generation record, on which schedule, what one read of it yields, and how the pending events
  reach the spool, at a shutdown too. Instants are nanoseconds after the end of the answer. A goroutine
  is an entry of the list of lookups under way; \<open>record_now\<close> stands for the call of \<open>record\<close>.
\<close>

section \<open>Schedules\<close>

definition seconds :: "int \<Rightarrow> int" where "seconds n = n * 1000000000"

definition generationCostDelays :: "int list" where
  "generationCostDelays = map seconds [12, 6, 10, 15, 15]"

definition generationCostDeadline :: int where "generationCostDeadline = seconds 60"

definition passthroughCostDelays :: "int list" where
  "passthroughCostDelays = map seconds [15, 10, 10, 15, 20, 30]"

definition passthroughCostDeadline :: int where "passthroughCostDeadline = seconds 120"

definition generationCostReadTimeout :: int where "generationCostReadTimeout = seconds 5"
definition generationCostPending :: int where "generationCostPending = 512"
definition passthroughCostPending :: int where "passthroughCostPending = 256"

datatype surface = StreamSurface | PassthroughSurface

record costSchedule =
  costSlots :: int
  costRoom :: int
  delays :: "int list"
  costDeadline :: int
  filled :: int
  missing :: int

text \<open>A lookup under way: its surface, its event, and what it asks with.\<close>

record cost_lookup =
  lkSurface :: surface
  lkEvent :: Event
  lkUpstream :: Upstream
  lkCred :: string
  lkId :: string

record generationCosts =
  waitGroup :: int
  draining :: bool
  stream_costs :: costSchedule
  passthrough_costs :: costSchedule
  lookups :: "cost_lookup list"

definition newGenerationCosts :: generationCosts where
  "newGenerationCosts = \<lparr>waitGroup = 0, draining = False,
     stream_costs = \<lparr>costSlots = 0, costRoom = generationCostPending, delays = generationCostDelays,
       costDeadline = generationCostDeadline, filled = 0, missing = 0\<rparr>,
     passthrough_costs = \<lparr>costSlots = 0, costRoom = passthroughCostPending, delays = passthroughCostDelays,
       costDeadline = passthroughCostDeadline, filled = 0, missing = 0\<rparr>,
     lookups = []\<rparr>"

definition sched :: "surface \<Rightarrow> generationCosts \<Rightarrow> costSchedule" where
  "sched f c = (case f of StreamSurface \<Rightarrow> stream_costs c | PassthroughSurface \<Rightarrow> passthrough_costs c)"

definition on_sched :: "surface \<Rightarrow> (costSchedule \<Rightarrow> costSchedule) \<Rightarrow> generationCosts \<Rightarrow> generationCosts" where
  "on_sched f g c =
     (case f of StreamSurface \<Rightarrow> c\<lparr>stream_costs := g (stream_costs c)\<rparr>
      | PassthroughSurface \<Rightarrow> c\<lparr>passthrough_costs := g (passthrough_costs c)\<rparr>)"

section \<open>Admission\<close>

definition admit :: "surface \<Rightarrow> generationCosts \<Rightarrow> bool \<times> generationCosts" where
  "admit f c =
     (if draining c then (False, c)
      else if costSlots (sched f c) \<ge> costRoom (sched f c) then (False, c)
      else (True, (on_sched f (\<lambda>s. s\<lparr>costSlots := costSlots s + 1\<rparr>) c)\<lparr>waitGroup := waitGroup c + 1\<rparr>))"

text \<open>
  The wrapped record: the event to record now, or \<^const>\<open>None\<close> when a lookup has it.
\<close>

definition withGenerationCost ::
  "surface \<Rightarrow> string \<Rightarrow> Upstream \<Rightarrow> string \<Rightarrow> Event \<Rightarrow> generationCosts \<Rightarrow> Event option \<times> generationCosts" where
  "withGenerationCost f gid up cred ev c =
     (if \<not> generationIDPattern gid \<or> cred = [] then (Some ev, c)
      else if CostUsd ev \<noteq> [] then (Some ev, c)
      else case admit f c of
        (False, c) \<Rightarrow> (Some ev, on_sched f (\<lambda>s. s\<lparr>missing := missing s + 1\<rparr>) c)
      | (True, c) \<Rightarrow> (None, c\<lparr>lookups := lookups c @
            [\<lparr>lkSurface = f, lkEvent = ev, lkUpstream = up, lkCred = cred, lkId = gid\<rparr>]\<rparr>))"

section \<open>Reading the record\<close>

text \<open>What one read meets: a request that cannot be made, a failure of the transport, an answer.\<close>

datatype generation_read = NoRequest | ReadFailed | GenRecord nat "json option"

definition total_cost_fields :: "string field list" where
  "total_cost_fields = [(''data'', dec_struct False [(''total_cost'', number_field (\<lambda>n _. n))])]"

text \<open>The cost, and whether a later read could still succeed; \<open>over\<close> says that the lookup's context has ended.\<close>

definition readGenerationCost :: "generation_read \<Rightarrow> bool \<Rightarrow> string \<times> bool" where
  "readGenerationCost rd over =
     (case rd of
        NoRequest \<Rightarrow> ([], False)
      | ReadFailed \<Rightarrow> ([], \<not> over)
      | GenRecord code body \<Rightarrow>
          if code = 200
          then (case Option.bind body (\<lambda>j. dec_struct False total_cost_fields j []) of
                  None \<Rightarrow> ([], False)
                | Some n \<Rightarrow> (CostLiteral n, False))
          else if code = 404 \<or> code = 429 \<or> code \<ge> 500 then ([], True)
          else ([], False))"

text \<open>
  The lookup: \<open>ends\<close> is when its context is over, at its deadline or when a drain gives up before it;
  \<open>reads\<close> and \<open>took\<close> are what the reads meet and how long they take. A read is cut off at its own
  timeout and at the end of the context; when the timer fires as the context ends, either may be seen
  first, which \<open>tie\<close> decides.
\<close>

record lookup_world =
  ends :: int
  reads :: "nat \<Rightarrow> generation_read"
  took :: "nat \<Rightarrow> int"
  tie :: "nat \<Rightarrow> bool"

fun lookup_from :: "lookup_world \<Rightarrow> nat \<Rightarrow> int \<Rightarrow> int list \<Rightarrow> string \<times> int \<times> nat" where
  "lookup_from w n t [] = ([], t, n)"
| "lookup_from w n t (wait # ws) =
     (if ends w < t + wait \<or> ends w = t + wait \<and> tie w n then ([], max t (ends w), n)
      else
        let t1 = t + wait;
            cut_off = min (t1 + generationCostReadTimeout) (ends w);
            t2 = min (t1 + max 0 (took w n)) cut_off;
            rd = (if t1 + max 0 (took w n) \<ge> cut_off then ReadFailed else reads w n)
        in case readGenerationCost rd (t2 \<ge> ends w) of
             (cost, retry) \<Rightarrow>
               if cost \<noteq> [] \<or> \<not> retry then (cost, t2, Suc n) else lookup_from w (Suc n) t2 ws)"

definition lookupGenerationCost :: "costSchedule \<Rightarrow> lookup_world \<Rightarrow> string \<times> int \<times> nat" where
  "lookupGenerationCost s w = lookup_from (w\<lparr>ends := min (ends w) (costDeadline s)\<rparr>) 0 0 (delays s)"

text \<open>The end of the goroutine at position \<open>i\<close>: the event it records, its slot given back.\<close>

definition finish_lookup :: "nat \<Rightarrow> string \<Rightarrow> generationCosts \<Rightarrow> Event option \<times> generationCosts" where
  "finish_lookup i cost c =
     (if i \<ge> length (lookups c) then (None, c)
      else let lk = lookups c ! i;
               ev = (if cost \<noteq> [] then (lkEvent lk)\<lparr>CostUsd := cost\<rparr> else lkEvent lk);
               c = on_sched (lkSurface lk)
                     (\<lambda>s. if cost \<noteq> [] then s\<lparr>filled := filled s + 1\<rparr> else s\<lparr>missing := missing s + 1\<rparr>) c;
               c = on_sched (lkSurface lk) (\<lambda>s. s\<lparr>costSlots := costSlots s - 1\<rparr>) c
           in (Some ev, c\<lparr>lookups := take i (lookups c) @ drop (Suc i) (lookups c), waitGroup := waitGroup c - 1\<rparr>))"

section \<open>Draining\<close>

text \<open>The drain has returned once it was started and nothing is under way.\<close>

definition start_drain :: "generationCosts \<Rightarrow> generationCosts" where
  "start_drain c = c\<lparr>draining := True\<rparr>"

definition drained :: "generationCosts \<Rightarrow> bool" where
  "drained c \<longleftrightarrow> draining c \<and> waitGroup c = 0"

section \<open>One lookup\<close>

lemma readGenerationCost_cost:
  assumes "readGenerationCost rd over = (cost, retry)" "cost \<noteq> []"
  shows "\<exists>body n. rd = GenRecord 200 body \<and> cost = CostLiteral n \<and> \<not> retry"
  using assms by (auto simp: readGenerationCost_def split: generation_read.splits if_splits option.splits)

lemma lookup_from_bounds:
  assumes "lookup_from w n t ws = (cost, t', n')" "t \<le> ends w" "list_all (\<lambda>x. 0 \<le> x) ws"
  shows "t \<le> t' \<and> t' \<le> ends w \<and> n \<le> n' \<and> n' \<le> n + length ws \<and>
    (cost \<noteq> [] \<longrightarrow> (\<exists>k body x. n \<le> k \<and> k < n' \<and> reads w k = GenRecord 200 body \<and> cost = CostLiteral x))"
  using assms
proof (induction ws arbitrary: n t)
  case (Cons wait ws)
  show ?case
  proof (cases "ends w < t + wait \<or> ends w = t + wait \<and> tie w n")
    case True
    then show ?thesis using Cons.prems by auto
  next
    case False
    define t1 where "t1 = t + wait"
    define cut_off where "cut_off = min (t1 + generationCostReadTimeout) (ends w)"
    define t2 where "t2 = min (t1 + max 0 (took w n)) cut_off"
    define rd where "rd = (if t1 + max 0 (took w n) \<ge> cut_off then ReadFailed else reads w n)"
    obtain c retry where rc: "readGenerationCost rd (t2 \<ge> ends w) = (c, retry)" by fastforce
    have t: "t \<le> t2" "t2 \<le> ends w"
      using False Cons.prems(2,3) by (auto simp: t1_def t2_def cut_off_def generationCostReadTimeout_def seconds_def)
    have step: "lookup_from w n t (wait # ws) =
        (if c \<noteq> [] \<or> \<not> retry then (c, t2, Suc n) else lookup_from w (Suc n) t2 ws)"
      by (simp only: lookup_from.simps if_not_P [OF False [folded t1_def]] Let_def t1_def [symmetric] cut_off_def [symmetric]
          t2_def [symmetric] rd_def [symmetric] rc prod.case)
    show ?thesis
    proof (cases "c \<noteq> [] \<or> \<not> retry")
      case True
      then have "cost = c" "t' = t2" "n' = Suc n" using step Cons.prems(1) by auto
      then show ?thesis
        using t readGenerationCost_cost [OF rc] by (auto simp: rd_def split: if_splits)
    next
      case False
      then have rest: "lookup_from w (Suc n) t2 ws = (cost, t', n')" using step Cons.prems(1) by simp
      have "list_all ((\<le>) 0) ws" using Cons.prems(3) by simp
      from Cons.IH [OF rest t(2) this] show ?thesis using t by (fastforce dest: Suc_leD)
    qed
  qed
qed auto

lemma lookup_from_finds:
  assumes "k < length ws" "\<forall>i\<le>k. took w (n + i) = 0"
    and "\<forall>i<k. \<exists>b. reads w (n + i) = GenRecord 404 b"
    and "reads w (n + k) = GenRecord 200 (Some j)" "dec_struct False total_cost_fields j [] = Some x"
    and "t + sum_list (take (Suc k) ws) < ends w" "list_all (\<lambda>x. 0 \<le> x) ws"
  shows "lookup_from w n t ws = (CostLiteral x, t + sum_list (take (Suc k) ws), n + Suc k)"
  using assms
proof (induction ws arbitrary: n t k)
  case (Cons wait ws)
  have timeout: "0 < generationCostReadTimeout" by (simp add: generationCostReadTimeout_def seconds_def)
  have nonneg: "0 \<le> sum_list (take i ws)" for i
    using Cons.prems(7) by (intro sum_list_nonneg) (auto simp: list_all_iff dest: in_set_takeD)
  have before: "t + wait < ends w" using Cons.prems(6) nonneg [of k] by simp
  show ?case
  proof (cases k)
    case 0
    then show ?thesis
      using Cons.prems(2,4,5) before timeout by (simp add: Let_def readGenerationCost_def min_le_iff_disj)
  next
    case (Suc i)
    have "took w n = 0" "\<exists>b. reads w n = GenRecord 404 b" using Cons.prems(2,3) Suc by force+
    then have "lookup_from w n t (wait # ws) = lookup_from w (Suc n) (t + wait) ws"
      using before timeout by (auto simp: Let_def readGenerationCost_def min_le_iff_disj)
    moreover have "lookup_from w (Suc n) (t + wait) ws =
        (CostLiteral x, t + wait + sum_list (take (Suc i) ws), Suc n + Suc i)"
    proof (rule Cons.IH)
      show "\<forall>i'\<le>i. took w (Suc n + i') = 0" using Cons.prems(2) Suc by auto
      show "\<forall>i'<i. \<exists>b. reads w (Suc n + i') = GenRecord 404 b" using Cons.prems(3) Suc by auto
    qed (use Cons.prems Suc in \<open>simp_all add: add.assoc\<close>)
    ultimately show ?thesis using Suc by simp
  qed
qed simp

lemma schedules_nonneg: "list_all (\<lambda>x. 0 \<le> x) (delays (sched f newGenerationCosts))"
  "0 \<le> costDeadline (sched f newGenerationCosts)"
  by (cases f; simp add: sched_def newGenerationCosts_def generationCostDelays_def passthroughCostDelays_def
      generationCostDeadline_def passthroughCostDeadline_def seconds_def)+


definition published_late :: lookup_world where
  "published_late = \<lparr>ends = seconds 600,
     reads = (\<lambda>n. if n < 2 then GenRecord 404 None
                  else GenRecord 200 (Some (JObj [(''data'', JObj [(''total_cost'', JNum ''0.0031'')])]))),
     took = (\<lambda>_. 0), tie = (\<lambda>_. True)\<rparr>"


section \<open>Pending events\<close>

text \<open>
  The events whose answer has ended, and those recorded, in the course of endings of answers, ends of
  lookups and the start of the drain, in any order.
\<close>

record cost_system =
  costs :: generationCosts
  ended :: "Event list"
  recorded :: "Event list"

inductive cost_step :: "cost_system \<Rightarrow> cost_system \<Rightarrow> bool" where
  answer_ends: "withGenerationCost f gid up cred ev (costs s) = (r, c) \<Longrightarrow>
     cost_step s (s\<lparr>costs := c, ended := ev # ended s,
                   recorded := (case r of None \<Rightarrow> recorded s | Some e \<Rightarrow> e # recorded s)\<rparr>)"
| lookup_ends: "finish_lookup i cost (costs s) = (Some e, c) \<Longrightarrow>
     cost_step s (s\<lparr>costs := c, recorded := e # recorded s\<rparr>)"
| drain_starts: "cost_step s (s\<lparr>costs := start_drain (costs s)\<rparr>)"

definition cost_start :: cost_system where
  "cost_start = \<lparr>costs = newGenerationCosts, ended = [], recorded = []\<rparr>"

text \<open>An event without its price, and a record of it that keeps a price it already had.\<close>

definition unpriced :: "Event \<Rightarrow> Event" where "unpriced ev = ev\<lparr>CostUsd := []\<rparr>"

definition records :: "Event \<Rightarrow> Event \<Rightarrow> bool" where
  "records e ev \<longleftrightarrow> e = ev \<or> CostUsd ev = [] \<and> unpriced e = ev"

definition lookups_on :: "surface \<Rightarrow> generationCosts \<Rightarrow> nat" where
  "lookups_on f c = length (filter (\<lambda>lk. lkSurface lk = f) (lookups c))"

definition pool_ok :: "surface \<Rightarrow> generationCosts \<Rightarrow> bool" where
  "pool_ok f c \<longleftrightarrow> costSlots (sched f c) = int (lookups_on f c) \<and> costSlots (sched f c) \<le> costRoom (sched f c) \<and>
     costRoom (sched f c) = (if f = StreamSurface then 512 else 256)"

definition cost_inv :: "cost_system \<Rightarrow> bool" where
  "cost_inv s \<longleftrightarrow>
     waitGroup (costs s) = int (length (lookups (costs s))) \<and>
     (\<forall>f. pool_ok f (costs s)) \<and>
     (\<forall>lk\<in>set (lookups (costs s)). CostUsd (lkEvent lk) = [] \<and> lkEvent lk \<in> set (ended s)) \<and>
     (\<forall>e\<in>set (recorded s). \<exists>ev\<in>set (ended s). records e ev) \<and>
     mset (map unpriced (ended s)) =
       mset (map unpriced (recorded s)) + mset (map (\<lambda>lk. unpriced (lkEvent lk)) (lookups (costs s)))"

lemma sched_simps [simp]:
  "sched f (c\<lparr>lookups := l\<rparr>) = sched f c" "sched f (c\<lparr>waitGroup := n\<rparr>) = sched f c"
  "sched f (c\<lparr>draining := b\<rparr>) = sched f c"
  "sched f (on_sched g h c) = (if f = g then h (sched f c) else sched f c)"
  "lookups (on_sched g h c) = lookups c" "waitGroup (on_sched g h c) = waitGroup c"
  "draining (on_sched g h c) = draining c"
  by (auto simp: sched_def on_sched_def split: surface.splits)

lemma unpriced_simps [simp]: "unpriced (ev\<lparr>CostUsd := x\<rparr>) = unpriced ev" "CostUsd (unpriced ev) = []"
  "unpriced (unpriced ev) = unpriced ev"
  by (simp_all add: unpriced_def)

lemma unpriced_same: "CostUsd ev = [] \<Longrightarrow> unpriced ev = ev"
  by (cases ev) (simp add: unpriced_def)

lemma cost_inv_start: "cost_inv cost_start"
proof -
  have "pool_ok f newGenerationCosts" for f
    by (cases f) (simp_all add: pool_ok_def newGenerationCosts_def sched_def lookups_on_def
        generationCostPending_def passthroughCostPending_def)
  then show ?thesis by (simp add: cost_inv_def cost_start_def) (simp add: newGenerationCosts_def)
qed

lemma admitted_lookup:
  assumes "withGenerationCost f gid up cred ev c = (None, c')"
  shows "\<not> draining c \<and> CostUsd ev = [] \<and> costSlots (sched f c) < costRoom (sched f c) \<and>
    c' = (on_sched f (\<lambda>s. s\<lparr>costSlots := costSlots s + 1\<rparr>) c)\<lparr>waitGroup := waitGroup c + 1,
      lookups := lookups c @ [\<lparr>lkSurface = f, lkEvent = ev, lkUpstream = up, lkCred = cred, lkId = gid\<rparr>]\<rparr>"
  using assms by (auto simp: withGenerationCost_def admit_def split: if_splits prod.splits bool.splits)

lemma recorded_now:
  assumes "withGenerationCost f gid up cred ev c = (Some e, c')"
  shows "e = ev \<and> (c' = c \<or> c' = on_sched f (\<lambda>s. s\<lparr>missing := missing s + 1\<rparr>) c)"
  using assms by (auto simp: withGenerationCost_def admit_def split: if_splits prod.splits bool.splits)

lemma pool_ok_admitted:
  assumes "withGenerationCost g gid up cred ev c = (None, c')" "pool_ok f c"
  shows "pool_ok f c'"
  using admitted_lookup [OF assms(1)] assms(2) by (auto simp: pool_ok_def lookups_on_def)

lemma pool_ok_kept:
  "pool_ok f c \<Longrightarrow> pool_ok f (on_sched g (\<lambda>s. s\<lparr>missing := missing s + 1\<rparr>) c)"
  "pool_ok f c \<Longrightarrow> pool_ok f (start_drain c)"
  by (cases f; cases g; simp add: pool_ok_def lookups_on_def)
    (simp add: pool_ok_def lookups_on_def start_drain_def)

lemma cost_inv_answer:
  assumes "cost_inv s" "withGenerationCost f gid up cred ev (costs s) = (r, c)"
  shows "cost_inv (s\<lparr>costs := c, ended := ev # ended s,
      recorded := (case r of None \<Rightarrow> recorded s | Some e \<Rightarrow> e # recorded s)\<rparr>)"
proof (cases r)
  case None
  then show ?thesis
    using assms(1) admitted_lookup [OF assms(2) [unfolded None]] pool_ok_admitted [OF assms(2) [unfolded None]]
    by (simp add: cost_inv_def)
next
  case (Some e)
  then show ?thesis
    using assms(1) recorded_now [OF assms(2) [unfolded Some]]
    by (auto simp: cost_inv_def records_def intro: pool_ok_kept)
qed

lemma finish_cases:
  assumes "finish_lookup i cost c = (Some e, c')"
  obtains lk front rest where "lookups c = front @ lk # rest" "lookups c' = front @ rest"
    "e = (if cost \<noteq> [] then (lkEvent lk)\<lparr>CostUsd := cost\<rparr> else lkEvent lk)" "waitGroup c' = waitGroup c - 1"
    "draining c' = draining c"
    "\<And>f. costSlots (sched f c') = costSlots (sched f c) - (if f = lkSurface lk then 1 else 0)"
    "\<And>f. costRoom (sched f c') = costRoom (sched f c)"
proof -
  have i: "i < length (lookups c)" using assms by (simp add: finish_lookup_def split: if_splits)
  show thesis
    by (rule that [of "take i (lookups c)" "lookups c ! i" "drop (Suc i) (lookups c)"])
      (use assms i in \<open>auto simp: finish_lookup_def Let_def id_take_nth_drop [symmetric] split: if_splits\<close>)
qed

lemma cost_inv_lookup:
  assumes "cost_inv s" "finish_lookup i cost (costs s) = (Some e, c)"
  shows "cost_inv (s\<lparr>costs := c, recorded := e # recorded s\<rparr>)"
  using assms(2)
proof (cases rule: finish_cases)
  case (1 lk front rest)
  have ev: "CostUsd (lkEvent lk) = []" "lkEvent lk \<in> set (ended s)" using assms(1) 1(1) by (auto simp: cost_inv_def)
  have "\<exists>ev\<in>set (ended s). records e ev"
    using ev 1(3) by (intro bexI [of _ "lkEvent lk"]) (auto simp: records_def unpriced_same)
  moreover have "pool_ok f c" for f
  proof -
    have "lookups_on f (costs s) = lookups_on f c + (if f = lkSurface lk then 1 else 0)"
      using 1 by (auto simp: lookups_on_def)
    moreover have "pool_ok f (costs s)" using assms(1) by (simp add: cost_inv_def)
    ultimately show ?thesis using 1(6,7) by (auto simp: pool_ok_def)
  qed
  ultimately show ?thesis
    using assms(1) 1 by (auto simp: cost_inv_def)
qed

lemma cost_inv_run: "cost_step\<^sup>*\<^sup>* cost_start s \<Longrightarrow> cost_inv s"
proof (induction rule: rtranclp_induct)
  case (step y z)
  from step.hyps(2) step.IH show ?case
  proof cases
    case drain_starts
    then show ?thesis using step.IH pool_ok_kept(2) by (auto simp: cost_inv_def) (simp_all add: start_drain_def)
  qed (auto simp: cost_inv_answer cost_inv_lookup)
qed (rule cost_inv_start)

text \<open>Once the drain has begun, every lookup that ends brings it one closer to its return.\<close>

definition end_lookups :: "string list \<Rightarrow> generationCosts \<Rightarrow> generationCosts" where
  "end_lookups cs c = fold (\<lambda>cost c. snd (finish_lookup 0 cost c)) cs c"

lemma end_lookups_count:
  assumes "waitGroup c = int (length (lookups c))" "length cs = length (lookups c)"
  shows "waitGroup (end_lookups cs c) = 0 \<and> draining (end_lookups cs c) = draining c"
  using assms
proof (induction cs arbitrary: c)
  case (Cons cost cs)
  then obtain lk ls where l: "lookups c = lk # ls" by (cases "lookups c") auto
  obtain e c' where f: "finish_lookup 0 cost c = (Some e, c')" using l by (simp add: finish_lookup_def Let_def)
  have "waitGroup c' = int (length (lookups c'))" "length cs = length (lookups c')" "draining c' = draining c"
    using f l Cons.prems by (auto simp: finish_lookup_def Let_def)
  then show ?case using Cons.IH [of c'] f by (simp add: end_lookups_def)
qed (simp add: end_lookups_def)

text \<open>
  C13. Waiting for a price loses no usage. In whatever order answers end, lookups end and a shutdown
  begins, every event whose answer has ended is recorded exactly once or waits in exactly one lookup,
  unchanged but for a price it did not have; each pool of lookups stays within its bound and holds as
  many slots as it has lookups; and once the drain has begun, the ends of the pending lookups, whatever
  they found, let it return, and when it has returned everything is recorded.
\<close>

theorem pending_costs_lose_no_event:
  assumes "cost_step\<^sup>*\<^sup>* cost_start s"
  shows "mset (map unpriced (ended s)) =
      mset (map unpriced (recorded s)) + mset (map (\<lambda>lk. unpriced (lkEvent lk)) (lookups (costs s))) \<and>
    (\<forall>e\<in>set (recorded s). \<exists>ev\<in>set (ended s). records e ev) \<and>
    lookups_on StreamSurface (costs s) \<le> 512 \<and> lookups_on PassthroughSurface (costs s) \<le> 256 \<and>
    (draining (costs s) \<and> length cs = length (lookups (costs s)) \<longrightarrow> drained (end_lookups cs (costs s))) \<and>
    (drained (costs s) \<longrightarrow> mset (map unpriced (recorded s)) = mset (map unpriced (ended s)))"
proof -
  have inv: "cost_inv s" by (rule cost_inv_run [OF assms])
  then have "int (lookups_on StreamSurface (costs s)) \<le> 512 \<and> int (lookups_on PassthroughSurface (costs s)) \<le> 256"
    unfolding cost_inv_def pool_ok_def by (metis surface.distinct(1))
  then show ?thesis
    using inv end_lookups_count [of "costs s" cs] by (auto simp: cost_inv_def drained_def)
qed

definition priced_upstream :: Upstream where
  "priced_upstream = \<lparr>upRef = ''r'', BaseURL = ''http://r'', APIKey = ''k'', CapField = ''max_tokens'', Reasoning = []\<rparr>"

definition waiting :: generationCosts where
  "waiting = snd (withGenerationCost StreamSurface ''gen-1'' priced_upstream ''sk'' Event_zero newGenerationCosts)"

theorem pending_costs_lose_no_event_witness:
  "length (lookups waiting) = 1 \<and> drained (end_lookups [''0.1''] (start_drain waiting))"
proof -
  let ?s1 = "\<lparr>costs = waiting, ended = [Event_zero], recorded = []\<rparr>"
  let ?s2 = "\<lparr>costs = start_drain waiting, ended = [Event_zero], recorded = []\<rparr>"
  have w: "withGenerationCost StreamSurface ''gen-1'' priced_upstream ''sk'' Event_zero newGenerationCosts = (None, waiting)"
    "length (lookups waiting) = 1" by code_simp+
  have "cost_step cost_start ?s1"
    using answer_ends [of _ _ _ _ _ cost_start] w(1) by (fastforce simp: cost_start_def)
  moreover have "cost_step ?s1 ?s2" using drain_starts [of ?s1] by simp
  ultimately have "cost_step\<^sup>*\<^sup>* cost_start ?s2" by (meson r_into_rtranclp rtranclp.rtrancl_into_rtrancl)
  from pending_costs_lose_no_event [OF this, of "[''0.1'']"] w(2) show ?thesis
    by (simp add: start_drain_def)
qed

end
