(* ===== verification/Pipeline.thy ===== *)
theory Pipeline
  imports Admission Stream_Surfaces Generation_Cost
begin

text \<open>
  The handler every completion surface runs (\<open>serveProtocol\<close>, \<open>finishNonStream\<close> and what they call in
  \<open>internal/server/pipeline.go\<close>, with the counters of \<open>metrics.go\<close> and the Anthropic error envelope of
  \<open>sse_named.go\<close>). The gateway's state is one record; a deferred release is written where the handler
  returns. What a request meets outside the gateway is the record \<open>request_world\<close>: instants, the upstream's
  answer, which writes to the client succeed, whether the contexts had ended. A handler that panics
  runs its deferred releases and records nothing.
\<close>

section \<open>State\<close>

record counters =
  byStatus :: "int gomap"
  inputTokensTotal :: int
  outputTokensTotal :: int
  bodiesCaptured :: int
  spoolWriteFailures :: int

definition counters_zero :: counters where
  "counters_zero = \<lparr>byStatus = [], inputTokensTotal = 0, outputTokensTotal = 0, bodiesCaptured = 0,
     spoolWriteFailures = 0\<rparr>"

definition observe_event :: "Event \<Rightarrow> counters \<Rightarrow> counters" where
  "observe_event ev c =
     (let status = (if EvStatus ev = [] then ''UNKNOWN'' else EvStatus ev);
          n = (case map_of (byStatus c) status of None \<Rightarrow> 0 | Some n \<Rightarrow> n) in
      c\<lparr>byStatus := AList.update status (n + 1) (byStatus c),
        inputTokensTotal := wrap64 (inputTokensTotal c + InputTokens ev),
        outputTokensTotal := wrap64 (outputTokensTotal c + OutputTokens ev)\<rparr>)"

record gateway =
  snap :: state
  limiter :: Limiter
  inflight :: int
  chatLarge :: pool
  upHealth :: upstreamHealth
  bodySink :: "Sink option"
  costLookups :: generationCosts
  meters :: counters
  spooled :: "Event list"

record gateway_config =
  maxInFlight :: int
  bodyBounds :: bodyLimits
  limitDefaults :: limit_defaults

record request_world =
  hashToken :: "string \<Rightarrow> string"
  decodeReq :: "string \<Rightarrow> json option"
  rawText :: "json \<Rightarrow> string"
  newUUID :: string
  startAt :: int
  authAt :: int
  acquireAt :: int
  chargeAt :: int
  latencyMs :: int
  ttftMs :: int
  calls :: call_world
  spoolOK :: bool
  clientGoneAtCall :: bool
  pastDeadlineAtCall :: bool
  ansBody :: string
  ansEnd :: body_end
  ansGenerationID :: string
  decodeAns :: "string \<Rightarrow> json option"
  clientWrites :: "nat \<Rightarrow> bool"
  clientGone :: bool
  pastDeadline :: bool

datatype reply =
    Refused apiError "(string \<times> string) list"
  | Answer string "(string \<times> string) list"
  | Stream "string list" "(string \<times> string) list"
  | NoReply
  | Panicked

section \<open>The Anthropic envelope\<close>

definition anthropicNoRetry :: "string list" where
  "anthropicNoRetry = [''credit_pending'']"

definition anthropicErrorType :: "apiError \<Rightarrow> string" where
  "anthropicErrorType e =
     (if errCode e = errCode errRequestTooLarge then ''request_too_large''
      else if errCode e \<in> set anthropicNoRetry then ''api_error''
      else if errTyp e \<in> {''authentication_error'', ''permission_error'', ''rate_limit_error''} then errTyp e
      else if errTyp e = ''invalid_request_error''
      then (if errStatus e = 404 then ''not_found_error'' else ''invalid_request_error'')
      else if errStatus e = 504 then ''timeout_error''
      else if errStatus e = 503 then ''overloaded_error''
      else ''api_error'')"

text \<open>The status, the headers added, and the error object: its type, code and request id.\<close>

definition writeAnthropicError ::
  "apiError \<Rightarrow> string \<Rightarrow> nat \<times> (string \<times> string) list \<times> (string \<times> string \<times> string)" where
  "writeAnthropicError e requestID =
     (errStatus e,
      (if errCode e \<in> set anthropicNoRetry then [(''X-Should-Retry'', ''false'')] else []) @
      (case map_of retryAfterSeconds (errCode e) of
         Some s \<Rightarrow> if s > 0 then [(''Retry-After'', itoa s)] else [] | None \<Rightarrow> []),
      (anthropicErrorType e, errCode e, requestID))"

section \<open>Recording\<close>

definition record_event :: "request_world \<Rightarrow> Event \<Rightarrow> gateway \<Rightarrow> gateway" where
  "record_event w ev0 g =
     (let ev = ev0\<lparr>LatencyMs := latencyMs w\<rparr>; g = g\<lparr>meters := observe_event ev (meters g)\<rparr> in
      if EvKeyID ev = [] \<and> EvStatus ev = StatusAuthRejected then g
      else if spoolOK w then g\<lparr>spooled := spooled g @ [ev]\<rparr>
      else g\<lparr>meters := (meters g)\<lparr>spoolWriteFailures := spoolWriteFailures (meters g) + 1\<rparr>\<rparr>)"

definition halted :: "halt \<Rightarrow> Event \<Rightarrow> Event" where
  "halted h ev = ev\<lparr>EvStatus := haltStatus h, ErrorType := haltType h\<rparr>"

definition halt_with ::
  "request_world \<Rightarrow> halt \<Rightarrow> (string \<times> string) list \<Rightarrow> Event \<Rightarrow> gateway \<Rightarrow> reply \<times> gateway" where
  "halt_with w h hs ev g = (Refused (haltErr h) hs, record_event w (halted h ev) g)"

text \<open>The bucket a request is charged to: none on the money axis.\<close>

definition charge :: "request_world \<Rightarrow> (string \<times> int) option \<Rightarrow> int \<Rightarrow> gateway \<Rightarrow> gateway" where
  "charge w bucket tokens g =
     (case bucket of None \<Rightarrow> g
      | Some (keyID, tpm) \<Rightarrow> g\<lparr>limiter := ChargeTokens (chargeAt w) keyID tpm tokens (limiter g)\<rparr>)"

definition settled_tokens :: "Event \<Rightarrow> int" where
  "settled_tokens ev = wrap64 (InputTokens ev + OutputTokens ev)"

text \<open>A captured answer goes to the sink, and is counted whether or not the sink keeps it.\<close>

definition offer_capture :: "string \<Rightarrow> Record option \<Rightarrow> gateway \<Rightarrow> gateway" where
  "offer_capture text capture g =
     (case capture of None \<Rightarrow> g
      | Some r \<Rightarrow>
          let r = r\<lparr>RecResponse := fst (capString text), ResponseTruncated := snd (capString text)\<rparr> in
          g\<lparr>bodySink := Offer (Some r) (bodySink g),
            meters := (meters g)\<lparr>bodiesCaptured := bodiesCaptured (meters g) + 1\<rparr>\<rparr>)"

section \<open>Whole answers\<close>

datatype answer_read = Whole string | TooLarge | Unread bool

text \<open>
  Reading the answer: the ordinary bound first, then the large one with a slot. The slot that is still
  held comes back, for the handler to release.
\<close>

definition readAnswer :: "int \<Rightarrow> string \<Rightarrow> body_end \<Rightarrow> pool \<Rightarrow> answer_read \<times> pool \<times> nat option" where
  "readAnswer largeMax body ending slots0 =
     (let n = int (length body);
          got = (if ending = AtEOF then Whole body else Unread (ending = EndDeadline)) in
      if n \<le> upstreamResponseCapBytes then (got, slots0, None)
      else case acquire slots0 of
        (None, p) \<Rightarrow> (TooLarge, p, None)
      | (Some i, p) \<Rightarrow>
          if largeMax \<le> upstreamResponseCapBytes then (TooLarge, release i p, None)
          else if n > largeMax then (TooLarge, p, Some i) else (got, p, Some i))"

definition readResponse :: "protocol \<Rightarrow> params \<Rightarrow> string \<Rightarrow> responseResult \<times> params" where
  "readResponse p m public =
     (if endpoint p = ''messages'' then readMessagesResponse m public
      else if endpoint p = ''responses'' then readResponsesResponse m public
      else if endpoint p = ''completions'' then readCompletionsResponse m public
      else readChatResponse m public)"

definition release_slot :: "nat option \<Rightarrow> gateway \<Rightarrow> gateway" where
  "release_slot slot g =
     (case slot of None \<Rightarrow> g | Some i \<Rightarrow> g\<lparr>chatLarge := release i (chatLarge g)\<rparr>)"

text \<open>An answer that is refused: its input side is estimated, charged and recorded.\<close>

definition refuse_answer ::
  "request_world \<Rightarrow> (string \<times> int) option \<Rightarrow> int \<Rightarrow> halt \<Rightarrow> Event \<Rightarrow> gateway \<Rightarrow> reply \<times> gateway" where
  "refuse_answer w bucket inputBytes h ev g =
     (let ev = settleUsage None inputBytes 0 (halted h ev) in
      (Refused (haltErr h) [], record_event w ev (charge w bucket (settled_tokens ev) g)))"

definition relay_answer ::
  "request_world \<Rightarrow> protocol \<Rightarrow> Model \<Rightarrow> (string \<times> int) option \<Rightarrow> int \<Rightarrow> Record option \<Rightarrow> params option \<Rightarrow>
     Event \<Rightarrow> gateway \<Rightarrow> reply \<times> gateway" where
  "relay_answer w p model bucket inputBytes capture mm ev0 g =
     (case readResponse p (members mm) (PublicName model) of
        (res, m) \<Rightarrow>
          let ev = noteServedModel (UpstreamModel model) (servedModel res) ev0;
              chars = (if resUsage res = None then int (length (answer res)) + reasoningChars res else 0);
              out = marshal_map (map_option (\<lambda>_. m) mm);
              ev = (if \<not> clientWrites w 0 then ev\<lparr>EvStatus := StatusCanceled, ErrorType := ''client_disconnected''\<rparr>
                    else if upstreamError res
                    then ev\<lparr>EvStatus := StatusUpstreamErr, ErrorType := errCode errUpstream\<rparr>
                    else ev\<lparr>EvStatus := StatusOK\<rparr>);
              est = (case estimateTokens inputBytes chars of (i, o') \<Rightarrow> wrap64 (i + o'));
              g1 = offer_capture (answer res) capture g;
              hs = (if CreditAxis model
                    then (case relayGenerationID (ansGenerationID w) of None \<Rightarrow> [] | Some i \<Rightarrow> [(''X-Generation-Id'', i)])
                    else [])
          in if noUsageEstimate p \<and> resUsage res = None
             then (Answer out hs, record_event w (dropUsageEstimate ev) (charge w bucket est g1))
             else let ev = settleUsage (resUsage res) inputBytes chars ev
                  in (Answer out hs, record_event w ev (charge w bucket (settled_tokens ev) g1)))"

definition finishNonStream ::
  "request_world \<Rightarrow> bodyLimits \<Rightarrow> protocol \<Rightarrow> Model \<Rightarrow> (string \<times> int) option \<Rightarrow> int \<Rightarrow> Record option \<Rightarrow>
     Event \<Rightarrow> gateway \<Rightarrow> reply \<times> gateway" where
  "finishNonStream w lims p model bucket inputBytes capture ev g0 =
     (case readAnswer (limLargeResponse lims) (ansBody w) (ansEnd w) (chatLarge g0) of
        (rd, slots1, slot) \<Rightarrow>
          let g = g0\<lparr>chatLarge := slots1\<rparr>;
              r = (case rd of
                     TooLarge \<Rightarrow> refuse_answer w bucket inputBytes (refuse errChatResponseTooLarge StatusUpstreamErr) ev g
                   | Unread deadline \<Rightarrow>
                       refuse_answer w bucket inputBytes
                         (if deadline then refuse errUpstreamTimeout StatusTimeout
                          else refuseAs errUpstream StatusUpstreamErr ''upstream_read_failed'') ev g
                   | Whole body \<Rightarrow>
                       (case decode_map (decodeAns w) body of
                          None \<Rightarrow>
                            halt_with w (refuseAs errUpstream StatusUpstreamErr ''upstream_invalid_response'') [] ev
                              (charge w bucket (fst (estimateTokens inputBytes 0)) g)
                        | Some mm \<Rightarrow> relay_answer w p model bucket inputBytes capture mm ev g))
          in (fst r, release_slot slot (snd r)))"

section \<open>Streams\<close>

definition note_served :: "string \<Rightarrow> string option \<Rightarrow> Event \<Rightarrow> Event" where
  "note_served sentName served ev = (case served of None \<Rightarrow> ev | Some s \<Rightarrow> noteServedModel sentName s ev)"

text \<open>The relay with a surface's extractor: the event, the charge, the result, what was written, the pool.\<close>

definition relay_surface ::
  "request_world \<Rightarrow> bodyLimits \<Rightarrow> protocol \<Rightarrow> streamArgs \<Rightarrow> int \<Rightarrow> Event \<Rightarrow> pool \<Rightarrow>
     Event \<times> int \<times> streamResult \<times> string list \<times> pool" where
  "relay_surface w lims p a inputBytes ev slots0 =
     (let large = limLargeResponse lims in
      if endpoint p = ''messages''
      then (case relayStream (messages_extractor (decodeAns w) a (EventUUID ev)) (clientWrites w) large (ansBody w)
                   (ansEnd w) (clientGone w) (pastDeadline w) inputBytes messagesStream_zero slots0 ev of
              (ev, charged, st) \<Rightarrow>
                (note_served (sentModel a) (msServed (ext st)) ev, charged, msRes (ext st), written st, slots st))
      else if endpoint p = ''responses''
      then (case relayStream (responses_extractor (decodeAns w) a) (clientWrites w) large (ansBody w)
                   (ansEnd w) (clientGone w) (pastDeadline w) inputBytes responsesStream_zero slots0 ev of
              (ev, charged, st) \<Rightarrow>
                (note_served (sentModel a) (rsServed (ext st)) ev, charged, rsRes (ext st), written st, slots st))
      else (case relayStream (chat_extractor (decodeAns w) a (endpoint p = ''completions'')) (clientWrites w) large
                   (ansBody w) (ansEnd w) (clientGone w) (pastDeadline w) inputBytes chatStream_zero slots0 ev of
              (ev, charged, st) \<Rightarrow>
                (note_served (sentModel a) (csServed (ext st)) ev, charged, (csRes (ext st))\<lparr>srAnswer := csAnswer (ext st)\<rparr>,
                 written st, slots st)))"

definition serveStream ::
  "request_world \<Rightarrow> bodyLimits \<Rightarrow> protocol \<Rightarrow> Key \<Rightarrow> Model \<Rightarrow> Upstream \<Rightarrow> parsedRequest \<Rightarrow> (string \<times> int) option \<Rightarrow>
     int \<Rightarrow> Record option \<Rightarrow> Event \<Rightarrow> gateway \<Rightarrow> reply \<times> gateway" where
  "serveStream w lims p key model up req bucket inputBytes capture ev0 g0 =
     (let a = \<lparr>publicName = PublicName model, sentModel = UpstreamModel model, forwardUsage = wantsUsage req,
               capturing = (capture \<noteq> None)\<rparr>;
          hs = (if CreditAxis model
                then (case relayGenerationID (ansGenerationID w) of None \<Rightarrow> [] | Some i \<Rightarrow> [(''X-Generation-Id'', i)])
                else [])
      in case relay_surface w lims p a inputBytes ev0 (chatLarge g0) of
        (ev, charged, res, out, slots1) \<Rightarrow>
          let g = offer_capture (srAnswer res) capture (charge w bucket charged (g0\<lparr>chatLarge := slots1\<rparr>));
              ev = (if noUsageEstimate p \<and> \<not> haveUsage res then dropUsageEstimate ev else ev)
          in if CreditAxis model
             then (case withGenerationCost StreamSurface (ansGenerationID w) up (CredentialFor key (upRef up))
                          (ev\<lparr>LatencyMs := latencyMs w\<rparr>) (costLookups g) of
                     (due, c) \<Rightarrow>
                       (Stream out hs,
                        case due of None \<Rightarrow> g\<lparr>costLookups := c\<rparr>
                        | Some e \<Rightarrow> record_event w e (g\<lparr>costLookups := c\<rparr>)))
             else (Stream out hs, record_event w ev g))"

section \<open>The call\<close>

definition relayRetryAfter :: "Model \<Rightarrow> attemptError \<Rightarrow> (string \<times> string) list" where
  "relayRetryAfter model ae =
     (if CreditAxis model \<and> aeRetryAfter ae \<noteq> [] then [(''Retry-After'', aeRetryAfter ae)] else [])"

definition fail_call ::
  "request_world \<Rightarrow> Model \<Rightarrow> attemptError \<Rightarrow> (string \<times> string) list \<Rightarrow> Event \<Rightarrow> gateway \<Rightarrow> reply \<times> gateway" where
  "fail_call w model ae hs ev g =
     (if clientGoneAtCall w
      then (NoReply, record_event w (ev\<lparr>EvStatus := StatusCanceled, ErrorType := ''client_disconnected''\<rparr>) g)
      else if pastDeadlineAtCall w \<or> timeout ae then halt_with w (refuse errUpstreamTimeout StatusTimeout) hs ev g
      else case aeRefusal ae of
        Some e \<Rightarrow>
          halt_with w (refuse e (if errCode e = errCode errCreditExhausted then StatusRateLimited else StatusUpstreamErr)) hs ev g
      | None \<Rightarrow>
          if throttled ae then halt_with w (refuse errServerBusy StatusUpstreamErr) (hs @ relayRetryAfter model ae) ev g
          else halt_with w (refuse errUpstream StatusUpstreamErr) (hs @ relayRetryAfter model ae) ev g)"

definition new_capture ::
  "request_world \<Rightarrow> protocol \<Rightarrow> Key \<Rightarrow> parsedRequest \<Rightarrow> Event \<Rightarrow> gateway \<Rightarrow> Record option" where
  "new_capture w p key req ev g =
     (if captures p \<and> Enabled (bodySink g) \<and> RecordBodies key
      then let c = capRequest (rawText w (reqInput req)) in
        Some \<lparr>RecEventUUID = EventUUID ev, RecKeyID = KeyID key, RecRequestedAt = startAt w, RecRequest = fst c,
              RecResponse = [], RequestTruncated = snd c, ResponseTruncated = False\<rparr>
      else None)"

definition call_and_answer ::
  "request_world \<Rightarrow> bodyLimits \<Rightarrow> protocol \<Rightarrow> wire_request \<Rightarrow> Key \<Rightarrow> Model \<Rightarrow> parsedRequest \<Rightarrow> params \<Rightarrow> int \<Rightarrow>
     (string \<times> int) option \<Rightarrow> nat option \<Rightarrow> (string \<times> string) list \<Rightarrow> Event \<Rightarrow> gateway \<Rightarrow>
     reply \<times> gateway \<times> attemptSpec list" where
  "call_and_answer w lims p rq key model req m cap bucket slot hs ev0 g0 =
     (case callUpstream (calls w) p model key m cap (rqHeader rq) (upHealth g0) of
        (res, cst) \<Rightarrow>
          let g = g0\<lparr>upHealth := health cst\<rparr>;
              up_of = (\<lambda>ref. ev0\<lparr>TtftMs := ttftMs w, EvUpstreamRef := ref, Attempts := Some (int (length (sent cst)))\<rparr>)
          in (case res of
                Failed up ae \<Rightarrow>
                  (case fail_call w model ae hs (up_of (case up of None \<Rightarrow> [] | Some u \<Rightarrow> upRef u)) g of
                     (r, g) \<Rightarrow> (r, g, sent cst))
              | Answered up \<Rightarrow>
                  let ev = up_of (upRef up); capture = new_capture w p key req ev g; g = release_slot slot g;
                      inputBytes = int (length (rawText w (reqInput req)))
                  in case (if Streamed ev then serveStream w lims p key model up req bucket inputBytes capture ev g
                           else finishNonStream w lims p model bucket inputBytes capture ev g) of
                       (r, g) \<Rightarrow> (r, g, sent cst)))"

section \<open>The handler\<close>

definition serve_model ::
  "request_world \<Rightarrow> bodyLimits \<Rightarrow> protocol \<Rightarrow> wire_request \<Rightarrow> Key \<Rightarrow> Model \<Rightarrow> parsedRequest \<Rightarrow> params \<Rightarrow>
     (string \<times> int) option \<Rightarrow> nat option \<Rightarrow> (string \<times> string) list \<Rightarrow> Event \<Rightarrow> gateway \<Rightarrow>
     reply \<times> gateway \<times> attemptSpec list" where
  "serve_model w lims p rq key model req m bucket slot hs ev g =
     (let stop = (\<lambda>h. case halt_with w h hs ev g of (r, g) \<Rightarrow> (r, g, [])) in
      case outputCap p model m of
        Inl h \<Rightarrow> stop h
      | Inr (cap, m) \<Rightarrow>
          if inputTooLong (rawText w) model req then stop (refuse errInputTooLong StatusBadRequest)
          else case shape p m req model (Streamed ev) of
            None \<Rightarrow> (Panicked, g, [])
          | Some m \<Rightarrow> call_and_answer w lims p rq key model req m cap bucket slot hs ev g)"

definition retry_seconds :: "int \<Rightarrow> string" where
  "retry_seconds wait = itoa ((wait + 999999999) div 1000000000)"

text \<open>The self-hosted axis: admission by the key's limits, a lease for as long as the handler runs.\<close>

definition serve_token ::
  "request_world \<Rightarrow> gateway_config \<Rightarrow> protocol \<Rightarrow> wire_request \<Rightarrow> Key \<Rightarrow> Model \<Rightarrow> parsedRequest \<Rightarrow> params \<Rightarrow>
     nat option \<Rightarrow> Event \<Rightarrow> gateway \<Rightarrow> reply \<times> gateway \<times> attemptSpec list" where
  "serve_token w cfg p rq key model req m slot ev g0 =
     (case keyLimits (limitDefaults cfg) key of
        (rpm, tpm, conc) \<Rightarrow>
          (case Acquire (acquireAt w) (KeyID key) rpm tpm conc (limiter g0) of
             (adm, l) \<Rightarrow>
               let g = g0\<lparr>limiter := l\<rparr> in
               if DReason adm \<noteq> OK
               then (case halt_with w (limitRefusal (DReason adm)) [(''Retry-After'', retry_seconds (RetryAfter adm))] ev g of
                       (r, g) \<Rightarrow> (r, g, []))
               else
                 let hs = [(''X-RateLimit-Limit-Requests'', itoa rpm),
                           (''X-RateLimit-Remaining-Requests'', itoa (RemainingRequests adm))];
                     res = (if QuotaExhausted key
                            then (case halt_with w (refuse errQuotaExhausted StatusRateLimited) hs ev g of (r, g) \<Rightarrow> (r, g, []))
                            else serve_model w (bodyBounds cfg) p rq key model req m (Some (KeyID key, tpm)) slot hs ev g)
                 in case res of (r, g, attempts) \<Rightarrow>
                      (r, (case Lease adm of None \<Rightarrow> g | Some i \<Rightarrow> g\<lparr>limiter := Release i (limiter g)\<rparr>), attempts)))"

definition serve_params ::
  "request_world \<Rightarrow> gateway_config \<Rightarrow> protocol \<Rightarrow> wire_request \<Rightarrow> Key \<Rightarrow> params \<Rightarrow> nat option \<Rightarrow> Event \<Rightarrow> gateway \<Rightarrow>
     reply \<times> gateway \<times> attemptSpec list" where
  "serve_params w cfg p rq key m slot ev0 g =
     (let ev = ev0\<lparr>Streamed := streamFlag m\<rparr>;
          stop = (\<lambda>h ev. case halt_with w h [] ev g of (r, g) \<Rightarrow> (r, g, [])) in
      case resolveModel p (snap g) m of
        Inl h \<Rightarrow> stop h ev
      | Inr (req, model) \<Rightarrow>
          let ev = ev\<lparr>PublicModelName := publicModel req, EvBudgetAxis := effectiveAxis model\<rparr> in
          case judgeModel (upstreams (calls w)) p key model m of
            Some h \<Rightarrow> stop h ev
          | None \<Rightarrow>
              if CreditAxis model
              then (case judgeCredit p (snap g) key model (publicModel req) m of
                      Some h \<Rightarrow> stop h ev
                    | None \<Rightarrow> serve_model w (bodyBounds cfg) p rq key model req m None slot [] ev g)
              else serve_token w cfg p rq key model req m slot ev g)"

definition serve_body ::
  "request_world \<Rightarrow> gateway_config \<Rightarrow> protocol \<Rightarrow> wire_request \<Rightarrow> Key \<Rightarrow> Event \<Rightarrow> gateway \<Rightarrow>
     reply \<times> gateway \<times> attemptSpec list" where
  "serve_body w cfg p rq key ev g0 =
     (case bodyLimit (bodyBounds cfg) rq (chatLarge g0) of
        (lim_or, slots1) \<Rightarrow>
          let g = g0\<lparr>chatLarge := slots1\<rparr>; stop = (\<lambda>h. case halt_with w h [] ev g of (r, g) \<Rightarrow> (r, g, [])) in
          case lim_or of
            Inl h \<Rightarrow> stop h
          | Inr (limit, slot) \<Rightarrow>
              (case (case readBody limit rq of
                       Inl h \<Rightarrow> stop h
                     | Inr raw \<Rightarrow>
                         (case decodeParams (decodeReq w) raw of
                            Inl h \<Rightarrow> stop h
                          | Inr m \<Rightarrow> serve_params w cfg p rq key m slot ev g)) of
                 (r, g, attempts) \<Rightarrow> (r, release_slot slot g, attempts)))"

definition serveProtocol ::
  "request_world \<Rightarrow> gateway_config \<Rightarrow> protocol \<Rightarrow> wire_request \<Rightarrow> gateway \<Rightarrow> reply \<times> gateway \<times> attemptSpec list" where
  "serveProtocol w cfg p rq g0 =
     (if rqMethod rq \<noteq> ''POST'' then (Refused errMethod [], g0, [])
      else
        let ev = Event_zero\<lparr>EventUUID := newUUID w, RequestedAt := startAt w, EvEndpoint := endpoint p,
                   Attempts := Some 0, EvGeneration := Generation (doc (snap g0))\<rparr> in
        case admitKey (hashToken w) (authAt w) p (rqHeader rq) (snap g0) of
          Inl (h, k) \<Rightarrow>
            (case halt_with w h [] (ev\<lparr>EvKeyID := (case k of None \<Rightarrow> [] | Some key \<Rightarrow> KeyID key)\<rparr>) g0 of
               (r, g) \<Rightarrow> (r, g, []))
        | Inr key \<Rightarrow>
            let ev = ev\<lparr>EvKeyID := KeyID key\<rparr> in
            if inflight g0 \<ge> maxInFlight cfg
            then (case halt_with w (refuse errServerBusy StatusRateLimited) [] ev g0 of (r, g) \<Rightarrow> (r, g, []))
            else (case serve_body w cfg p rq key ev (g0\<lparr>inflight := inflight g0 + 1\<rparr>) of
                    (r, g, attempts) \<Rightarrow> (r, g\<lparr>inflight := inflight g - 1\<rparr>, attempts)))"

section \<open>What reaches an upstream\<close>

text \<open>What an attempt of a request may be: to an upstream of the model, paid for by the right party.\<close>

definition attempt_of :: "request_world \<Rightarrow> Key \<Rightarrow> Model \<Rightarrow> attemptSpec \<Rightarrow> bool" where
  "attempt_of w key model spec \<longleftrightarrow>
     (\<exists>ref\<in>{UpstreamRef model, FallbackRef model}.
        map_of (upstreams (calls w)) (ToLower ref) = Some (specUpstream spec)) \<and>
     (if CreditAxis model
      then specCred spec = CredentialFor key (upRef (specUpstream spec)) \<and> specCred spec \<noteq> []
      else specCred spec = APIKey (specUpstream spec) \<and> specHeaders spec = [])"

lemma call_and_answer_sent:
  assumes "call_and_answer w lims p rq key model req m cap bucket slot hs ev g = (r, g', s)" "spec \<in> set s"
  shows "attempt_of w key model spec"
proof -
  obtain res st where c: "callUpstream (calls w) p model key m cap (rqHeader rq) (upHealth g) = (res, st)"
    by fastforce
  have "s = sent st"
    using assms(1) c by (auto simp: call_and_answer_def Let_def split: call_result.splits prod.splits)
  then show ?thesis using callUpstream_sent [OF c] assms(2) unfolding attempt_of_def by blast
qed

lemma serve_model_sent:
  assumes "serve_model w lims p rq key model req m bucket slot hs ev g = (r, g', s)" "spec \<in> set s"
  shows "attempt_of w key model spec"
  using assms call_and_answer_sent
  by (fastforce simp: serve_model_def halt_with_def Let_def split: sum.splits option.splits if_splits prod.splits)

definition token_admitted :: "request_world \<Rightarrow> gateway_config \<Rightarrow> Key \<Rightarrow> gateway \<Rightarrow> bool" where
  "token_admitted w cfg key g \<longleftrightarrow>
     (case keyLimits (limitDefaults cfg) key of (rpm, tpm, conc) \<Rightarrow>
        DReason (fst (Acquire (acquireAt w) (KeyID key) rpm tpm conc (limiter g))) = OK)"

lemma serve_token_sent:
  assumes "serve_token w cfg p rq key model req m slot ev g = (r, g', s)" "spec \<in> set s"
  shows "attempt_of w key model spec \<and> token_admitted w cfg key g \<and> \<not> QuotaExhausted key"
proof -
  obtain rpm tpm conc where k: "keyLimits (limitDefaults cfg) key = (rpm, tpm, conc)" by (metis prod_cases3)
  obtain adm l where a: "Acquire (acquireAt w) (KeyID key) rpm tpm conc (limiter g) = (adm, l)" by fastforce
  have ok: "DReason adm = OK" "\<not> QuotaExhausted key"
    using assms k a by (auto simp: serve_token_def halt_with_def Let_def split: if_splits)
  then obtain lims b hs g0 r1 g1 where
    "serve_model w lims p rq key model req m b slot hs ev g0 = (r1, g1, s)"
    using assms k a by (auto simp: serve_token_def Let_def split: prod.splits)
  from serve_model_sent [OF this assms(2)] show ?thesis using ok k a by (simp add: token_admitted_def)
qed

lemma judgeModel_None:
  assumes "judgeModel ups p key model m = None"
  shows "AllowsModel key model \<and> (CreditAxis model \<or> creditOnly p = None \<and> fenceTokenTools m = None)"
  using assms by (auto simp: judgeModel_def split: option.splits if_splits)

lemma judgeCredit_None:
  assumes "judgeCredit p st key model name m = None"
  shows "ServesCreditModel key model \<and> runFences (fences p) (doc st) (map_of (byPublic st)) key model m = None"
  using assms by (auto simp: judgeCredit_def split: option.splits if_splits)

lemma resolveModel_Inr:
  assumes "resolveModel p st m = Inr (req, model)"
  shows "parseReq p m = Inr req \<and>
    (map_of (byPublic st) (publicModel req) = Some model \<or>
     map_of (byPublic st) (publicModel req) = None \<and> passthroughModel (doc st) (publicModel req) = Some model)"
  using assms by (auto simp: resolveModel_def split: sum.splits option.splits if_splits)

lemma serve_params_sent:
  assumes "serve_params w cfg p rq key m slot ev g = (r, g', s)" "spec \<in> set s"
  shows "\<exists>req model. resolveModel p (snap g) m = Inr (req, model) \<and>
    judgeModel (upstreams (calls w)) p key model m = None \<and> attempt_of w key model spec \<and>
    (if CreditAxis model then judgeCredit p (snap g) key model (publicModel req) m = None
     else token_admitted w cfg key g \<and> \<not> QuotaExhausted key)"
proof -
  obtain req model where rm: "resolveModel p (snap g) m = Inr (req, model)"
    using assms by (auto simp: serve_params_def halt_with_def Let_def split: sum.splits)
  have j: "judgeModel (upstreams (calls w)) p key model m = None"
    using assms rm by (auto simp: serve_params_def halt_with_def Let_def split: option.splits)
  show ?thesis
  proof (cases "CreditAxis model")
    case True
    then have "judgeCredit p (snap g) key model (publicModel req) m = None"
      using assms rm j by (auto simp: serve_params_def halt_with_def Let_def split: option.splits)
    moreover have "attempt_of w key model spec"
      using assms rm j True calculation by (auto simp: serve_params_def Let_def intro: serve_model_sent)
    ultimately show ?thesis using rm j True by auto
  next
    case False
    then show ?thesis
      using assms rm j serve_token_sent [OF _ assms(2)] by (auto simp: serve_params_def Let_def)
  qed
qed

lemma serve_body_sent:
  assumes "serve_body w cfg p rq key ev g = (r, g', s)" "spec \<in> set s"
  shows "\<exists>m slot g1 r1 g2. Option.bind (decodeReq w (rqBody rq)) dec_object = Some m \<and>
    snap g1 = snap g \<and> limiter g1 = limiter g \<and> serve_params w cfg p rq key m slot ev g1 = (r1, g2, s)"
proof -
  obtain lo slots1 where bl: "bodyLimit (bodyBounds cfg) rq (chatLarge g) = (lo, slots1)" by fastforce
  obtain limit slot where lo: "lo = Inr (limit, slot)"
    using assms bl by (cases lo) (auto simp: serve_body_def halt_with_def Let_def)
  have rb: "readBody limit rq = Inr (rqBody rq)"
    using assms bl lo by (auto simp: serve_body_def halt_with_def readBody_def Let_def split: if_splits)
  obtain m where dp: "Option.bind (decodeReq w (rqBody rq)) dec_object = Some m"
    using assms bl lo rb
    by (cases "Option.bind (decodeReq w (rqBody rq)) dec_object")
      (auto simp: serve_body_def halt_with_def decodeParams_def Let_def)
  let ?g = "g\<lparr>chatLarge := slots1\<rparr>"
  obtain r1 g2 s1 where sp: "serve_params w cfg p rq key m slot ev ?g = (r1, g2, s1)" by (metis prod_cases3)
  then have "s1 = s" using assms bl lo rb dp by (simp add: serve_body_def decodeParams_def Let_def)
  then show ?thesis using dp sp by (intro exI [of _ m] exI [of _ slot] exI [of _ ?g]) auto
qed

lemma admitKey_Inr:
  assumes "admitKey hash now p get st = Inr key"
  shows "ServiceEnabled (doc st) \<and>
    (\<exists>token. readToken p get = Inr token \<and> map_of (byHash st) (hash token) = Some key) \<and>
    Status key \<notin> {KeyRevoked, KeySuspended} \<and> (\<forall>t. ExpiresAt key = Some t \<longrightarrow> now \<le> t) \<and>
    AllowsEndpoint key (capability p)"
  using assms
  by (auto simp: admitKey_def authenticateToken_def split: sum.splits prod.splits if_splits option.splits)

text \<open>
  Whoever causes an attempt may spend what it costs. The service is on, the token presented belongs to a key of
  the snapshot that is neither revoked nor suspended nor expired and was granted the surface; the body decodes
  and names a model the snapshot serves, which the key may use; on the money axis the whole credit fence and
  every fence of the surface let it pass and the attempt carries the key's own credential; on the self-hosted
  axis the surface and the tools are open to it, the key's limits admitted it, its allowance is not used up,
  and the attempt carries the gateway's credential and none of the caller's headers.
\<close>

definition entitled :: "request_world \<Rightarrow> gateway_config \<Rightarrow> protocol \<Rightarrow> wire_request \<Rightarrow> gateway \<Rightarrow> attemptSpec \<Rightarrow> bool" where
  "entitled w cfg p rq g spec \<longleftrightarrow> (\<exists>token key m req model.
    ServiceEnabled (doc (snap g)) \<and> readToken p (rqHeader rq) = Inr token \<and>
    map_of (byHash (snap g)) (hashToken w token) = Some key \<and> Status key \<notin> {KeyRevoked, KeySuspended} \<and>
    (\<forall>t. ExpiresAt key = Some t \<longrightarrow> authAt w \<le> t) \<and> AllowsEndpoint key (capability p) \<and>
    Option.bind (decodeReq w (rqBody rq)) dec_object = Some m \<and> parseReq p m = Inr req \<and>
    (map_of (byPublic (snap g)) (publicModel req) = Some model \<or>
     map_of (byPublic (snap g)) (publicModel req) = None \<and>
       passthroughModel (doc (snap g)) (publicModel req) = Some model) \<and>
    AllowsModel key model \<and> attempt_of w key model spec \<and>
    (if CreditAxis model
     then ServesCreditModel key model \<and>
       runFences (fences p) (doc (snap g)) (map_of (byPublic (snap g))) key model m = None
     else creditOnly p = None \<and> fenceTokenTools m = None \<and> token_admitted w cfg key g \<and> \<not> QuotaExhausted key))"

lemma serveProtocol_entitled:
  assumes "serveProtocol w cfg p rq g = (r, g', attempts)" "spec \<in> set attempts"
  shows "entitled w cfg p rq g spec"
proof -
  obtain key where k: "admitKey (hashToken w) (authAt w) p (rqHeader rq) (snap g) = Inr key"
    using assms
    by (cases "admitKey (hashToken w) (authAt w) p (rqHeader rq) (snap g)")
      (auto simp: serveProtocol_def halt_with_def Let_def split: if_splits prod.splits)
  obtain ev r1 g2 where b: "serve_body w cfg p rq key ev (g\<lparr>inflight := inflight g + 1\<rparr>) = (r1, g2, attempts)"
    using assms k by (auto simp: serveProtocol_def halt_with_def Let_def split: if_splits prod.splits)
  obtain m slot g1 r3 g3 where p: "Option.bind (decodeReq w (rqBody rq)) dec_object = Some m"
    "snap g1 = snap g" "limiter g1 = limiter g" "serve_params w cfg p rq key m slot ev g1 = (r3, g3, attempts)"
    using serve_body_sent [OF b assms(2)] by auto
  obtain req model where s: "resolveModel p (snap g) m = Inr (req, model)"
    "judgeModel (upstreams (calls w)) p key model m = None" "attempt_of w key model spec"
    "if CreditAxis model then judgeCredit p (snap g) key model (publicModel req) m = None
     else token_admitted w cfg key g1 \<and> \<not> QuotaExhausted key"
    using serve_params_sent [OF p(4) assms(2)] unfolding p(2) by blast
  have "token_admitted w cfg key g1 = token_admitted w cfg key g" using p(3) by (simp add: token_admitted_def)
  then show ?thesis
    unfolding entitled_def
    using admitKey_Inr [OF k] p(1) resolveModel_Inr [OF s(1)] judgeModel_None [OF s(2)] s(3,4) judgeCredit_None
    by (metis (no_types, lifting))
qed

section \<open>What a request leaves behind\<close>

text \<open>
  The gateway's shared resources across part of a handler that holds \<open>slot\<close>: the snapshot and the
  in-flight count are untouched, the other requests' slots are theirs still, and the limiter's load is
  the same.
\<close>

definition steady :: "nat option \<Rightarrow> gateway \<Rightarrow> gateway \<Rightarrow> bool" where
  "steady slot g g' \<longleftrightarrow> snap g' = snap g \<and> inflight g' = inflight g \<and> pool_inv (chatLarge g') \<and>
     Large_Body.leases (chatLarge g') - set_option slot = Large_Body.leases (chatLarge g) - set_option slot \<and>
     lim_inv (limiter g') \<and> same_load (limiter g) (limiter g')"

definition gw_inv :: "gateway \<Rightarrow> bool" where
  "gw_inv g \<longleftrightarrow> pool_inv (chatLarge g) \<and> lim_inv (limiter g)"

lemma steady_refl: "gw_inv g \<Longrightarrow> steady slot g g"
  by (simp add: steady_def gw_inv_def)

lemma steady_trans: "steady slot g g' \<Longrightarrow> steady slot g' g'' \<Longrightarrow> steady slot g g''"
  using same_load_trans by (auto simp: steady_def)

lemma steady_weaken: "steady None g g' \<Longrightarrow> steady slot g g'"
  by (auto simp: steady_def)

lemma steady_inv: "steady slot g g' \<Longrightarrow> gw_inv g'"
  by (simp add: steady_def gw_inv_def)

text \<open>Only the fields named by \<^const>\<open>steady\<close> matter to it.\<close>

definition shared :: "gateway \<Rightarrow> state \<times> int \<times> pool \<times> Limiter" where
  "shared g = (snap g, inflight g, chatLarge g, limiter g)"

lemma steady_shared: "shared g1 = shared g2 \<Longrightarrow> steady slot g g1 \<longleftrightarrow> steady slot g g2"
  by (simp add: steady_def shared_def)

lemma steady_from: "shared g1 = shared g2 \<Longrightarrow> steady slot g1 g \<longleftrightarrow> steady slot g2 g"
  by (simp add: steady_def shared_def)

lemma shared_kept [simp]:
  "shared (record_event w ev g) = shared g" "shared (offer_capture t c g) = shared g"
  "shared (g\<lparr>upHealth := h\<rparr>) = shared g" "shared (g\<lparr>costLookups := c'\<rparr>) = shared g"
  "shared (snd (halt_with w h' hs ev g)) = shared g"
  by (simp_all add: shared_def record_event_def offer_capture_def halt_with_def Let_def split: option.splits)

lemma steady_charge: "gw_inv g \<Longrightarrow> steady None g (charge w bucket n g)"
  using Charge_same_load Charge_inv by (auto simp: charge_def steady_def gw_inv_def split: option.splits)

lemma steady_halt: "steady slot g g1 \<Longrightarrow> steady slot g (snd (halt_with w h hs ev g1))"
  using steady_shared [OF shared_kept(5)] by blast

text \<open>Reading a whole answer leaves at most the slot it reports.\<close>

lemma readAnswer_slots:
  assumes "pool_inv p" "readAnswer largeMax body ending p = (rd, p', slot)"
  shows "pool_inv p' \<and> Large_Body.leases p' - set_option slot = Large_Body.leases p \<and>
    set_option slot \<inter> Large_Body.leases p = {}"
proof -
  obtain r q where a: "acquire p = (r, q)" by fastforce
  show ?thesis
  proof (cases r)
    case None
    then have "q = p" using large.full assms(1) a by blast
    then show ?thesis using assms a None by (auto simp: readAnswer_def Let_def split: if_splits)
  next
    case (Some i)
    have g: "pool_inv q" "i \<notin> Large_Body.leases p" "Large_Body.leases q = insert i (Large_Body.leases p)"
      using large.granted [OF assms(1)] a Some by blast+
    have f: "pool_inv (release i q)" "Large_Body.leases (release i q) = Large_Body.leases p"
      using large.freed [OF g(1), of i] g by auto
    show ?thesis using assms a Some g f by (auto simp: readAnswer_def Let_def split: if_splits)
  qed
qed

lemma refuse_answer_steady: "gw_inv g \<Longrightarrow> steady None g (snd (refuse_answer w b n h ev g))"
  using steady_charge steady_shared [OF shared_kept(1)] by (simp add: refuse_answer_def Let_def)

lemma relay_answer_steady: "gw_inv g \<Longrightarrow> steady None g (snd (relay_answer w p model b n c mm ev g))"
proof -
  assume "gw_inv g"
  then have "steady None (offer_capture t c g) (charge w b k (offer_capture t c g))" for t k
    using steady_charge [of "offer_capture t c g"] by (simp add: gw_inv_def offer_capture_def Let_def split: option.splits)
  then have "steady None g (record_event w e (charge w b k (offer_capture t c g)))" for t k e
    using steady_from [OF shared_kept(2)] steady_shared [OF shared_kept(1)] by blast
  then show ?thesis by (simp add: relay_answer_def Let_def split: prod.splits)
qed

lemma finishNonStream_steady:
  assumes "gw_inv g"
  shows "steady None g (snd (finishNonStream w lims p model b n c ev g))"
proof -
  obtain rd q slot where r: "readAnswer (limLargeResponse lims) (ansBody w) (ansEnd w) (chatLarge g) = (rd, q, slot)"
    by (metis prod_cases3)
  let ?g = "g\<lparr>chatLarge := q\<rparr>"
  have q: "pool_inv q" "Large_Body.leases q - set_option slot = Large_Body.leases (chatLarge g)"
    using readAnswer_slots [OF _ r] assms by (auto simp: gw_inv_def)
  have inv: "gw_inv ?g" using q(1) assms by (simp add: gw_inv_def)
  obtain r1 g1 where f: "finishNonStream w lims p model b n c ev g = (r1, release_slot slot g1)" and s: "steady None ?g g1"
    using r refuse_answer_steady [OF inv] relay_answer_steady [OF inv] steady_halt [OF steady_charge [OF inv]]
    by (cases rd) (auto simp: finishNonStream_def Let_def split: option.splits)
  have "pool_inv (chatLarge g1)" "Large_Body.leases (chatLarge g1) = Large_Body.leases q"
    "lim_inv (limiter g1)" "same_load (limiter g) (limiter g1)" "snap g1 = snap g" "inflight g1 = inflight g"
    using s by (auto simp: steady_def)
  then show ?thesis
    using f q large.freed [of "chatLarge g1"] by (auto simp: steady_def release_slot_def split: option.splits)
qed

lemma relay_surface_slots:
  assumes "pool_inv q" "relay_surface w lims p a n ev q = (ev', charged, res, out, q')"
  shows "pool_inv q' \<and> Large_Body.leases q' = Large_Body.leases q"
  using assms(2)
  by (auto simp: relay_surface_def Let_def split: if_splits prod.splits dest: relayStream_slots [OF assms(1)])

lemma serveStream_steady:
  assumes "gw_inv g"
  shows "steady None g (snd (serveStream w lims p key model up req b n c ev g))"
proof -
  let ?a = "\<lparr>publicName = PublicName model, sentModel = UpstreamModel model, forwardUsage = wantsUsage req,
               capturing = (c \<noteq> None)\<rparr>"
  obtain ev1 charged res out q where r: "relay_surface w lims p ?a n ev (chatLarge g) = (ev1, charged, res, out, q)"
    by (metis prod_cases5)
  let ?g = "g\<lparr>chatLarge := q\<rparr>"
  have "steady None g ?g" "gw_inv ?g"
    using relay_surface_slots [OF _ r] assms by (auto simp: gw_inv_def steady_def)
  then have "steady None g (charge w b charged ?g)" using steady_charge steady_trans by blast
  moreover have "shared (snd (serveStream w lims p key model up req b n c ev g)) = shared (charge w b charged ?g)"
    using r by (simp add: serveStream_def Let_def split: prod.splits option.splits)
  ultimately show ?thesis using steady_shared by blast
qed

lemma fail_call_shared: "shared (snd (fail_call w model ae hs ev g)) = shared g"
  by (simp add: fail_call_def split: option.splits)

lemma release_slot_steady: "gw_inv g \<Longrightarrow> steady slot g (release_slot slot g)"
  using large.freed [of "chatLarge g"] by (auto simp: release_slot_def steady_def gw_inv_def split: option.splits)

lemma gw_inv_shared: "shared g1 = shared g2 \<Longrightarrow> gw_inv g1 \<longleftrightarrow> gw_inv g2"
  by (simp add: gw_inv_def shared_def)

lemma call_and_answer_steady:
  assumes "gw_inv g" "call_and_answer w lims p rq key model req m cap b slot hs ev g = (r, g', s)"
  shows "steady slot g g'"
proof -
  obtain res st where c: "callUpstream (calls w) p model key m cap (rqHeader rq) (upHealth g) = (res, st)" by fastforce
  let ?g = "g\<lparr>upHealth := health st\<rparr>"
  have inv: "gw_inv ?g" using assms(1) gw_inv_shared [OF shared_kept(3)] by blast
  have "steady slot ?g g'"
  proof (cases res)
    case (Failed up ae)
    then obtain ev1 where "g' = snd (fail_call w model ae hs ev1 ?g)"
      using assms(2) c by (auto simp: call_and_answer_def Let_def split: prod.splits) (metis snd_conv)
    then show ?thesis using steady_shared [OF fail_call_shared] steady_refl [OF inv] by blast
  next
    case (Answered up)
    let ?g1 = "release_slot slot ?g"
    have s1: "steady slot ?g ?g1" by (rule release_slot_steady [OF inv])
    note inv1 = steady_inv [OF s1]
    obtain ev1 n c1 where "g' = snd (serveStream w lims p key model up req b n c1 ev1 ?g1) \<or>
        g' = snd (finishNonStream w lims p model b n c1 ev1 ?g1)"
      using assms(2) c Answered by (auto simp: call_and_answer_def Let_def split: prod.splits if_splits) (metis snd_conv)+
    then have "steady None ?g1 g'" using serveStream_steady [OF inv1] finishNonStream_steady [OF inv1] by blast
    then show ?thesis using s1 steady_weaken steady_trans by blast
  qed
  then show ?thesis using steady_from [OF shared_kept(3)] by blast
qed

lemma serve_model_steady:
  assumes "gw_inv g" "serve_model w lims p rq key model req m b slot hs ev g = (r, g', s)"
  shows "steady slot g g'"
proof -
  have halts: "steady slot g (snd (halt_with w h hs ev g))" for h
    by (rule steady_halt [OF steady_refl [OF assms(1)]])
  show ?thesis
    using assms(2) halts steady_refl [OF assms(1)] call_and_answer_steady [OF assms(1)]
    by (auto simp: serve_model_def Let_def split: sum.splits option.splits if_splits prod.splits) (metis snd_conv)+
qed

text \<open>The load of the limiter as its clients see it, through admission and release.\<close>

definition load_kept :: "nat option \<Rightarrow> gateway \<Rightarrow> gateway \<Rightarrow> bool" where
  "load_kept slot g g' \<longleftrightarrow> snap g' = snap g \<and> inflight g' = inflight g \<and> gw_inv g' \<and>
     Large_Body.leases (chatLarge g') - set_option slot = Large_Body.leases (chatLarge g) - set_option slot \<and>
     (\<forall>k. InFlight k (limiter g') = InFlight k (limiter g))"

lemma steady_load: "gw_inv g \<Longrightarrow> steady slot g g' \<Longrightarrow> load_kept slot g g'"
  using same_load_InFlight by (auto simp: steady_def load_kept_def gw_inv_def)

lemma load_kept_shared: "shared g1 = shared g2 \<Longrightarrow> load_kept slot g g1 \<longleftrightarrow> load_kept slot g g2"
  by (simp add: load_kept_def shared_def gw_inv_def)

lemma Acquire_lease: "Acquire now k rpm tpm conc l = (d, l') \<Longrightarrow> DReason d = OK \<Longrightarrow> Lease d \<noteq> None"
  by (auto elim!: Acquire_cases)

lemma serve_token_load:
  assumes "gw_inv g" "serve_token w cfg p rq key model req m slot ev g = (r, g', s)"
  shows "load_kept slot g g'"
proof -
  obtain rpm tpm conc where k: "keyLimits (limitDefaults cfg) key = (rpm, tpm, conc)" by (metis prod_cases3)
  obtain adm l where a: "Acquire (acquireAt w) (KeyID key) rpm tpm conc (limiter g) = (adm, l)" by fastforce
  have lim: "lim_inv (limiter g)" "pool_inv (chatLarge g)" using assms(1) by (simp_all add: gw_inv_def)
  let ?g = "g\<lparr>limiter := l\<rparr>"
  have inv: "gw_inv ?g" using Acquire_inv(1) [OF lim(1) a] lim(2) by (simp add: gw_inv_def)
  show ?thesis
  proof (cases "DReason adm = OK")
    case False
    then obtain ev1 h hs where "g' = snd (halt_with w h hs ev1 ?g)"
      using assms(2) k a by (auto simp: serve_token_def Let_def halt_with_def)
    moreover have "load_kept slot g ?g"
      using inv refused_InFlight [OF lim(1) a False] by (simp add: load_kept_def)
    ultimately show ?thesis using load_kept_shared [OF shared_kept(5)] by blast
  next
    case True
    then obtain i where i: "Lease adm = Some i" using Acquire_lease [OF a] by blast
    obtain hs lims b g1 r1 where g': "g' = g1\<lparr>limiter := Release i (limiter g1)\<rparr>"
      and g1: "g1 = snd (halt_with w (refuse errQuotaExhausted StatusRateLimited) hs ev ?g) \<or>
        serve_model w lims p rq key model req m b slot hs ev ?g = (r1, g1, s)"
      using assms(2) k a True i
      by (auto simp: serve_token_def Let_def halt_with_def split: prod.splits if_splits) blast+
    then have st: "steady slot ?g g1"
      using steady_halt [OF steady_refl [OF inv]] serve_model_steady [OF inv] by blast
    then have "same_load l (limiter g1)" by (simp add: steady_def)
    from lease_bracket [OF lim(1) a True i this] show ?thesis
      using st g' by (auto simp: load_kept_def steady_def gw_inv_def)
  qed
qed

lemma serve_params_load:
  assumes "gw_inv g" "serve_params w cfg p rq key m slot ev g = (r, g', s)"
  shows "load_kept slot g g'"
proof -
  have halts: "load_kept slot g (snd (halt_with w h hs ev1 g))" for h hs ev1
    by (rule steady_load [OF assms(1) steady_halt [OF steady_refl [OF assms(1)]]])
  show ?thesis
    using assms(2) halts steady_load [OF assms(1) serve_model_steady [OF assms(1)]] serve_token_load [OF assms(1)]
    by (auto simp: serve_params_def Let_def split: sum.splits option.splits if_splits prod.splits) (metis snd_conv)+
qed

lemma bodyLimit_slots:
  assumes "pool_inv q" "bodyLimit lims rq q = (lo, q')"
  shows "pool_inv q' \<and>
    (case lo of Inl h \<Rightarrow> Large_Body.leases q' = Large_Body.leases q
     | Inr (n, slot) \<Rightarrow> Large_Body.leases q' - set_option slot = Large_Body.leases q)"
proof -
  obtain r q1 where a: "acquire q = (r, q1)" by fastforce
  show ?thesis
    using assms a large.granted [OF assms(1), of _ q1] large.full [OF assms(1), of q1]
    by (cases r) (auto simp: bodyLimit_def split: if_splits)
qed

lemma serve_body_load:
  assumes "gw_inv g" "serve_body w cfg p rq key ev g = (r, g', s)"
  shows "load_kept None g g'"
proof -
  obtain lo q where bl: "bodyLimit (bodyBounds cfg) rq (chatLarge g) = (lo, q)" by fastforce
  let ?g = "g\<lparr>chatLarge := q\<rparr>"
  note q = bodyLimit_slots [OF _ bl]
  have inv: "gw_inv ?g" using q assms(1) by (simp add: gw_inv_def)
  have halts: "load_kept slot ?g (snd (halt_with w h hs ev ?g))" for slot h hs
    by (rule steady_load [OF inv steady_halt [OF steady_refl [OF inv]]])
  show ?thesis
  proof (cases lo)
    case (Inl h)
    then have "g' = snd (halt_with w h [] ev ?g)" using assms(2) bl by (auto simp: serve_body_def Let_def split: prod.splits)
    then have "load_kept None ?g g'" using halts by blast
    then show ?thesis using q Inl assms(1) by (auto simp: load_kept_def gw_inv_def)
  next
    case (Inr ls)
    then obtain n slot where lo: "lo = Inr (n, slot)" by (cases ls) auto
    obtain g1 where g': "g' = release_slot slot g1" and g1: "load_kept slot ?g g1"
      using assms(2) bl lo halts serve_params_load [OF inv]
      by (auto simp: serve_body_def Let_def split: prod.splits sum.splits) (metis snd_conv)+
    have "load_kept slot g1 (release_slot slot g1)"
      using g1 steady_load [OF _ release_slot_steady] by (simp add: load_kept_def)
    then show ?thesis
      using q lo g1 g' assms(1) large.freed [of "chatLarge g1"]
      by (auto simp: load_kept_def gw_inv_def release_slot_def split: option.splits)
  qed
qed

lemma serveProtocol_load:
  assumes "gw_inv g" "serveProtocol w cfg p rq g = (r, g', attempts)"
  shows "load_kept None g g'"
proof -
  note inv = assms(1)
  have halts: "load_kept None g (snd (halt_with w h hs ev g))" for h hs ev
    by (rule steady_load [OF inv steady_halt [OF steady_refl [OF inv]]])
  let ?up = "g\<lparr>inflight := inflight g + 1\<rparr>"
  have inv1: "gw_inv ?up" using inv by (simp add: gw_inv_def)
  have "load_kept None g g' \<or> (\<exists>g1. load_kept None ?up g1 \<and> g' = g1\<lparr>inflight := inflight g1 - 1\<rparr>)"
    using assms(2) halts steady_load [OF inv steady_refl [OF inv]] serve_body_load [OF inv1]
    by (auto simp: serveProtocol_def Let_def split: if_splits sum.splits prod.splits) (metis snd_conv)+
  then show ?thesis by (auto simp: load_kept_def gw_inv_def)
qed

text \<open>
  C9. A request leaves no resource behind. However it ends, with an answer, a stream, a refusal at any
  step or a panic, the in-flight count, the slots for large bodies and every key's count of concurrent
  requests are afterwards what they were before, the snapshot is the one it was served under, and the
  invariants of the pool and of the limiter hold again.
\<close>

theorem request_leaves_no_residue:
  assumes "pool_inv (chatLarge g)" "lim_inv (limiter g)" "serveProtocol w cfg p rq g = (r, g', attempts)"
  shows "inflight g' = inflight g \<and> Large_Body.leases (chatLarge g') = Large_Body.leases (chatLarge g) \<and>
    (\<forall>k. InFlight k (limiter g') = InFlight k (limiter g)) \<and> snap g' = snap g \<and>
    pool_inv (chatLarge g') \<and> lim_inv (limiter g')"
  using serveProtocol_load [OF _ assms(3)] assms(1,2) by (simp add: load_kept_def gw_inv_def)

section \<open>One record per request\<close>

text \<open>Who and what an event is about, and how often an upstream was tried for it.\<close>

definition stamp :: "Event \<Rightarrow> string \<times> int \<times> string \<times> string \<times> int \<times> int option" where
  "stamp ev = (EventUUID ev, EvGeneration ev, EvKeyID ev, EvEndpoint ev, RequestedAt ev, Attempts ev)"

definition books :: "gateway \<Rightarrow> Event list \<times> cost_lookup list" where
  "books g = (spooled g, lookups (costLookups g))"

text \<open>One event more: in the spool, or waiting for its price.\<close>

definition booked :: "gateway \<Rightarrow> gateway \<Rightarrow> Event \<Rightarrow> bool" where
  "booked g g' e \<longleftrightarrow> books g' = (spooled g @ [e], lookups (costLookups g)) \<or>
     (\<exists>lk. books g' = (spooled g, lookups (costLookups g) @ [lk]) \<and> lkEvent lk = e)"

definition unattributed :: "Event \<Rightarrow> bool" where
  "unattributed e \<longleftrightarrow> EvKeyID e = [] \<and> EvStatus e = StatusAuthRejected"

text \<open>The account of a handler that was given the event \<open>ev\<close> and answered \<open>r\<close>.\<close>

definition accounted :: "request_world \<Rightarrow> Event \<Rightarrow> gateway \<Rightarrow> reply \<Rightarrow> gateway \<Rightarrow> bool" where
  "accounted w ev g r g' \<longleftrightarrow>
     (\<exists>e. stamp e = stamp ev \<and> LatencyMs e = latencyMs w \<and> (EvStatus e = StatusOK \<longrightarrow> (\<nexists>err hs. r = Refused err hs)) \<and>
        (if unattributed e then books g' = books g else booked g g' e))"

lemma stamp_kept [simp]:
  "stamp (ev\<lparr>EvStatus := a\<rparr>) = stamp ev" "stamp (ev\<lparr>ErrorType := b\<rparr>) = stamp ev" "stamp (ev\<lparr>LatencyMs := n\<rparr>) = stamp ev"
  "stamp (settleUsage u i c ev) = stamp ev" "stamp (dropUsageEstimate ev) = stamp ev"
  "stamp (noteServedModel x y ev) = stamp ev" "stamp (note_served x z ev) = stamp ev" "stamp (halted h ev) = stamp ev"
  "stamp (ev\<lparr>Streamed := f\<rparr>) = stamp ev" "stamp (ev\<lparr>PublicModelName := m, EvBudgetAxis := ax\<rparr>) = stamp ev"
  by (simp_all add: stamp_def settleUsage_def dropUsageEstimate_def noteServedModel_def note_served_def halted_def Let_def
      split: option.splits prod.splits)

lemma settle_status [simp]: "EvStatus (settleUsage u i c ev) = EvStatus ev" "EvKeyID (settleUsage u i c ev) = EvKeyID ev"
  by (simp_all add: settleUsage_def split: option.splits prod.splits)

lemma books_kept [simp]:
  "books (charge w b n g) = books g" "books (offer_capture t c g) = books g" "books (release_slot slot g) = books g"
  "books (g\<lparr>chatLarge := q\<rparr>) = books g" "books (g\<lparr>limiter := l\<rparr>) = books g" "books (g\<lparr>upHealth := h\<rparr>) = books g"
  "books (g\<lparr>inflight := k\<rparr>) = books g"
  by (simp_all add: books_def charge_def offer_capture_def release_slot_def Let_def split: option.splits prod.splits)

lemma accounted_from: "books g1 = books g2 \<Longrightarrow> accounted w ev g1 r g' \<longleftrightarrow> accounted w ev g2 r g'"
  by (simp add: accounted_def booked_def books_def)

lemma accounted_to: "books g1 = books g2 \<Longrightarrow> accounted w ev g r g1 \<longleftrightarrow> accounted w ev g r g2"
  by (simp add: accounted_def booked_def)

lemma accounted_stamp: "stamp ev1 = stamp ev2 \<Longrightarrow> accounted w ev1 g r g' \<longleftrightarrow> accounted w ev2 g r g'"
  by (simp add: accounted_def)

lemma accounted_record:
  assumes "spoolOK w" "EvStatus ev1 = StatusOK \<longrightarrow> (\<nexists>err hs. r = Refused err hs)" "stamp ev1 = stamp ev"
    and "books g1 = books g"
  shows "accounted w ev g r (record_event w ev1 g1)"
  unfolding accounted_def
  by (rule exI [of _ "ev1\<lparr>LatencyMs := latencyMs w\<rparr>"])
    (use assms in \<open>auto simp: record_event_def unattributed_def booked_def books_def Let_def\<close>)

definition refusal_status :: "halt \<Rightarrow> bool" where
  "refusal_status h \<longleftrightarrow> haltStatus h \<noteq> StatusOK"

lemma refusals [simp]:
  "refusal_status (refuse e s) \<longleftrightarrow> s \<noteq> StatusOK" "refusal_status (refuseAs e s t) \<longleftrightarrow> s \<noteq> StatusOK"
  "refusal_status (refuseWith rf s) \<longleftrightarrow> s \<noteq> StatusOK"
  by (simp_all add: refusal_status_def refuse_def refuseAs_def refuseWith_def)

lemma accounted_halt:
  "spoolOK w \<Longrightarrow> refusal_status h \<Longrightarrow> halt_with w h hs ev g = (r, g') \<Longrightarrow> accounted w ev g r g'"
  using accounted_record [of w "halted h ev" r ev g g] by (auto simp: halt_with_def halted_def refusal_status_def)

lemma admission_refusals:
  "admitKey hash now p get st = Inl (h, k) \<Longrightarrow> refusal_status h"
  "bodyLimit lims rq q = (Inl h, q') \<Longrightarrow> refusal_status h"
  "readBody n rq = Inl h \<Longrightarrow> refusal_status h"
  "decodeParams dec raw = Inl h \<Longrightarrow> refusal_status h"
  "resolveModel p st m = Inl h \<Longrightarrow> refusal_status h"
  "judgeCredit p st key model name m = Some h \<Longrightarrow> refusal_status h"
  "refusal_status (limitRefusal reason)"
  by (auto simp: admitKey_def bodyLimit_def readBody_def decodeParams_def resolveModel_def judgeCredit_def limitRefusal_def
      split: if_splits sum.splits option.splits prod.splits Reason.splits)

lemma judgeModel_refusals: "judgeModel ups p key model m = Some h \<Longrightarrow> refusal_status h"
  by (auto simp: judgeModel_def tokenParam_def split: if_splits option.splits dest!: first_some_SomeD)

lemma outputCap_refusals: "outputCap p model m = Inl h \<Longrightarrow> refusal_status h"
proof -
  have "readCaps model fs asked m = Inl h \<Longrightarrow> refusal_status h" for fs asked
    by (induction model fs asked m rule: readCaps.induct) (auto simp: Let_def split: option.splits if_splits)
  then show "outputCap p model m = Inl h \<Longrightarrow> refusal_status h"
    by (auto simp: outputCap_def split: sum.splits)
qed

lemma refuse_answer_accounted:
  "spoolOK w \<Longrightarrow> refusal_status h \<Longrightarrow> refuse_answer w b n h ev g = (r, g') \<Longrightarrow> accounted w ev g r g'"
  by (auto simp: refuse_answer_def Let_def halted_def refusal_status_def intro!: accounted_record)

lemma relay_answer_accounted:
  assumes "spoolOK w" "relay_answer w p model b n c mm ev g = (r, g')"
  shows "accounted w ev g r g'"
  using assms
  by (auto simp: relay_answer_def Let_def split: prod.splits if_splits intro!: accounted_record)

lemma finishNonStream_accounted:
  assumes "spoolOK w" "finishNonStream w lims p model b n c ev g = (r, g')"
  shows "accounted w ev g r g'"
proof -
  obtain rd q slot where ra: "readAnswer (limLargeResponse lims) (ansBody w) (ansEnd w) (chatLarge g) = (rd, q, slot)"
    by (metis prod_cases3)
  let ?g = "g\<lparr>chatLarge := q\<rparr>"
  obtain g1 where g1: "g' = release_slot slot g1" "accounted w ev ?g r g1"
  proof (cases rd)
    case (Whole body)
    show ?thesis
    proof (cases "decode_map (decodeAns w) body")
      case None
      let ?h = "halt_with w (refuseAs errUpstream StatusUpstreamErr ''upstream_invalid_response'') [] ev
          (charge w b (fst (estimateTokens n 0)) ?g)"
      have "r = fst ?h" "g' = release_slot slot (snd ?h)" using assms(2) ra Whole None by (auto simp: finishNonStream_def Let_def)
      moreover have "accounted w ev (charge w b (fst (estimateTokens n 0)) ?g) (fst ?h) (snd ?h)"
        by (rule accounted_halt [OF assms(1) _ prod.collapse [symmetric]]) simp
      ultimately show ?thesis using that accounted_from [OF books_kept(1)] by blast
    next
      case (Some mm)
      let ?h = "relay_answer w p model b n c mm ev ?g"
      have "r = fst ?h" "g' = release_slot slot (snd ?h)" using assms(2) ra Whole Some by (auto simp: finishNonStream_def Let_def)
      moreover have "accounted w ev ?g (fst ?h) (snd ?h)"
        by (rule relay_answer_accounted [OF assms(1) prod.collapse [symmetric]])
      ultimately show ?thesis using that by blast
    qed
  qed (use that refuse_answer_accounted [OF assms(1) _ prod.collapse [symmetric]] assms(2) ra
      in \<open>auto simp: finishNonStream_def Let_def split: if_splits\<close>)
  then show ?thesis using accounted_from [OF books_kept(4)] accounted_to [OF books_kept(3)] by blast
qed

lemma relayStream_event:
  assumes "relayStream X wr large body ending gone dl n x q ev = (ev', charged, st)"
  shows "stamp ev' = stamp ev \<and> EvStatus ev' \<noteq> StatusAuthRejected"
proof -
  obtain re st1 where l: "relay_loop X wr large (complete_lines body) (last_fragment body) ending (relay_start x q) = (re, st1)"
    by fastforce
  obtain ev1 st2 where e: "end_stream X wr gone dl re st1 ev = (ev1, st2)" by fastforce
  have "stamp ev1 = stamp ev \<and> EvStatus ev1 \<noteq> StatusAuthRejected"
    using e by (auto simp: end_stream_def Let_def split: if_splits)
  moreover have "stamp ev' = stamp ev1" "EvStatus ev' = EvStatus ev1"
    using assms l e by (auto simp: relayStream_def Let_def)
  ultimately show ?thesis by simp
qed

lemma note_served_status [simp]: "EvStatus (note_served x s ev) = EvStatus ev"
  by (simp add: note_served_def noteServedModel_def split: option.splits)

lemma drop_status: "EvStatus (dropUsageEstimate ev) \<in> {EvStatus ev, StatusUpstreamErr}"
  by (simp add: dropUsageEstimate_def Let_def)

lemma relay_surface_event:
  assumes "relay_surface w lims p a n ev q = (ev', charged, res, out, q')"
  shows "stamp ev' = stamp ev \<and> EvStatus ev' \<noteq> StatusAuthRejected"
  using assms
  by (auto simp: relay_surface_def Let_def split: if_splits prod.splits dest: relayStream_event)

lemma serveStream_accounted:
  assumes "spoolOK w" "serveStream w lims p key model up req b n c ev g = (r, g')"
  shows "accounted w ev g r g'"
proof -
  let ?a = "\<lparr>publicName = PublicName model, sentModel = UpstreamModel model, forwardUsage = wantsUsage req,
               capturing = (c \<noteq> None)\<rparr>"
  obtain ev1 charged res out q where rs: "relay_surface w lims p ?a n ev (chatLarge g) = (ev1, charged, res, out, q)"
    by (metis prod_cases5)
  define ev2 where "ev2 = (if noUsageEstimate p \<and> \<not> haveUsage res then dropUsageEstimate ev1 else ev1)"
  define g1 where "g1 = offer_capture (srAnswer res) c (charge w b charged (g\<lparr>chatLarge := q\<rparr>))"
  have ev2: "stamp ev2 = stamp ev" "EvStatus ev2 \<noteq> StatusAuthRejected"
    using relay_surface_event [OF rs] drop_status [of ev1] by (auto simp: ev2_def)
  have g1: "books g1 = books g" by (simp add: g1_def)
  obtain hs where r: "r = Stream out hs" using assms(2) rs by (auto simp: serveStream_def Let_def split: if_splits prod.splits option.splits)
  show ?thesis
  proof (cases "CreditAxis model")
    case False
    then have "g' = record_event w ev2 g1" using assms(2) rs by (auto simp: serveStream_def ev2_def g1_def Let_def)
    then show ?thesis using accounted_record [OF assms(1) _ ev2(1) g1] r by simp
  next
    case True
    let ?e = "ev2\<lparr>LatencyMs := latencyMs w\<rparr>"
    obtain due cl where wg: "withGenerationCost StreamSurface (ansGenerationID w) up (CredentialFor key (upRef up)) ?e
        (costLookups g1) = (due, cl)" by fastforce
    have g': "g' = (case due of None \<Rightarrow> g1\<lparr>costLookups := cl\<rparr> | Some e \<Rightarrow> record_event w e (g1\<lparr>costLookups := cl\<rparr>))"
      using assms(2) rs True wg by (auto simp: serveStream_def ev2_def g1_def Let_def split: option.splits)
    show ?thesis
    proof (cases due)
      case None
      then have "books g' = (spooled g1, lookups (costLookups g1) @
          [\<lparr>lkSurface = StreamSurface, lkEvent = ?e, lkUpstream = up, lkCred = CredentialFor key (upRef up),
            lkId = ansGenerationID w\<rparr>])"
        using g' admitted_lookup [OF wg [unfolded None]] by (simp add: books_def)
      then have "booked g g' ?e" using g1 by (auto simp: booked_def books_def)
      then show ?thesis using ev2 r unfolding accounted_def
        by (intro exI [of _ ?e]) (simp add: unattributed_def)
    next
      case (Some e)
      then have "e = ?e" "lookups cl = lookups (costLookups g1)" using recorded_now [OF wg [unfolded Some]] by auto
      then have "books (g1\<lparr>costLookups := cl\<rparr>) = books g" using g1 by (simp add: books_def)
      from accounted_record [OF assms(1) _ _ this, of ?e r ev] show ?thesis
        using g' Some \<open>e = ?e\<close> ev2(1) r by simp
    qed
  qed
qed

lemma fail_call_accounted:
  assumes "spoolOK w" "fail_call w model ae hs ev g = (r, g')"
  shows "accounted w ev g r g'"
proof (cases "clientGoneAtCall w")
  case True
  then show ?thesis using assms accounted_record [OF assms(1), of _ NoReply ev g g] by (auto simp: fail_call_def)
next
  case False
  then show ?thesis
    using assms(2)
    by (auto simp: fail_call_def split: if_splits option.splits elim!: accounted_halt [OF assms(1), rotated])
qed

lemma call_and_answer_accounted:
  assumes "spoolOK w" "call_and_answer w lims p rq key model req m cap b slot hs ev g = (r, g', s)"
  shows "accounted w (ev\<lparr>Attempts := Some (int (length s))\<rparr>) g r g'"
proof -
  obtain res st where c: "callUpstream (calls w) p model key m cap (rqHeader rq) (upHealth g) = (res, st)" by fastforce
  let ?g = "g\<lparr>upHealth := health st\<rparr>"
  let ?ev = "\<lambda>ref. ev\<lparr>TtftMs := ttftMs w, EvUpstreamRef := ref, Attempts := Some (int (length (sent st)))\<rparr>"
  have s: "s = sent st" using assms(2) c by (auto simp: call_and_answer_def Let_def split: call_result.splits prod.splits)
  have st: "stamp (?ev ref) = stamp (ev\<lparr>Attempts := Some (int (length s))\<rparr>)" for ref using s by (simp add: stamp_def)
  have "\<exists>ref g1. books g1 = books g \<and> accounted w (?ev ref) g1 r g'"
  proof (cases res)
    case (Failed up ae)
    then obtain ref where "fail_call w model ae hs (?ev ref) ?g = (r, g')"
      using assms(2) c by (auto simp: call_and_answer_def Let_def split: prod.splits)
    then show ?thesis using fail_call_accounted [OF assms(1)] books_kept(6) by blast
  next
    case (Answered up)
    let ?g1 = "release_slot slot ?g"
    have "\<exists>n c1. serveStream w lims p key model up req b n c1 (?ev (upRef up)) ?g1 = (r, g') \<or>
        finishNonStream w lims p model b n c1 (?ev (upRef up)) ?g1 = (r, g')"
      using assms(2) c Answered by (auto simp: call_and_answer_def Let_def split: prod.splits if_splits)
    then have "accounted w (?ev (upRef up)) ?g1 r g'"
      by (auto intro: serveStream_accounted [OF assms(1)] finishNonStream_accounted [OF assms(1)])
    moreover have "books ?g1 = books g" by simp
    ultimately show ?thesis by blast
  qed
  then show ?thesis using accounted_from accounted_stamp [OF st] by blast
qed

text \<open>The attempts an event reports are those that were made; a handler given none has made none.\<close>

definition accounts :: "request_world \<Rightarrow> Event \<Rightarrow> gateway \<Rightarrow> reply \<times> gateway \<times> attemptSpec list \<Rightarrow> bool" where
  "accounts w ev g res \<longleftrightarrow>
     (case res of (r, g', s) \<Rightarrow>
        if r = Panicked then s = [] \<and> books g' = books g
        else accounted w (ev\<lparr>Attempts := Some (int (length s))\<rparr>) g r g')"

lemma halt_not_panic: "halt_with w h hs ev g = (r, g') \<Longrightarrow> r \<noteq> Panicked"
  by (auto simp: halt_with_def)

lemma accounts_stop:
  assumes "spoolOK w" "refusal_status h" "stamp ev1 = stamp (ev\<lparr>Attempts := Some 0\<rparr>)"
  shows "accounts w ev g (case halt_with w h hs ev1 g of (r, g') \<Rightarrow> (r, g', []))"
proof -
  obtain r g' where h: "halt_with w h hs ev1 g = (r, g')" by fastforce
  then show ?thesis
    using accounted_halt [OF assms(1,2) h] accounted_stamp [OF assms(3)] halt_not_panic [OF h] by (simp add: accounts_def)
qed

lemma call_and_answer_accounts:
  assumes "spoolOK w"
  shows "accounts w ev g (call_and_answer w lims p rq key model req m cap b slot hs ev g)"
proof -
  obtain r g' s where c: "call_and_answer w lims p rq key model req m cap b slot hs ev g = (r, g', s)" by (metis prod_cases3)
  have a: "accounted w (ev\<lparr>Attempts := Some (int (length s))\<rparr>) g r g'" by (rule call_and_answer_accounted [OF assms c])
  have "fst (fail_call w model ae hs e g1) \<noteq> Panicked" "fst (serveStream w lims p key model up req b n c1 e g1) \<noteq> Panicked"
    "fst (finishNonStream w lims p model b n c1 e g1) \<noteq> Panicked" for ae e g1 up n c1
    by (auto simp: fail_call_def serveStream_def finishNonStream_def halt_with_def refuse_answer_def relay_answer_def Let_def
        split: option.splits prod.splits answer_read.splits)
  then have "r \<noteq> Panicked"
    using c by (auto simp: call_and_answer_def Let_def split: call_result.splits prod.splits if_splits) (metis fst_conv)+
  then show ?thesis using a c by (simp add: accounts_def)
qed

lemma serve_model_accounts:
  assumes "spoolOK w" "Attempts ev = Some 0"
  shows "accounts w ev g (serve_model w lims p rq key model req m b slot hs ev g)"
proof -
  have st: "stamp ev = stamp (ev\<lparr>Attempts := Some 0\<rparr>)" using assms(2) by (simp add: stamp_def)
  note stop = accounts_stop [OF assms(1) _ st]
  show ?thesis
    using stop [OF outputCap_refusals] stop [of "refuse errInputTooLong StatusBadRequest"] call_and_answer_accounts [OF assms(1)]
    by (auto simp: serve_model_def Let_def split: sum.splits option.splits) (simp add: accounts_def)
qed

lemma accounts_cong:
  assumes "books g1 = books g2" "stamp ev1 = stamp ev2" "books g' = books g''"
  shows "accounts w ev1 g1 (r, g', s) \<longleftrightarrow> accounts w ev2 g2 (r, g'', s)"
proof -
  let ?a = "Some (int (length s))"
  have "stamp (ev1\<lparr>Attempts := ?a\<rparr>) = stamp (ev2\<lparr>Attempts := ?a\<rparr>)" using assms(2) by (simp add: stamp_def)
  then have "accounted w (ev1\<lparr>Attempts := ?a\<rparr>) g1 r g' \<longleftrightarrow> accounted w (ev2\<lparr>Attempts := ?a\<rparr>) g2 r g''"
    using accounted_from [OF assms(1), of w "ev1\<lparr>Attempts := ?a\<rparr>" r g'] accounted_to [OF assms(3), of w "ev1\<lparr>Attempts := ?a\<rparr>" g2 r]
      accounted_stamp by blast
  then show ?thesis using assms(1,3) by (simp add: accounts_def)
qed

lemma accounts_after:
  assumes "accounts w ev g1 res" "books g1 = books g" "\<And>g'. books (f g') = books g'"
  shows "accounts w ev g (case res of (r, g', s) \<Rightarrow> (r, f g', s))"
proof -
  obtain r g' s where "res = (r, g', s)" by (metis prod_cases3)
  then show ?thesis
    using assms(1) accounts_cong [OF assms(2) refl, where g' = g' and g'' = "f g'" and w = w and r = r and s = s] assms(3)
    by simp
qed

lemma serve_token_accounts:
  assumes "spoolOK w" "Attempts ev = Some 0"
  shows "accounts w ev g (serve_token w cfg p rq key model req m slot ev g)"
proof -
  obtain rpm tpm conc where k: "keyLimits (limitDefaults cfg) key = (rpm, tpm, conc)" by (metis prod_cases3)
  obtain adm l where a: "Acquire (acquireAt w) (KeyID key) rpm tpm conc (limiter g) = (adm, l)" by fastforce
  let ?g = "g\<lparr>limiter := l\<rparr>"
  have st: "stamp ev = stamp (ev\<lparr>Attempts := Some 0\<rparr>)" using assms(2) by (simp add: stamp_def)
  note stop = accounts_stop [OF assms(1) _ st, where g = ?g]
  show ?thesis
  proof (cases "DReason adm = OK")
    case False
    then show ?thesis
      using k a accounts_after [where f = "\<lambda>g. g", OF stop [OF admission_refusals(7) [of "DReason adm"]] books_kept(5)]
      by (simp add: serve_token_def Let_def)
  next
    case True
    let ?hs = "[(''X-RateLimit-Limit-Requests'', itoa rpm),
        (''X-RateLimit-Remaining-Requests'', itoa (RemainingRequests adm))]"
    let ?res = "if QuotaExhausted key
        then (case halt_with w (refuse errQuotaExhausted StatusRateLimited) ?hs ev ?g of (r, g) \<Rightarrow> (r, g, []))
        else serve_model w (bodyBounds cfg) p rq key model req m (Some (KeyID key, tpm)) slot ?hs ev ?g"
    have res: "accounts w ev ?g ?res"
      using stop [of "refuse errQuotaExhausted StatusRateLimited" ?hs] serve_model_accounts [OF assms] by simp
    have "accounts w ev g (case ?res of (r, g', s) \<Rightarrow>
        (r, (case Lease adm of None \<Rightarrow> g' | Some i \<Rightarrow> g'\<lparr>limiter := Release i (limiter g')\<rparr>), s))"
      by (rule accounts_after [OF res]) (simp_all split: option.splits)
    then show ?thesis using k a True by (simp add: serve_token_def Let_def)
  qed
qed

lemma serve_params_accounts:
  assumes "spoolOK w" "Attempts ev = Some 0"
  shows "accounts w ev g (serve_params w cfg p rq key m slot ev g)"
proof -
  let ?ev = "ev\<lparr>Streamed := streamFlag m\<rparr>"
  have weaken: "accounts w ev g res" if "accounts w ev1 g res" "stamp ev1 = stamp ev" for ev1 res
    using that accounts_cong [OF refl that(2) refl, of w g] by (cases res) auto
  have stop: "accounts w ev g (case halt_with w h [] ev1 g of (r, g') \<Rightarrow> (r, g', []))"
    if "refusal_status h" "stamp ev1 = stamp ev" for h ev1
    using accounts_stop [OF assms(1) that(1)] that(2) assms(2) by (simp add: stamp_def)
  show ?thesis
  proof (cases "resolveModel p (snap g) m")
    case (Inl h)
    then show ?thesis using stop [OF admission_refusals(5) [OF Inl], of ?ev] by (simp add: serve_params_def Let_def)
  next
    case (Inr rm)
    obtain req model where rm: "resolveModel p (snap g) m = Inr (req, model)" using Inr by (cases rm) auto
    let ?ev1 = "?ev\<lparr>PublicModelName := publicModel req, EvBudgetAxis := effectiveAxis model\<rparr>"
    have ev1: "stamp ?ev1 = stamp ev" "Attempts ?ev1 = Some 0" using assms(2) by (simp_all add: stamp_def)
    note token = weaken [OF serve_token_accounts [OF assms(1) ev1(2)] ev1(1)]
      and paid = weaken [OF serve_model_accounts [OF assms(1) ev1(2)] ev1(1)]
    show ?thesis
    proof (cases "judgeModel (upstreams (calls w)) p key model m")
      case (Some h)
      then show ?thesis using rm stop [OF judgeModel_refusals [OF Some] ev1(1)] by (simp add: serve_params_def Let_def)
    next
      case None
      then show ?thesis
        using rm token paid stop [OF admission_refusals(6) ev1(1)]
        by (auto simp: serve_params_def Let_def split: option.splits)
    qed
  qed
qed

lemma serve_body_accounts:
  assumes "spoolOK w" "Attempts ev = Some 0"
  shows "accounts w ev g (serve_body w cfg p rq key ev g)"
proof -
  obtain lo q where bl: "bodyLimit (bodyBounds cfg) rq (chatLarge g) = (lo, q)" by fastforce
  let ?g = "g\<lparr>chatLarge := q\<rparr>"
  have st: "stamp ev = stamp (ev\<lparr>Attempts := Some 0\<rparr>)" using assms(2) by (simp add: stamp_def)
  note stop = accounts_stop [OF assms(1) _ st, where g = ?g and hs = "[]"]
  show ?thesis
  proof (cases lo)
    case (Inl h)
    then show ?thesis
      using bl accounts_after [where f = "\<lambda>g. g", OF stop [OF admission_refusals(2) [of "bodyBounds cfg" rq "chatLarge g" h q]] books_kept(4)]
      by (simp add: serve_body_def Let_def)
  next
    case (Inr ls)
    then obtain n slot where lo: "lo = Inr (n, slot)" by (cases ls) auto
    let ?res = "case readBody n rq of
        Inl h \<Rightarrow> (case halt_with w h [] ev ?g of (r, g) \<Rightarrow> (r, g, []))
      | Inr raw \<Rightarrow> (case decodeParams (decodeReq w) raw of
           Inl h \<Rightarrow> (case halt_with w h [] ev ?g of (r, g) \<Rightarrow> (r, g, []))
         | Inr m \<Rightarrow> serve_params w cfg p rq key m slot ev ?g)"
    have res: "accounts w ev ?g ?res"
      using stop [OF admission_refusals(3)] stop [OF admission_refusals(4)] serve_params_accounts [OF assms]
      by (auto split: sum.splits)
    have "accounts w ev g (case ?res of (r, g', s) \<Rightarrow> (r, release_slot slot g', s))"
      by (rule accounts_after [OF res]) simp_all
    then show ?thesis using bl lo by (simp add: serve_body_def Let_def)
  qed
qed

text \<open>Whose request it is, known or not allowed to ask, and the event a handler begins with.\<close>

definition caller :: "request_world \<Rightarrow> protocol \<Rightarrow> wire_request \<Rightarrow> state \<Rightarrow> Key option" where
  "caller w p rq st = (case admitKey (hashToken w) (authAt w) p (rqHeader rq) st of Inr key \<Rightarrow> Some key | Inl (_, k) \<Rightarrow> k)"

definition opening_event :: "request_world \<Rightarrow> string \<Rightarrow> state \<Rightarrow> Key option \<Rightarrow> Event" where
  "opening_event w surface st k = Event_zero\<lparr>EventUUID := newUUID w, RequestedAt := startAt w, EvEndpoint := surface,
      Attempts := Some 0, EvGeneration := Generation (doc st), EvKeyID := (case k of None \<Rightarrow> [] | Some key \<Rightarrow> KeyID key)\<rparr>"

lemma serveProtocol_accounts:
  assumes "spoolOK w" "rqMethod rq = ''POST''" "serveProtocol w cfg p rq g = (r, g', attempts)"
  shows "accounts w (opening_event w (endpoint p) (snap g) (caller w p rq (snap g))) g (r, g', attempts)"
proof (cases "admitKey (hashToken w) (authAt w) p (rqHeader rq) (snap g)")
  case (Inl hk)
  obtain h k where hk: "admitKey (hashToken w) (authAt w) p (rqHeader rq) (snap g) = Inl (h, k)" using Inl by (cases hk) auto
  let ?e = "opening_event w (endpoint p) (snap g) k"
  have eq: "(r, g', attempts) = (case halt_with w h [] ?e g of (r, g) \<Rightarrow> (r, g, []))"
    using assms(2,3) hk by (simp add: serveProtocol_def opening_event_def Let_def split: prod.splits)
  have "caller w p rq (snap g) = k" by (simp add: caller_def hk)
  then show ?thesis
    unfolding eq by (simp only:) (rule accounts_stop [OF assms(1) admission_refusals(1) [OF hk]], simp add: stamp_def opening_event_def)
next
  case (Inr key)
  let ?e = "opening_event w (endpoint p) (snap g) (Some key)" and ?up = "g\<lparr>inflight := inflight g + 1\<rparr>"
  have "accounts w ?e g (case halt_with w (refuse errServerBusy StatusRateLimited) [] ?e g of (r, g) \<Rightarrow> (r, g, []))"
    by (rule accounts_stop [OF assms(1)]) (simp_all add: stamp_def opening_event_def)
  moreover have "accounts w ?e g (case serve_body w cfg p rq key ?e ?up of (r, g', s) \<Rightarrow>
      (r, g'\<lparr>inflight := inflight g' - 1\<rparr>, s))"
    by (rule accounts_after [OF serve_body_accounts [OF assms(1)]]) (simp_all add: opening_event_def)
  moreover have "caller w p rq (snap g) = Some key" by (simp add: caller_def Inr)
  ultimately show ?thesis
    using assms(2,3) Inr by (auto simp: serveProtocol_def opening_event_def Let_def split: if_splits)
qed

text \<open>
  C6. Every request is accounted for once, to the right key. A request that was posted and did not panic
  adds exactly one usage event, to the spool or to the lookups that wait for a price, carrying its own
  identifier, the generation it was served under, its surface, its key and the number of attempts that
  were really made; only a rejection that resolved to no key adds none. An event that says success
  never belongs to a refusal. A request with another method, or one that panics, adds nothing.
\<close>

theorem one_event_per_request:
  assumes "spoolOK w" "serveProtocol w cfg p rq g = (r, g', attempts)"
  shows "if rqMethod rq \<noteq> ''POST'' \<or> r = Panicked then books g' = books g
    else \<exists>e. EventUUID e = newUUID w \<and> EvGeneration e = Generation (doc (snap g)) \<and> EvEndpoint e = endpoint p \<and>
      RequestedAt e = startAt w \<and> LatencyMs e = latencyMs w \<and> Attempts e = Some (int (length attempts)) \<and>
      EvKeyID e = (case admitKey (hashToken w) (authAt w) p (rqHeader rq) (snap g) of
         Inr key \<Rightarrow> KeyID key | Inl (_, Some key) \<Rightarrow> KeyID key | Inl (_, None) \<Rightarrow> []) \<and>
      (EvStatus e = StatusOK \<longrightarrow> (\<nexists>err hs. r = Refused err hs)) \<and>
      (if unattributed e then books g' = books g else booked g g' e)"
proof (cases "rqMethod rq = ''POST'' \<and> r \<noteq> Panicked")
  case True
  let ?adm = "admitKey (hashToken w) (authAt w) p (rqHeader rq) (snap g)"
  have id: "(case caller w p rq (snap g) of None \<Rightarrow> [] | Some key \<Rightarrow> KeyID key) =
      (case ?adm of Inr key \<Rightarrow> KeyID key | Inl (_, Some key) \<Rightarrow> KeyID key | Inl (_, None) \<Rightarrow> [])"
    by (simp add: caller_def split: sum.splits prod.splits option.splits)
  show ?thesis
    using True serveProtocol_accounts [OF assms(1) _ assms(2)]
    by (auto simp: accounts_def accounted_def stamp_def opening_event_def id [symmetric])
next
  case False
  have "g' = g" if "rqMethod rq \<noteq> ''POST''" using assms(2) that by (simp add: serveProtocol_def)
  then show ?thesis using False serveProtocol_accounts [OF assms(1) _ assms(2)] by (auto simp: accounts_def)
qed

section \<open>The money axis and the buckets\<close>

lemma no_bucket: "limiter (charge w None n g) = limiter g"
  by (simp add: charge_def)

lemma limiter_kept [simp]:
  "limiter (record_event w ev g) = limiter g" "limiter (offer_capture t c g) = limiter g"
  "limiter (release_slot slot g) = limiter g" "limiter (snd (halt_with w h hs ev g)) = limiter g"
  by (simp_all add: record_event_def offer_capture_def release_slot_def halt_with_def Let_def split: option.splits)

lemma answers_without_bucket:
  "limiter (snd (finishNonStream w lims p model None n c ev g)) = limiter g"
  "limiter (snd (serveStream w lims p key model up req None n c ev g)) = limiter g"
  "limiter (snd (fail_call w model ae hs ev g)) = limiter g"
  by (auto simp: finishNonStream_def refuse_answer_def relay_answer_def serveStream_def fail_call_def no_bucket Let_def
      split: prod.splits option.splits answer_read.splits)

lemma call_without_bucket:
  assumes "call_and_answer w lims p rq key model req m cap None slot hs ev g = (r, g', s)"
  shows "limiter g' = limiter g"
proof -
  obtain res st where c: "callUpstream (calls w) p model key m cap (rqHeader rq) (upHealth g) = (res, st)" by fastforce
  let ?g = "g\<lparr>upHealth := health st\<rparr>"
  show ?thesis
  proof (cases res)
    case (Failed up ae)
    then obtain ev1 where "g' = snd (fail_call w model ae hs ev1 ?g)"
      using assms c by (auto simp: call_and_answer_def Let_def split: prod.splits) (metis snd_conv)
    then show ?thesis by (simp add: answers_without_bucket)
  next
    case (Answered up)
    then obtain ev1 n c1 where "g' = snd (serveStream w lims p key model up req None n c1 ev1 (release_slot slot ?g)) \<or>
        g' = snd (finishNonStream w lims p model None n c1 ev1 (release_slot slot ?g))"
      using assms c by (auto simp: call_and_answer_def Let_def split: prod.splits if_splits) (metis snd_conv)+
    then show ?thesis by (auto simp: answers_without_bucket)
  qed
qed

lemma serve_model_without_bucket:
  assumes "serve_model w lims p rq key model req m None slot hs ev g = (r, g', s)"
  shows "limiter g' = limiter g"
  using assms
  by (auto simp: serve_model_def halt_with_def Let_def split: sum.splits option.splits if_splits dest: call_without_bucket)

text \<open>
  C33. Paid traffic never touches serving capacity. Whatever becomes of a request for a paid model, the
  limiter is exactly what it was: it was neither asked nor charged, so commercial calls can neither be
  refused by a key's limits nor run its buckets down.
\<close>

theorem paid_request_spares_limiter:
  assumes "serveProtocol w cfg p rq g = (r, g', attempts)"
    and "Option.bind (decodeReq w (rqBody rq)) dec_object = Some m"
    and "resolveModel p (snap g) m = Inr (req, model)" "CreditAxis model"
  shows "limiter g' = limiter g"
proof -
  have params: "limiter g2 = limiter g1" if "serve_params w cfg p rq key m slot ev g1 = (r1, g2, s)" "snap g1 = snap g"
    for key slot ev g1 r1 g2 s
    using that assms(3,4) by (auto simp: serve_params_def halt_with_def Let_def split: option.splits dest: serve_model_without_bucket)
  have body: "limiter g2 = limiter g1" if b: "serve_body w cfg p rq key ev g1 = (r1, g2, s)" "snap g1 = snap g"
    for key ev g1 r1 g2 s
  proof -
    obtain lo q where bl: "bodyLimit (bodyBounds cfg) rq (chatLarge g1) = (lo, q)" by fastforce
    show ?thesis
      using b bl assms(2) params [of _ _ _ "g1\<lparr>chatLarge := q\<rparr>"]
      by (auto simp: serve_body_def readBody_def decodeParams_def halt_with_def Let_def
          split: sum.splits prod.splits if_splits)
  qed
  show ?thesis
    using assms(1) body [of _ _ "g\<lparr>inflight := inflight g + 1\<rparr>"]
    by (auto simp: serveProtocol_def halt_with_def Let_def split: sum.splits prod.splits if_splits)
qed

section \<open>A gateway with one key\<close>

definition demo_key :: Key where
  "demo_key = sample_key\<lparr>KeyID := ''k1'', TokenHash := ''h1'', Status := KeyActive, ExpiresAt := Some 100,
     AllowedModels := [], QuotaExhausted := False, UpstreamCredentials := [(''openrouter'', ''sk'')]\<rparr>"

definition demo_state :: state where
  "demo_state = \<lparr>doc = sample_doc\<lparr>Models := [two_upstreams\<lparr>Visibility := ModelPublic\<rparr>]\<rparr>, byHash = [(''h1'', demo_key)], byPublic = [(''m'', two_upstreams\<lparr>Visibility := ModelPublic\<rparr>)],
     loadedAt = 0, rejected = 0, dropReasons = []\<rparr>"

definition demo_gateway :: gateway where
  "demo_gateway = \<lparr>snap = demo_state, limiter = Rate_Limits.New, inflight = 0, chatLarge = newLargeBodySlots 2,
     upHealth = newUpstreamHealth, bodySink = None, costLookups = newGenerationCosts, meters = counters_zero, spooled = []\<rparr>"

definition demo_config :: gateway_config where
  "demo_config = \<lparr>maxInFlight = 4,
     bodyBounds = \<lparr>limRequest = 2097152, limLargeRequest = 26214400, limLargeResponse = 134217728\<rparr>,
     limitDefaults = \<lparr>DefaultRpm = 60, DefaultTpm = 100000, DefaultConcurrency = 4\<rparr>\<rparr>"

definition demo_body :: "string \<Rightarrow> params" where
  "demo_body name = [(''model'', JStr name), (''messages'', JArr [])]"

definition demo_world :: "string \<Rightarrow> request_world" where
  "demo_world name = \<lparr>hashToken = (\<lambda>t. if t = ''t1'' then ''h1'' else []), decodeReq = (\<lambda>_. Some (JObj (demo_body name))),
     rawText = (\<lambda>_. ''[]''), newUUID = ''u1'', startAt = 5, authAt = 5, acquireAt = 5, chargeAt = 6, latencyMs = 9, ttftMs = 4,
     calls = answering (\<lambda>n. 5), spoolOK = True, clientGoneAtCall = False, pastDeadlineAtCall = False,
     ansBody = ''ok'', ansEnd = AtEOF, ansGenerationID = [],
     decodeAns = (\<lambda>_. Some (JObj [(''model'', JStr ''vendor'')])), clientWrites = (\<lambda>_. True), clientGone = False,
     pastDeadline = False\<rparr>"

definition demo_request :: wire_request where
  "demo_request = \<lparr>rqMethod = ''POST'', rqHeader = (\<lambda>h. if h = ''Authorization'' then ''Bearer t1'' else []),
     contentLength = 10, rqBody = ''0123456789'', broken = False\<rparr>"

abbreviation "demo_run name \<equiv> serveProtocol (demo_world name) demo_config protoChat demo_request demo_gateway"

lemma demo_attempts: "length (snd (snd (demo_run ''m''))) = 1 \<and> fst (demo_run ''m'') \<noteq> Panicked"
  by code_simp

lemma demo_admits: "admitKey (hashToken (demo_world n)) (authAt (demo_world n)) protoChat (rqHeader demo_request) (snap demo_gateway) =
    Inr demo_key" "KeyID demo_key = ''k1''"
  by code_simp+

lemma demo_split: "demo_run n = (fst (demo_run n), fst (snd (demo_run n)), snd (snd (demo_run n)))"
  by simp

theorem request_leaves_no_residue_witness:
  "inflight (fst (snd (demo_run ''m''))) = 0 \<and> InFlight ''k1'' (limiter (fst (snd (demo_run ''m'')))) = 0"
proof -
  have "pool_inv (chatLarge demo_gateway)" "lim_inv (limiter demo_gateway)"
    by (simp_all add: demo_gateway_def newLargeBodySlots_inv New_inv)
  moreover have "inflight demo_gateway = 0" "InFlight ''k1'' (limiter demo_gateway) = 0" by code_simp+
  ultimately show ?thesis using request_leaves_no_residue [OF _ _ demo_split, of "''m''"] by simp
qed

theorem one_event_per_request_witness:
  "\<exists>e. booked demo_gateway (fst (snd (demo_run ''m''))) e \<and> EventUUID e = ''u1'' \<and> EvKeyID e = ''k1'' \<and> Attempts e = Some 1"
proof -
  have ok: "spoolOK (demo_world ''m'')" "rqMethod demo_request = ''POST''" "newUUID (demo_world ''m'') = ''u1''"
    by (simp_all add: demo_world_def demo_request_def)
  have "fst (demo_run ''m'') \<noteq> Panicked" "length (snd (snd (demo_run ''m''))) = 1" using demo_attempts by simp_all
  then show ?thesis
    using one_event_per_request [OF ok(1) demo_split] ok(2,3) demo_admits by (auto simp: unattributed_def)
qed

theorem paid_request_spares_limiter_witness:
  "limiter (fst (snd (demo_run ''openai/gpt-5''))) = Rate_Limits.New"
proof -
  obtain req model where r: "resolveModel protoChat (snap demo_gateway) (demo_body ''openai/gpt-5'') = Inr (req, model)"
    "CreditAxis model"
  proof -
    have "case resolveModel protoChat (snap demo_gateway) (demo_body ''openai/gpt-5'') of
        Inl _ \<Rightarrow> False | Inr (req, model) \<Rightarrow> CreditAxis model" by code_simp
    then show ?thesis using that by (auto split: sum.splits)
  qed
  have "Option.bind (decodeReq (demo_world ''openai/gpt-5'') (rqBody demo_request)) dec_object =
      Some (demo_body ''openai/gpt-5'')" by code_simp
  from paid_request_spares_limiter [OF demo_split this r] show ?thesis by (simp add: demo_gateway_def)
qed

end
