(* ===== verification/Catalog.thy ===== *)
theory Catalog
  imports Upstream Json_Text "HOL-Library.Multiset"
begin

text \<open>
  The copy of the vendor's model catalog (\<open>internal/server/catalog.go\<close>): reading and normalising it, the
  copy that is kept, the back-off after failures, the loop, and which entries a key is shown. The
  vendor's answer is an input; \<open>readFloat\<close> is the float a number literal denotes, \<^const>\<open>None\<close> when it is
  out of range. Whatever makes a read fail yields \<^const>\<open>None\<close>; the reason is only logged.
\<close>

section \<open>The copy\<close>

record vendorModel =
  vmID :: string
  vmName :: string
  vmCreated :: int
  vmContextLength :: int
  vmMaxOutput :: int
  vmOutputs :: "string list"

record vendorCatalog =
  catRef :: string
  catModels :: "vendorModel list"
  fetchedAt :: int

record catalogState =
  copy :: "vendorCatalog option"
  catFailures :: int
  catInterval :: int
  catRetry :: int
  catMaxBytes :: int

definition vendorCatalogInterval :: int where "vendorCatalogInterval = 30 * 60 * 1000000000"
definition vendorCatalogRetry :: int where "vendorCatalogRetry = 60 * 1000000000"
definition vendorCatalogMaxBytes :: int where "vendorCatalogMaxBytes = 16 * 1048576"

definition newCatalogState :: catalogState where
  "newCatalogState = \<lparr>copy = None, catFailures = 0, catInterval = vendorCatalogInterval, catRetry = vendorCatalogRetry,
     catMaxBytes = vendorCatalogMaxBytes\<rparr>"

definition forRef :: "catalogState \<Rightarrow> string \<Rightarrow> vendorCatalog option" where
  "forRef c ref =
     (case copy c of None \<Rightarrow> None
      | Some cat \<Rightarrow> if ref = [] \<or> catRef cat \<noteq> ToLower ref then None else Some cat)"

definition byID :: "vendorCatalog \<Rightarrow> string \<Rightarrow> vendorModel option" where
  "byID cat name = map_of (rev (map (\<lambda>v. (vmID v, v)) (catModels cat))) name"

section \<open>Reading\<close>

definition wholeNumber :: "rat \<Rightarrow> int" where
  "wholeNumber f = (if f < 0 \<or> f > 1099511627776 then 0 else \<lfloor>f\<rfloor>)"

record catalog_entry =
  ceID :: string
  ceName :: string
  ceCreated :: rat
  ceContext :: rat
  ceMaxOutput :: rat
  ceOutputs :: "string list"

definition catalog_entry_zero :: catalog_entry where
  "catalog_entry_zero = \<lparr>ceID = [], ceName = [], ceCreated = 0, ceContext = 0, ceMaxOutput = 0, ceOutputs = []\<rparr>"

definition float_field :: "(string \<Rightarrow> rat option) \<Rightarrow> (rat \<Rightarrow> 'r \<Rightarrow> 'r) \<Rightarrow> json \<Rightarrow> 'r \<Rightarrow> 'r option" where
  "float_field readFloat upd j r =
     (case j of JNum lit \<Rightarrow> map_option (\<lambda>f. upd f r) (readFloat lit) | JNull \<Rightarrow> Some r | _ \<Rightarrow> None)"

definition catalog_fields :: "(string \<Rightarrow> rat option) \<Rightarrow> catalog_entry field list" where
  "catalog_fields readFloat =
     [(''id'', string_field (\<lambda>s. ceID_update (\<lambda>_. s))),
      (''name'', string_field (\<lambda>s. ceName_update (\<lambda>_. s))),
      (''created'', float_field readFloat (\<lambda>f. ceCreated_update (\<lambda>_. f))),
      (''context_length'', float_field readFloat (\<lambda>f. ceContext_update (\<lambda>_. f))),
      (''top_provider'', dec_struct False
         [(''max_completion_tokens'', float_field readFloat (\<lambda>f. ceMaxOutput_update (\<lambda>_. f)))]),
      (''architecture'', dec_struct False
         [(''output_modalities'', strings_field (\<lambda>xs. ceOutputs_update (\<lambda>_. xs)))])]"

definition entries_field :: "(string \<Rightarrow> rat option) \<Rightarrow> json \<Rightarrow> catalog_entry list \<Rightarrow> catalog_entry list option" where
  "entries_field readFloat j r =
     Option.bind (dec_list j) (\<lambda>xs. all_some (map (\<lambda>x. dec_struct False (catalog_fields readFloat) x catalog_entry_zero) xs))"

definition vendor_model :: "catalog_entry \<Rightarrow> vendorModel" where
  "vendor_model e = \<lparr>vmID = ceID e, vmName = ceName e, vmCreated = wholeNumber (ceCreated e),
     vmContextLength = wholeNumber (ceContext e), vmMaxOutput = wholeNumber (ceMaxOutput e),
     vmOutputs = map (\<lambda>out. ToLower (TrimSpace out)) (ceOutputs e)\<rparr>"

fun keep_first :: "string list \<Rightarrow> catalog_entry list \<Rightarrow> catalog_entry list" where
  "keep_first seen [] = []"
| "keep_first seen (e # es) =
     (if ceID e = [] \<or> ceID e \<in> set seen then keep_first seen es else e # keep_first (ceID e # seen) es)"

text \<open>What a read meets: no answer, or a status and the body; \<open>decode\<close> reads the first JSON value of a text.\<close>

datatype catalog_answer = NoAnswer | CatalogAnswer nat string

definition fetchVendorCatalog ::
  "(string \<Rightarrow> json option) \<Rightarrow> (string \<Rightarrow> rat option) \<Rightarrow> int \<Rightarrow> catalog_answer \<Rightarrow> vendorModel list option" where
  "fetchVendorCatalog decode readFloat maxB ans =
     (case ans of NoAnswer \<Rightarrow> None
      | CatalogAnswer code body \<Rightarrow>
          if code \<noteq> 200 then None
          else (case Option.bind (decode (take (nat (maxB + 1)) body))
                       (\<lambda>j. dec_struct False [(''data'', entries_field readFloat)] j []) of
                  None \<Rightarrow> None
                | Some es \<Rightarrow>
                    if keep_first [] es = [] then None
                    else Some (sort_key vmID (map vendor_model (keep_first [] es)))))"

datatype catalogOutcome = CatalogRead | CatalogFailed | CatalogSkipped

definition refreshVendorCatalog ::
  "(string \<Rightarrow> json option) \<Rightarrow> (string \<Rightarrow> rat option) \<Rightarrow> Upstream gomap \<Rightarrow> string \<Rightarrow> bool \<Rightarrow> int \<Rightarrow> catalog_answer \<Rightarrow>
     catalogState \<Rightarrow> catalogOutcome \<times> catalogState" where
  "refreshVendorCatalog decode readFloat ups ref shutting now ans c =
     (if ref = [] then (CatalogSkipped, c)
      else if map_of ups ref = None then (CatalogSkipped, c)
      else case fetchVendorCatalog decode readFloat (catMaxBytes c) ans of
        None \<Rightarrow> if shutting then (CatalogSkipped, c) else (CatalogFailed, c\<lparr>catFailures := catFailures c + 1\<rparr>)
      | Some ms \<Rightarrow> (CatalogRead, c\<lparr>copy := Some \<lparr>catRef = ref, catModels = ms, fetchedAt = now\<rparr>, catFailures := 0\<rparr>))"

section \<open>When to read\<close>

record catalogSchedule =
  schRetry :: int
  schInterval :: int
  backoff :: int
  notBefore :: "int option"
  schRef :: string

definition mayRead :: "int \<Rightarrow> string \<Rightarrow> catalogSchedule \<Rightarrow> bool \<times> catalogSchedule" where
  "mayRead now ref s0 =
     (let s = (if ref \<noteq> schRef s0 then s0\<lparr>schRef := ref, backoff := 0, notBefore := None\<rparr> else s0) in
      ((case notBefore s of None \<Rightarrow> True | Some t \<Rightarrow> \<not> now < t), s))"

definition schedule_record :: "catalogOutcome \<Rightarrow> int \<Rightarrow> catalogSchedule \<Rightarrow> catalogSchedule" where
  "schedule_record out now s0 =
     (case out of
        CatalogRead \<Rightarrow> s0\<lparr>backoff := 0, notBefore := None\<rparr>
      | CatalogFailed \<Rightarrow>
          let s = (if backoff s0 = 0 then s0\<lparr>backoff := schRetry s0\<rparr> else s0)
          in s\<lparr>notBefore := Some (now + backoff s), backoff := min (backoff s * 2) (schInterval s)\<rparr>
      | CatalogSkipped \<Rightarrow> s0)"

definition vendorCatalogDue :: "string \<Rightarrow> int \<Rightarrow> catalogState \<Rightarrow> bool" where
  "vendorCatalogDue ref now c =
     (if ref = [] then False
      else case forRef c ref of None \<Rightarrow> True | Some cat \<Rightarrow> now - fetchedAt cat \<ge> catInterval c)"

definition newSchedule :: catalogSchedule where
  "newSchedule = \<lparr>schRetry = vendorCatalogRetry, schInterval = vendorCatalogInterval, backoff = 0, notBefore = None,
     schRef = []\<rparr>"

text \<open>One wake of the loop: what the snapshot names, the clock and what a read would meet.\<close>

record catalog_wake =
  wakeRef :: string
  wakeAt :: int
  wakeAnswer :: catalog_answer
  wakeShutting :: bool

definition wake ::
  "(string \<Rightarrow> json option) \<Rightarrow> (string \<Rightarrow> rat option) \<Rightarrow> Upstream gomap \<Rightarrow> catalog_wake \<Rightarrow>
     catalogSchedule \<times> catalogState \<Rightarrow> catalogOutcome option \<times> catalogSchedule \<times> catalogState" where
  "wake decode readFloat ups wk sc =
     (case sc of (s, c) \<Rightarrow>
        let ref = ToLower (wakeRef wk) in
        case mayRead (wakeAt wk) ref s of (ok, s) \<Rightarrow>
          if \<not> ok \<or> \<not> vendorCatalogDue ref (wakeAt wk) c then (None, s, c)
          else case refreshVendorCatalog decode readFloat ups ref (wakeShutting wk) (wakeAt wk) (wakeAnswer wk) c of
            (out, c) \<Rightarrow> (Some out, schedule_record out (wakeAt wk) s, c))"

section \<open>Who is shown what\<close>

definition outputCapability :: "(string \<times> string) list" where
  "outputCapability = [(''text'', EndpointChat), (''image'', EndpointImages), (''embeddings'', EndpointEmbeddings),
     (''rerank'', EndpointRerank), (''speech'', EndpointSpeech), (''transcription'', EndpointTranscriptions)]"

definition freeVariantSuffix :: string where "freeVariantSuffix = '':free''"

definition listableFor :: "Key \<Rightarrow> vendorModel \<Rightarrow> bool" where
  "listableFor key m =
     (let lower = ToLower (vmID m) in
      if IsRouterModelName lower \<or> HasSuffix lower freeVariantSuffix then False
      else list_ex (\<lambda>out. case map_of outputCapability out of None \<Rightarrow> False | Some cap \<Rightarrow> AllowsEndpoint key cap) (vmOutputs m))"

section \<open>The copy over the life of a gateway\<close>

fun wakes ::
  "(string \<Rightarrow> json option) \<Rightarrow> (string \<Rightarrow> rat option) \<Rightarrow> Upstream gomap \<Rightarrow> catalog_wake list \<Rightarrow>
     catalogSchedule \<times> catalogState \<Rightarrow> catalogSchedule \<times> catalogState" where
  "wakes decode readFloat ups [] sc = sc"
| "wakes decode readFloat ups (wk # wks) sc =
     wakes decode readFloat ups wks (snd (wake decode readFloat ups wk sc))"

definition catalog_ok :: "vendorCatalog \<Rightarrow> bool" where
  "catalog_ok cat \<longleftrightarrow> catModels cat \<noteq> [] \<and> sorted (map vmID (catModels cat)) \<and> distinct (map vmID (catModels cat)) \<and>
     [] \<notin> set (map vmID (catModels cat)) \<and> catRef cat \<noteq> []"

definition schedule_ok :: "catalogSchedule \<Rightarrow> bool" where
  "schedule_ok s \<longleftrightarrow> schRetry s = vendorCatalogRetry \<and> schInterval s = vendorCatalogInterval \<and>
     (backoff s = 0 \<and> notBefore s = None \<or> schRetry s \<le> backoff s \<and> backoff s \<le> schInterval s)"

lemma keep_first_ids:
  "distinct (map ceID (keep_first seen es)) \<and> set (map ceID (keep_first seen es)) \<inter> set seen = {} \<and>
   [] \<notin> set (map ceID (keep_first seen es))"
proof (induction seen es rule: keep_first.induct)
  case (2 seen e es)
  then show ?case by (cases "ceID e = [] \<or> ceID e \<in> set seen") auto
qed simp

lemma vendor_model_ids: "map vmID (map vendor_model es) = map ceID es"
  by (simp add: vendor_model_def)

lemma fetch_ok:
  assumes "fetchVendorCatalog decode readFloat m ans = Some ms"
  shows "ms \<noteq> [] \<and> sorted (map vmID ms) \<and> distinct (map vmID ms) \<and> [] \<notin> set (map vmID ms)"
proof -
  obtain es where k: "keep_first [] es \<noteq> []" "ms = sort_key vmID (map vendor_model (keep_first [] es))"
    using assms by (auto simp: fetchVendorCatalog_def split: catalog_answer.splits if_splits option.splits)
  have ids: "distinct (map vmID (map vendor_model (keep_first [] es)))" "[] \<notin> set (map vmID (map vendor_model (keep_first [] es)))"
    using keep_first_ids [of "[]" es] unfolding vendor_model_ids by blast+
  have "mset (map vmID ms) = mset (map vmID (map vendor_model (keep_first [] es)))"
    unfolding k(2) by (simp only: mset_map mset_sort)
  then have "distinct (map vmID ms)" "[] \<notin> set (map vmID ms)"
    using ids by (metis mset_eq_imp_distinct_iff, metis mset_eq_setD)
  moreover have "ms \<noteq> []" using k by (metis length_0_conv length_map length_sort)
  ultimately show ?thesis using k(2) by simp
qed

lemma refresh_ok:
  assumes "refreshVendorCatalog decode readFloat ups ref sh now ans c = (out, c')"
  shows "(copy c' = copy c \<or> (\<exists>cat. copy c' = Some cat \<and> catalog_ok cat \<and> catRef cat = ref \<and> fetchedAt cat = now \<and> out = CatalogRead)) \<and>
    catInterval c' = catInterval c"
  using assms fetch_ok
  by (auto simp: refreshVendorCatalog_def catalog_ok_def split: if_splits option.splits)

lemma record_ok: "schedule_ok s \<Longrightarrow> schedule_ok (schedule_record out now s)"
  by (auto simp: schedule_ok_def schedule_record_def vendorCatalogRetry_def vendorCatalogInterval_def Let_def
      split: catalogOutcome.splits)

lemma wake_ok:
  assumes "wake decode readFloat ups wk (s, c) = (out, s', c')" "schedule_ok s" "\<forall>cat. copy c = Some cat \<longrightarrow> catalog_ok cat"
  shows "schedule_ok s' \<and> (\<forall>cat. copy c' = Some cat \<longrightarrow> catalog_ok cat) \<and> (copy c \<noteq> None \<longrightarrow> copy c' \<noteq> None)"
proof -
  obtain ok s1 where m: "mayRead (wakeAt wk) (ToLower (wakeRef wk)) s = (ok, s1)" by fastforce
  have s1: "schedule_ok s1" using m assms(2) by (auto simp: mayRead_def schedule_ok_def Let_def split: if_splits)
  show ?thesis
  proof (cases "\<not> ok \<or> \<not> vendorCatalogDue (ToLower (wakeRef wk)) (wakeAt wk) c")
    case True
    then have "s' = s1 \<and> c' = c" using assms(1) m by (auto simp: wake_def Let_def)
    then show ?thesis using s1 assms(3) by simp
  next
    case False
    obtain o1 c1 where r: "refreshVendorCatalog decode readFloat ups (ToLower (wakeRef wk)) (wakeShutting wk) (wakeAt wk)
        (wakeAnswer wk) c = (o1, c1)" by fastforce
    then have "s' = schedule_record o1 (wakeAt wk) s1" "c' = c1" using assms(1) m False by (auto simp: wake_def Let_def)
    then show ?thesis using record_ok [OF s1] refresh_ok [OF r] assms(3) by auto
  qed
qed


definition catalog_text :: json where
  "catalog_text = JObj [(''data'', JArr [JObj [(''id'', JStr ''z/b''), (''architecture'', JObj [(''output_modalities'', JArr [JStr ''text''])])],
     JObj [(''id'', JStr ''z/a''), (''context_length'', JNum ''1.28e5'')], JObj [(''id'', JStr ''z/b'')]])]"

definition first_wake :: catalog_wake where
  "first_wake = \<lparr>wakeRef = ''a'', wakeAt = 7, wakeAnswer = CatalogAnswer 200 [], wakeShutting = False\<rparr>"


end
