(* ===== verification/Models_Route.thy ===== *)
theory Models_Route
  imports Pipeline Catalog
begin

text \<open>
  \<open>GET /v1/models\<close> and \<open>/v1/models/{id}\<close> (\<open>handleModels\<close>, \<open>servableModel\<close> and the entries, in
  \<open>internal/server/server.go\<close>), in the shapes of both client families, and their agreement with what
  the completion surfaces serve. The formatting of an instant is the parameter \<open>formatTime\<close>.
\<close>

section \<open>Entries\<close>

record modelEntry =
  meID :: string
  meCreated :: int
  meOwnedBy :: string
  meContextLength :: int

record anthropicModelEntry =
  amID :: string
  amDisplayName :: string
  amCreatedAt :: string
  amMaxInputTokens :: int
  amMaxTokens :: int

definition modelsCreatedEpoch :: int where "modelsCreatedEpoch = 1767225600"

definition entryFor :: "Model \<Rightarrow> modelEntry" where
  "entryFor m = \<lparr>meID = PublicName m, meCreated = modelsCreatedEpoch, meOwnedBy = ''pnu-cloud'', meContextLength = 0\<rparr>"

definition vendorEntryFor :: "vendorModel \<Rightarrow> modelEntry" where
  "vendorEntryFor v =
     \<lparr>meID = vmID v, meCreated = (if vmCreated v \<le> 0 then modelsCreatedEpoch else vmCreated v),
      meOwnedBy = takeWhile (\<lambda>c. c \<noteq> CHR ''/'') (TrimLeft (vmID v) ''~''), meContextLength = vmContextLength v\<rparr>"

definition anthropicEntryFor :: "(int \<Rightarrow> string) \<Rightarrow> Model \<Rightarrow> anthropicModelEntry" where
  "anthropicEntryFor formatTime m =
     \<lparr>amID = PublicName m, amDisplayName = PublicName m, amCreatedAt = formatTime modelsCreatedEpoch,
      amMaxInputTokens = 0, amMaxTokens = 0\<rparr>"

definition anthropicVendorEntryFor :: "(int \<Rightarrow> string) \<Rightarrow> vendorModel \<Rightarrow> anthropicModelEntry" where
  "anthropicVendorEntryFor formatTime v =
     \<lparr>amID = vmID v, amDisplayName = (if vmName v = [] then vmID v else vmName v),
      amCreatedAt = formatTime (meCreated (vendorEntryFor v)), amMaxInputTokens = vmContextLength v,
      amMaxTokens = vmMaxOutput v\<rparr>"

section \<open>The route\<close>

definition servableModel :: "Document \<Rightarrow> Key \<Rightarrow> lookup \<Rightarrow> string \<Rightarrow> Model option" where
  "servableModel d key modelLookup name =
     (let m = (case modelLookup name of Some m \<Rightarrow> Some m
               | None \<Rightarrow> (case passthroughModel d name of None \<Rightarrow> None
                         | Some p \<Rightarrow> if CredentialFor key (UpstreamRef p) \<noteq> [] then Some p else None))
      in case m of None \<Rightarrow> None
         | Some m \<Rightarrow> if \<not> AllowsModel key m \<or> \<not> ServesCreditModel key m then None else Some m)"

definition vendorEndpointsSuffix :: string where "vendorEndpointsSuffix = ''/endpoints''"

definition modelsPrefix :: string where "modelsPrefix = ''/v1/models/''"

datatype models_reply =
    ModelsRefused apiError
  | Retrieved modelEntry
  | RetrievedAnthropic anthropicModelEntry
  | Listed "modelEntry list"
  | ListedAnthropic "anthropicModelEntry list" "(string \<times> string) option"

definition vendor_endpoints_path :: "string \<Rightarrow> bool" where
  "vendor_endpoints_path name \<longleftrightarrow>
     (let lower = ToLower (TrimRight name ''/'') in
      length (filter (\<lambda>c. c = CHR ''/'') lower) \<ge> 2 \<and> HasSuffix lower vendorEndpointsSuffix)"

definition listed_models :: "state \<Rightarrow> Key \<Rightarrow> Model list" where
  "listed_models st key = filter (\<lambda>m. AllowsModel key m \<and> ServesCreditModel key m) (Models (doc st))"

definition listed_vendor :: "state \<Rightarrow> Key \<Rightarrow> vendorCatalog option \<Rightarrow> vendorModel list" where
  "listed_vendor st key catalog =
     (case catalog of None \<Rightarrow> []
      | Some cat \<Rightarrow>
          filter (\<lambda>v. map_of (byPublic st) (vmID v) = None \<and>
                      servableModel (doc st) key (map_of (byPublic st)) (vmID v) \<noteq> None \<and> listableFor key v) (catModels cat))"

definition retrieve_model ::
  "(int \<Rightarrow> string) \<Rightarrow> bool \<Rightarrow> state \<Rightarrow> Key \<Rightarrow> vendorCatalog option \<Rightarrow> string \<Rightarrow> models_reply" where
  "retrieve_model formatTime anthropic st key catalog name =
     (case servableModel (doc st) key (map_of (byPublic st)) name of
        None \<Rightarrow> ModelsRefused errModelNotFound
      | Some m \<Rightarrow>
          let v = (case catalog of None \<Rightarrow> None
                   | Some cat \<Rightarrow> if map_of (byPublic st) name = None then byID cat name else None) in
          (case v of
             Some v \<Rightarrow> if anthropic then RetrievedAnthropic (anthropicVendorEntryFor formatTime v) else Retrieved (vendorEntryFor v)
           | None \<Rightarrow> if anthropic then RetrievedAnthropic (anthropicEntryFor formatTime m) else Retrieved (entryFor m)))"

definition list_models ::
  "(int \<Rightarrow> string) \<Rightarrow> bool \<Rightarrow> state \<Rightarrow> Key \<Rightarrow> vendorCatalog option \<Rightarrow> models_reply" where
  "list_models formatTime anthropic st key catalog =
     (let models = listed_models st key; paid = listed_vendor st key catalog in
      if anthropic
      then (let page = map (anthropicEntryFor formatTime) models @ map (anthropicVendorEntryFor formatTime) paid in
            ListedAnthropic page (if page = [] then None else Some (amID (hd page), amID (List.last page))))
      else Listed (map entryFor models @ map vendorEntryFor paid))"

record models_request =
  mqMethod :: string
  mqPath :: string
  mqHeader :: "string \<Rightarrow> string"

definition handleModels ::
  "(string \<Rightarrow> string) \<Rightarrow> (int \<Rightarrow> string) \<Rightarrow> int \<Rightarrow> catalogState \<Rightarrow> state \<Rightarrow> models_request \<Rightarrow> models_reply" where
  "handleModels hash formatTime now cats st rq =
     (let anthropic = mqHeader rq ''Anthropic-Version'' \<noteq> [];
          name = TrimPrefix (mqPath rq) modelsPrefix;
          retrieve = (name \<noteq> [] \<and> name \<noteq> mqPath rq)
      in if retrieve \<and> vendor_endpoints_path name then ModelsRefused errNotFound
         else if mqMethod rq \<noteq> ''GET'' then ModelsRefused errMethod
         else if \<not> ServiceEnabled (doc st) then ModelsRefused errServiceDisabled
         else case (if anthropic then messagesToken (mqHeader rq) else bearerToken (mqHeader rq)) of
           Inl e \<Rightarrow> ModelsRefused e
         | Inr token \<Rightarrow>
             (case authenticateToken hash now token (map_of (byHash st)) of
                Inl (k, e) \<Rightarrow> ModelsRefused e
              | Inr key \<Rightarrow>
                  let catalog = forRef cats (PassthroughRef (doc st)) in
                  if retrieve then retrieve_model formatTime anthropic st key catalog name
                  else list_models formatTime anthropic st key catalog))"

section \<open>What the list says\<close>

definition listed_names :: "models_reply \<Rightarrow> string list" where
  "listed_names r = (case r of Listed es \<Rightarrow> map meID es | ListedAnthropic es page_ends \<Rightarrow> map amID es | _ \<Rightarrow> [])"

definition retrieved_name :: "models_reply \<Rightarrow> string option" where
  "retrieved_name r = (case r of Retrieved e \<Rightarrow> Some (meID e) | RetrievedAnthropic e \<Rightarrow> Some (amID e) | _ \<Rightarrow> None)"

text \<open>The snapshot's index is the list of its models, as the loader publishes them.\<close>

definition indexed :: "state \<Rightarrow> bool" where
  "indexed st \<longleftrightarrow> (\<forall>m\<in>set (Models (doc st)). map_of (byPublic st) (PublicName m) = Some m) \<and>
     (\<forall>n m. map_of (byPublic st) n = Some m \<longrightarrow> m \<in> set (Models (doc st)) \<and> PublicName m = n)"

lemma build_indexed: "build parseTime now raw known fromControl = Inr st \<Longrightarrow> indexed st"
  using build_index(2) by (fastforce simp: indexed_def)

lemma byID_name: "byID cat name = Some v \<Longrightarrow> vmID v = name"
  by (auto simp: byID_def dest!: map_of_SomeD)

lemma servable_name:
  assumes "indexed st" "servableModel (doc st) key (map_of (byPublic st)) name = Some m"
  shows "PublicName m = name"
  using assms
  by (auto simp: servableModel_def indexed_def passthroughModel_def Let_def split: option.splits if_splits)

lemma retrieved:
  assumes "indexed st"
  shows "retrieved_name (retrieve_model formatTime a st key cat name) =
    (if servableModel (doc st) key (map_of (byPublic st)) name = None then None else Some name)"
  using servable_name [OF assms] byID_name
  by (auto simp: retrieve_model_def retrieved_name_def Let_def entryFor_def vendorEntryFor_def anthropicEntryFor_def
      anthropicVendorEntryFor_def split: option.splits if_splits)

lemma listed_servable:
  assumes "indexed st" "name \<in> set (listed_names (list_models formatTime a st key cat))"
  shows "servableModel (doc st) key (map_of (byPublic st)) name \<noteq> None"
proof -
  have "name \<in> set (map PublicName (listed_models st key)) \<union> set (map vmID (listed_vendor st key cat))"
    using assms(2)
    by (auto simp: list_models_def listed_names_def Let_def entryFor_def vendorEntryFor_def anthropicEntryFor_def
        anthropicVendorEntryFor_def split: if_splits)
  then consider m where "m \<in> set (listed_models st key)" "name = PublicName m"
    | v where "v \<in> set (listed_vendor st key cat)" "name = vmID v" by auto
  then show ?thesis
  proof cases
    case 1
    then show ?thesis using assms(1) by (simp add: listed_models_def servableModel_def indexed_def)
  next
    case 2
    then show ?thesis by (auto simp: listed_vendor_def split: option.splits)
  qed
qed

lemma callable_servable:
  assumes "serveProtocol w cfg p rq g = (r, g', attempts)" "spec \<in> set attempts"
  shows "\<exists>token key m req. readToken p (rqHeader rq) = Inr token \<and> ServiceEnabled (doc (snap g)) \<and>
    authenticateToken (hashToken w) (authAt w) token (map_of (byHash (snap g))) = Inr key \<and>
    Option.bind (decodeReq w (rqBody rq)) dec_object = Some m \<and> parseReq p m = Inr req \<and>
    servableModel (doc (snap g)) key (map_of (byPublic (snap g))) (publicModel req) \<noteq> None"
proof -
  obtain key where k: "admitKey (hashToken w) (authAt w) p (rqHeader rq) (snap g) = Inr key"
    using assms
    by (cases "admitKey (hashToken w) (authAt w) p (rqHeader rq) (snap g)")
      (auto simp: serveProtocol_def halt_with_def Let_def split: if_splits prod.splits)
  obtain token where tk: "readToken p (rqHeader rq) = Inr token" "ServiceEnabled (doc (snap g))"
    "authenticateToken (hashToken w) (authAt w) token (map_of (byHash (snap g))) = Inr key"
    using k by (auto simp: admitKey_def split: sum.splits if_splits prod.splits)
  obtain ev r1 g2 where b: "serve_body w cfg p rq key ev (g\<lparr>inflight := inflight g + 1\<rparr>) = (r1, g2, attempts)"
    using assms k by (auto simp: serveProtocol_def halt_with_def Let_def split: if_splits prod.splits)
  obtain m slot g1 r3 g3 where p: "Option.bind (decodeReq w (rqBody rq)) dec_object = Some m"
    "snap g1 = snap g" "serve_params w cfg p rq key m slot ev g1 = (r3, g3, attempts)"
    using serve_body_sent [OF b assms(2)] by auto
  obtain req model where s: "resolveModel p (snap g) m = Inr (req, model)"
    "judgeModel (upstreams (calls w)) p key model m = None" "attempt_of w key model spec"
    "CreditAxis model \<Longrightarrow> judgeCredit p (snap g) key model (publicModel req) m = None"
    using serve_params_sent [OF p(3) assms(2)] unfolding p(2) by metis
  have axis: "ServesCreditModel key model"
  proof (cases "CreditAxis model")
    case True
    then show ?thesis using judgeCredit_None [OF s(4)] by blast
  next
    case False
    then show ?thesis by (simp add: ServesCreditModel_def AllowsCreditModel_def)
  qed
  have cred: "CredentialFor key (UpstreamRef model) \<noteq> []"
    if "passthroughModel (doc (snap g)) (publicModel req) = Some model"
  proof -
    have "CreditAxis model" using that by (auto simp: passthroughModel_def CreditAxis_def split: if_splits)
    then show ?thesis using s(4) by (auto simp: judgeCredit_def split: if_splits option.splits)
  qed
  have "servableModel (doc (snap g)) key (map_of (byPublic (snap g))) (publicModel req) = Some model"
    using resolveModel_Inr [OF s(1)] judgeModel_None [OF s(2)] axis cred
    by (auto simp: servableModel_def Let_def)
  then show ?thesis using tk p(1) resolveModel_Inr [OF s(1)] by fastforce
qed


text \<open>The demonstration gateway with its model on the snapshot's list.\<close>

lemma demo_indexed: "indexed (snap demo_gateway)"
  by (auto simp: indexed_def demo_gateway_def demo_state_def two_upstreams_def model_named_def split: if_splits)

definition demo_lookup :: models_request where
  "demo_lookup = \<lparr>mqMethod = ''GET'', mqPath = ''/v1/models/m'', mqHeader = (\<lambda>h. if h = ''Authorization'' then ''Bearer t1'' else [])\<rparr>"


end
