(* ===== verification/Passthrough.thy ===== *)
theory Passthrough
  imports Pipeline
begin

text \<open>
  The passthrough surface (\<open>internal/server/passthrough.go\<close>, with the upload form of
  \<open>transcriptions.go\<close>): the routes, what is judged before a request leaves, the one attempt, the bounded
  reading of the answer, its metering, and the handler as a whole. Of the MIME library the text of a
  media type (\<open>parseMedia\<close>, \<open>formatMedia\<close>) and the cutting of an upload into its parts (\<open>cutParts\<close>) are
  parameters; a form that is assembled is the list of its fields and its file.
\<close>

section \<open>Routes\<close>

record passthroughRoute =
  rtCapability :: string
  rtName :: string
  rtMethod :: string
  rtPath :: string
  readsBody :: bool
  openAIImages :: bool
  lookupCost :: bool
  noEstimate :: bool
  nativeModelName :: bool
  audioAnswer :: bool
  openAISpeech :: bool
  multipartForm :: bool
  openAITranscriptions :: bool
  generationIDInBody :: bool

definition route_plain :: "string \<Rightarrow> string \<Rightarrow> string \<Rightarrow> string \<Rightarrow> passthroughRoute" where
  "route_plain cap name mtd path =
     \<lparr>rtCapability = cap, rtName = name, rtMethod = mtd, rtPath = path, readsBody = False, openAIImages = False,
      lookupCost = False, noEstimate = False, nativeModelName = False, audioAnswer = False, openAISpeech = False,
      multipartForm = False, openAITranscriptions = False, generationIDInBody = False\<rparr>"

definition routeImages :: passthroughRoute where
  "routeImages = (route_plain EndpointImages ''images'' ''POST'' ''/images'')\<lparr>readsBody := True\<rparr>"

definition routeImageGenerations :: passthroughRoute where
  "routeImageGenerations =
     (route_plain EndpointImages ''images'' ''POST'' ''/images'')\<lparr>readsBody := True, openAIImages := True\<rparr>"

definition routeImageModels :: passthroughRoute where
  "routeImageModels = route_plain EndpointImages ''images_models'' ''GET'' ''/images/models''"

definition routeEmbeddings :: passthroughRoute where
  "routeEmbeddings = (route_plain EndpointEmbeddings ''embeddings'' ''POST'' ''/embeddings'')\<lparr>readsBody := True\<rparr>"

definition routeRerank :: passthroughRoute where
  "routeRerank =
     (route_plain EndpointRerank ''rerank'' ''POST'' ''/rerank'')\<lparr>readsBody := True, noEstimate := True,
       lookupCost := True, nativeModelName := True, generationIDInBody := True\<rparr>"

definition routeSpeech :: passthroughRoute where
  "routeSpeech =
     (route_plain EndpointSpeech ''speech'' ''POST'' ''/audio/speech'')\<lparr>readsBody := True, lookupCost := True,
       audioAnswer := True, openAISpeech := True\<rparr>"

definition routeTranscriptions :: passthroughRoute where
  "routeTranscriptions =
     (route_plain EndpointTranscriptions ''transcriptions'' ''POST'' ''/audio/transcriptions'')\<lparr>readsBody := True,
       noEstimate := True, lookupCost := True, multipartForm := True, openAITranscriptions := True\<rparr>"

section \<open>Fields the vendor cannot honour\<close>

definition format_refusal :: "string \<Rightarrow> string list \<Rightarrow> string \<Rightarrow> params \<Rightarrow> apiError option" where
  "format_refusal name accepted hint m =
     (case present m name of None \<Rightarrow> None
      | Some raw \<Rightarrow>
          (case dec_string raw of None \<Rightarrow> Some (errInvalidParamValue name)
           | Some fmt \<Rightarrow> if fmt \<notin> set accepted then Some (errUnsupportedValue name hint) else None))"

definition refuseOpenAIImageFields :: "params \<Rightarrow> apiError option" where
  "refuseOpenAIImageFields m =
     (case format_refusal ''response_format'' [''b64_json''] ''images: b64_json only'' m of
        Some e \<Rightarrow> Some e
      | None \<Rightarrow>
          if present m ''style'' \<noteq> None then Some (errUnsupportedValue ''style'' ''images: style'')
          else if present m ''moderation'' \<noteq> None then Some (errUnsupportedValue ''moderation'' ''images: moderation'')
          else None)"

definition speechFormats :: "string list" where "speechFormats = [''mp3'', ''pcm'']"

definition refuseOpenAISpeechFields :: "params \<Rightarrow> apiError option" where
  "refuseOpenAISpeechFields m =
     (case format_refusal ''response_format'' speechFormats ''speech: mp3 or pcm'' m of
        Some e \<Rightarrow> Some e
      | None \<Rightarrow>
          (case format_refusal ''stream_format'' [''audio''] ''speech: whole file'' m of
             Some e \<Rightarrow> Some e
           | None \<Rightarrow>
               if present m ''input_references'' \<noteq> None
               then Some (errUnsupportedValue ''input_references'' ''speech: no voice cloning'') else None))"

definition transcriptionFormats :: "string list" where "transcriptionFormats = [''json'', ''verbose_json'']"

definition refuseOpenAITranscriptionFields :: "params \<Rightarrow> apiError option" where
  "refuseOpenAITranscriptionFields m =
     (case format_refusal ''response_format'' transcriptionFormats ''transcriptions: json or verbose_json'' m of
        Some e \<Rightarrow> Some e
      | None \<Rightarrow>
          first_some (\<lambda>name. if present m name \<noteq> None then Some (errUnsupportedParam name) else None)
            [''chunking_strategy'', ''include''])"

section \<open>The upload form\<close>

text \<open>A part as the reader yields it: its name, file name, media type, its bytes, and whether it could be read whole.\<close>

record form_part =
  ptName :: string
  ptFileName :: string
  ptType :: string
  ptData :: string
  ptWhole :: bool

record file_part =
  flName :: string
  flType :: string
  flData :: string

text \<open>What is assembled: the fields in their fixed order, then the file.\<close>

record form =
  fmFields :: "(string \<times> string) list"
  fmFile :: "file_part option"

record mime =
  parseMedia :: "string \<Rightarrow> (string \<times> (string \<times> string) list) option"
  formatMedia :: "string \<Rightarrow> (string \<times> string) list \<Rightarrow> string"
  cutParts :: "string \<Rightarrow> string \<Rightarrow> form_part list \<times> bool"
  validUTF8 :: "string \<Rightarrow> bool"

definition transcriptionFormFields :: "(string \<times> bool) list" where
  "transcriptionFormFields =
     [(''model'', False), (''language'', False), (''prompt'', False), (''response_format'', False),
      (''temperature'', False), (''timestamp_granularities[]'', True), (''keyterms[]'', True), (''diarize'', False),
      (''provider'', False), (''source_url'', False), (''stream'', False)]"

definition transcriptionFileField :: string where "transcriptionFileField = ''file''"
definition transcriptionFieldMaxBytes :: nat where "transcriptionFieldMaxBytes = 65536"
definition transcriptionFormMaxParts :: nat where "transcriptionFormMaxParts = 64"

definition isMultipartForm :: "mime \<Rightarrow> string \<Rightarrow> bool" where
  "isMultipartForm mm contentType =
     (case parseMedia mm contentType of None \<Rightarrow> False | Some (mt, _) \<Rightarrow> mt = ''multipart/form-data'')"

text \<open>The parts read so far: the fields with their values in order, and the file.\<close>

type_synonym form_acc = "string list gomap \<times> form_part option"

definition add_value :: "string \<Rightarrow> string \<Rightarrow> string list gomap \<Rightarrow> string list gomap" where
  "add_value name v fs = AList.update name ((case map_of fs name of None \<Rightarrow> [] | Some vs \<Rightarrow> vs) @ [v]) fs"

definition read_part :: "mime \<Rightarrow> form_part \<Rightarrow> form_acc \<Rightarrow> apiError + form_acc" where
  "read_part mm p acc =
     (let name = ptName p; fs = fst acc in
      if name = transcriptionFileField
      then (if snd acc \<noteq> None then Inl (errInvalidParamValue name)
            else if \<not> ptWhole p then Inl errMalformedForm else Inr (fs, Some p))
      else if name = [] then Inl errMalformedForm
      else case map_of transcriptionFormFields name of
        None \<Rightarrow> Inl (errUnsupportedParam name)
      | Some repeats \<Rightarrow>
          if \<not> repeats \<and> (case map_of fs name of None \<Rightarrow> False | Some vs \<Rightarrow> vs \<noteq> []) then Inl (errInvalidParamValue name)
          else if \<not> ptWhole p \<and> length (ptData p) \<le> transcriptionFieldMaxBytes then Inl errMalformedForm
          else if length (ptData p) > transcriptionFieldMaxBytes \<or> \<not> validUTF8 mm (ptData p)
          then Inl (errInvalidParamValue name)
          else Inr (add_value name (ptData p) fs, snd acc))"

text \<open>The loop over the parts; \<open>clean\<close> says that the form ended where it should.\<close>

fun read_parts :: "mime \<Rightarrow> bool \<Rightarrow> nat \<Rightarrow> form_part list \<Rightarrow> form_acc \<Rightarrow> apiError + form_acc" where
  "read_parts mm clean n [] acc = (if clean then Inr acc else Inl errMalformedForm)"
| "read_parts mm clean n (p # ps) acc =
     (if n \<ge> transcriptionFormMaxParts then Inl errMalformedForm
      else case read_part mm p acc of Inl e \<Rightarrow> Inl e | Inr acc \<Rightarrow> read_parts mm clean (Suc n) ps acc)"

text \<open>The JSON value the fences read for a field.\<close>

definition field_value :: "string \<Rightarrow> string list \<Rightarrow> json" where
  "field_value name vs =
     (if map_of transcriptionFormFields name = Some True then JArr (map JStr vs)
      else if name = ''stream'' \<and> hd vs = ''true'' then JBool True
      else if name = ''stream'' \<and> hd vs = ''false'' then JBool False
      else JStr (hd vs))"

definition cleanFilename :: "string \<Rightarrow> string" where
  "cleanFilename name =
     (let kept = filter (\<lambda>c. \<not> ((of_char c :: nat) < 32 \<or> (of_char c :: nat) = 127 \<or> (of_char c :: nat) = 34 \<or> (of_char c :: nat) = 92)) name;
          tail = (if length kept > 255 then drop (length kept - 255) kept else kept)
      in if tail = [] then ''audio'' else tail)"

definition file_type :: "mime \<Rightarrow> string \<Rightarrow> string" where
  "file_type mm ct =
     (case parseMedia mm ct of None \<Rightarrow> ''application/octet-stream''
      | Some (mt, ps) \<Rightarrow> if formatMedia mm mt ps \<noteq> [] then formatMedia mm mt ps else ''application/octet-stream'')"

definition assemble :: "mime \<Rightarrow> form_acc \<Rightarrow> form" where
  "assemble mm acc =
     \<lparr>fmFields = concat (map (\<lambda>(name, _). map (Pair name) (case map_of (fst acc) name of None \<Rightarrow> [] | Some vs \<Rightarrow> vs))
        transcriptionFormFields),
      fmFile = map_option (\<lambda>p. \<lparr>flName = cleanFilename (ptFileName p), flType = file_type mm (ptType p), flData = ptData p\<rparr>)
        (snd acc)\<rparr>"

definition readTranscriptionForm :: "mime \<Rightarrow> string \<Rightarrow> string \<Rightarrow> apiError + params \<times> form" where
  "readTranscriptionForm mm raw contentType =
     (case parseMedia mm contentType of
        None \<Rightarrow> Inl errMalformedForm
      | Some (mt, ps) \<Rightarrow>
          (case map_of ps ''boundary'' of
             None \<Rightarrow> Inl errMalformedForm
           | Some boundary \<Rightarrow>
               if boundary = [] then Inl errMalformedForm
               else (case cutParts mm raw boundary of (parts, clean) \<Rightarrow>
                 (case read_parts mm clean 0 parts ([], None) of
                    Inl e \<Rightarrow> Inl e
                  | Inr acc \<Rightarrow> Inr (map (\<lambda>(name, vs). (name, field_value name vs)) (fst acc), assemble mm acc)))))"

section \<open>What is judged before a request leaves\<close>

definition shape_refusal :: "passthroughRoute \<Rightarrow> params \<Rightarrow> apiError option" where
  "shape_refusal route m =
     first_some id
       [if openAIImages route then refuseOpenAIImageFields m else None,
        if openAISpeech route then refuseOpenAISpeechFields m else None,
        if openAITranscriptions route then refuseOpenAITranscriptionFields m else None]"

definition streamRefusal :: "params \<Rightarrow> halt option" where
  "streamRefusal m =
     (case map_of m ''stream'' of
        None \<Rightarrow> None
      | Some raw \<Rightarrow>
          (case dec_bool raw of
             None \<Rightarrow> Some (refuse (errInvalidParamValue ''stream'') StatusBadRequest)
           | Some streaming \<Rightarrow> if streaming then Some (refuse errPassthroughNoStreaming StatusBadRequest) else None))"

definition fencePassthrough :: "Document \<Rightarrow> Key \<Rightarrow> Model \<Rightarrow> string \<Rightarrow> params \<Rightarrow> halt option" where
  "fencePassthrough d key model name m =
     first_some id
       [if ServesCreditModel key model then None
        else if IsRouterModelName name
        then Some (refuseAs (errRouterModelNotSupported name) StatusBadRequest ''router_model_not_supported'')
        else Some (refuseAs errCreditModelNotAllowed StatusBadRequest ''credit_model_not_allowed''),
        if map_of m PresetField = None then None
        else Some (refuseAs errPresetNotAllowed StatusBadRequest ''preset_not_allowed''),
        map_option (\<lambda>bad. refuseAs (errCandidateModelNotAllowed bad) StatusBadRequest ''credit_model_not_allowed'')
          (fenceCandidateModels d (\<lambda>_. None) key m),
        map_option (\<lambda>e. refuseAs e StatusBadRequest (toolRefusalType e)) (fenceServerTools d (\<lambda>_. None) key m),
        map_option (\<lambda>e. refuseAs e StatusBadRequest (toolRefusalType e)) (fencePlugins d (\<lambda>_. None) key m),
        streamRefusal m]"

text \<open>A refusal, and the model name the record carries by then.\<close>

definition judgePassthrough ::
  "passthroughRoute \<Rightarrow> Document \<Rightarrow> Key \<Rightarrow> params \<Rightarrow> (halt \<times> string) + Model" where
  "judgePassthrough route d key m =
     (let name = (case Option.bind (map_of m ''model'') dec_string of None \<Rightarrow> [] | Some s \<Rightarrow> s) in
      if name = [] then Inl (refuse (errMissingParam ''model'') StatusBadRequest, [])
      else case shape_refusal route m of
        Some e \<Rightarrow> Inl (refuse e StatusBadRequest, [])
      | None \<Rightarrow>
          if IsPresetModelName name then Inl (refuseAs errPresetNotAllowed StatusBadRequest ''preset_not_allowed'', [])
          else (case passthroughModel d name of
                  None \<Rightarrow> Inl (refuse errModelNotFound StatusBadRequest, [])
                | Some model \<Rightarrow>
                    (case fencePassthrough d key model name m of
                       Some h \<Rightarrow> Inl (h, PublicName model)
                     | None \<Rightarrow> Inr model)))"

section \<open>The attempt\<close>

datatype pass_body = NoBody | JsonBody params | FormBody form

record pass_attempt =
  paUpstream :: Upstream
  paMethod :: string
  paPath :: string
  paBody :: pass_body
  paCred :: string
  paHeaders :: "(string \<times> string) list"

definition passthroughHeaderAllowlist :: "string list" where "passthroughHeaderAllowlist = []"

definition passthroughForwardedHeaders :: "(string \<Rightarrow> string) \<Rightarrow> (string \<times> string) list" where
  "passthroughForwardedHeaders get =
     map (\<lambda>name. (name, get name)) (filter (\<lambda>name. get name \<noteq> []) passthroughHeaderAllowlist)"

section \<open>State and surroundings\<close>

record pass_gateway =
  pgGateway :: gateway
  pgLarge :: pool

record pass_config =
  pcBase :: gateway_config
  pcRequestMax :: int
  pcResponseMax :: int

record pass_world =
  pwBase :: request_world
  pwMime :: mime
  pwNet :: "pass_attempt \<Rightarrow> outcome"
  pwDeclared :: int
  pwContentType :: string

text \<open>One request's claim on the pool: the slot it holds, taken at most once.\<close>

definition hold_take :: "nat option \<Rightarrow> pool \<Rightarrow> bool \<times> nat option \<times> pool" where
  "hold_take h p =
     (case h of Some i \<Rightarrow> (True, h, p)
      | None \<Rightarrow> (case acquire p of (None, p) \<Rightarrow> (False, None, p) | (Some i, p) \<Rightarrow> (True, Some i, p)))"

definition hold_done :: "nat option \<Rightarrow> pool \<Rightarrow> pool" where
  "hold_done h p = (case h of None \<Rightarrow> p | Some i \<Rightarrow> release i p)"

section \<open>Reading the answer\<close>

text \<open>A reader bounded one byte past \<open>cap\<close>: what it yields, and the failure it meets before its bound.\<close>

definition read_bounded :: "int \<Rightarrow> string \<Rightarrow> body_end \<Rightarrow> body_end" where
  "read_bounded cap body ending = (if int (length body) > cap then AtEOF else ending)"

text \<open>Reading under the bound \<open>cap\<close>, and on to the surface's bound with a slot when the answer goes past it.\<close>

definition read_on ::
  "int \<Rightarrow> int \<Rightarrow> string \<Rightarrow> body_end \<Rightarrow> nat option \<Rightarrow> pool \<Rightarrow> answer_read \<times> nat option \<times> pool" where
  "read_on limit cap body ending h0 p0 =
     (let n = int (length body);
          first_end = read_bounded cap body ending;
          further = (first_end = AtEOF \<and> n > cap \<and> cap < limit) in
      case (if further then hold_take h0 p0 else (True, h0, p0)) of
        (granted, h, p) \<Rightarrow>
          if \<not> granted then (TooLarge, h, p)
          else let last_end = (if further then read_bounded limit body ending else first_end) in
            if last_end \<noteq> AtEOF then (Unread (last_end = EndDeadline), h, p)
            else if n > limit then (TooLarge, h, p) else (Whole body, h, p))"

definition readPassAnswer ::
  "int \<Rightarrow> int \<Rightarrow> string \<Rightarrow> body_end \<Rightarrow> nat option \<Rightarrow> pool \<Rightarrow> answer_read \<times> nat option \<times> pool" where
  "readPassAnswer limit declared body ending h0 p0 =
     (let cap = (if h0 \<noteq> None then limit else min upstreamResponseCapBytes limit) in
      if declared > limit then (TooLarge, h0, p0)
      else case (if declared > cap then hold_take h0 p0 else (True, h0, p0)) of
        (granted, h, p) \<Rightarrow>
          if \<not> granted then (TooLarge, h, p)
          else read_on limit (if declared > cap then limit else cap) body ending h p)"

section \<open>Metering\<close>

record pass_usage =
  puPrompt :: int
  puCompletion :: int
  puTotal :: int
  puInput :: int
  puOutput :: int
  puCost :: string
  puCached :: int
  puReasoning :: int

definition pass_usage_zero :: pass_usage where
  "pass_usage_zero = \<lparr>puPrompt = 0, puCompletion = 0, puTotal = 0, puInput = 0, puOutput = 0, puCost = [], puCached = 0,
     puReasoning = 0\<rparr>"

definition pass_usage_fields :: "pass_usage field list" where
  "pass_usage_fields =
     [(''prompt_tokens'', int_field (\<lambda>n. puPrompt_update (\<lambda>_. n))),
      (''completion_tokens'', int_field (\<lambda>n. puCompletion_update (\<lambda>_. n))),
      (''total_tokens'', int_field (\<lambda>n. puTotal_update (\<lambda>_. n))),
      (''input_tokens'', int_field (\<lambda>n. puInput_update (\<lambda>_. n))),
      (''output_tokens'', int_field (\<lambda>n. puOutput_update (\<lambda>_. n))),
      (''cost'', number_field (\<lambda>s. puCost_update (\<lambda>_. s))),
      (''prompt_tokens_details'', dec_struct False [(''cached_tokens'', int_field (\<lambda>n. puCached_update (\<lambda>_. n)))]),
      (''completion_tokens_details'',
        dec_struct False [(''reasoning_tokens'', int_field (\<lambda>n. puReasoning_update (\<lambda>_. n)))])]"

record pass_envelope =
  peModel :: string
  peID :: json
  peData :: "json list"
  peUsage :: "pass_usage option"

definition pass_envelope_fields :: "pass_envelope field list" where
  "pass_envelope_fields =
     [(''model'', string_field (\<lambda>s. peModel_update (\<lambda>_. s))),
      (''id'', \<lambda>j r. Some (r\<lparr>peID := j\<rparr>)),
      (''data'', \<lambda>j r. map_option (\<lambda>xs. r\<lparr>peData := xs\<rparr>) (dec_list j)),
      (''usage'', \<lambda>j r.
         if j = JNull then Some (r\<lparr>peUsage := None\<rparr>)
         else map_option (\<lambda>u. r\<lparr>peUsage := Some u\<rparr>)
           (dec_struct False pass_usage_fields j (case peUsage r of None \<Rightarrow> pass_usage_zero | Some u \<Rightarrow> u)))]"

text \<open>The usage an answer reported, \<^const>\<open>None\<close> when it reported none that says anything.\<close>

definition settled_usage :: "pass_usage \<Rightarrow> usage option" where
  "settled_usage r =
     (let u = \<lparr>PromptTokens = puPrompt r, CompletionTokens = puCompletion r, TotalTokens = puTotal r, Cost = puCost r,
               CachedTokens = puCached r, usageReasoningTokens = puReasoning r\<rparr>;
          u = (if PromptTokens u = 0 \<and> CompletionTokens u = 0
               then u\<lparr>PromptTokens := puInput r, CompletionTokens := puOutput r\<rparr> else u)
      in if PromptTokens u = 0 \<and> CompletionTokens u = 0
         then (if TotalTokens u = 0
               then (if CostLiteral (Cost u) \<noteq> [] then Some (usage_zero\<lparr>Cost := Cost u\<rparr>) else None)
               else Some (u\<lparr>PromptTokens := TotalTokens u\<rparr>))
         else Some u)"

record pass_read =
  prModel :: string
  prID :: string
  prUsage :: "usage option"
  prImages :: int

definition passthroughUsage :: "json \<Rightarrow> pass_read option" where
  "passthroughUsage j =
     (case dec_struct False pass_envelope_fields j \<lparr>peModel = [], peID = JNull, peData = [], peUsage = None\<rparr> of
        None \<Rightarrow> None
      | Some e \<Rightarrow>
          Some \<lparr>prModel = peModel e, prID = (case dec_string (peID e) of None \<Rightarrow> [] | Some s \<Rightarrow> s),
                prUsage = Option.bind (peUsage e) settled_usage, prImages = int (length (peData e))\<rparr>)"

definition settlePassthrough :: "passthroughRoute \<Rightarrow> int \<Rightarrow> pass_read \<Rightarrow> Event \<Rightarrow> Event" where
  "settlePassthrough route inputBytes r ev =
     (if \<not> readsBody route then ev
      else
        let ev = (if prUsage r \<noteq> None \<or> \<not> noEstimate route then settleUsage (prUsage r) inputBytes 0 ev else ev)
        in if rtName route = ''images'' then ev\<lparr>ImageCount := prImages r\<rparr> else ev)"

section \<open>Finishing\<close>

definition delivered :: "request_world \<Rightarrow> Event \<Rightarrow> Event" where
  "delivered w ev =
     (if clientWrites w 0 then ev\<lparr>EvStatus := StatusOK\<rparr>
      else ev\<lparr>EvStatus := StatusCanceled, ErrorType := ''client_disconnected''\<rparr>)"

text \<open>The record of an answer: at once, or once its price is known.\<close>

definition finish_pass ::
  "pass_world \<Rightarrow> passthroughRoute \<Rightarrow> Upstream \<Rightarrow> string \<Rightarrow> string \<Rightarrow> Event \<Rightarrow> gateway \<Rightarrow> gateway" where
  "finish_pass w route up cred bodyID ev g =
     (if \<not> readsBody route \<or> \<not> lookupCost route \<and> EvStatus ev = StatusOK then record_event (pwBase w) ev g
      else let gid = ansGenerationID (pwBase w) in
        case withGenerationCost PassthroughSurface (if gid = [] then bodyID else gid) up cred
               (ev\<lparr>LatencyMs := latencyMs (pwBase w)\<rparr>) (costLookups g) of
          (None, c) \<Rightarrow> g\<lparr>costLookups := c\<rparr>
        | (Some e, c) \<Rightarrow> record_event (pwBase w) e (g\<lparr>costLookups := c\<rparr>))"

definition answer_headers :: "pass_world \<Rightarrow> string \<Rightarrow> (string \<times> string) list" where
  "answer_headers w contentType =
     (case relayGenerationID (ansGenerationID (pwBase w)) of None \<Rightarrow> [] | Some i \<Rightarrow> [(''X-Generation-Id'', i)]) @
     [(''Content-Type'', contentType)]"

definition audio_type :: "mime \<Rightarrow> string \<Rightarrow> string option" where
  "audio_type mm ct =
     (case parseMedia mm ct of
        None \<Rightarrow> None
      | Some (mt, ps) \<Rightarrow>
          if HasPrefix mt ''audio/'' then Some (if formatMedia mm mt ps = [] then mt else formatMedia mm mt ps) else None)"

definition invalid_answer :: halt where
  "invalid_answer = refuseAs errUpstream StatusUpstreamErr ''upstream_invalid_response''"

text \<open>The reply, the event as it ends, and the generation id the body named.\<close>

definition relayAudio :: "pass_world \<Rightarrow> string \<Rightarrow> Event \<Rightarrow> reply \<times> Event \<times> string" where
  "relayAudio w body ev =
     (case audio_type (pwMime w) (pwContentType w) of
        None \<Rightarrow> (Refused (haltErr invalid_answer) [], halted invalid_answer ev, [])
      | Some ct \<Rightarrow> (Answer body (answer_headers w ct), delivered (pwBase w) ev, []))"

definition relayJson :: "pass_world \<Rightarrow> passthroughRoute \<Rightarrow> int \<Rightarrow> string \<Rightarrow> Event \<Rightarrow> reply \<times> Event \<times> string" where
  "relayJson w route inputBytes body ev =
     (case Option.bind (decodeAns (pwBase w) body) passthroughUsage of
        None \<Rightarrow> (Refused (haltErr invalid_answer) [], halted invalid_answer ev, [])
      | Some r \<Rightarrow>
          let ev = (if nativeModelName route then ev else noteServedModel (PublicModelName ev) (prModel r) ev) in
          (Answer body (answer_headers w ''application/json; charset=utf-8''),
           settlePassthrough route inputBytes r (delivered (pwBase w) ev),
           if generationIDInBody route then prID r else []))"

definition finishPassthrough ::
  "pass_world \<Rightarrow> pass_config \<Rightarrow> passthroughRoute \<Rightarrow> Upstream \<Rightarrow> string \<Rightarrow> int \<Rightarrow> nat option \<Rightarrow> Event \<Rightarrow> pass_gateway \<Rightarrow>
     reply \<times> nat option \<times> pass_gateway" where
  "finishPassthrough w cfg route up cred inputBytes h0 ev pg =
     (case readPassAnswer (pcResponseMax cfg) (pwDeclared w) (ansBody (pwBase w)) (ansEnd (pwBase w)) h0 (pgLarge pg) of
        (rd, h, p) \<Rightarrow>
          (case (case rd of
                   TooLarge \<Rightarrow>
                     let x = refuse errPassthroughResponseTooLarge StatusUpstreamErr in
                     (Refused (haltErr x) [], halted x ev, [])
                 | Unread deadline \<Rightarrow>
                     let x = (if deadline then refuse errUpstreamTimeout StatusTimeout
                              else refuseAs errUpstream StatusUpstreamErr ''upstream_read_failed'') in
                     (Refused (haltErr x) [], halted x ev, [])
                 | Whole body \<Rightarrow> if audioAnswer route then relayAudio w body ev else relayJson w route inputBytes body ev) of
             (r, ev, bodyID) \<Rightarrow>
               (r, h, pg\<lparr>pgGateway := finish_pass w route up cred bodyID ev (pgGateway pg), pgLarge := p\<rparr>)))"

section \<open>The handler\<close>

text \<open>Up to the in-flight cap: the key, or a halt, the key it is attributed to and the axis the record carries.\<close>

definition admitPassthrough ::
  "(string \<Rightarrow> string) \<Rightarrow> int \<Rightarrow> passthroughRoute \<Rightarrow> (string \<Rightarrow> string) \<Rightarrow> state \<Rightarrow> (halt \<times> Key option \<times> string) + Key" where
  "admitPassthrough hash now route get st =
     (if \<not> ServiceEnabled (doc st) then Inl (refuse errServiceDisabled StatusAuthRejected, None, [])
      else case bearerToken get of
        Inl e \<Rightarrow> Inl (refuse e StatusAuthRejected, None, [])
      | Inr token \<Rightarrow>
          (case authenticateToken hash now token (map_of (byHash st)) of
             Inl (k, e) \<Rightarrow> Inl (refuse e StatusAuthRejected, k, [])
           | Inr key \<Rightarrow>
               if \<not> AllowsEndpoint key (rtCapability route)
               then Inl (refuse (errEndpointNotAllowed (endpointLabel (rtCapability route))) StatusAuthRejected, Some key, [])
               else if PassthroughRef (doc st) = [] then Inl (refuse errServiceDisabled StatusUpstreamErr, Some key, [])
               else if CredentialFor key (PassthroughRef (doc st)) = []
               then Inl (refuse (if CreditPending key then errCreditPending else errCreditUnavailable) StatusAuthRejected,
                         Some key, AxisCredit)
               else Inr key))"

text \<open>The bound on the body, and the slot taken for it.\<close>

definition passBodyLimit :: "pass_config \<Rightarrow> wire_request \<Rightarrow> pool \<Rightarrow> (halt + int \<times> nat option) \<times> pool" where
  "passBodyLimit cfg rq p =
     (let small = min (limRequest (bodyBounds (pcBase cfg))) (pcRequestMax cfg) in
      if contentLength rq > small
      then (if p = None \<or> contentLength rq > pcRequestMax cfg then (Inl (refuse errRequestTooLarge StatusBadRequest), p)
            else case hold_take None p of
              (False, h, p) \<Rightarrow> (Inl (refuse errLargeRequestBusy StatusRateLimited), p)
            | (True, h, p) \<Rightarrow> (Inr (pcRequestMax cfg, h), p))
      else (Inr (small, None), p))"

definition readPassBody :: "int \<Rightarrow> wire_request \<Rightarrow> halt + string" where
  "readPassBody limit rq =
     (if int (length (rqBody rq)) > limit then Inl (refuse errRequestTooLarge StatusBadRequest)
      else if broken rq then Inl (refuse errBadJSON StatusBadRequest)
      else Inr (rqBody rq))"

text \<open>The members that are judged, and what is forwarded for them.\<close>

definition readPassParams ::
  "pass_world \<Rightarrow> passthroughRoute \<Rightarrow> wire_request \<Rightarrow> string \<Rightarrow> halt + params \<times> pass_body" where
  "readPassParams w route rq raw =
     (if multipartForm route \<and> isMultipartForm (pwMime w) (rqHeader rq ''Content-Type'')
      then (case readTranscriptionForm (pwMime w) raw (rqHeader rq ''Content-Type'') of
              Inl e \<Rightarrow> Inl (refuse e StatusBadRequest) | Inr (m, f) \<Rightarrow> Inr (m, FormBody f))
      else (case decodeParams (decodeReq (pwBase w)) raw of Inl h \<Rightarrow> Inl h | Inr m \<Rightarrow> Inr (m, JsonBody m)))"

definition fail_pass ::
  "pass_world \<Rightarrow> attemptError \<Rightarrow> Event \<Rightarrow> gateway \<Rightarrow> reply \<times> gateway" where
  "fail_pass w ae ev g =
     (let b = pwBase w; hs = (if aeRetryAfter ae \<noteq> [] then [(''Retry-After'', aeRetryAfter ae)] else []) in
      if clientGoneAtCall b
      then (NoReply, record_event b (ev\<lparr>EvStatus := StatusCanceled, ErrorType := ''client_disconnected''\<rparr>) g)
      else if pastDeadlineAtCall b \<or> timeout ae then halt_with b (refuse errUpstreamTimeout StatusTimeout) [] ev g
      else case aeRefusal ae of
        Some e \<Rightarrow>
          halt_with b (refuse e (if errCode e = errCode errCreditExhausted then StatusRateLimited else StatusUpstreamErr)) [] ev g
      | None \<Rightarrow>
          halt_with b (refuse (if throttled ae then errServerBusy else errUpstream) StatusUpstreamErr) hs ev g)"

definition call_pass ::
  "pass_world \<Rightarrow> pass_config \<Rightarrow> passthroughRoute \<Rightarrow> wire_request \<Rightarrow> Key \<Rightarrow> pass_body \<Rightarrow> int \<Rightarrow> nat option \<Rightarrow> Event \<Rightarrow>
     pass_gateway \<Rightarrow> reply \<times> nat option \<times> pass_gateway \<times> pass_attempt list" where
  "call_pass w cfg route rq key body inputBytes h ev pg =
     (let b = pwBase w; ref = ToLower (PassthroughRef (doc (snap (pgGateway pg)))) in
      case map_of (upstreams (calls b)) ref of
        None \<Rightarrow>
          (case halt_with b (refuse errServiceDisabled StatusUpstreamErr) [] ev (pgGateway pg) of
             (r, g) \<Rightarrow> (r, h, pg\<lparr>pgGateway := g\<rparr>, []))
      | Some up \<Rightarrow>
          let ev = ev\<lparr>EvUpstreamRef := upRef up, Attempts := Some 1\<rparr>;
              spec = \<lparr>paUpstream = up, paMethod = rtMethod route, paPath = rtPath route, paBody = body,
                      paCred = CredentialFor key ref, paHeaders = passthroughForwardedHeaders (rqHeader rq)\<rparr>;
              g = pgGateway pg;
              g = g\<lparr>upHealth := recordAttempt (clk (calls b) 0) ref (upHealth g)\<rparr>
          in (case classify (rejectWith (calls b) [] []) True (pwNet w spec) of
                Some ae \<Rightarrow>
                  (case fail_pass w ae ev (g\<lparr>upHealth := recordPassiveFailure (clk (calls b) 1) ref (kind ae) (upHealth g)\<rparr>) of
                     (r, g) \<Rightarrow> (r, h, pg\<lparr>pgGateway := g\<rparr>, [spec]))
              | None \<Rightarrow>
                  (case finishPassthrough w cfg route up (CredentialFor key ref) inputBytes h ev
                          (pg\<lparr>pgGateway := g\<lparr>upHealth := recordSuccess (clk (calls b) 1) ref (upHealth g)\<rparr>\<rparr>) of
                     (r, h, pg) \<Rightarrow> (r, h, pg, [spec]))))"

definition serve_pass_body ::
  "pass_world \<Rightarrow> pass_config \<Rightarrow> passthroughRoute \<Rightarrow> wire_request \<Rightarrow> Key \<Rightarrow> Event \<Rightarrow> pass_gateway \<Rightarrow>
     reply \<times> nat option \<times> pass_gateway \<times> pass_attempt list" where
  "serve_pass_body w cfg route rq key ev pg0 =
     (case passBodyLimit cfg rq (pgLarge pg0) of
        (lim_or, p) \<Rightarrow>
          let pg = pg0\<lparr>pgLarge := p\<rparr>;
              stop = (\<lambda>x h ev. case halt_with (pwBase w) x [] ev (pgGateway pg) of (r, g) \<Rightarrow> (r, h, pg\<lparr>pgGateway := g\<rparr>, []))
          in case lim_or of
            Inl x \<Rightarrow> stop x None ev
          | Inr (limit, h) \<Rightarrow>
              (case readPassBody limit rq of
                 Inl x \<Rightarrow> stop x h ev
               | Inr raw \<Rightarrow>
                   (case readPassParams w route rq raw of
                      Inl x \<Rightarrow> stop x h ev
                    | Inr (m, body) \<Rightarrow>
                        (case judgePassthrough route (doc (snap (pgGateway pg))) key m of
                           Inl (x, name) \<Rightarrow> stop x h (ev\<lparr>PublicModelName := name\<rparr>)
                         | Inr model \<Rightarrow>
                             call_pass w cfg route rq key body (int (length raw)) h
                               (ev\<lparr>PublicModelName := PublicName model\<rparr>) pg))))"

definition handlePassthrough ::
  "pass_world \<Rightarrow> pass_config \<Rightarrow> passthroughRoute \<Rightarrow> wire_request \<Rightarrow> pass_gateway \<Rightarrow>
     reply \<times> pass_gateway \<times> pass_attempt list" where
  "handlePassthrough w cfg route rq pg =
     (let b = pwBase w; g = pgGateway pg;
          ev = Event_zero\<lparr>EventUUID := newUUID b, RequestedAt := startAt b, EvEndpoint := rtName route,
                 Attempts := Some 0, EvGeneration := Generation (doc (snap g))\<rparr>;
          stop = (\<lambda>x ev. case halt_with b x [] ev g of (r, g) \<Rightarrow> (r, pg\<lparr>pgGateway := g\<rparr>, []))
      in if rqMethod rq \<noteq> rtMethod route then (Refused errMethod [], pg, [])
         else case admitPassthrough (hashToken b) (authAt b) route (rqHeader rq) (snap g) of
           Inl (x, k, axis) \<Rightarrow>
             stop x (ev\<lparr>EvKeyID := (case k of None \<Rightarrow> [] | Some key \<Rightarrow> KeyID key), EvBudgetAxis := axis\<rparr>)
         | Inr key \<Rightarrow>
             let ev = ev\<lparr>EvKeyID := KeyID key, EvBudgetAxis := AxisCredit\<rparr> in
             if inflight g \<ge> maxInFlight (pcBase cfg) then stop (refuse errServerBusy StatusRateLimited) ev
             else
               let pg1 = pg\<lparr>pgGateway := g\<lparr>inflight := inflight g + 1\<rparr>\<rparr> in
               (case (if readsBody route then serve_pass_body w cfg route rq key ev pg1
                      else call_pass w cfg route rq key NoBody 0 None ev pg1) of
                  (r, h, pg2, attempts) \<Rightarrow>
                    (r, \<lparr>pgGateway = (pgGateway pg2)\<lparr>inflight := inflight (pgGateway pg2) - 1\<rparr>,
                         pgLarge = hold_done h (pgLarge pg2)\<rparr>, attempts)))"

end
