(* ===== verification/Passthrough_Safety.thy ===== *)
theory Passthrough_Safety
  imports Passthrough
begin

text \<open>
  What the passthrough surface guarantees: who reaches the vendor, with what and paid by whom; that the
  form that is sent is the one that was judged.
\<close>

section \<open>What is sent\<close>

lemma fencePassthrough_None:
  assumes "fencePassthrough d key model name m = None"
  shows "ServesCreditModel key model" "map_of m PresetField = None" "fenceCandidateModels d (\<lambda>_. None) key m = None"
    "fenceServerTools d (\<lambda>_. None) key m = None" "fencePlugins d (\<lambda>_. None) key m = None" "streamRefusal m = None"
  using assms by (auto simp: fencePassthrough_def split: if_splits option.splits)

lemma judgePassthrough_Inr:
  assumes "judgePassthrough route d key m = Inr model"
  obtains name where "Option.bind (map_of m ''model'') dec_string = Some name" "name \<noteq> []"
    "passthroughModel d name = Some model" "shape_refusal route m = None" "fencePassthrough d key model name m = None"
  using assms
  by (auto simp: judgePassthrough_def Let_def split: option.splits if_splits)

text \<open>Every model a judged body names is one its key may buy; only a tool choice is not looked into.\<close>

lemma judged_names_billable:
  assumes "fencePassthrough d key model name m = None" "present m toolChoiceField = None" "names_model m n"
  shows "billable d (\<lambda>_. None) key n"
  using assms(3)
proof cases
  case (candidate raw ns)
  have "allowsCandidateModel d (\<lambda>_. None) key n"
    using fencePassthrough_None(3) [OF assms(1)] candidate by (auto simp: fenceCandidateModels_def find_None_iff)
  then show ?thesis by (simp add: allowsCandidateModel_iff)
next
  case (plugin raw ps q)
  then have "fencePlugin d (\<lambda>_. None) key q = None"
    using fencePassthrough_None(5) [OF assms(1)] by (auto simp: fencePlugins_def first_some_None_iff)
  then show ?thesis using fencePlugin_None(1) plugin by (auto simp: names_fenced_def)
next
  case (tool raw t)
  have "\<exists>depth. fenceToolList d (\<lambda>_. None) key raw depth = None"
    using tool(1)
  proof cases
    case tools
    then show ?thesis using fencePassthrough_None(4) [OF assms(1)]
      by (auto simp: fenceServerTools_def split: option.splits)
  next
    case (plugin_tools rawPlugins ps q)
    then have "fencePlugin d (\<lambda>_. None) key q = None"
      using fencePassthrough_None(5) [OF assms(1)] by (auto simp: fencePlugins_def first_some_None_iff)
    then show ?thesis using fencePlugin_None(2) plugin_tools by blast
  next
    case choice_tools
    then show ?thesis using assms(2) by simp
  qed
  then have "tool_fenced d (\<lambda>_. None) key t" using fenceToolList_None tool by blast
  then show ?thesis using tool by (auto simp: tool_fenced_def names_fenced_def Let_def)
qed

section \<open>The upload form\<close>

text \<open>What the vendor reads of a form under a name.\<close>

definition form_values :: "form \<Rightarrow> string \<Rightarrow> string list" where
  "form_values f name = map snd (filter (\<lambda>kv. fst kv = name) (fmFields f))"

text \<open>The fields read so far: known names, values in bounds, one value where a field may not repeat.\<close>

definition field_ok :: "mime \<Rightarrow> string \<times> string list \<Rightarrow> bool" where
  "field_ok mm x \<longleftrightarrow> snd x \<noteq> [] \<and>
     (\<exists>repeats. map_of transcriptionFormFields (fst x) = Some repeats \<and> (\<not> repeats \<longrightarrow> length (snd x) = 1)) \<and>
     (\<forall>v\<in>set (snd x). length v \<le> transcriptionFieldMaxBytes \<and> validUTF8 mm v)"

definition fields_ok :: "mime \<Rightarrow> string list gomap \<Rightarrow> bool" where
  "fields_ok mm fs \<longleftrightarrow> distinct (map fst fs) \<and> (\<forall>x\<in>set fs. field_ok mm x)"

definition values_count :: "string list gomap \<Rightarrow> nat" where
  "values_count fs = length (concat (map snd fs))"

lemma fields_ok_lookup:
  assumes "fields_ok mm fs" "map_of fs name = Some vs"
  shows "vs \<noteq> []" "\<exists>repeats. map_of transcriptionFormFields name = Some repeats \<and> (\<not> repeats \<longrightarrow> length vs = 1)"
    "\<forall>v\<in>set vs. length v \<le> transcriptionFieldMaxBytes \<and> validUTF8 mm v"
proof -
  have "field_ok mm (name, vs)" using assms(1) map_of_SomeD [OF assms(2)] by (simp add: fields_ok_def)
  then show "vs \<noteq> []" "\<exists>repeats. map_of transcriptionFormFields name = Some repeats \<and> (\<not> repeats \<longrightarrow> length vs = 1)"
    "\<forall>v\<in>set vs. length v \<le> transcriptionFieldMaxBytes \<and> validUTF8 mm v"
    by (simp_all add: field_ok_def)
qed

lemma update_absent: "map_of m k = None \<Longrightarrow> AList.update k v m = m @ [(k, v)]"
  by (induction m) (auto split: if_splits)

lemma mem_update: "distinct (map fst m) \<Longrightarrow> x \<in> set (AList.update k v m) \<longleftrightarrow> x = (k, v) \<or> x \<in> set m \<and> fst x \<noteq> k"
  by (induction m) (auto split: if_splits)

lemma count_update:
  "distinct (map fst m) \<Longrightarrow>
     values_count (AList.update k v m) + (case map_of m k of None \<Rightarrow> 0 | Some vs \<Rightarrow> length vs) = values_count m + length v"
  by (induction m) (auto simp: values_count_def map_of_eq_None_iff split: option.splits)

lemma read_part_ok:
  assumes "read_part mm p acc = Inr acc'" "fields_ok mm (fst acc)"
  shows "fields_ok mm (fst acc')" "values_count (fst acc') + (if snd acc' = None then 0 else 1) =
    Suc (values_count (fst acc) + (if snd acc = None then 0 else 1))"
proof -
  have d: "distinct (map fst (fst acc))" using assms(2) by (simp add: fields_ok_def)
  consider (is_file) "fst acc' = fst acc" "snd acc = None" "snd acc' \<noteq> None"
    | (is_field) repeats where "map_of transcriptionFormFields (ptName p) = Some repeats"
      "\<not> repeats \<longrightarrow> map_of (fst acc) (ptName p) = None \<or> map_of (fst acc) (ptName p) = Some []"
      "length (ptData p) \<le> transcriptionFieldMaxBytes" "validUTF8 mm (ptData p)"
      "acc' = (add_value (ptName p) (ptData p) (fst acc), snd acc)"
    using assms(1) by (auto simp: read_part_def Let_def split: if_splits option.splits)
  then have "fields_ok mm (fst acc') \<and> values_count (fst acc') + (if snd acc' = None then 0 else 1) =
    Suc (values_count (fst acc) + (if snd acc = None then 0 else 1))"
  proof cases
    case is_file
    then show ?thesis using assms(2) by simp
  next
    case is_field
    let ?old = "case map_of (fst acc) (ptName p) of None \<Rightarrow> [] | Some vs \<Rightarrow> vs"
    have "\<not> repeats \<longrightarrow> ?old = []" using is_field(2) by auto
    moreover have "\<forall>v\<in>set ?old. length v \<le> transcriptionFieldMaxBytes \<and> validUTF8 mm v"
      using fields_ok_lookup(3) [OF assms(2)] by (cases "map_of (fst acc) (ptName p)") auto
    ultimately have "field_ok mm (ptName p, ?old @ [ptData p])" using is_field by (auto simp: field_ok_def)
    then have "fields_ok mm (add_value (ptName p) (ptData p) (fst acc))"
      using assms(2) by (auto simp: fields_ok_def add_value_def mem_update distinct_update)
    moreover have "values_count (add_value (ptName p) (ptData p) (fst acc)) = Suc (values_count (fst acc))"
      using count_update [OF d, of "ptName p" "?old @ [ptData p]"] by (auto simp: add_value_def split: option.splits)
    ultimately show ?thesis using is_field(5) by simp
  qed
  then show "fields_ok mm (fst acc')" "values_count (fst acc') + (if snd acc' = None then 0 else 1) =
    Suc (values_count (fst acc) + (if snd acc = None then 0 else 1))" by simp_all
qed

lemma read_parts_ok:
  assumes "read_parts mm clean n ps acc = Inr acc'" "fields_ok mm (fst acc)" "n \<le> transcriptionFormMaxParts"
    "values_count (fst acc) + (if snd acc = None then 0 else 1) = n"
  shows "fields_ok mm (fst acc')"
    "values_count (fst acc') + (if snd acc' = None then 0 else 1) \<le> transcriptionFormMaxParts"
proof -
  have "fields_ok mm (fst acc') \<and> values_count (fst acc') + (if snd acc' = None then 0 else 1) \<le> transcriptionFormMaxParts"
    using assms
  proof (induction ps arbitrary: n acc)
    case (Cons p ps)
    then obtain acc1 where r: "read_part mm p acc = Inr acc1" "read_parts mm clean (Suc n) ps acc1 = Inr acc'"
      "n < transcriptionFormMaxParts"
      by (auto split: if_splits sum.splits)
    show ?case
      by (rule Cons.IH [OF r(2) read_part_ok(1) [OF r(1) Cons.prems(2)]])
        (use r(3) read_part_ok(2) [OF r(1) Cons.prems(2)] Cons.prems(4) in simp_all)
  qed (auto split: if_splits)
  then show "fields_ok mm (fst acc')"
    "values_count (fst acc') + (if snd acc' = None then 0 else 1) \<le> transcriptionFormMaxParts" by simp_all
qed

text \<open>A part that carries a value of a field again, as the assembled form does.\<close>

definition field_part :: "string \<Rightarrow> string \<Rightarrow> form_part" where
  "field_part name v = \<lparr>ptName = name, ptFileName = [], ptType = [], ptData = v, ptWhole = True\<rparr>"

definition form_parts :: "form \<Rightarrow> form_part list" where
  "form_parts f = map (\<lambda>(name, v). field_part name v) (fmFields f) @
     (case fmFile f of None \<Rightarrow> []
      | Some fl \<Rightarrow> [\<lparr>ptName = transcriptionFileField, ptFileName = flName fl, ptType = flType fl, ptData = flData fl, ptWhole = True\<rparr>])"

lemma read_parts_append:
  "read_parts mm clean n (ps @ qs) acc =
     (case read_parts mm True n ps acc of Inl e \<Rightarrow> Inl e | Inr acc1 \<Rightarrow> read_parts mm clean (n + length ps) qs acc1)"
  by (induction mm True n ps acc rule: read_parts.induct) (auto split: sum.splits)

definition the_default :: "'a \<Rightarrow> 'a option \<Rightarrow> 'a" where
  "the_default d x = (case x of None \<Rightarrow> d | Some y \<Rightarrow> y)"

text \<open>The values of one field, read in a row into a form that does not have it yet.\<close>

lemma read_field_values:
  assumes "map_of transcriptionFormFields name = Some repeats" "name \<noteq> transcriptionFileField" "name \<noteq> []"
    "\<forall>v\<in>set vs. length v \<le> transcriptionFieldMaxBytes \<and> validUTF8 mm v"
    "\<not> repeats \<longrightarrow> length (the_default [] (map_of fs name)) + length vs \<le> 1"
    "n + length vs \<le> transcriptionFormMaxParts"
  shows "read_parts mm True n (map (field_part name) vs) (fs, fl) =
    Inr (if vs = [] then fs else AList.update name (the_default [] (map_of fs name) @ vs) fs, fl)"
  using assms(4-6)
proof (induction vs arbitrary: n fs)
  case (Cons v vs)
  let ?old = "the_default [] (map_of fs name)"
  have "read_part mm (field_part name v) (fs, fl) = Inr (add_value name v fs, fl)"
    using assms(1-3) Cons.prems
    by (cases "map_of fs name") (auto simp: read_part_def field_part_def Let_def the_default_def)
  moreover have new: "add_value name v fs = AList.update name (?old @ [v]) fs"
    by (simp add: add_value_def the_default_def split: option.splits)
  moreover have "read_parts mm True (Suc n) (map (field_part name) vs) (add_value name v fs, fl) =
    Inr (if vs = [] then add_value name v fs
         else AList.update name (the_default [] (map_of (add_value name v fs) name) @ vs) (add_value name v fs), fl)"
    by (rule Cons.IH) (use Cons.prems new in \<open>auto simp: the_default_def go_maps\<close>)
  moreover have "the_default [] (map_of (add_value name v fs) name) = ?old @ [v]"
    by (simp add: new go_maps the_default_def)
  ultimately show ?case using Cons.prems by (simp add: new update_last)
qed simp

abbreviation values_of :: "string list gomap \<Rightarrow> string \<Rightarrow> string list" where
  "values_of fs name \<equiv> the_default [] (map_of fs name)"

lemma sum_list_one:
  "distinct ns \<Longrightarrow> sum_list (map (\<lambda>n. if n = k then a else g n) ns) \<le> a + sum_list (map g ns)" for a :: nat
proof (induction ns)
  case (Cons n ns)
  show ?case
  proof (cases "n = k")
    case True
    then have "map (\<lambda>n. if n = k then a else g n) ns = map g ns" using Cons.prems by auto
    then show ?thesis using True by (simp only: list.map sum_list.Cons if_True) simp
  next
    case False
    then show ?thesis using Cons by simp
  qed
qed simp

lemma values_within: "distinct ns \<Longrightarrow> sum_list (map (\<lambda>n. length (values_of fs n)) ns) \<le> values_count fs"
proof (induction fs)
  case (Cons x fs)
  obtain k vs where x: "x = (k, vs)" by (cases x)
  have "(\<lambda>n. length (values_of (x # fs) n)) = (\<lambda>n. if n = k then length vs else length (values_of fs n))"
    by (auto simp: x the_default_def)
  then show ?case
    using Cons sum_list_one [OF Cons.prems, of k "length vs" "\<lambda>n. length (values_of fs n)"]
    by (simp add: x values_count_def)
qed (simp add: the_default_def values_count_def sum_list_0)

lemma read_in_order:
  assumes "fields_ok mm fs" "distinct ns" "\<forall>n\<in>set ns. n \<noteq> transcriptionFileField \<and> n \<noteq> [] \<and> map_of gs n = None"
    "i + sum_list (map (\<lambda>n. length (values_of fs n)) ns) \<le> transcriptionFormMaxParts"
  shows "\<exists>hs. read_parts mm True i (concat (map (\<lambda>n. map (field_part n) (values_of fs n)) ns)) (gs, fl) = Inr (hs, fl) \<and>
    (\<forall>n. map_of hs n = (if n \<in> set ns \<and> map_of fs n \<noteq> None then map_of fs n else map_of gs n))"
  using assms(2-4)
proof (induction ns arbitrary: i gs)
  case (Cons n ns)
  let ?vs = "values_of fs n"
  let ?gs = "if ?vs = [] then gs else AList.update n ?vs gs"
  have "read_parts mm True i (map (field_part n) ?vs) (gs, fl) = Inr (?gs, fl)"
  proof (cases "map_of fs n")
    case (Some vs)
    obtain repeats where r: "map_of transcriptionFormFields n = Some repeats" "\<not> repeats \<longrightarrow> length vs = 1"
      using fields_ok_lookup(2) [OF assms(1) Some] by blast
    show ?thesis
      using read_field_values [OF r(1), of vs mm gs i fl] fields_ok_lookup(3) [OF assms(1) Some] r(2) Cons.prems Some
      by (simp add: the_default_def)
  qed (simp add: the_default_def)
  moreover have "\<exists>hs. read_parts mm True (i + length ?vs) (concat (map (\<lambda>n. map (field_part n) (values_of fs n)) ns)) (?gs, fl) = Inr (hs, fl) \<and>
      (\<forall>k. map_of hs k = (if k \<in> set ns \<and> map_of fs k \<noteq> None then map_of fs k else map_of ?gs k))"
    by (rule Cons.IH) (use Cons.prems in \<open>auto simp: go_maps\<close>)
  ultimately obtain hs where h: "read_parts mm True i (concat (map (\<lambda>n. map (field_part n) (values_of fs n)) (n # ns))) (gs, fl) = Inr (hs, fl)"
    "\<forall>k. map_of hs k = (if k \<in> set ns \<and> map_of fs k \<noteq> None then map_of fs k else map_of ?gs k)"
    by (auto simp: read_parts_append)
  have step: "map_of ?gs k = (if k = n \<and> map_of fs n \<noteq> None then map_of fs n else map_of gs k)" for k
    using fields_ok_lookup(1) [OF assms(1), of n] by (auto simp: the_default_def go_maps split: option.splits)
  then have "\<forall>k. map_of hs k = (if k \<in> set (n # ns) \<and> map_of fs k \<noteq> None then map_of fs k else map_of gs k)"
    by (intro allI, simp only: h(2) [rule_format] step, auto)
  then show ?case using h(1) by blast
qed simp

definition media_laws :: "mime \<Rightarrow> bool" where
  "media_laws mm \<longleftrightarrow>
     (\<forall>ct mt ps. parseMedia mm ct = Some (mt, ps) \<and> formatMedia mm mt ps \<noteq> [] \<longrightarrow>
        parseMedia mm (formatMedia mm mt ps) = Some (mt, ps)) \<and>
     (\<exists>mt ps. parseMedia mm ''application/octet-stream'' = Some (mt, ps) \<and> formatMedia mm mt ps = ''application/octet-stream'')"

lemma file_type_again: "media_laws mm \<Longrightarrow> file_type mm (file_type mm ct) = file_type mm ct"
  unfolding media_laws_def file_type_def by (auto split: option.splits if_splits)

lemma cleanFilename_again: "cleanFilename (cleanFilename name) = cleanFilename name"
proof -
  let ?keep = "\<lambda>c. \<not> ((of_char c :: nat) < 32 \<or> (of_char c :: nat) = 127 \<or> (of_char c :: nat) = 34 \<or> (of_char c :: nat) = 92)"
  define kept where "kept = filter ?keep name"
  define cut_name where "cut_name = (if length kept > 255 then drop (length kept - 255) kept else kept)"
  have "list_all ?keep kept" by (auto simp: kept_def list_all_iff)
  then have "list_all ?keep cut_name" by (auto simp: cut_name_def list_all_iff dest: in_set_dropD)
  then have "filter ?keep cut_name = cut_name" by (simp add: filter_id_conv list_all_iff)
  moreover have "length cut_name \<le> 255" by (simp add: cut_name_def)
  moreover have "cleanFilename name = (if cut_name = [] then ''audio'' else cut_name)"
    by (simp add: cleanFilename_def kept_def cut_name_def Let_def)
  moreover have "cleanFilename ''audio'' = ''audio''" by code_simp
  ultimately show ?thesis by (auto simp: cleanFilename_def Let_def)
qed

lemma assembled_parts:
  "form_parts (assemble mm acc) =
     concat (map (\<lambda>n. map (field_part n) (values_of (fst acc) n)) (map fst transcriptionFormFields)) @
     (case snd acc of None \<Rightarrow> []
      | Some p \<Rightarrow> [\<lparr>ptName = transcriptionFileField, ptFileName = cleanFilename (ptFileName p), ptType = file_type mm (ptType p),
                   ptData = ptData p, ptWhole = True\<rparr>])"
proof -
  have "map (\<lambda>(name, v). field_part name v) (concat (map (\<lambda>(name, b). map (Pair name) (the_default [] (map_of (fst acc) name))) xs)) =
      concat (map (\<lambda>n. map (field_part n) (values_of (fst acc) n)) (map fst xs))" for xs :: "(string \<times> bool) list"
    by (induction xs) auto
  then show ?thesis by (simp add: form_parts_def assemble_def the_default_def split: option.splits)
qed


text \<open>The model a body names to whoever reads it.\<close>

definition body_model :: "pass_body \<Rightarrow> string option" where
  "body_model b =
     (case b of NoBody \<Rightarrow> None
      | JsonBody m \<Rightarrow> Option.bind (map_of m ''model'') dec_string
      | FormBody f \<Rightarrow> (case form_values f ''model'' of [s] \<Rightarrow> Some s | _ \<Rightarrow> None))"

lemma map_of_map_values: "map_of (map (\<lambda>(n, v). (n, f n v)) m) k = map_option (f k) (map_of m k)"
  by (induction m) auto

lemma assembled_model: "form_values (assemble mm acc) ''model'' = values_of (fst acc) ''model''"
  by (simp add: form_values_def assemble_def transcriptionFormFields_def the_default_def o_def filter_map split: option.splits)

lemma form_model_judged:
  assumes "readTranscriptionForm mm raw ct = Inr (m, f)" "Option.bind (map_of m ''model'') dec_string = Some name"
  shows "form_values f ''model'' = [name]"
proof -
  obtain parts clean acc where p: "read_parts mm clean 0 parts ([], None) = Inr acc"
    "m = map (\<lambda>(name, vs). (name, field_value name vs)) (fst acc)" "f = assemble mm acc"
    using assms(1) by (auto simp: readTranscriptionForm_def split: option.splits if_splits prod.splits sum.splits)
  have ok: "fields_ok mm (fst acc)"
    using read_parts_ok(1) [OF p(1)] by (simp add: fields_ok_def values_count_def)
  obtain vs where vs: "map_of (fst acc) ''model'' = Some vs" "dec_string (field_value ''model'' vs) = Some name"
    using assms(2) by (cases "map_of (fst acc) ''model''") (auto simp: p(2) map_of_map_values)
  have "length vs = 1" using fields_ok_lookup(2) [OF ok vs(1)] by (auto simp: transcriptionFormFields_def)
  moreover have "hd vs = name" using vs(2) by (simp add: field_value_def transcriptionFormFields_def dec_string_def)
  ultimately show ?thesis
    by (cases vs) (auto simp: p(3) assembled_model vs(1) the_default_def)
qed

section \<open>Who reaches the vendor\<close>

definition sound_body :: "passthroughRoute \<Rightarrow> Document \<Rightarrow> Key \<Rightarrow> pass_body \<Rightarrow> bool" where
  "sound_body route d key b \<longleftrightarrow>
     (if \<not> readsBody route then b = NoBody
      else \<exists>name model. body_model b = Some name \<and> passthroughModel d name = Some model \<and> ServesCreditModel key model \<and>
        (case b of
           JsonBody m \<Rightarrow> streamRefusal m = None \<and> map_of m PresetField = None \<and>
             (present m toolChoiceField = None \<longrightarrow> (\<forall>n. names_model m n \<longrightarrow> billable d (\<lambda>_. None) key n))
         | FormBody f \<Rightarrow> form_values f ''stream'' \<noteq> [''true''] | NoBody \<Rightarrow> False))"

lemma CredentialFor_lower: "CredentialFor key (ToLower ref) = CredentialFor key ref"
  by (simp add: CredentialFor_def)

lemma call_pass_sent:
  assumes "call_pass w cfg route rq key body n h ev pg = (r, h', pg', attempts)" "a \<in> set attempts"
  shows "attempts = [a] \<and> paBody a = body \<and> paMethod a = rtMethod route \<and> paPath a = rtPath route \<and> paHeaders a = [] \<and>
    paCred a = CredentialFor key (PassthroughRef (doc (snap (pgGateway pg)))) \<and>
    map_of (upstreams (calls (pwBase w))) (ToLower (PassthroughRef (doc (snap (pgGateway pg))))) = Some (paUpstream a)"
  using assms
  by (auto simp: call_pass_def Let_def halt_with_def CredentialFor_lower passthroughForwardedHeaders_def
      passthroughHeaderAllowlist_def split: option.splits prod.splits)

lemma form_stream:
  assumes "readTranscriptionForm mm raw ct = Inr (m, f)" "streamRefusal m = None"
  shows "form_values f ''stream'' \<noteq> [''true'']"
proof
  assume t: "form_values f ''stream'' = [''true'']"
  obtain acc where p: "m = map (\<lambda>(name, vs). (name, field_value name vs)) (fst acc)" "f = assemble mm acc"
    using assms(1) by (auto simp: readTranscriptionForm_def split: option.splits if_splits prod.splits sum.splits)
  have "values_of (fst acc) ''stream'' = [''true'']"
    using t by (simp add: p(2) form_values_def assemble_def transcriptionFormFields_def the_default_def o_def filter_map
        split: option.splits)
  then have "map_of (fst acc) ''stream'' = Some [''true'']" by (simp add: the_default_def split: option.splits)
  then have "map_of m ''stream'' = Some (JBool True)"
    by (simp add: p(1) map_of_map_values field_value_def transcriptionFormFields_def)
  then show False using assms(2) by (simp add: streamRefusal_def dec_bool_def)
qed

lemma serve_pass_body_sent:
  assumes "serve_pass_body w cfg route rq key ev pg = (r, h', pg', attempts)" "a \<in> set attempts" "readsBody route"
  shows "attempts = [a] \<and> sound_body route (doc (snap (pgGateway pg))) key (paBody a) \<and> paMethod a = rtMethod route \<and>
    paPath a = rtPath route \<and> paHeaders a = [] \<and>
    paCred a = CredentialFor key (PassthroughRef (doc (snap (pgGateway pg)))) \<and>
    map_of (upstreams (calls (pwBase w))) (ToLower (PassthroughRef (doc (snap (pgGateway pg))))) = Some (paUpstream a)"
proof -
  let ?d = "doc (snap (pgGateway pg))"
  obtain lo p where bl: "passBodyLimit cfg rq (pgLarge pg) = (lo, p)" by fastforce
  obtain limit h where lo: "lo = Inr (limit, h)"
    using assms bl by (cases lo) (auto simp: serve_pass_body_def halt_with_def Let_def)
  obtain raw where raw: "readPassBody limit rq = Inr raw"
    using assms bl lo by (cases "readPassBody limit rq") (auto simp: serve_pass_body_def halt_with_def Let_def)
  obtain m body where m: "readPassParams w route rq raw = Inr (m, body)"
    using assms bl lo raw
    by (cases "readPassParams w route rq raw") (auto simp: serve_pass_body_def halt_with_def Let_def)
  obtain model where j: "judgePassthrough route ?d key m = Inr model"
    using assms bl lo raw m
    by (cases "judgePassthrough route ?d key m") (auto simp: serve_pass_body_def halt_with_def Let_def split: prod.splits)
  have c: "call_pass w cfg route rq key body (int (length raw)) h (ev\<lparr>PublicModelName := PublicName model\<rparr>)
      (pg\<lparr>pgLarge := p\<rparr>) = (r, h', pg', attempts)"
    using assms(1) bl lo raw m j by (simp add: serve_pass_body_def Let_def)
  note s = call_pass_sent [OF c assms(2), simplified]
  obtain name where n: "Option.bind (map_of m ''model'') dec_string = Some name" "passthroughModel ?d name = Some model"
    "fencePassthrough ?d key model name m = None"
    using judgePassthrough_Inr [OF j] by metis
  have "sound_body route ?d key body"
  proof (cases "multipartForm route \<and> isMultipartForm (pwMime w) (rqHeader rq ''Content-Type'')")
    case True
    then obtain f where f: "readTranscriptionForm (pwMime w) raw (rqHeader rq ''Content-Type'') = Inr (m, f)" "body = FormBody f"
      using m by (auto simp: readPassParams_def split: sum.splits)
    have "form_values f ''model'' = [name]" by (rule form_model_judged [OF f(1) n(1)])
    moreover have "form_values f ''stream'' \<noteq> [''true'']"
      by (rule form_stream [OF f(1) fencePassthrough_None(6) [OF n(3)]])
    ultimately show ?thesis
      using assms(3) n(2) fencePassthrough_None(1) [OF n(3)] by (simp add: sound_body_def body_model_def f(2))
  next
    case False
    then have "body = JsonBody m" using m by (auto simp: readPassParams_def split: sum.splits)
    then show ?thesis
      using assms(3) n(1,2) fencePassthrough_None(1,2,6) [OF n(3)] judged_names_billable [OF n(3)]
      by (simp add: sound_body_def body_model_def)
  qed
  then show ?thesis using s by simp
qed

text \<open>
  Whoever causes an attempt on the passthrough surface may spend what it costs, and sends nothing that was not
  judged. The token is that of a key of the snapshot, live at that instant and granted the route's capability,
  on a service that is enabled; the attempt goes to the passthrough upstream under that key's own credential,
  with none of the client's headers; and the model its body names, whether the body is JSON or an assembled
  form, is one that passthrough serves and the key may buy, as is every model its other fields name (a tool
  choice apart); it asks for no stream and no preset.
\<close>

definition vendor_entitled :: "pass_world \<Rightarrow> passthroughRoute \<Rightarrow> wire_request \<Rightarrow> state \<Rightarrow> pass_attempt \<Rightarrow> bool" where
  "vendor_entitled w route rq st a \<longleftrightarrow> (\<exists>token key. bearerToken (rqHeader rq) = Inr token \<and>
    authenticateToken (hashToken (pwBase w)) (authAt (pwBase w)) token (map_of (byHash st)) = Inr key \<and>
    ServiceEnabled (doc st) \<and> AllowsEndpoint key (rtCapability route) \<and>
    sound_body route (doc st) key (paBody a) \<and> paHeaders a = [] \<and>
    paCred a = CredentialFor key (PassthroughRef (doc st)) \<and> paCred a \<noteq> [] \<and>
    map_of (upstreams (calls (pwBase w))) (ToLower (PassthroughRef (doc st))) = Some (paUpstream a))"

lemma handlePassthrough_entitled:
  assumes "handlePassthrough w cfg route rq pg = (r, pg', attempts)" "a \<in> set attempts"
  shows "attempts = [a] \<and> vendor_entitled w route rq (snap (pgGateway pg)) a"
proof -
  let ?g = "pgGateway pg"
  let ?pg1 = "pg\<lparr>pgGateway := ?g\<lparr>inflight := inflight ?g + 1\<rparr>\<rparr>"
  obtain key where k: "admitPassthrough (hashToken (pwBase w)) (authAt (pwBase w)) route (rqHeader rq) (snap ?g) = Inr key"
    using assms
    by (cases "admitPassthrough (hashToken (pwBase w)) (authAt (pwBase w)) route (rqHeader rq) (snap ?g)")
      (auto simp: handlePassthrough_def halt_with_def Let_def split: if_splits prod.splits)
  have adm: "\<exists>token. bearerToken (rqHeader rq) = Inr token \<and>
      authenticateToken (hashToken (pwBase w)) (authAt (pwBase w)) token (map_of (byHash (snap ?g))) = Inr key"
    "ServiceEnabled (doc (snap ?g))" "AllowsEndpoint key (rtCapability route)"
    "CredentialFor key (PassthroughRef (doc (snap ?g))) \<noteq> []"
    using k by (auto simp: admitPassthrough_def split: if_splits sum.splits prod.splits)
  obtain ev r1 h pg2 where b: "(if readsBody route then serve_pass_body w cfg route rq key ev ?pg1
      else call_pass w cfg route rq key NoBody 0 None ev ?pg1) = (r1, h, pg2, attempts)"
    using assms k by (auto simp: handlePassthrough_def halt_with_def Let_def split: if_splits prod.splits)
  have "attempts = [a] \<and> sound_body route (doc (snap ?g)) key (paBody a) \<and> paHeaders a = [] \<and>
      paCred a = CredentialFor key (PassthroughRef (doc (snap ?g))) \<and>
      map_of (upstreams (calls (pwBase w))) (ToLower (PassthroughRef (doc (snap ?g)))) = Some (paUpstream a)"
  proof (cases "readsBody route")
    case True
    then show ?thesis using serve_pass_body_sent [of w cfg route rq key ev ?pg1] b assms(2) by simp
  next
    case False
    then show ?thesis using call_pass_sent [of w cfg route rq key NoBody 0 None ev ?pg1] b assms(2)
      by (simp add: sound_body_def)
  qed
  then show ?thesis unfolding vendor_entitled_def using adm by metis
qed

end
