(* ===== verification/Passthrough_Accounts.thy ===== *)
theory Passthrough_Accounts
  imports Passthrough_Safety
begin

text \<open>
  What a passthrough request leaves behind: exactly one event, the slots and the in-flight count as they
  were, the rate limiter untouched; and how much of an answer is read with and without a slot.
\<close>

section \<open>The slot of a request\<close>

text \<open>The pool while a request holds \<open>h\<close>: the other requests hold \<open>L\<close>.\<close>

definition hold_inv :: "nat set \<Rightarrow> nat option \<Rightarrow> pool \<Rightarrow> bool" where
  "hold_inv L h p \<longleftrightarrow> pool_inv p \<and> Large_Body.leases p - set_option h = L \<and> set_option h \<inter> L = {}"

lemma hold_take_inv:
  assumes "hold_inv L h p" "hold_take h p = (b, h', p')"
  shows "hold_inv L h' p' \<and> (b \<longrightarrow> h' \<noteq> None) \<and> (h \<noteq> None \<longrightarrow> b \<and> h' = h \<and> p' = p)"
proof (cases h)
  case None
  obtain a q where a: "acquire p = (a, q)" by fastforce
  have inv: "pool_inv p" "Large_Body.leases p = L" using assms(1) None by (simp_all add: hold_inv_def)
  show ?thesis
  proof (cases a)
    case None
    then have "q = p" using large.full [OF inv(1)] a by simp
    then show ?thesis using assms \<open>h = None\<close> None a by (simp add: hold_take_def)
  next
    case (Some i)
    have "pool_inv q" "Large_Body.leases q = insert i (Large_Body.leases p)" "i \<notin> Large_Body.leases p"
      using large.granted [OF inv(1)] a Some by simp_all
    then show ?thesis using assms(2) \<open>h = None\<close> Some a inv(2) by (auto simp: hold_take_def hold_inv_def)
  qed
qed (use assms in \<open>auto simp: hold_take_def\<close>)

lemma maybe_take:
  assumes "hold_inv L h p" "(if c then hold_take h p else (True, h, p)) = (b, h', p')"
  shows "hold_inv L h' p'" "h \<noteq> None \<longrightarrow> b \<and> h' = h \<and> p' = p" "b \<longrightarrow> c \<longrightarrow> h' \<noteq> None" "\<not> c \<longrightarrow> b \<and> h' = h"
  using assms hold_take_inv [OF assms(1), of b h' p'] by (cases c; simp)+

lemma hold_done_leases: "hold_inv L h p \<Longrightarrow> pool_inv (hold_done h p) \<and> Large_Body.leases (hold_done h p) = L"
  using release_inv release_leases by (auto simp: hold_inv_def hold_done_def split: option.splits)

lemma read_on_spec:
  assumes "hold_inv L h0 p0" "read_on limit cap body ending h0 p0 = (rd, h, p)"
  shows "hold_inv L h p" "h0 \<noteq> None \<longrightarrow> h = h0 \<and> p = p0"
    "rd = Whole b \<Longrightarrow> b = body \<and> int (length body) \<le> limit \<and> (h = None \<longrightarrow> int (length body) \<le> cap)"
    "rd = Whole b \<Longrightarrow> cap \<le> limit \<Longrightarrow> ending = AtEOF"
proof -
  define further where "further \<longleftrightarrow> read_bounded cap body ending = AtEOF \<and> int (length body) > cap \<and> cap < limit"
  obtain granted h1 p1 where t: "(if further then hold_take h0 p0 else (True, h0, p0)) = (granted, h1, p1)"
    by (metis prod_cases3)
  note i = maybe_take [OF assms(1) t]
  define last_end where "last_end = (if further then read_bounded limit body ending else read_bounded cap body ending)"
  have res: "(rd, h, p) = (if \<not> granted then (TooLarge, h1, p1)
      else if last_end \<noteq> AtEOF then (Unread (last_end = EndDeadline), h1, p1)
      else if int (length body) > limit then (TooLarge, h1, p1) else (Whole body, h1, p1))"
    using assms(2) t [unfolded further_def] unfolding read_on_def Let_def last_end_def further_def by (cases granted) simp_all
  then have hp: "h = h1" "p = p1" by (auto split: if_splits)
  show "hold_inv L h p" "h0 \<noteq> None \<longrightarrow> h = h0 \<and> p = p0" using i hp by simp_all
  assume w: "rd = Whole b"
  then have whole: "granted" "last_end = AtEOF" "int (length body) \<le> limit" "b = body" using res by (auto split: if_splits)
  have "int (length body) \<le> cap" if "h = None"
    using i(3) hp that whole by (auto simp: further_def last_end_def read_bounded_def)
  then show "b = body \<and> int (length body) \<le> limit \<and> (h = None \<longrightarrow> int (length body) \<le> cap)" using whole by simp
  show "ending = AtEOF" if "cap \<le> limit"
    using whole that by (auto simp: further_def last_end_def read_bounded_def split: if_splits)
qed

text \<open>
  An answer comes back whole only within the surface's bound, and past the ordinary one only with a slot;
  a slot that is held is kept, and none is taken twice.
\<close>

lemma readPassAnswer_spec:
  assumes "hold_inv L h0 p0" "readPassAnswer limit declared body ending h0 p0 = (rd, h, p)"
  shows "hold_inv L h p" "h0 \<noteq> None \<longrightarrow> h = h0 \<and> p = p0"
    "rd = Whole b \<Longrightarrow> b = body \<and> ending = AtEOF \<and> int (length body) \<le> limit \<and>
       (h = None \<longrightarrow> int (length body) \<le> min upstreamResponseCapBytes limit)"
proof -
  define cap where "cap = (if h0 \<noteq> None then limit else min upstreamResponseCapBytes limit)"
  obtain granted h1 p1 where t: "(if declared > cap then hold_take h0 p0 else (True, h0, p0)) = (granted, h1, p1)"
    by (metis prod_cases3)
  note i = maybe_take [OF assms(1) t]
  let ?cap = "if declared > cap then limit else cap"
  have res: "(rd, h, p) = (if declared > limit then (TooLarge, h0, p0) else if \<not> granted then (TooLarge, h1, p1)
      else read_on limit ?cap body ending h1 p1)"
    using assms(2) t unfolding readPassAnswer_def Let_def cap_def [symmetric] by (cases granted) (simp_all split: if_splits)
  have capl: "?cap \<le> limit" by (simp add: cap_def)
  have "hold_inv L h p \<and> (h0 \<noteq> None \<longrightarrow> h = h0 \<and> p = p0) \<and> (rd = Whole b \<longrightarrow> b = body \<and> ending = AtEOF \<and>
      int (length body) \<le> limit \<and> (h = None \<longrightarrow> int (length body) \<le> min upstreamResponseCapBytes limit))"
  proof (cases "declared > limit \<or> \<not> granted")
    case True
    then show ?thesis using res assms(1) i(1,2) by (auto split: if_splits)
  next
    case False
    then have r: "read_on limit ?cap body ending h1 p1 = (rd, h, p)" using res by simp
    note s = read_on_spec [OF i(1) r]
    have "?cap = min upstreamResponseCapBytes limit" if "h = None"
      using that s(2) i(2,3) False by (auto simp: cap_def)
    then show ?thesis using s(1,2) s(3) s(4) [OF _ capl] i(2) by metis
  qed
  then show "hold_inv L h p" "h0 \<noteq> None \<longrightarrow> h = h0 \<and> p = p0"
    "rd = Whole b \<Longrightarrow> b = body \<and> ending = AtEOF \<and> int (length body) \<le> limit \<and>
       (h = None \<longrightarrow> int (length body) \<le> min upstreamResponseCapBytes limit)" by simp_all
qed

section \<open>The account of a request\<close>

lemma finish_pass_accounted:
  assumes "spoolOK (pwBase w)" "stamp ev1 = stamp ev" "EvStatus ev1 \<noteq> StatusAuthRejected"
    "EvStatus ev1 = StatusOK \<longrightarrow> (\<nexists>err hs. r = Refused err hs)"
  shows "accounted (pwBase w) ev g r (finish_pass w route up cred bodyID ev1 g) \<and>
    shared (finish_pass w route up cred bodyID ev1 g) = shared g"
proof (cases "\<not> readsBody route \<or> \<not> lookupCost route \<and> EvStatus ev1 = StatusOK")
  case True
  then show ?thesis using accounted_record [OF assms(1,4,2) refl] by (simp add: finish_pass_def)
next
  case False
  let ?e = "ev1\<lparr>LatencyMs := latencyMs (pwBase w)\<rparr>"
  let ?gid = "if ansGenerationID (pwBase w) = [] then bodyID else ansGenerationID (pwBase w)"
  obtain due cl where wg: "withGenerationCost PassthroughSurface ?gid up cred ?e (costLookups g) = (due, cl)" by fastforce
  have eq: "finish_pass w route up cred bodyID ev1 g =
      (case due of None \<Rightarrow> g\<lparr>costLookups := cl\<rparr> | Some e \<Rightarrow> record_event (pwBase w) e (g\<lparr>costLookups := cl\<rparr>))"
    using False wg by (auto simp: finish_pass_def Let_def)
  show ?thesis
  proof (cases due)
    case None
    have "booked g (g\<lparr>costLookups := cl\<rparr>) ?e"
      using admitted_lookup [OF wg [unfolded None]] by (simp add: booked_def books_def)
    then show ?thesis using assms(2-4) eq None unfolding accounted_def
      by (auto intro!: exI [of _ ?e] simp: unattributed_def)
  next
    case (Some e)
    then have e: "e = ?e" "lookups cl = lookups (costLookups g)" using recorded_now [OF wg [unfolded Some]] by auto
    then have "books (g\<lparr>costLookups := cl\<rparr>) = books g" by (simp add: books_def)
    from accounted_record [OF assms(1) _ _ this, of ?e r ev] show ?thesis using e assms(2,4) eq Some by simp
  qed
qed

text \<open>The event of an answer is still that of its request, and claims no success for a refusal.\<close>

definition settled_event :: "Event \<Rightarrow> reply \<Rightarrow> Event \<Rightarrow> bool" where
  "settled_event ev r ev1 \<longleftrightarrow> stamp ev1 = stamp ev \<and> EvStatus ev1 \<noteq> StatusAuthRejected \<and>
     (EvStatus ev1 = StatusOK \<longrightarrow> (\<nexists>err hs. r = Refused err hs)) \<and> r \<noteq> Panicked"

lemma image_count_kept [simp]: "stamp (ev\<lparr>ImageCount := n\<rparr>) = stamp ev" "stamp (delivered b ev) = stamp ev"
  by (simp_all add: stamp_def delivered_def)

lemma delivered_status [simp]: "EvStatus (delivered b ev) \<noteq> StatusAuthRejected" by (simp add: delivered_def)

lemma settlePassthrough_kept [simp]:
  "stamp (settlePassthrough route n u ev) = stamp ev" "EvStatus (settlePassthrough route n u ev) = EvStatus ev"
  by (simp_all add: settlePassthrough_def Let_def)

lemma relay_settled:
  "relayAudio w body ev = (r, ev1, i) \<Longrightarrow> settled_event ev r ev1"
  "relayJson w route n body ev = (r, ev1, i) \<Longrightarrow> settled_event ev r ev1"
  by (auto simp: relayAudio_def relayJson_def settled_event_def invalid_answer_def halted_def refuseAs_def Let_def
      split: option.splits if_splits)

lemma finishPassthrough_accounted:
  assumes "spoolOK (pwBase w)" "hold_inv L h0 (pgLarge pg)"
    and "finishPassthrough w cfg route up cred n h0 ev pg = (r, h, pg')"
  shows "accounted (pwBase w) ev (pgGateway pg) r (pgGateway pg') \<and> r \<noteq> Panicked \<and>
    shared (pgGateway pg') = shared (pgGateway pg) \<and> hold_inv L h (pgLarge pg')"
proof -
  obtain rd h1 p1 where ra: "readPassAnswer (pcResponseMax cfg) (pwDeclared w) (ansBody (pwBase w)) (ansEnd (pwBase w)) h0
      (pgLarge pg) = (rd, h1, p1)" by (metis prod_cases3)
  obtain r1 ev1 i where x: "(case rd of
           TooLarge \<Rightarrow> let x = refuse errPassthroughResponseTooLarge StatusUpstreamErr in
             (Refused (haltErr x) [], halted x ev, [])
         | Unread deadline \<Rightarrow>
             let x = (if deadline then refuse errUpstreamTimeout StatusTimeout
                      else refuseAs errUpstream StatusUpstreamErr ''upstream_read_failed'') in
             (Refused (haltErr x) [], halted x ev, [])
         | Whole body \<Rightarrow> if audioAnswer route then relayAudio w body ev else relayJson w route n body ev) = (r1, ev1, i)"
    by (rule prod_cases3)
  have s: "settled_event ev r1 ev1"
  proof (cases rd)
    case (Whole body)
    then show ?thesis using x by (cases "audioAnswer route") (simp_all, (erule relay_settled)+)
  qed (use x in \<open>auto simp: settled_event_def halted_def refuse_def refuseAs_def Let_def split: if_splits\<close>)
  have res: "r = r1" "h = h1" "pg' = pg\<lparr>pgGateway := finish_pass w route up cred i ev1 (pgGateway pg), pgLarge := p1\<rparr>"
    using assms(3) ra x by (simp_all add: finishPassthrough_def)
  show ?thesis
    using finish_pass_accounted [OF assms(1), of ev1 ev r1 "pgGateway pg" route up cred i] s res
      readPassAnswer_spec(1) [OF assms(2) ra]
    by (simp add: settled_event_def)
qed

definition pass_accounts ::
  "request_world \<Rightarrow> Event \<Rightarrow> nat set \<Rightarrow> gateway \<Rightarrow> reply \<times> nat option \<times> pass_gateway \<times> pass_attempt list \<Rightarrow> bool" where
  "pass_accounts b ev L g res \<longleftrightarrow>
     (case res of (r, h, pg', s) \<Rightarrow>
        accounted b (ev\<lparr>Attempts := Some (int (length s))\<rparr>) g r (pgGateway pg') \<and> r \<noteq> Panicked \<and>
        shared (pgGateway pg') = shared g \<and> hold_inv L h (pgLarge pg'))"

text \<open>One handler's account, and what it leaves as it was.\<close>

definition settled :: "request_world \<Rightarrow> Event \<Rightarrow> gateway \<Rightarrow> reply \<Rightarrow> gateway \<Rightarrow> bool" where
  "settled b ev g r g' \<longleftrightarrow> accounted b ev g r g' \<and> r \<noteq> Panicked \<and> shared g' = shared g"

lemma halt_settled:
  assumes "halt_with b x hs ev g = (r, g')" "spoolOK b" "refusal_status x"
  shows "settled b ev g r g'"
  using accounted_halt [OF assms(2,3,1)] halt_not_panic [OF assms(1)] assms(1) shared_kept(5) [of b x hs ev g]
  by (simp add: settled_def)

lemma pass_stop:
  assumes "spoolOK b" "refusal_status x" "stamp ev1 = stamp (ev\<lparr>Attempts := Some 0\<rparr>)" "hold_inv L h (pgLarge pg)"
  shows "pass_accounts b ev L (pgGateway pg)
    (case halt_with b x hs ev1 (pgGateway pg) of (r, g) \<Rightarrow> (r, h, pg\<lparr>pgGateway := g\<rparr>, []))"
proof -
  obtain r g where g: "halt_with b x hs ev1 (pgGateway pg) = (r, g)" by fastforce
  show ?thesis
    using halt_settled [OF g assms(1,2)] accounted_stamp [OF assms(3)] assms(4) g
    by (simp add: pass_accounts_def settled_def)
qed

lemma fail_pass_settled:
  assumes "spoolOK (pwBase w)" "fail_pass w ae ev g = (r, g')"
  shows "settled (pwBase w) ev g r g'"
proof (cases "clientGoneAtCall (pwBase w)")
  case True
  then show ?thesis using assms accounted_record [OF assms(1), of _ NoReply ev g g]
    by (auto simp: fail_pass_def settled_def Let_def)
next
  case False
  then show ?thesis
    using assms
    by (auto simp: fail_pass_def Let_def split: if_splits option.splits elim!: halt_settled)
qed

lemma call_pass_accounts:
  assumes "spoolOK (pwBase w)" "hold_inv L h (pgLarge pg)" "stamp ev1 = stamp (ev\<lparr>Attempts := Some 0\<rparr>)"
  shows "pass_accounts (pwBase w) ev L (pgGateway pg) (call_pass w cfg route rq key body n h ev1 pg)"
proof -
  let ?ref = "ToLower (PassthroughRef (doc (snap (pgGateway pg))))" and ?b = "pwBase w"
  show ?thesis
  proof (cases "map_of (upstreams (calls ?b)) ?ref")
    case None
    then show ?thesis using pass_stop [OF assms(1) _ assms(3,2)] by (simp add: call_pass_def Let_def)
  next
    case (Some up)
    let ?ev = "ev1\<lparr>EvUpstreamRef := upRef up, Attempts := Some 1\<rparr>"
    define spec where "spec = \<lparr>paUpstream = up, paMethod = rtMethod route, paPath = rtPath route, paBody = body,
        paCred = CredentialFor key ?ref, paHeaders = passthroughForwardedHeaders (rqHeader rq)\<rparr>"
    have st: "stamp ?ev = stamp (ev\<lparr>Attempts := Some 1\<rparr>)" using assms(3) by (simp add: stamp_def)
    have acc: "pass_accounts ?b ev L (pgGateway pg) (r, h1, pg1, [spec])"
      if "settled ?b ?ev (pgGateway pg\<lparr>upHealth := uh\<rparr>) r (pgGateway pg1)" "hold_inv L h1 (pgLarge pg1)" for r h1 pg1 uh
      using that accounted_from [OF books_kept(6)] accounted_stamp [OF st]
      by (simp add: pass_accounts_def settled_def)
    show ?thesis
    proof (cases "classify (rejectWith (calls ?b) [] []) True (pwNet w spec)")
      case (Some ae)
      define uh where "uh = recordPassiveFailure (clk (calls ?b) 1) ?ref (kind ae)
          (recordAttempt (clk (calls ?b) 0) ?ref (upHealth (pgGateway pg)))"
      obtain r g where f: "fail_pass w ae ?ev (pgGateway pg\<lparr>upHealth := uh\<rparr>) = (r, g)" by fastforce
      have "call_pass w cfg route rq key body n h ev1 pg = (r, h, pg\<lparr>pgGateway := g\<rparr>, [spec])"
        using f Some \<open>map_of (upstreams (calls ?b)) ?ref = _\<close>
        unfolding call_pass_def Let_def by (simp add: spec_def uh_def)
      then show ?thesis using acc [of uh r "pg\<lparr>pgGateway := g\<rparr>" h] fail_pass_settled [OF assms(1) f] assms(2) by simp
    next
      case None
      define uh where "uh = recordSuccess (clk (calls ?b) 1) ?ref
          (recordAttempt (clk (calls ?b) 0) ?ref (upHealth (pgGateway pg)))"
      let ?pg = "pg\<lparr>pgGateway := (pgGateway pg)\<lparr>upHealth := uh\<rparr>\<rparr>"
      obtain r h1 pg1 where f: "finishPassthrough w cfg route up (CredentialFor key ?ref) n h ?ev ?pg = (r, h1, pg1)"
        by (rule prod_cases3)
      have "call_pass w cfg route rq key body n h ev1 pg = (r, h1, pg1, [spec])"
        using f None \<open>map_of (upstreams (calls ?b)) ?ref = _\<close>
        unfolding call_pass_def Let_def by (simp add: spec_def uh_def)
      then show ?thesis
        using acc [of uh r pg1 h1] finishPassthrough_accounted [OF assms(1) _ f, of L] assms(2) by (simp add: settled_def)
    qed
  qed
qed

lemma passBodyLimit_slot:
  assumes "hold_inv L None p" "passBodyLimit cfg rq p = (lo, q)"
  shows "case lo of Inl x \<Rightarrow> hold_inv L None q \<and> refusal_status x | Inr (_, h) \<Rightarrow> hold_inv L h q"
proof -
  obtain granted h p1 where t: "hold_take None p = (granted, h, p1)" by (metis prod_cases3)
  have "\<not> granted \<longrightarrow> h = None" using t by (auto simp: hold_take_def split: prod.splits option.splits)
  then show ?thesis using hold_take_inv [OF assms(1) t] assms t
    by (auto simp: passBodyLimit_def Let_def split: if_splits bool.splits prod.splits)
qed

lemma pass_refusals:
  "readPassBody n rq = Inl x \<Longrightarrow> refusal_status x"
  "readPassParams w route rq raw = Inl x \<Longrightarrow> refusal_status x"
  "fencePassthrough d key model name m = Some x \<Longrightarrow> refusal_status x"
  "judgePassthrough route d key m = Inl (x, name) \<Longrightarrow> refusal_status x"
  "admitPassthrough hash now route get st = Inl (x, k, axis) \<Longrightarrow> refusal_status x"
proof -
  show fence: "fencePassthrough d key model name m = Some x \<Longrightarrow> refusal_status x" for model name
    by (auto simp: fencePassthrough_def streamRefusal_def split: if_splits option.splits)
  show "judgePassthrough route d key m = Inl (x, name) \<Longrightarrow> refusal_status x"
    by (auto simp: judgePassthrough_def Let_def dest: fence split: if_splits option.splits)
qed (auto simp: readPassBody_def readPassParams_def admitPassthrough_def split: if_splits sum.splits prod.splits
    dest: admission_refusals(4))

lemma call_pass_attempts: "call_pass w cfg route rq key body n h ev pg = (r, h', pg', attempts) \<Longrightarrow> length attempts \<le> 1"
  by (auto simp: call_pass_def halt_with_def Let_def split: option.splits prod.splits)

lemma passthrough_attempts:
  assumes "handlePassthrough w cfg route rq pg = (r, pg', attempts)"
  shows "length attempts \<le> 1"
  using assms
  by (auto simp: handlePassthrough_def serve_pass_body_def halt_with_def Let_def
      split: if_splits prod.splits sum.splits dest: call_pass_attempts)

lemma serve_pass_body_accounts:
  assumes "spoolOK (pwBase w)" "hold_inv L None (pgLarge pg)" "Attempts ev = Some 0"
  shows "pass_accounts (pwBase w) ev L (pgGateway pg) (serve_pass_body w cfg route rq key ev pg)"
proof -
  obtain lo p where bl: "passBodyLimit cfg rq (pgLarge pg) = (lo, p)" by fastforce
  let ?pg = "pg\<lparr>pgLarge := p\<rparr>"
  have st: "stamp ev = stamp (ev\<lparr>Attempts := Some 0\<rparr>)" "stamp (ev\<lparr>PublicModelName := m\<rparr>) = stamp (ev\<lparr>Attempts := Some 0\<rparr>)" for m
    using assms(3) by (simp_all add: stamp_def)
  note slot = passBodyLimit_slot [OF assms(2) bl]
  have stop: "pass_accounts (pwBase w) ev L (pgGateway pg) (case halt_with (pwBase w) x [] ev1 (pgGateway pg) of
      (r, g) \<Rightarrow> (r, h, ?pg\<lparr>pgGateway := g\<rparr>, []))"
    if "hold_inv L h p" "refusal_status x" "stamp ev1 = stamp (ev\<lparr>Attempts := Some 0\<rparr>)" for x h ev1
    using pass_stop [OF assms(1) that(2,3), of L h ?pg] that(1) by simp
  show ?thesis
  proof (cases lo)
    case (Inl x)
    then show ?thesis using stop [OF _ _ st(1)] slot bl by (simp add: serve_pass_body_def Let_def)
  next
    case (Inr lh)
    then obtain limit h where lo: "lo = Inr (limit, h)" by (cases lh) auto
    then have h: "hold_inv L h p" using slot by simp
    show ?thesis
    proof (cases "readPassBody limit rq")
      case (Inl x)
      then show ?thesis using stop [OF h pass_refusals(1) [OF Inl] st(1)] bl lo by (simp add: serve_pass_body_def Let_def)
    next
      case (Inr raw)
      note raw = Inr
      show ?thesis
      proof (cases "readPassParams w route rq raw")
        case (Inl x)
        then show ?thesis using stop [OF h pass_refusals(2) [OF Inl] st(1)] bl lo raw
          by (simp add: serve_pass_body_def Let_def)
      next
        case (Inr mb)
        then obtain m body where m: "readPassParams w route rq raw = Inr (m, body)" by (cases mb) auto
        show ?thesis
        proof (cases "judgePassthrough route (doc (snap (pgGateway pg))) key m")
          case (Inl xn)
          then obtain x name where j: "judgePassthrough route (doc (snap (pgGateway pg))) key m = Inl (x, name)" by (cases xn) auto
          then show ?thesis using stop [OF h pass_refusals(4) [OF j] st(2)] bl lo raw m
            by (simp add: serve_pass_body_def Let_def)
        next
          case (Inr model)
          then show ?thesis using call_pass_accounts [OF assms(1) _ st(2), of L h ?pg] h bl lo raw m
            by (simp add: serve_pass_body_def Let_def)
        qed
      qed
    qed
  qed
qed

text \<open>What a passthrough request leaves, whatever becomes of its record.\<close>

definition pass_quiet :: "nat set \<Rightarrow> gateway \<Rightarrow> reply \<times> nat option \<times> pass_gateway \<times> pass_attempt list \<Rightarrow> bool" where
  "pass_quiet L g res \<longleftrightarrow>
     (case res of (r, h, pg', s) \<Rightarrow> shared (pgGateway pg') = shared g \<and> hold_inv L h (pgLarge pg'))"

lemma halt_shared: "halt_with b x hs ev g = (r, g') \<Longrightarrow> shared g' = shared g"
  using shared_kept(5) [of b x hs ev g] by simp

lemma fail_pass_shared: "fail_pass w ae ev g = (r, g') \<Longrightarrow> shared g' = shared g"
  by (auto simp: fail_pass_def Let_def split: if_splits option.splits dest: halt_shared)

lemma finish_pass_shared: "shared (finish_pass w route up cred i ev g) = shared g"
  by (simp add: finish_pass_def Let_def split: option.splits prod.splits)

lemma finishPassthrough_quiet:
  assumes "hold_inv L h0 (pgLarge pg)" "finishPassthrough w cfg route up cred n h0 ev pg = (r, h, pg')"
  shows "shared (pgGateway pg') = shared (pgGateway pg) \<and> hold_inv L h (pgLarge pg')"
proof -
  obtain rd h1 p1 where ra: "readPassAnswer (pcResponseMax cfg) (pwDeclared w) (ansBody (pwBase w)) (ansEnd (pwBase w)) h0
      (pgLarge pg) = (rd, h1, p1)" by (metis prod_cases3)
  then obtain i ev1 where "h = h1" "pg' = pg\<lparr>pgGateway := finish_pass w route up cred i ev1 (pgGateway pg), pgLarge := p1\<rparr>"
    using assms(2) by (auto simp: finishPassthrough_def split: prod.splits)
  then show ?thesis using finish_pass_shared readPassAnswer_spec(1) [OF assms(1) ra] by simp
qed

lemma call_pass_quiet:
  assumes "hold_inv L h (pgLarge pg)"
  shows "pass_quiet L (pgGateway pg) (call_pass w cfg route rq key body n h ev pg)"
proof -
  obtain r h' pg' s where c: "call_pass w cfg route rq key body n h ev pg = (r, h', pg', s)" by (metis prod_cases4)
  then have "shared (pgGateway pg') = shared (pgGateway pg) \<and> hold_inv L h' (pgLarge pg')"
    using assms
    by (auto simp: call_pass_def Let_def split: option.splits prod.splits
        dest!: halt_shared fail_pass_shared finishPassthrough_quiet [rotated, of _ _ _ _ _ _ h _ _ _ _ _ L])
  then show ?thesis by (simp add: c pass_quiet_def)
qed

lemma serve_pass_body_quiet:
  assumes "hold_inv L None (pgLarge pg)"
  shows "pass_quiet L (pgGateway pg) (serve_pass_body w cfg route rq key ev pg)"
proof -
  obtain lo p where bl: "passBodyLimit cfg rq (pgLarge pg) = (lo, p)" by fastforce
  have slot: "case lo of Inl x \<Rightarrow> hold_inv L None p | Inr (_, h) \<Rightarrow> hold_inv L h p"
    using passBodyLimit_slot [OF assms bl] by (auto split: sum.splits)
  have stop: "pass_quiet L (pgGateway pg) (r, h, pg\<lparr>pgLarge := p, pgGateway := g\<rparr>, [])"
    if "hold_inv L h p" "halt_with b x hs ev1 (pgGateway pg) = (r, g)" for b x hs ev1 h r g
    using that by (auto simp: pass_quiet_def dest: halt_shared)
  have call: "hold_inv L h p \<Longrightarrow> pass_quiet L (pgGateway pg) (call_pass w cfg route rq key body n h ev1 (pg\<lparr>pgLarge := p\<rparr>))" for h body n ev1
    using call_pass_quiet [of L h "pg\<lparr>pgLarge := p\<rparr>"] by simp
  show ?thesis
    using slot stop call bl by (auto simp: serve_pass_body_def Let_def split: sum.splits prod.splits)
qed

lemma handlePassthrough_quiet:
  assumes "pool_inv (pgLarge pg)" "handlePassthrough w cfg route rq pg = (r, pg', s)"
  shows "shared (pgGateway pg') = shared (pgGateway pg) \<and> pool_inv (pgLarge pg') \<and>
    Large_Body.leases (pgLarge pg') = Large_Body.leases (pgLarge pg)"
proof -
  define L where "L = Large_Body.leases (pgLarge pg)"
  have free: "hold_inv L None (pgLarge pg)" using assms(1) by (simp add: hold_inv_def L_def)
  have quiet: "pass_quiet L (pgGateway (pg\<lparr>pgGateway := g\<rparr>)) (if readsBody route then serve_pass_body w cfg route rq key ev (pg\<lparr>pgGateway := g\<rparr>)
      else call_pass w cfg route rq key NoBody 0 None ev (pg\<lparr>pgGateway := g\<rparr>))" for key ev g
    using serve_pass_body_quiet [of L "pg\<lparr>pgGateway := g\<rparr>"] call_pass_quiet [of L None "pg\<lparr>pgGateway := g\<rparr>"] free by simp
  show ?thesis
  proof (cases "pgLarge pg' = pgLarge pg \<and> shared (pgGateway pg') = shared (pgGateway pg)")
    case False
    then obtain key ev r1 h pg2 s1 where b: "(if readsBody route
        then serve_pass_body w cfg route rq key ev (pg\<lparr>pgGateway := (pgGateway pg)\<lparr>inflight := inflight (pgGateway pg) + 1\<rparr>\<rparr>)
        else call_pass w cfg route rq key NoBody 0 None ev (pg\<lparr>pgGateway := (pgGateway pg)\<lparr>inflight := inflight (pgGateway pg) + 1\<rparr>\<rparr>)) =
          (r1, h, pg2, s1)"
      "pg' = \<lparr>pgGateway = (pgGateway pg2)\<lparr>inflight := inflight (pgGateway pg2) - 1\<rparr>, pgLarge = hold_done h (pgLarge pg2)\<rparr>"
      using assms(2) by (auto simp: handlePassthrough_def Let_def split: if_splits sum.splits prod.splits dest: halt_shared)
    have "shared (pgGateway pg2) = shared ((pgGateway pg)\<lparr>inflight := inflight (pgGateway pg) + 1\<rparr>) \<and> hold_inv L h (pgLarge pg2)"
      using quiet [of "(pgGateway pg)\<lparr>inflight := inflight (pgGateway pg) + 1\<rparr>" key ev] b(1) by (simp add: pass_quiet_def)
    then show ?thesis using hold_done_leases [of L h "pgLarge pg2"] b(2) by (simp add: shared_def L_def)
  qed (use assms(1) in simp)
qed

definition pass_caller :: "pass_world \<Rightarrow> passthroughRoute \<Rightarrow> wire_request \<Rightarrow> state \<Rightarrow> Key option" where
  "pass_caller w route rq st =
     (case admitPassthrough (hashToken (pwBase w)) (authAt (pwBase w)) route (rqHeader rq) st of
        Inr key \<Rightarrow> Some key | Inl (_, k, _) \<Rightarrow> k)"

lemma handlePassthrough_accounts:
  assumes "spoolOK (pwBase w)" "pool_inv (pgLarge pg)" "handlePassthrough w cfg route rq pg = (r, pg', attempts)"
    "rqMethod rq = rtMethod route"
  shows "accounted (pwBase w) ((opening_event (pwBase w) (rtName route) (snap (pgGateway pg))
        (pass_caller w route rq (snap (pgGateway pg))))\<lparr>Attempts := Some (int (length attempts))\<rparr>) (pgGateway pg) r (pgGateway pg') \<and>
    r \<noteq> Panicked \<and> shared (pgGateway pg') = shared (pgGateway pg) \<and> pool_inv (pgLarge pg') \<and>
    Large_Body.leases (pgLarge pg') = Large_Body.leases (pgLarge pg)"
proof -
  let ?b = "pwBase w" and ?g = "pgGateway pg"
  let ?adm = "admitPassthrough (hashToken ?b) (authAt ?b) route (rqHeader rq) (snap ?g)"
  define e0 where "e0 = opening_event ?b (rtName route) (snap ?g) (pass_caller w route rq (snap ?g))"
  define L where "L = Large_Body.leases (pgLarge pg)"
  have free: "hold_inv L None (pgLarge pg)" using assms(2) by (simp add: hold_inv_def L_def)
  have stopped: ?thesis
    if h: "(r, pg', attempts) = (case halt_with ?b x [] ev1 ?g of (r, g) \<Rightarrow> (r, pg\<lparr>pgGateway := g\<rparr>, []))"
      and x: "refusal_status x" and st: "stamp ev1 = stamp (e0\<lparr>Attempts := Some 0\<rparr>)" for x ev1
  proof -
    obtain r1 g where g: "halt_with ?b x [] ev1 ?g = (r1, g)" by fastforce
    then show ?thesis
      using halt_settled [OF g assms(1) x] accounted_stamp [OF st] h free assms(2) by (simp add: settled_def e0_def)
  qed
  show ?thesis
  proof (cases ?adm)
    case (Inl hk)
    obtain x k axis where hk: "?adm = Inl (x, k, axis)" using Inl by (cases hk) auto
    let ?e = "(opening_event ?b (rtName route) (snap ?g) k)\<lparr>EvBudgetAxis := axis\<rparr>"
    have "stamp ?e = stamp (e0\<lparr>Attempts := Some 0\<rparr>)" by (simp add: stamp_def e0_def opening_event_def pass_caller_def hk)
    then show ?thesis
      using assms(3,4) hk
      by (intro stopped [of x ?e, OF _ pass_refusals(5) [OF hk]]) (simp_all add: handlePassthrough_def opening_event_def Let_def)
  next
    case (Inr key)
    let ?e = "(opening_event ?b (rtName route) (snap ?g) (Some key))\<lparr>EvBudgetAxis := AxisCredit\<rparr>"
    let ?pg = "pg\<lparr>pgGateway := ?g\<lparr>inflight := inflight ?g + 1\<rparr>\<rparr>"
    have e: "stamp (?e\<lparr>Attempts := n\<rparr>) = stamp (e0\<lparr>Attempts := n\<rparr>)" for n
      by (simp add: stamp_def e0_def opening_event_def pass_caller_def Inr)
    show ?thesis
    proof (cases "inflight ?g \<ge> maxInFlight (pcBase cfg)")
      case True
      have "stamp ?e = stamp (e0\<lparr>Attempts := Some 0\<rparr>)" by (simp add: stamp_def e0_def opening_event_def pass_caller_def Inr)
      then show ?thesis
        using assms(3,4) Inr True
        by (intro stopped [of "refuse errServerBusy StatusRateLimited" ?e])
          (simp_all add: handlePassthrough_def opening_event_def Let_def)
    next
      case False
      let ?res = "if readsBody route then serve_pass_body w cfg route rq key ?e ?pg
          else call_pass w cfg route rq key NoBody 0 None ?e ?pg"
      obtain h pg2 where res: "?res = (r, h, pg2, attempts)"
        "pg' = \<lparr>pgGateway = (pgGateway pg2)\<lparr>inflight := inflight (pgGateway pg2) - 1\<rparr>, pgLarge = hold_done h (pgLarge pg2)\<rparr>"
        using assms(3,4) Inr False
        by (auto simp: handlePassthrough_def opening_event_def Let_def split: if_splits prod.splits)
      have "pass_accounts ?b ?e L (pgGateway ?pg) ?res"
        using serve_pass_body_accounts [OF assms(1), of L ?pg ?e] call_pass_accounts [OF assms(1), of L None ?pg ?e ?e] free
        by (simp add: stamp_def opening_event_def)
      then have p: "accounted ?b (?e\<lparr>Attempts := Some (int (length attempts))\<rparr>) (pgGateway ?pg) r (pgGateway pg2)"
        "r \<noteq> Panicked" "shared (pgGateway pg2) = shared (pgGateway ?pg)" "hold_inv L h (pgLarge pg2)"
        unfolding res(1) by (simp_all add: pass_accounts_def)
      let ?e' = "e0\<lparr>Attempts := Some (int (length attempts))\<rparr>"
      have "accounted ?b ?e' (pgGateway ?pg) r (pgGateway pg2)" by (rule accounted_stamp [OF e, THEN iffD1, OF p(1)])
      then have "accounted ?b ?e' ?g r (pgGateway pg2)" using accounted_from [OF books_kept(7)] by simp
      then have "accounted ?b ?e' ?g r (pgGateway pg')" using accounted_to [OF books_kept(7)] by (simp add: res(2))
      then show ?thesis using p(2-4) hold_done_leases [OF p(4)] by (simp add: res(2) shared_def L_def e0_def)
    qed
  qed
qed

text \<open>
  C15. Every passthrough request is accounted for once and leaves nothing behind. A request with the route's
  method adds exactly one usage event, to the spool or to the lookups that wait for a price, carrying its
  own identifier, the generation it was served under, the route's name, its key and the number of
  attempts that were really made, which is at most one; only a rejection that resolved to no key adds
  none, and an event that says success never belongs to a refusal. However it ends, the slots for large
  bodies that are held are those held before, as are the in-flight count, the snapshot and the rate
  limiter, which this surface never asks or charges.
\<close>

theorem passthrough_accounted_once:
  assumes "spoolOK (pwBase w)" "pool_inv (pgLarge pg)" "handlePassthrough w cfg route rq pg = (r, pg', attempts)"
  shows "(if rqMethod rq \<noteq> rtMethod route then books (pgGateway pg') = books (pgGateway pg)
      else \<exists>e. EventUUID e = newUUID (pwBase w) \<and> EvGeneration e = Generation (doc (snap (pgGateway pg))) \<and>
        EvEndpoint e = rtName route \<and> RequestedAt e = startAt (pwBase w) \<and> LatencyMs e = latencyMs (pwBase w) \<and>
        Attempts e = Some (int (length attempts)) \<and>
        EvKeyID e = (case admitPassthrough (hashToken (pwBase w)) (authAt (pwBase w)) route (rqHeader rq) (snap (pgGateway pg)) of
           Inr key \<Rightarrow> KeyID key | Inl (_, Some key, _) \<Rightarrow> KeyID key | Inl (_, None, _) \<Rightarrow> []) \<and>
        (EvStatus e = StatusOK \<longrightarrow> (\<nexists>err hs. r = Refused err hs)) \<and>
        (if unattributed e then books (pgGateway pg') = books (pgGateway pg) else booked (pgGateway pg) (pgGateway pg') e)) \<and>
    length attempts \<le> 1 \<and> r \<noteq> Panicked \<and> shared (pgGateway pg') = shared (pgGateway pg) \<and>
    pool_inv (pgLarge pg') \<and> Large_Body.leases (pgLarge pg') = Large_Body.leases (pgLarge pg)"
proof (cases "rqMethod rq = rtMethod route")
  case True
  let ?adm = "admitPassthrough (hashToken (pwBase w)) (authAt (pwBase w)) route (rqHeader rq) (snap (pgGateway pg))"
  have id: "(case pass_caller w route rq (snap (pgGateway pg)) of None \<Rightarrow> [] | Some key \<Rightarrow> KeyID key) =
      (case ?adm of Inr key \<Rightarrow> KeyID key | Inl (_, Some key, _) \<Rightarrow> KeyID key | Inl (_, None, _) \<Rightarrow> [])"
    by (simp add: pass_caller_def split: sum.splits prod.splits option.splits)
  show ?thesis
    using True handlePassthrough_accounts [OF assms True] passthrough_attempts [OF assms(3)]
    by (auto simp: accounted_def stamp_def opening_event_def id [symmetric])
next
  case False
  then have "pg' = pg" "r = Refused errMethod []" using assms(3) by (simp_all add: handlePassthrough_def Let_def)
  then show ?thesis using False passthrough_attempts [OF assms(3)] assms(2) by simp
qed

section \<open>A key granted embeddings\<close>

definition plain_mime :: mime where
  "plain_mime = \<lparr>parseMedia = (\<lambda>ct. if ct = ''application/octet-stream'' then Some (ct, []) else None),
     formatMedia = (\<lambda>mt ps. mt), cutParts = (\<lambda>raw boundary. ([], True)), validUTF8 = (\<lambda>s. True)\<rparr>"

definition embeddings_key :: Key where
  "embeddings_key = demo_key\<lparr>PassthroughEndpoints := [EndpointEmbeddings]\<rparr>"

definition pass_demo :: pass_gateway where
  "pass_demo = \<lparr>pgGateway = demo_gateway\<lparr>snap := demo_state\<lparr>byHash := [(''h1'', embeddings_key)]\<rparr>\<rparr>,
     pgLarge = newLargeBodySlots 1\<rparr>"

definition pass_demo_world :: pass_world where
  "pass_demo_world = \<lparr>pwBase = (demo_world ''openai/gpt-5'')\<lparr>calls := (answering (\<lambda>n. 5))\<lparr>upstreams := [(''openrouter'',
       \<lparr>upRef = ''openrouter'', BaseURL = ''https://openrouter.ai'', APIKey = ''k'', CapField = ''max_tokens'', Reasoning = []\<rparr>)]\<rparr>\<rparr>,
     pwMime = plain_mime, pwNet = (\<lambda>a. Response 200 (\<lambda>h. []) []), pwDeclared = 2, pwContentType = ''application/json''\<rparr>"

definition pass_demo_config :: pass_config where
  "pass_demo_config = \<lparr>pcBase = demo_config, pcRequestMax = 33554432, pcResponseMax = 67108864\<rparr>"

abbreviation "pass_run \<equiv> handlePassthrough pass_demo_world pass_demo_config routeEmbeddings demo_request pass_demo"

lemma pass_split: "pass_run = (fst pass_run, fst (snd pass_run), snd (snd pass_run))"
  by simp

lemma pass_attempted: "length (snd (snd pass_run)) = 1"
  by code_simp

theorem passthrough_accounted_once_witness:
  "\<exists>e. booked (pgGateway pass_demo) (pgGateway (fst (snd pass_run))) e \<and> EvKeyID e = ''k1'' \<and> Attempts e = Some 1"
proof -
  have ok: "spoolOK (pwBase pass_demo_world)" "pool_inv (pgLarge pass_demo)"
    by (simp_all add: pass_demo_world_def demo_world_def pass_demo_def newLargeBodySlots_inv)
  obtain r pg' attempts where run: "pass_run = (r, pg', attempts)" by (rule prod_cases3)
  then have att: "length attempts = 1" using pass_attempted by simp
  have m: "rqMethod demo_request = rtMethod routeEmbeddings"
    by (simp add: demo_request_def routeEmbeddings_def route_plain_def)
  let ?adm = "admitPassthrough (hashToken (pwBase pass_demo_world)) (authAt (pwBase pass_demo_world)) routeEmbeddings
      (rqHeader demo_request) (snap (pgGateway pass_demo))"
  have "case ?adm of Inl _ \<Rightarrow> False | Inr key \<Rightarrow> KeyID key = ''k1''" by code_simp
  then obtain key where adm: "?adm = Inr key" "KeyID key = ''k1''" by (auto split: sum.splits)
  show ?thesis
    using passthrough_accounted_once [OF ok run] m adm att run by (auto simp: unattributed_def)
qed

definition upload_parts :: "form_part list" where
  "upload_parts =
     [\<lparr>ptName = ''model'', ptFileName = [], ptType = [], ptData = ''whisper'', ptWhole = True\<rparr>,
      \<lparr>ptName = ''file'', ptFileName = ''talk.mp3'', ptType = [], ptData = ''ID3'', ptWhole = True\<rparr>]"

definition upload_acc :: form_acc where
  "upload_acc = ([(''model'', [''whisper''])], Some (upload_parts ! 1))"


section \<open>What the surface does not look into\<close>

text \<open>
  The other surfaces judge a tool choice as they judge the tools; this one does not. A body that names a
  model its key may not buy under an allowed-tools choice is refused there and passes here.
\<close>

definition choice_params :: params where
  "choice_params = [(''model'', JStr ''openai/gpt-5''),
     (toolChoiceField, JObj [(''type'', JStr ''allowed_tools''), (''tools'', JArr [JObj
        [(''type'', JStr ''openrouter:advisor''), (''parameters'', JObj [(''model'', JStr ''openai/gpt-5-pro'')])]])])]"

lemma choice_passes_unfenced:
  "fencePassthrough sample_doc embeddings_key (model_named ''openai/gpt-5'' AxisCredit) ''openai/gpt-5'' choice_params = None \<and>
   fenceToolChoice sample_doc (\<lambda>_. None) embeddings_key choice_params \<noteq> None \<and>
   \<not> billable sample_doc (\<lambda>_. None) embeddings_key ''openai/gpt-5-pro''"
proof -
  have "fencePassthrough sample_doc embeddings_key (model_named ''openai/gpt-5'' AxisCredit) ''openai/gpt-5'' choice_params = None"
    "fenceToolChoice sample_doc (\<lambda>_. None) embeddings_key choice_params \<noteq> None" by code_simp+
  moreover have "\<not> allowsCandidateModel sample_doc (\<lambda>_. None) embeddings_key ''openai/gpt-5-pro''" by code_simp
  ultimately show ?thesis by (simp add: allowsCandidateModel_iff)
qed

end
