(* ===== verification/Observations.thy ===== *)
theory Observations
  imports Upstream Snapshot_Source Json_Text "HOL-Library.Multiset" "HOL-Library.Word"
begin

text \<open>
  What the gateway reports of its upstreams (\<open>internal/server/observability.go\<close>): the read-only probe of
  one upstream, the comparison of what it lists with the document, the record of a probe, and the copy
  handed to the control plane. A runtime observation's passive half is the one of \<open>upstreamHealth\<close>; its
  active and catalog halves are held beside it.
\<close>

section \<open>The record\<close>

definition upstreamObservationFormat :: int where "upstreamObservationFormat = 1"
definition maxProbeBodyBytes :: nat where "maxProbeBodyBytes = 4194304"
definition maxMissingPublicModels :: nat where "maxMissingPublicModels = 20"

abbreviation "activeOK \<equiv> ''OK''"
abbreviation "activeAuthUnverified \<equiv> ''AUTH_UNVERIFIED''"
abbreviation "activeFailed \<equiv> ''FAILED''"
abbreviation "catalogMatch \<equiv> ''MATCH''"
abbreviation "catalogMismatch \<equiv> ''MISMATCH''"
abbreviation "catalogNotApplicable \<equiv> ''NOT_APPLICABLE''"

definition active_zero :: ActiveUpstreamObservation where
  "active_zero = \<lparr>activeStatus = ''UNKNOWN'', activeIntervalSeconds = 0, activeLastAttemptAt = 0, activeLastSuccessAt = 0,
     activeLastFailureAt = 0, activeLastFailureType = [], activeConsecutiveFailures = 0, activeLatencyMs = 0,
     activeModelCount = 0\<rparr>"

definition catalog_status :: "string \<Rightarrow> CatalogObservation" where
  "catalog_status s = \<lparr>catalogStatus = s, ExpectedModelCount = 0, MissingModelCount = 0, UnexpectedModelCount = 0,
     MissingPublicModels = []\<rparr>"

record observed = upstreamHealth +
  probed :: "(ActiveUpstreamObservation \<times> CatalogObservation) gomap"

definition active_of :: "string \<Rightarrow> observed \<Rightarrow> ActiveUpstreamObservation \<times> CatalogObservation" where
  "active_of ref h = (case map_of (probed h) (ToLower ref) of None \<Rightarrow> (active_zero, catalog_status ''UNKNOWN'') | Some x \<Rightarrow> x)"

text \<open>Reading an observation creates both its halves when it is not there yet.\<close>

definition touch :: "string \<Rightarrow> observed \<Rightarrow> observed" where
  "touch ref h = h\<lparr>observations := AList.update (ToLower ref) (observation ref (upstreamHealth.truncate h)) (observations h),
     probed := AList.update (ToLower ref) (active_of ref h) (probed h)\<rparr>"

section \<open>The probe\<close>

record probeResult =
  prStatus :: string
  prFailureType :: string
  prLatencyMs :: int
  prModelIDs :: "string list"
  prModelCount :: int
  prCatalog :: CatalogObservation

definition probe_failed :: "string \<Rightarrow> string \<Rightarrow> probeResult" where
  "probe_failed status failure = \<lparr>prStatus = status, prFailureType = failure, prLatencyMs = 0, prModelIDs = [],
     prModelCount = 0, prCatalog = catalog_status []\<rparr>"

text \<open>
  What the one GET meets: a request that cannot be built, a transport failure and whether it was a timeout,
  or a status with the body and whether reading it failed.
\<close>

datatype probe_answer =
    ProbeUnbuilt
  | ProbeLost bool
  | ProbeAnswered nat string bool

definition model_id :: "json \<Rightarrow> string option" where
  "model_id j = dec_struct False [(''id'', string_field (\<lambda>s _. s))] j []"

text \<open>The ids of a body, \<^const>\<open>None\<close> for one that does not decode or names no list.\<close>

definition probe_ids :: "json \<Rightarrow> string list option" where
  "probe_ids j =
     Option.bind
       (dec_struct False [(''data'', \<lambda>v r. if v = JNull then Some None
          else map_option Some (Option.bind (dec_list v) (\<lambda>xs. all_some (map model_id xs))))] j None)
       (map_option (\<lambda>ids. remdups (filter (\<lambda>i. i \<noteq> []) ids)))"

definition fetchModels :: "(string \<Rightarrow> json option) \<Rightarrow> probe_answer \<Rightarrow> probeResult" where
  "fetchModels decode ans =
     (case ans of
        ProbeUnbuilt \<Rightarrow> probe_failed activeFailed ''INVALID_RESPONSE''
      | ProbeLost timedOut \<Rightarrow> probe_failed activeFailed (if timedOut then ''TIMEOUT'' else ''TRANSPORT_ERROR'')
      | ProbeAnswered status body readFails \<Rightarrow>
          if status = 401 \<or> status = 403 then probe_failed activeAuthUnverified []
          else if status \<noteq> 200
          then probe_failed activeFailed
                 (if status = 429 then ''THROTTLED'' else if status \<ge> 500 then ''UPSTREAM_ERROR'' else ''VENDOR_REJECTED'')
          else if readFails \<or> length body > maxProbeBodyBytes then probe_failed activeFailed ''INVALID_RESPONSE''
          else (case Option.bind (decode body) probe_ids of
                  None \<Rightarrow> probe_failed activeFailed ''INVALID_RESPONSE''
                | Some ids \<Rightarrow> \<lparr>prStatus = activeOK, prFailureType = [], prLatencyMs = 0, prModelIDs = ids,
                                prModelCount = int (length ids), prCatalog = catalog_status []\<rparr>))"

section \<open>The comparison\<close>

definition expected_key :: "Model \<Rightarrow> string" where
  "expected_key m = PublicName m @ CHR 0x00 # UpstreamModel m"

fun first_of_each :: "string list \<Rightarrow> Model list \<Rightarrow> Model list" where
  "first_of_each seen [] = []"
| "first_of_each seen (m # ms) =
     (if expected_key m \<in> set seen then first_of_each seen ms else m # first_of_each (expected_key m # seen) ms)"

text \<open>The models of the document that the upstream is to serve, each once, by public name.\<close>

definition expected_models :: "Document \<Rightarrow> string \<Rightarrow> Model list" where
  "expected_models d ref =
     sort_key PublicName (first_of_each [] (filter (\<lambda>m. UpstreamRef m = ref \<or> FallbackRef m = ref) (Models d)))"

definition compareCatalog :: "Document \<Rightarrow> string \<Rightarrow> string list \<Rightarrow> CatalogObservation" where
  "compareCatalog d ref0 actual =
     (let ref = ToLower ref0;
          passthrough = (ToLower (PassthroughRef d) = ref);
          expected = expected_models d ref
      in if expected = [] then catalog_status catalogNotApplicable
         else
           let missing_models = filter (\<lambda>m. UpstreamModel m \<notin> set actual) expected;
               missing_count = int (length missing_models);
               unexpected = (if passthrough then 0
                             else int (length (filter (\<lambda>i. i \<notin> UpstreamModel ` set expected) actual)))
           in \<lparr>catalogStatus = (if missing_count > 0 \<or> unexpected > 0 then catalogMismatch else catalogMatch),
               ExpectedModelCount = int (length expected), MissingModelCount = missing_count,
               UnexpectedModelCount = unexpected,
               MissingPublicModels = map PublicName (take maxMissingPublicModels missing_models)\<rparr>)"

section \<open>Recording and reporting\<close>

definition record_active :: "int \<Rightarrow> probeResult \<Rightarrow> ActiveUpstreamObservation \<times> CatalogObservation \<Rightarrow>
    ActiveUpstreamObservation \<times> CatalogObservation" where
  "record_active seenAt r x =
     (case x of (a, c) \<Rightarrow>
        let a = a\<lparr>activeStatus := prStatus r, activeLastAttemptAt := seenAt, activeLatencyMs := prLatencyMs r\<rparr> in
        if prStatus r = activeOK
        then (a\<lparr>activeLastSuccessAt := seenAt, activeConsecutiveFailures := 0, activeModelCount := prModelCount r\<rparr>, prCatalog r)
        else if prStatus r = activeAuthUnverified then (a\<lparr>activeConsecutiveFailures := 0\<rparr>, c)
        else (a\<lparr>activeLastFailureAt := seenAt, activeLastFailureType := prFailureType r,
                activeConsecutiveFailures := activeConsecutiveFailures a + 1\<rparr>, c))"

definition recordProbe :: "string \<Rightarrow> int \<Rightarrow> probeResult \<Rightarrow> observed \<Rightarrow> observed" where
  "recordProbe ref seenAt r h0 =
     (let h = touch ref h0 in h\<lparr>probed := AList.update (ToLower ref) (record_active seenAt r (active_of ref h)) (probed h)\<rparr>)"

text \<open>One wake of an upstream's loop: when it began, how long the read took, and what it met.\<close>

definition probeOnce ::
  "(string \<Rightarrow> json option) \<Rightarrow> Document \<Rightarrow> string \<Rightarrow> int \<Rightarrow> int \<Rightarrow> probe_answer \<Rightarrow> observed \<Rightarrow> observed" where
  "probeOnce decode d ref attemptedAt latency ans h =
     (let r = (fetchModels decode ans)\<lparr>prLatencyMs := latency div 1000000\<rparr>;
          r = (if prStatus r = activeOK then r\<lparr>prCatalog := compareCatalog d ref (prModelIDs r)\<rparr> else r)
      in recordProbe ref (attemptedAt + latency) r h)"

text \<open>
  One reference of the report; a cooldown that is over is forgotten on the way. The clock is read once
  for each.
\<close>

definition report_one :: "(string \<Rightarrow> int) \<Rightarrow> int \<Rightarrow> string \<Rightarrow> observed \<Rightarrow> UpstreamObservation \<times> observed" where
  "report_one probeSeconds now ref h0 =
     (let h = touch ref h0;
          p = observation ref (upstreamHealth.truncate h);
          passive = (\<lambda>until. \<lparr>passiveLastAttemptAt = LastAttemptAt p, passiveLastSuccessAt = LastSuccessAt p,
            passiveLastFailureAt = LastFailureAt p, passiveLastFailureType = LastFailureType p,
            passiveConsecutiveFailures = ConsecutiveFailures p, passiveCooldownUntil = until\<rparr>);
          (a, c) = active_of ref h;
          row = (\<lambda>until. \<lparr>obsRef = ref, obsPassive = passive until, obsActive = a\<lparr>activeIntervalSeconds := probeSeconds ref\<rparr>,
            obsCatalog = c\<rparr>)
      in case map_of (coolUntil h) ref of
           None \<Rightarrow> (row 0, h)
         | Some until \<Rightarrow>
             if now < until then (row until, h) else (row 0, h\<lparr>coolUntil := AList.delete ref (coolUntil h)\<rparr>))"

fun report_all :: "(string \<Rightarrow> int) \<Rightarrow> (nat \<Rightarrow> int) \<Rightarrow> nat \<Rightarrow> string list \<Rightarrow> observed \<Rightarrow> UpstreamObservation list \<times> observed" where
  "report_all probeSeconds now n [] h = ([], h)"
| "report_all probeSeconds now n (ref # refs) h =
     (case report_one probeSeconds (now n) ref h of
        (o1, h1) \<Rightarrow> (case report_all probeSeconds now (Suc n) refs h1 of (os, h2) \<Rightarrow> (o1 # os, h2)))"

definition UpstreamObservations ::
  "string list \<Rightarrow> (string \<Rightarrow> int) \<Rightarrow> (nat \<Rightarrow> int) \<Rightarrow> observed \<Rightarrow> (int \<times> UpstreamObservation list) \<times> observed" where
  "UpstreamObservations refs probeSeconds now h =
     (case report_all probeSeconds now 0 (sort refs) h of (os, h') \<Rightarrow> ((upstreamObservationFormat, os), h'))"

text \<open>
  The loop of one upstream: the first wait is taken from a stable hash of its reference (64-bit FNV-1a),
  each later probe is due an interval after the one before has ended.
\<close>

definition fnv64a :: "string \<Rightarrow> 64 word" where
  "fnv64a s = foldl (\<lambda>h c. xor h (of_nat (of_char c)) * 0x100000001b3) 0xcbf29ce484222325 s"

definition initial_delay :: "string \<Rightarrow> int \<Rightarrow> int" where
  "initial_delay ref interval =
     (let window = (if interval div 10 \<le> 0 then 1000000 else interval div 10) in uint (fnv64a ref) mod window)"

fun probe_times :: "string \<Rightarrow> int \<Rightarrow> (nat \<Rightarrow> int) \<Rightarrow> nat \<Rightarrow> int" where
  "probe_times ref interval duration 0 = initial_delay ref interval"
| "probe_times ref interval duration (Suc n) = probe_times ref interval duration n + duration n + interval"

lemma initial_delay_bounds:
  assumes "10 \<le> interval" shows "0 \<le> initial_delay ref interval" "10 * initial_delay ref interval < interval"
proof -
  have w: "0 < interval div 10" "10 * (interval div 10) \<le> interval" using assms by auto
  have eq: "initial_delay ref interval = uint (fnv64a ref) mod (interval div 10)"
    using w by (simp add: initial_delay_def)
  show "0 \<le> initial_delay ref interval" unfolding eq using w by simp
  have "uint (fnv64a ref) mod (interval div 10) < interval div 10" using w by simp
  then show "10 * initial_delay ref interval < interval" unfolding eq using w by linarith
qed

text \<open>Probes of one upstream never start less than its interval apart, and the n-th not before n intervals.\<close>

lemma probes_spaced:
  assumes "10 \<le> interval" "\<forall>n. 0 \<le> duration n" "m < n"
  shows "probe_times ref interval duration m + interval \<le> probe_times ref interval duration n"
  using assms(3)
proof (induction n)
  case (Suc n)
  have d: "0 \<le> duration n" using assms(2) by blast
  then show ?case using Suc assms(1) by (cases "m = n") auto
qed simp

section \<open>Routing is not moved by looking\<close>

text \<open>Until when \<open>ref\<close> is set aside for any clock that reads \<open>t\<close> or later.\<close>

definition aside :: "int \<Rightarrow> upstreamHealth \<Rightarrow> string \<Rightarrow> int option" where
  "aside t h ref = (case map_of (coolUntil h) ref of None \<Rightarrow> None | Some until \<Rightarrow> if until \<le> t then None else Some until)"

definition routes_alike :: "int \<Rightarrow> upstreamHealth \<Rightarrow> upstreamHealth \<Rightarrow> bool" where
  "routes_alike t h h' \<longleftrightarrow> map_of (failures h) = map_of (failures h') \<and> aside t h = aside t h'"

lemma routes_alike_refl [simp]: "routes_alike t h h"
  by (simp add: routes_alike_def)

lemma alike_cooling:
  assumes "routes_alike t h h'" "t \<le> now"
  shows "fst (cooling now ref h) = fst (cooling now ref h') \<and> routes_alike t (snd (cooling now ref h)) (snd (cooling now ref h'))"
proof -
  have a: "aside t h = aside t h'" using assms(1) by (simp add: routes_alike_def)
  have after: "aside t (snd (cooling now ref g)) = (\<lambda>r. if r = ref \<and> (\<exists>u. aside t g ref = Some u \<and> u \<le> now) then None else aside t g r)" for g
    using assms(2) by (auto simp: fun_eq_iff cooling_def aside_def go_maps split: option.splits)
  have told: "fst (cooling now ref g) = (\<exists>u. aside t g ref = Some u \<and> now < u)" for g
    using assms(2) by (auto simp: cooling_def aside_def split: option.splits)
  have kept: "failures (snd (cooling now ref g)) = failures g" for g by (simp add: cooling_def split: option.splits)
  have "map_of (failures h) = map_of (failures h')" using assms(1) by (simp add: routes_alike_def)
  then show ?thesis unfolding routes_alike_def told kept after a by simp
qed

lemma alike_failure:
  assumes "routes_alike t h h'"
  shows "routes_alike t (snd (recordFailure now ref h)) (snd (recordFailure now ref h'))"
  using assms
  by (auto simp: routes_alike_def recordFailure_def Let_def aside_def fun_eq_iff go_maps split: option.splits)

lemma alike_observe [simp]: "routes_alike t (observe ref f h) h' \<longleftrightarrow> routes_alike t h h'"
  "routes_alike t h (observe ref f h') \<longleftrightarrow> routes_alike t h h'"
  by (simp_all add: routes_alike_def observe_def aside_def fun_eq_iff)

lemma alike_success: "routes_alike t h h' \<Longrightarrow> routes_alike t (recordSuccess now ref h) (recordSuccess now ref h')"
  unfolding recordSuccess_def alike_observe
  by (auto simp: routes_alike_def aside_def fun_eq_iff go_maps)

lemma alike_others:
  "routes_alike t h h' \<Longrightarrow> routes_alike t (recordAttempt now ref h) (recordAttempt now ref h')"
  "routes_alike t h h' \<Longrightarrow> routes_alike t (recordPassiveFailure now ref k h) (recordPassiveFailure now ref k h')"
  by (simp_all add: recordAttempt_def recordPassiveFailure_def)

definition calls_alike :: "int \<Rightarrow> call_state \<Rightarrow> call_state \<Rightarrow> bool" where
  "calls_alike t s s' \<longleftrightarrow> routes_alike t (health s) (health s') \<and> s' = s\<lparr>health := health s'\<rparr>"

lemma calls_alike_fields:
  "calls_alike t s s' \<Longrightarrow> ticks s' = ticks s \<and> sent s' = sent s \<and> waitFor s' = waitFor s \<and> lastErr s' = lastErr s \<and> lastUp s' = lastUp s"
  by (cases s; cases s') (simp add: calls_alike_def)

lemma calls_alike_set:
  "calls_alike t s s' \<Longrightarrow> calls_alike t (s\<lparr>sent := a\<rparr>) (s'\<lparr>sent := a\<rparr>)"
  "calls_alike t s s' \<Longrightarrow> calls_alike t (s\<lparr>lastErr := b\<rparr>) (s'\<lparr>lastErr := b\<rparr>)"
  "calls_alike t s s' \<Longrightarrow> calls_alike t (s\<lparr>lastUp := c\<rparr>) (s'\<lparr>lastUp := c\<rparr>)"
  "calls_alike t s s' \<Longrightarrow> calls_alike t (s\<lparr>waitFor := d, lastErr := e\<rparr>) (s'\<lparr>waitFor := d, lastErr := e\<rparr>)"
  by (cases s; cases s'; simp add: calls_alike_def)+

lemma calls_alike_tick:
  assumes "calls_alike t s s'" "\<And>now h h'. routes_alike t h h' \<Longrightarrow> routes_alike t (f now h) (f now h')"
  shows "calls_alike t (tick w f s) (tick w f s')"
  using assms by (cases s; cases s') (simp add: calls_alike_def tick_def)

lemma calls_alike_cooling:
  assumes "calls_alike t s s'" "t \<le> clk w (ticks s)"
  shows "fst (ask_cooling w ref s) = fst (ask_cooling w ref s') \<and> calls_alike t (snd (ask_cooling w ref s)) (snd (ask_cooling w ref s'))"
  using assms alike_cooling [of t "health s" "health s'" "clk w (ticks s)" ref]
  by (cases s; cases s') (auto simp: calls_alike_def ask_cooling_def split: prod.splits)

lemma calls_alike_pass:
  assumes "calls_alike t s s'" "\<forall>n. t \<le> clk w n"
  shows "fst (cooling_pass w want refs s) = fst (cooling_pass w want refs s') \<and>
    calls_alike t (snd (cooling_pass w want refs s)) (snd (cooling_pass w want refs s'))"
  using assms(1)
proof (induction refs arbitrary: s s')
  case (Cons ref refs)
  have "calls_alike t (snd (ask_cooling w ref s)) (snd (ask_cooling w ref s'))" "fst (ask_cooling w ref s) = fst (ask_cooling w ref s')"
    using calls_alike_cooling [OF Cons.prems] assms(2) by simp_all
  then show ?case using Cons.IH [of "snd (ask_cooling w ref s)" "snd (ask_cooling w ref s')"] by (simp add: case_prod_beta)
qed simp

lemma calls_alike_order:
  assumes "calls_alike t s s'" "\<forall>n. t \<le> clk w n"
  shows "fst (order_refs w refs s) = fst (order_refs w refs s') \<and> calls_alike t (snd (order_refs w refs s)) (snd (order_refs w refs s'))"
proof -
  note a = calls_alike_pass [OF assms, of False refs]
  note b = calls_alike_pass [OF a [THEN conjunct2] assms(2), of True refs]
  show ?thesis using a b assms(1) by (simp add: order_refs_eq Let_def)
qed

lemma calls_alike_attempts:
  assumes "calls_alike t s s'"
  shows "fst (attempts_on w ref spec n s) = fst (attempts_on w ref spec n s') \<and>
    calls_alike t (snd (attempts_on w ref spec n s)) (snd (attempts_on w ref spec n s'))"
  using assms
proof (induction n arbitrary: s s')
  case (Suc n)
  note f = calls_alike_fields [OF Suc.prems]
  let ?s1 = "\<lambda>s. tick w (\<lambda>now. recordAttempt now ref) (s\<lparr>sent := sent s @ [spec]\<rparr>)"
  have s1: "calls_alike t (?s1 s) (?s1 s')"
    using calls_alike_set(1) [OF Suc.prems] f by (auto intro: calls_alike_tick alike_others)
  show ?case
  proof (cases "classify (rejectWith w (specUpstreamModel spec) (specPublicModel spec)) (specCreditAxis spec) (net w (length (sent s)) spec)")
    case None
    then show ?thesis using s1 f by (auto simp: Let_def intro: calls_alike_tick alike_success)
  next
    case (Some ae)
    let ?s2 = "\<lambda>s. (tick w (\<lambda>now. recordPassiveFailure now ref (kind ae)) (?s1 s))
                \<lparr>waitFor := (if longerWait (aeRetryAfter ae) (waitFor (?s1 s)) then aeRetryAfter ae else waitFor (?s1 s)),
                 lastErr := Some ae\<rparr>"
    have s2: "calls_alike t (?s2 s) (?s2 s')"
      using calls_alike_tick [OF s1, of "\<lambda>now. recordPassiveFailure now ref (kind ae)"] f
      by (auto intro!: calls_alike_set(4) alike_others)
    have s3: "calls_alike t (tick w (\<lambda>now h. snd (recordFailure now ref h)) (?s2 s)) (tick w (\<lambda>now h. snd (recordFailure now ref h)) (?s2 s'))"
      by (rule calls_alike_tick [OF s2 alike_failure])
    have eq: "attempts_on w ref spec (Suc n) x =
        (if aeRefusal ae \<noteq> None \<or> ctxDone w (length (sent s)) then (Some (Failed (Some (specUpstream spec)) ae), ?s2 x)
         else if throttled ae \<or> timeout ae then (None, ?s2 x)
         else attempts_on w ref spec n (tick w (\<lambda>now h. snd (recordFailure now ref h)) (?s2 x)))" if "sent x = sent s" for x
      using Some that unfolding attempts_on.simps Let_def by simp
    show ?thesis unfolding eq [OF refl] eq [OF f [THEN conjunct2, THEN conjunct1]] using s2 Suc.IH [OF s3] by simp
  qed
qed simp

lemma calls_alike_refs:
  assumes "calls_alike t s s'"
  shows "fst (call_refs w p model key params cap hdrs refs s) = fst (call_refs w p model key params cap hdrs refs s') \<and>
    calls_alike t (snd (call_refs w p model key params cap hdrs refs s)) (snd (call_refs w p model key params cap hdrs refs s'))"
  using assms
proof (induction refs arbitrary: s s')
  case Nil
  then show ?case using calls_alike_fields [OF Nil] by (simp add: Let_def)
next
  case (Cons ref refs)
  note set = calls_alike_set(2) [OF Cons.prems] calls_alike_set(3) [OF Cons.prems]
  show ?case
  proof (cases "map_of (upstreams w) (ToLower ref)")
    case None
    then show ?thesis using Cons.IH [OF set(1)] by simp
  next
    case (Some up)
    let ?cred = "if CreditAxis model then CredentialFor key (upRef up) else APIKey up"
    let ?body = "bodyFor (if CreditAxis model then params else reasoningForAttempt params (reasoningParam p) up)
        (if capWriteField p = [] then CapField up else capWriteField p) cap"
    show ?thesis
    proof (cases "(CreditAxis model \<and> ?cred = []) \<or> ?body = None")
      case True
      then show ?thesis using Some Cons.IH [OF set(1)] set(2) by (auto simp: Let_def split: option.splits)
    next
      case False
      then obtain body where b: "?body = Some body" by auto
      let ?a = "\<lambda>s. attempts_on w ref (attemptFor p up body ?cred model hdrs) (nat (retries w + 1)) (s\<lparr>lastUp := Some up\<rparr>)"
      have eq: "call_refs w p model key params cap hdrs (ref # refs) x =
          (case fst (?a x) of Some r \<Rightarrow> (r, snd (?a x)) | None \<Rightarrow> call_refs w p model key params cap hdrs refs (snd (?a x)))" for x
        using Some False b unfolding call_refs.simps Let_def by (auto simp: case_prod_beta split: option.splits)
      have a: "fst (?a s) = fst (?a s')" "calls_alike t (snd (?a s)) (snd (?a s'))"
        using calls_alike_attempts [OF set(2)] by simp_all
      show ?thesis
        unfolding eq using a Cons.IH [OF a(2)] by (auto split: option.splits)
    qed
  qed
qed

text \<open>Everything the gateway does to look at its upstreams.\<close>

datatype look = Probe string int int probe_answer | Report "nat \<Rightarrow> int"

definition look_at ::
  "(string \<Rightarrow> json option) \<Rightarrow> Document \<Rightarrow> string list \<Rightarrow> (string \<Rightarrow> int) \<Rightarrow> look \<Rightarrow> observed \<Rightarrow> observed" where
  "look_at decode d refs probeSeconds l h =
     (case l of Probe ref started latency ans \<Rightarrow> probeOnce decode d ref started latency ans h
      | Report now \<Rightarrow> snd (UpstreamObservations refs probeSeconds now h))"

text \<open>No reading of the clock while looking is later than \<open>t\<close>.\<close>

definition looked_by :: "int \<Rightarrow> look \<Rightarrow> bool" where
  "looked_by t l = (case l of Probe _ _ _ _ \<Rightarrow> True | Report now \<Rightarrow> (\<forall>n. now n \<le> t))"

lemma truncated [simp]:
  "failures (upstreamHealth.truncate h) = failures h" "coolUntil (upstreamHealth.truncate h) = coolUntil h"
  by (simp_all add: upstreamHealth.defs)

lemma report_one_alike:
  assumes "now \<le> t"
  shows "routes_alike t (upstreamHealth.truncate h) (upstreamHealth.truncate (snd (report_one ps now ref h)))"
  using assms
  by (auto simp: report_one_def touch_def routes_alike_def aside_def fun_eq_iff Let_def go_maps split: option.splits prod.splits)

lemma routes_alike_trans: "routes_alike t a b \<Longrightarrow> routes_alike t b c \<Longrightarrow> routes_alike t a c"
  by (simp add: routes_alike_def)

lemma report_all_alike:
  assumes "\<forall>n. now n \<le> t"
  shows "routes_alike t (upstreamHealth.truncate h) (upstreamHealth.truncate (snd (report_all ps now n refs h)))"
proof (induction refs arbitrary: n h)
  case (Cons ref refs)
  show ?case
    using routes_alike_trans [OF report_one_alike [of "now n" t h ps ref] Cons.IH [of "snd (report_one ps (now n) ref h)" "Suc n"]] assms
    by (simp add: case_prod_beta)
qed simp

lemma look_alike:
  assumes "looked_by t l"
  shows "routes_alike t (upstreamHealth.truncate h) (upstreamHealth.truncate (look_at decode d refs ps l h))"
proof (cases l)
  case (Probe ref started latency ans)
  then show ?thesis by (simp add: look_at_def probeOnce_def recordProbe_def touch_def routes_alike_def aside_def fun_eq_iff Let_def)
next
  case (Report now)
  then show ?thesis
    using assms report_all_alike [of now t h ps 0 "sort refs"]
    by (simp add: look_at_def UpstreamObservations_def looked_by_def case_prod_beta)
qed

text \<open>
  C30. Looking at the upstreams never moves traffic. Whatever probes were made, whatever they met, and however
  often the observations were reported, a call made afterwards tries the same upstreams in the same order
  with the same attempts, waits and result as if nothing had been looked at.
\<close>

theorem observations_do_not_route:
  assumes "\<forall>n. t \<le> clk w n" "list_all (looked_by t) looks"
  shows "fst (callUpstream w p model key params cap hdrs (upstreamHealth.truncate (fold (look_at decode d refs ps) looks h))) =
      fst (callUpstream w p model key params cap hdrs (upstreamHealth.truncate h)) \<and>
    sent (snd (callUpstream w p model key params cap hdrs (upstreamHealth.truncate (fold (look_at decode d refs ps) looks h)))) =
      sent (snd (callUpstream w p model key params cap hdrs (upstreamHealth.truncate h)))"
proof -
  have "routes_alike t (upstreamHealth.truncate h) (upstreamHealth.truncate (fold (look_at decode d refs ps) looks h))"
    using assms(2)
  proof (induction looks arbitrary: h)
    case (Cons l looks)
    then show ?case using routes_alike_trans [OF look_alike [of t l h decode d refs ps]] by simp
  qed simp
  then obtain s s' where start: "s = \<lparr>health = upstreamHealth.truncate h, ticks = 0, sent = [], waitFor = [], lastErr = None, lastUp = None\<rparr>"
      "s' = \<lparr>health = upstreamHealth.truncate (fold (look_at decode d refs ps) looks h), ticks = 0, sent = [], waitFor = [], lastErr = None,
        lastUp = None\<rparr>" "calls_alike t s s'" by (simp add: calls_alike_def)
  note ordered = calls_alike_order [OF start(3) assms(1), of "model_refs model"]
  note called = calls_alike_refs [OF ordered [THEN conjunct2], of w p model key params cap hdrs "fst (order_refs w (model_refs model) s)"]
  show ?thesis
    unfolding callUpstream_def start(1,2) [symmetric] case_prod_beta
    using called calls_alike_fields [OF called [THEN conjunct2]] ordered by simp
qed

section \<open>The comparison counts what it says\<close>

definition pair_of :: "Model \<Rightarrow> string \<times> string" where
  "pair_of m = (PublicName m, UpstreamModel m)"

text \<open>The public names an upstream is to serve, with the models that stand for them.\<close>

definition served_pairs :: "Document \<Rightarrow> string \<Rightarrow> (string \<times> string) set" where
  "served_pairs d ref = pair_of ` {m \<in> set (Models d). UpstreamRef m = ToLower ref \<or> FallbackRef m = ToLower ref}"

lemma split_at_nul:
  "CHR 0x00 \<notin> set a \<Longrightarrow> CHR 0x00 \<notin> set c \<Longrightarrow> a @ CHR 0x00 # b = c @ CHR 0x00 # d \<longleftrightarrow> a = c \<and> b = d"
proof (induction a arbitrary: c)
  case Nil
  then show ?case by (cases c) auto
next
  case (Cons x a)
  then show ?case by (cases c) auto
qed

lemma first_of_each_pairs:
  assumes "\<forall>m\<in>set ms. CHR 0x00 \<notin> set (PublicName m)"
  shows "distinct (map pair_of (first_of_each seen ms)) \<and>
    pair_of ` set (first_of_each seen ms) = pair_of ` {m \<in> set ms. expected_key m \<notin> set seen}"
  using assms
proof (induction seen ms rule: first_of_each.induct)
  case (2 seen m ms)
  show ?case
  proof (cases "expected_key m \<in> set seen")
    case True
    then show ?thesis using 2 by auto
  next
    case False
    have same: "expected_key x = expected_key m \<longleftrightarrow> pair_of x = pair_of m" if "x \<in> set ms" for x
      using 2(3) that by (simp add: expected_key_def pair_of_def split_at_nul)
    have IH: "distinct (map pair_of (first_of_each (expected_key m # seen) ms))"
      "pair_of ` set (first_of_each (expected_key m # seen) ms) = pair_of ` {x \<in> set ms. expected_key x \<notin> set (expected_key m # seen)}"
      using 2(2) [OF False] 2(3) by simp_all
    have "pair_of m \<notin> pair_of ` set (first_of_each (expected_key m # seen) ms)" unfolding IH(2) using same by force
    moreover have "insert (pair_of m) (pair_of ` {x \<in> set ms. expected_key x \<notin> set (expected_key m # seen)}) =
        pair_of ` {x \<in> set (m # ms). expected_key x \<notin> set seen}"
      using same False by (auto simp: image_iff)
    ultimately show ?thesis using False IH by simp
  qed
qed simp

lemma expected_models_pairs:
  assumes "\<forall>m\<in>set (Models d). CHR 0x00 \<notin> set (PublicName m)"
  shows "distinct (map pair_of (expected_models d (ToLower ref)))" "pair_of ` set (expected_models d (ToLower ref)) = served_pairs d ref"
proof -
  let ?ms = "filter (\<lambda>m. UpstreamRef m = ToLower ref \<or> FallbackRef m = ToLower ref) (Models d)"
  have f: "distinct (map pair_of (first_of_each [] ?ms))" "pair_of ` set (first_of_each [] ?ms) = pair_of ` {m \<in> set ?ms. expected_key m \<notin> set []}"
    using first_of_each_pairs [of ?ms "[]"] assms by simp_all
  have "mset (map pair_of (expected_models d (ToLower ref))) = mset (map pair_of (first_of_each [] ?ms))"
    by (simp add: expected_models_def)
  then show "distinct (map pair_of (expected_models d (ToLower ref)))" using f(1) mset_eq_imp_distinct_iff by blast
  show "pair_of ` set (expected_models d (ToLower ref)) = served_pairs d ref"
    using f(2) by (auto simp: expected_models_def served_pairs_def)
qed

lemma count_pairs:
  assumes "distinct (map pair_of ms)"
  shows "length (filter (\<lambda>m. P (pair_of m)) ms) = card {x \<in> pair_of ` set ms. P x}"
proof -
  have "distinct (map pair_of (filter (\<lambda>m. P (pair_of m)) ms))" using assms by (simp add: distinct_map_filter)
  then have "card (set (map pair_of (filter (\<lambda>m. P (pair_of m)) ms))) = length (filter (\<lambda>m. P (pair_of m)) ms)"
    using distinct_card by fastforce
  moreover have "set (map pair_of (filter (\<lambda>m. P (pair_of m)) ms)) = {x \<in> pair_of ` set ms. P x}" by auto
  ultimately show ?thesis by simp
qed

text \<open>
  What is reported of an upstream's catalog is exact. The expected models are counted once each, the
  missing are those it does not list, the unexpected are those it lists and no model stands for (none for
  the vendor, which serves names the document does not spell out); it matches when both are none; and the
  names shown are the first twenty of the missing, in order.
\<close>

theorem catalog_compared:
  assumes "\<forall>m\<in>set (Models d). CHR 0x00 \<notin> set (PublicName m)" "distinct actual"
  shows "if served_pairs d ref = {} then compareCatalog d ref actual = catalog_status catalogNotApplicable
    else let o1 = compareCatalog d ref actual;
             absent = {x \<in> served_pairs d ref. snd x \<notin> set actual};
             extra = (if ToLower (PassthroughRef d) = ToLower ref then {} else set actual - snd ` served_pairs d ref)
      in ExpectedModelCount o1 = int (card (served_pairs d ref)) \<and> MissingModelCount o1 = int (card absent) \<and>
         UnexpectedModelCount o1 = int (card extra) \<and>
         catalogStatus o1 = (if absent = {} \<and> extra = {} then catalogMatch else catalogMismatch) \<and>
         length (MissingPublicModels o1) = min maxMissingPublicModels (card absent) \<and>
         sorted (MissingPublicModels o1) \<and> set (MissingPublicModels o1) \<subseteq> fst ` absent"
proof -
  let ?ms = "expected_models d (ToLower ref)"
  note p = expected_models_pairs [OF assms(1), of ref]
  have none: "?ms = [] \<longleftrightarrow> served_pairs d ref = {}" using p(2) by auto
  have whole: "length ?ms = card (served_pairs d ref)" using count_pairs [OF p(1), of "\<lambda>_. True"] p(2) by simp
  have gone: "length (filter (\<lambda>m. UpstreamModel m \<notin> set actual) ?ms) = card {x \<in> served_pairs d ref. snd x \<notin> set actual}"
    using count_pairs [OF p(1), of "\<lambda>x. snd x \<notin> set actual"] p(2) by (simp add: pair_of_def)
  have names: "UpstreamModel ` set ?ms = snd ` served_pairs d ref" unfolding p(2) [symmetric] by (force simp: pair_of_def)
  have extra: "length (filter (\<lambda>i. i \<notin> UpstreamModel ` set ?ms) actual) = card (set actual - snd ` served_pairs d ref)"
  proof -
    have "length (filter (\<lambda>i. i \<notin> UpstreamModel ` set ?ms) actual) = card (set (filter (\<lambda>i. i \<notin> UpstreamModel ` set ?ms) actual))"
      by (rule distinct_card [symmetric]) (simp add: assms(2))
    moreover have "set (filter (\<lambda>i. i \<notin> UpstreamModel ` set ?ms) actual) = set actual - snd ` served_pairs d ref" using names by auto
    ultimately show ?thesis by simp
  qed
  have fin: "finite (served_pairs d ref)" by (simp add: served_pairs_def)
  have absent: "(card {x \<in> served_pairs d ref. snd x \<notin> set actual} = 0) = ({x \<in> served_pairs d ref. snd x \<notin> set actual} = {})"
    using fin by (subst card_eq_0_iff) auto
  have rest: "(card (set actual - snd ` served_pairs d ref) = 0) = (set actual - snd ` served_pairs d ref = {})"
    by (subst card_eq_0_iff) auto
  have order: "sorted (map PublicName (filter (\<lambda>m. UpstreamModel m \<notin> set actual) ?ms))"
    unfolding expected_models_def by (intro sorted_filter) simp
  have shown: "sorted (map PublicName (take n (filter (\<lambda>m. UpstreamModel m \<notin> set actual) ?ms)))" for n
    unfolding take_map [symmetric] using order by (rule sorted_wrt_take)
  have subset: "PublicName ` set (take n (filter (\<lambda>m. UpstreamModel m \<notin> set actual) ?ms)) \<subseteq>
      fst ` {x \<in> served_pairs d ref. snd x \<notin> set actual}" for n
    unfolding p(2) [symmetric] by (force simp: pair_of_def dest: in_set_takeD)
  define missing_models where "missing_models = filter (\<lambda>m. UpstreamModel m \<notin> set actual) ?ms"
  have o1: "compareCatalog d ref actual =
      (if served_pairs d ref = {} then catalog_status catalogNotApplicable
       else let unexpected = (if ToLower (PassthroughRef d) = ToLower ref then 0 else int (card (set actual - snd ` served_pairs d ref)))
         in \<lparr>catalogStatus = (if int (card {x \<in> served_pairs d ref. snd x \<notin> set actual}) > 0 \<or> unexpected > 0
               then catalogMismatch else catalogMatch),
             ExpectedModelCount = int (card (served_pairs d ref)),
             MissingModelCount = int (card {x \<in> served_pairs d ref. snd x \<notin> set actual}), UnexpectedModelCount = unexpected,
             MissingPublicModels = map PublicName (take maxMissingPublicModels missing_models)\<rparr>)"
    unfolding compareCatalog_def Let_def none gone [symmetric] whole [symmetric] extra [symmetric] missing_models_def by (rule refl)
  have n: "length missing_models = card {x \<in> served_pairs d ref. snd x \<notin> set actual}" unfolding missing_models_def by (rule gone)
  define A where "A = {x \<in> served_pairs d ref. snd x \<notin> set actual}"
  define E where "E = set actual - snd ` served_pairs d ref"
  have z: "int (card A) > 0 \<longleftrightarrow> A \<noteq> {}" "int (card E) > 0 \<longleftrightarrow> E \<noteq> {}"
    using absent rest unfolding A_def [symmetric] E_def [symmetric] by (simp_all add: zero_less_iff_neq_zero)
  show ?thesis
    unfolding o1 A_def [symmetric] E_def [symmetric] Let_def
    using z n [folded A_def] shown [folded missing_models_def] subset [folded missing_models_def A_def]
    by (simp add: min.commute)
qed

section \<open>Two models and a late cooldown\<close>

definition catalog_doc :: Document where
  "catalog_doc = sample_doc\<lparr>Models := [two_upstreams, two_upstreams\<lparr>PublicName := ''n'', UpstreamModel := ''gone''\<rparr>]\<rparr>"

theorem catalog_compared_witness:
  "catalogStatus (compareCatalog catalog_doc ''a'' [''m'', ''other'']) = catalogMismatch \<and>
   ExpectedModelCount (compareCatalog catalog_doc ''a'' [''m'', ''other'']) = 2"
proof -
  have names: "\<forall>m\<in>set (Models catalog_doc). CHR 0x00 \<notin> set (PublicName m)"
    by (simp add: catalog_doc_def sample_doc_def two_upstreams_def model_named_def)
  have refs: "ToLower ''a'' = ''a''" "ToLower ''openrouter'' = ''openrouter''" by code_simp+
  have "{m \<in> set (Models catalog_doc). UpstreamRef m = ''a'' \<or> FallbackRef m = ''a''} = set (Models catalog_doc)"
    by (auto simp: catalog_doc_def two_upstreams_def)
  then have pairs: "served_pairs catalog_doc ''a'' = {(''m'', ''m''), (''n'', ''gone'')}"
    unfolding served_pairs_def refs by (simp add: catalog_doc_def pair_of_def two_upstreams_def model_named_def)
  have gone: "{x \<in> served_pairs catalog_doc ''a''. snd x \<notin> set [''m'', ''other'']} = {(''n'', ''gone'')}" by (auto simp: pairs)
  have "served_pairs catalog_doc ''a'' \<noteq> {}" "card (served_pairs catalog_doc ''a'') = 2" by (simp_all add: pairs)
  then show ?thesis
    using catalog_compared [OF names, of "[''m'', ''other'']" "''a''"] unfolding gone Let_def by simp
qed

theorem observations_do_not_route_witness:
  "sent (snd (callUpstream (answering (\<lambda>n. 20)) protoChat two_upstreams sample_key sample_params 5 (\<lambda>h. [])
       (upstreamHealth.truncate (fold (look_at (\<lambda>s. None) sample_doc [''a'', ''b''] (\<lambda>r. 60))
          [Probe ''a'' 3 4 (ProbeLost True), Report (\<lambda>n. 15)] (upstreamHealth.extend both_cooling (observed.fields [])))))) =
   sent (snd (callUpstream (answering (\<lambda>n. 20)) protoChat two_upstreams sample_key sample_params 5 (\<lambda>h. []) both_cooling))"
proof -
  have c: "\<forall>n. 20 \<le> clk (answering (\<lambda>n. 20)) n" by (simp add: answering_def Let_def)
  have l: "list_all (looked_by 20) [Probe ''a'' 3 4 (ProbeLost True), Report (\<lambda>n. 15)]" by (simp add: looked_by_def)
  have "upstreamHealth.truncate (upstreamHealth.extend both_cooling (observed.fields [])) = both_cooling"
    by (simp add: upstreamHealth.defs observed.defs both_cooling_def)
  then show ?thesis using observations_do_not_route [OF c l, THEN conjunct2] by metis
qed

end
