(* ===== verification/Rejection.thy ===== *)
theory Rejection
  imports Api_Errors Go_Json "HOL-Library.Sublist"
begin

text \<open>
  What a caller is told of an upstream's own refusal (\<open>internal/server/rejection.go\<close>): the message found
  in the error body, and its cleaning, nine patterns of \<open>regexp\<close> included. A message is the list of
  its code points. Parsing JSON text and \<open>fmt.Sprint\<close> are parameters; letter case is folded for ASCII and
  for the two other letters that fold to it.
\<close>

section \<open>Code points\<close>

type_synonym runes = "nat list"

definition codes :: "string \<Rightarrow> runes" where
  "codes s = map of_char s"

definition continuation :: "nat \<Rightarrow> bool" where
  "continuation b \<longleftrightarrow> 128 \<le> b \<and> b < 192"

text \<open>The code point the bytes begin with and its width; none for a byte that begins no valid sequence.\<close>

definition rune_at :: "nat list \<Rightarrow> (nat \<times> nat) option" where
  "rune_at s =
     (case s of
        a # b # c # d # _ \<Rightarrow>
          if a < 128 then Some (a, 1)
          else if 194 \<le> a \<and> a \<le> 223 \<and> continuation b then Some ((a - 192) * 64 + (b - 128), 2)
          else if 224 \<le> a \<and> a \<le> 239 \<and> continuation b \<and> continuation c \<and> (a = 224 \<longrightarrow> 160 \<le> b) \<and> (a = 237 \<longrightarrow> b < 160)
          then Some (((a - 224) * 64 + (b - 128)) * 64 + (c - 128), 3)
          else if 240 \<le> a \<and> a \<le> 244 \<and> continuation b \<and> continuation c \<and> continuation d \<and>
                  (a = 240 \<longrightarrow> 144 \<le> b) \<and> (a = 244 \<longrightarrow> b < 144)
          then Some ((((a - 240) * 64 + (b - 128)) * 64 + (c - 128)) * 64 + (d - 128), 4)
          else None
      | _ \<Rightarrow> None)"

text \<open>Decoding drops what is not UTF-8; three null bytes stand behind the end so that no sequence runs over it.\<close>

function utf8_runes :: "nat list \<Rightarrow> runes" where
  "utf8_runes s =
     (if s = [] then []
      else case rune_at (s @ [0, 0, 0]) of
             Some (r, w) \<Rightarrow> r # utf8_runes (drop (max 1 w) s)
           | None \<Rightarrow> utf8_runes (tl s))"
  by auto
termination by (relation "measure length") auto

declare utf8_runes.simps [simp del]

definition decode_utf8 :: "string \<Rightarrow> runes" where
  "decode_utf8 s = utf8_runes (codes s)"

definition encode_rune :: "nat \<Rightarrow> nat list" where
  "encode_rune r =
     (if r < 128 then [r]
      else if r < 2048 then [192 + r div 64, 128 + r mod 64]
      else if r < 65536 then [224 + r div 4096, 128 + r div 64 mod 64, 128 + r mod 64]
      else [240 + r div 262144, 128 + r div 4096 mod 64, 128 + r div 64 mod 64, 128 + r mod 64])"

definition encode_utf8 :: "runes \<Rightarrow> string" where
  "encode_utf8 t = map char_of (concat (map encode_rune t))"

text \<open>\<open>unicode.IsControl\<close>, \<open>unicode.IsSpace\<close> and the class of format characters.\<close>

definition is_control :: "nat \<Rightarrow> bool" where
  "is_control r \<longleftrightarrow> r < 32 \<or> 127 \<le> r \<and> r < 160"

definition is_blank :: "nat \<Rightarrow> bool" where
  "is_blank r \<longleftrightarrow> 9 \<le> r \<and> r \<le> 13 \<or> r = 32 \<or> r = 0x85 \<or> r = 0xA0 \<or> r = 0x1680 \<or> 0x2000 \<le> r \<and> r \<le> 0x200A \<or>
     r = 0x2028 \<or> r = 0x2029 \<or> r = 0x202F \<or> r = 0x205F \<or> r = 0x3000"

definition is_format :: "nat \<Rightarrow> bool" where
  "is_format r \<longleftrightarrow> r = 0xAD \<or> 0x600 \<le> r \<and> r \<le> 0x605 \<or> r = 0x61C \<or> r = 0x6DD \<or> r = 0x70F \<or> r = 0x890 \<or> r = 0x891 \<or>
     r = 0x8E2 \<or> r = 0x180E \<or> 0x200B \<le> r \<and> r \<le> 0x200F \<or> 0x202A \<le> r \<and> r \<le> 0x202E \<or>
     0x2060 \<le> r \<and> r \<le> 0x2064 \<or> 0x2066 \<le> r \<and> r \<le> 0x206F \<or> r = 0xFEFF \<or> 0xFFF9 \<le> r \<and> r \<le> 0xFFFB \<or>
     r = 0x110BD \<or> r = 0x110CD \<or> 0x13430 \<le> r \<and> r \<le> 0x1343F \<or> 0x1BCA0 \<le> r \<and> r \<le> 0x1BCA3 \<or>
     0x1D173 \<le> r \<and> r \<le> 0x1D17A \<or> r = 0xE0001 \<or> 0xE0020 \<le> r \<and> r \<le> 0xE007F"

definition fold_rune :: "nat \<Rightarrow> nat" where
  "fold_rune r = (if 65 \<le> r \<and> r \<le> 90 then r + 32 else if r = 0x17F then 115 else if r = 0x212A then 107 else r)"

definition folded :: "runes \<Rightarrow> runes" where
  "folded = map fold_rune"

section \<open>Patterns\<close>

text \<open>
  A pattern, and the ways it can match ahead of a position in the order \<open>regexp\<close> prefers them: the earlier
  alternative first, a repetition as long as it can. A position is the code point before it and the runes
  behind it. No pattern below repeats one that can match nothing.
\<close>

datatype pattern =
    Chars "nat \<Rightarrow> bool"
  | Nothing
  | Then pattern pattern
  | Either pattern pattern
  | Many pattern
  | WordEdge
  | TextStart
  | TextEnd

definition word_rune :: "nat \<Rightarrow> bool" where
  "word_rune r \<longleftrightarrow> 48 \<le> r \<and> r \<le> 57 \<or> 65 \<le> r \<and> r \<le> 90 \<or> 97 \<le> r \<and> r \<le> 122 \<or> r = 95"

definition at_word_edge :: "nat option \<times> runes \<Rightarrow> bool" where
  "at_word_edge pos \<longleftrightarrow>
     (case fst pos of None \<Rightarrow> False | Some r \<Rightarrow> word_rune r) \<noteq> (case snd pos of [] \<Rightarrow> False | r # _ \<Rightarrow> word_rune r)"

function (sequential) ways :: "pattern \<Rightarrow> nat option \<times> runes \<Rightarrow> (nat option \<times> runes) list" where
  "ways (Chars p) pos = (case snd pos of [] \<Rightarrow> [] | r # rest \<Rightarrow> if p r then [(Some r, rest)] else [])"
| "ways Nothing pos = [pos]"
| "ways (Then a b) pos = concat (map (ways b) (ways a pos))"
| "ways (Either a b) pos = ways a pos @ ways b pos"
| "ways (Many a) pos =
     concat (map (\<lambda>pos'. if length (snd pos') < length (snd pos) then ways (Many a) pos' else []) (ways a pos)) @ [pos]"
| "ways WordEdge pos = (if at_word_edge pos then [pos] else [])"
| "ways TextStart pos = (if fst pos = None then [pos] else [])"
| "ways TextEnd pos = (if snd pos = [] then [pos] else [])"
  by pat_completeness auto
termination by (relation "measures [\<lambda>(p, pos). size p, \<lambda>(p, pos). length (snd pos)]") auto

text \<open>How much of the text the preferred match takes; a match is replaced and the search goes on behind it.\<close>

definition match_length :: "pattern \<Rightarrow> nat option \<Rightarrow> runes \<Rightarrow> nat" where
  "match_length p before s = (case ways p (before, s) of [] \<Rightarrow> 0 | (_, rest) # _ \<Rightarrow> length s - length rest)"

function replace_all :: "pattern \<Rightarrow> (runes \<Rightarrow> runes) \<Rightarrow> nat option \<Rightarrow> runes \<Rightarrow> runes" where
  "replace_all p f before s =
     (if s = [] then []
      else let n = match_length p before s in
        if n = 0 then hd s # replace_all p f (Some (hd s)) (tl s)
        else f (take n s) @ replace_all p f (Some (last (take n s))) (drop n s))"
  by auto
termination by (relation "measure (\<lambda>(p, f, before, s). length s)") auto

declare replace_all.simps [simp del]

fun literally :: "runes \<Rightarrow> pattern" where
  "literally [] = Nothing"
| "literally (r # rs) = Then (Chars (\<lambda>x. x = r)) (literally rs)"

fun any_case :: "runes \<Rightarrow> pattern" where
  "any_case [] = Nothing"
| "any_case (r # rs) = Then (Chars (\<lambda>x. fold_rune x = fold_rune r)) (any_case rs)"

primrec repeated :: "nat \<Rightarrow> pattern \<Rightarrow> pattern" where
  "repeated 0 p = Nothing"
| "repeated (Suc n) p = Then p (repeated n p)"

primrec up_to :: "nat \<Rightarrow> pattern \<Rightarrow> pattern" where
  "up_to 0 p = Nothing"
| "up_to (Suc n) p = Either (Then p (up_to n p)) Nothing"

definition between :: "nat \<Rightarrow> nat \<Rightarrow> pattern \<Rightarrow> pattern" where
  "between a b p = Then (repeated a p) (up_to (b - a) p)"

definition at_least :: "nat \<Rightarrow> pattern \<Rightarrow> pattern" where
  "at_least n p = Then (repeated n p) (Many p)"

abbreviation "maybe p \<equiv> Either p Nothing"

definition digit :: "nat \<Rightarrow> bool" where "digit r \<longleftrightarrow> 48 \<le> r \<and> r \<le> 57"
definition small :: "nat \<Rightarrow> bool" where "small r \<longleftrightarrow> 97 \<le> r \<and> r \<le> 122"
definition capital :: "nat \<Rightarrow> bool" where "capital r \<longleftrightarrow> 65 \<le> r \<and> r \<le> 90"
definition letter :: "nat \<Rightarrow> bool" where "letter r \<longleftrightarrow> small (fold_rune r)"
definition gap :: "nat \<Rightarrow> bool" where "gap r \<longleftrightarrow> r \<in> {9, 10, 12, 13, 32}"

abbreviation among :: "string \<Rightarrow> nat \<Rightarrow> bool" where
  "among s r \<equiv> r \<in> set (codes s)"

abbreviation "Digits \<equiv> at_least 1 (Chars digit)"

definition rejectionURL :: pattern where
  "rejectionURL = Then WordEdge (Then (Chars letter) (Then (Many (Chars (\<lambda>r. letter r \<or> digit r \<or> among ''+.-'' r)))
     (Then (literally (codes ''://'')) (at_least 1 (Chars (\<lambda>r. \<not> gap r))))))"

definition rejectionIPv4 :: pattern where
  "rejectionIPv4 = (let octet = between 1 3 (Chars digit); dot = Chars (among ''.'') in
     Then WordEdge (Then octet (Then dot (Then octet (Then dot (Then octet (Then dot (Then octet
       (Then (maybe (Then (Chars (among '':'')) Digits)) WordEdge)))))))))"

definition hex_rune :: "nat \<Rightarrow> bool" where
  "hex_rune r \<longleftrightarrow> digit r \<or> 97 \<le> fold_rune r \<and> fold_rune r \<le> 102"

definition rejectionIPv6 :: pattern where
  "rejectionIPv6 = (let group = between 0 4 (Chars hex_rune) in
     Then (maybe (Chars (among ''['')))
       (Then group (Then (between 2 7 (Then (Chars (among '':'')) group))
         (Then (maybe (Chars (among '']''))) (maybe (Then (Chars (among '':'')) Digits))))))"

definition rejectionHostPort :: pattern where
  "rejectionHostPort = (let label = at_least 1 (Chars (\<lambda>r. letter r \<or> digit r \<or> among ''-'' r)) in
     Then WordEdge (Then label (Then (Many (Then (Chars (among ''.'')) label))
       (Then (Chars (among '':'')) (Then (between 2 5 (Chars digit)) WordEdge)))))"

definition path_opening :: "nat \<Rightarrow> bool" where
  "path_opening r \<longleftrightarrow> gap r \<or> r = 39 \<or> r = 34 \<or> among ''(=,['' r"

definition rejectionPath :: pattern where
  "rejectionPath = Then (Either TextStart (Chars path_opening))
     (Then (Chars (among ''/'')) (at_least 1 (Chars (\<lambda>r. \<not> (gap r \<or> r = 39 \<or> r = 34 \<or> among ''),]'' r)))))"

definition rejectionEmail :: pattern where
  "rejectionEmail = (let host = at_least 1 (Chars (\<lambda>r. small r \<or> capital r \<or> digit r \<or> among ''-'' r)) in
     Then (at_least 1 (Chars (\<lambda>r. small r \<or> capital r \<or> digit r \<or> among ''._%+-'' r)))
       (Then (Chars (among ''@'')) (Then host (at_least 1 (Then (Chars (among ''.'')) host)))))"

definition rejectionBearer :: pattern where
  "rejectionBearer = Then WordEdge (Then (any_case (codes ''bearer'')) (Then (at_least 1 (Chars gap)) (at_least 1 (Chars (\<lambda>r. \<not> gap r)))))"

definition rejectionKey :: pattern where
  "rejectionKey = Then WordEdge (Then (Either (any_case (codes ''sk'')) (Either (any_case (codes ''pk'')) (any_case (codes ''rk''))))
     (Then (Chars (among ''-'')) (at_least 6 (Chars (\<lambda>r. letter r \<or> digit r \<or> among ''_-'' r)))))"

definition rejectionToken :: pattern where
  "rejectionToken = at_least 32 (Chars (\<lambda>r. small r \<or> capital r \<or> digit r \<or> among ''_+/=-'' r))"

definition rejectionModelName :: pattern where
  "rejectionModelName = Then TextStart (Then (Chars (\<lambda>r. small r \<or> digit r))
     (Then (between 0 19 (Chars (\<lambda>r. small r \<or> digit r \<or> among ''._-'' r))) (Then (Chars (among ''/''))
       (Then (Many (Chars (\<lambda>r. small r \<or> capital r \<or> digit r \<or> among ''._'' r))) (Then (Chars (among ''-''))
         (Then (Many (Chars (\<lambda>r. small r \<or> capital r \<or> digit r \<or> among ''._-'' r))) TextEnd))))))"

definition rejectionLayoutAuthors :: "string list" where
  "rejectionLayoutAuthors = [''models'', ''model'', ''weights'', ''checkpoints'', ''snapshots'', ''hf'', ''huggingface'', ''cache'']"

section \<open>The message of an error body\<close>

definition rejectionReadLimit :: nat where "rejectionReadLimit = 32768"
definition rejectionMessageMax :: nat where "rejectionMessageMax = 400"

record rejection_body =
  rbError :: "json option"
  rbMessage :: string

definition message_field :: "string field list" where
  "message_field = [(''message'', string_field (\<lambda>s _. s))]"

definition rejection_body_of :: "json \<Rightarrow> rejection_body option" where
  "rejection_body_of j = dec_struct False
     [(''error'', \<lambda>v r. Some (r\<lparr>rbError := Some v\<rparr>)), (''message'', string_field (\<lambda>s. rbMessage_update (\<lambda>_. s)))]
     j \<lparr>rbError = None, rbMessage = []\<rparr>"

text \<open>One issue of a validation report: its message and its path.\<close>

definition issue_of :: "json \<Rightarrow> (string \<times> json list) option" where
  "issue_of j = dec_struct False
     [(''message'', string_field (\<lambda>s i. (s, snd i))), (''path'', \<lambda>v i. map_option (Pair (fst i)) (dec_list v))] j ([], [])"

definition firstValidationIssue :: "(string \<Rightarrow> json option) \<Rightarrow> (json \<Rightarrow> string) \<Rightarrow> string \<Rightarrow> string" where
  "firstValidationIssue parse sprint msg =
     (let trimmed = TrimSpace msg in
      if \<not> HasPrefix trimmed ''['' then msg
      else case Option.bind (Option.bind (parse trimmed) dec_list) (\<lambda>xs. all_some (map issue_of xs)) of
        Some ((m, parts) # _) \<Rightarrow>
          if m = [] then msg
          else if parts = [] then m
          else concat (map (\<lambda>p. sprint p @ ''.'') (butlast parts)) @ sprint (last parts) @ '': '' @ m
      | _ \<Rightarrow> msg)"

definition rejectionMessage :: "(string \<Rightarrow> json option) \<Rightarrow> (json \<Rightarrow> string) \<Rightarrow> string \<Rightarrow> string" where
  "rejectionMessage parse sprint detail =
     (case Option.bind (parse detail) rejection_body_of of
        None \<Rightarrow> []
      | Some body \<Rightarrow>
          let msg = (case rbError body of
                 None \<Rightarrow> rbMessage body
               | Some e \<Rightarrow> (case dec_struct False message_field e [] of None \<Rightarrow> rbMessage body | Some nested \<Rightarrow> nested))
          in firstValidationIssue parse sprint msg)"

section \<open>Cleaning\<close>

text \<open>\<open>path.Base\<close>.\<close>

definition path_base :: "string \<Rightarrow> string" where
  "path_base s =
     (if s = [] then ''.''
      else let t = TrimRight s ''/'' in
        if t = [] then ''/'' else rev (takeWhile (\<lambda>c. c \<noteq> CHR ''/'') (rev t)))"

definition same_letters :: "string \<Rightarrow> string \<Rightarrow> bool" where
  "same_letters a b \<longleftrightarrow> folded (decode_utf8 a) = folded (decode_utf8 b)"

definition hideModelName :: "runes \<Rightarrow> string \<Rightarrow> string \<Rightarrow> runes" where
  "hideModelName msg upstreamModel publicModel =
     (if upstreamModel = [] \<or> same_letters upstreamModel publicModel then msg
      else let swap = (\<lambda>name. replace_all (any_case (decode_utf8 name)) (\<lambda>_. decode_utf8 publicModel) None);
               msg = swap upstreamModel msg;
               base = path_base upstreamModel
           in if base \<noteq> upstreamModel \<and> 8 \<le> length base \<and> \<not> same_letters base publicModel then swap base msg else msg)"

definition plain_runes :: "runes \<Rightarrow> runes" where
  "plain_runes msg = map (\<lambda>r. if is_control r \<or> is_blank r then 32 else r)
     (filter (\<lambda>r. is_control r \<or> is_blank r \<or> \<not> is_format r) msg)"

definition digit_runs :: "runes \<Rightarrow> runes list" where
  "digit_runs s = filter (\<lambda>g. g \<noteq> []) (foldr (\<lambda>r gs. if digit r then (r # hd gs) # tl gs else [] # gs) s [[]])"

definition decimal :: "runes \<Rightarrow> nat" where
  "decimal ds = foldl (\<lambda>n d. 10 * n + (d - 48)) 0 ds"

definition hide_ipv4 :: "runes \<Rightarrow> runes" where
  "hide_ipv4 m = (if list_ex (\<lambda>octet. decimal octet > 255) (take 4 (digit_runs m)) then m else codes ''[address]'')"

text \<open>The groups between the separators that are not empty.\<close>

fun nonEmptyGroups :: "runes \<Rightarrow> nat" where
  "nonEmptyGroups [] = 0"
| "nonEmptyGroups [r] = (if among '':[]'' r then 0 else 1)"
| "nonEmptyGroups (r # x # m) = nonEmptyGroups (x # m) + (if \<not> among '':[]'' r \<and> among '':[]'' x then 1 else 0)"

definition hide_ipv6 :: "runes \<Rightarrow> runes" where
  "hide_ipv6 m =
     (if (3 \<le> length (filter (among '':'') m) \<or> sublist (codes ''::'') m) \<and> 2 \<le> nonEmptyGroups m
      then codes ''[address]'' else m)"

definition host_part :: "runes \<Rightarrow> runes" where
  "host_part m = rev (tl (dropWhile (\<lambda>r. \<not> among '':'' r) (rev m)))"

definition hide_host :: "runes \<Rightarrow> runes" where
  "hide_host m =
     (let host = host_part m in
      if \<not> list_ex letter host then m
      else if \<not> list_ex (\<lambda>r. digit r \<or> among ''.-'' r) host \<and> folded host \<noteq> codes ''localhost'' then m
      else codes ''[address]'')"

definition looksLikeModelName :: "runes \<Rightarrow> bool" where
  "looksLikeModelName run \<longleftrightarrow>
     ways rejectionModelName (None, run) \<noteq> [] \<and>
     takeWhile (\<lambda>r. \<not> among ''/'' r) run \<notin> set (map codes rejectionLayoutAuthors)"

definition hide_token :: "runes \<Rightarrow> runes" where
  "hide_token m = (if looksLikeModelName m then m else codes ''[redacted]'')"

text \<open>The opening that a path's match begins with is kept: one code point, or none at the start.\<close>

definition hide_path :: "runes \<Rightarrow> runes" where
  "hide_path m = (if among ''/'' (hd m) then [] else [hd m]) @ codes ''[path]''"

fun fields_of :: "runes \<Rightarrow> runes \<Rightarrow> runes list" where
  "fields_of word [] = (if word = [] then [] else [word])"
| "fields_of word (r # s) =
     (if is_blank r then (if word = [] then fields_of [] s else word # fields_of [] s) else fields_of (word @ [r]) s)"

fun spaced :: "runes list \<Rightarrow> runes" where
  "spaced [] = []"
| "spaced [w] = w"
| "spaced (w # v # ws) = w @ 32 # spaced (v # ws)"

definition redactions :: "(pattern \<times> (runes \<Rightarrow> runes)) list" where
  "redactions =
     [(rejectionURL, \<lambda>_. codes ''[URL]''), (rejectionEmail, \<lambda>_. codes ''[address]''), (rejectionBearer, \<lambda>_. codes ''[redacted]''),
      (rejectionKey, \<lambda>_. codes ''[redacted]''), (rejectionPath, hide_path), (rejectionIPv4, hide_ipv4),
      (rejectionIPv6, hide_ipv6), (rejectionHostPort, hide_host), (rejectionToken, hide_token)]"

definition cleanRejection :: "string \<Rightarrow> string \<Rightarrow> string \<Rightarrow> runes" where
  "cleanRejection raw upstreamModel publicModel =
     (let msg = hideModelName (decode_utf8 raw) upstreamModel publicModel;
          msg = plain_runes msg;
          msg = fold (\<lambda>(p, f). replace_all p f None) redactions msg;
          msg = spaced (fields_of [] msg)
      in if length msg > rejectionMessageMax then take rejectionMessageMax msg @ [0x2026] else msg)"

text \<open>The refusal: the fixed sentence stays in front of the reason, if there is one.\<close>

definition upstreamRejection ::
  "(string \<Rightarrow> json option) \<Rightarrow> (json \<Rightarrow> string) \<Rightarrow> string \<Rightarrow> string \<Rightarrow> nat \<Rightarrow> string \<Rightarrow> apiError" where
  "upstreamRejection parse sprint upstreamModel publicModel status detail =
     (let e = errUpstreamRejected\<lparr>errStatus := status\<rparr>;
          msg = cleanRejection (rejectionMessage parse sprint detail) upstreamModel publicModel
      in if msg = [] then e else e\<lparr>errMessage := errMessage e @ [''model server message'', encode_utf8 msg]\<rparr>)"

text \<open>What an attempt makes of a body, of which only the beginning is read.\<close>

definition reject_body ::
  "(string \<Rightarrow> json option) \<Rightarrow> (json \<Rightarrow> string) \<Rightarrow> string \<Rightarrow> string \<Rightarrow> nat \<Rightarrow> string \<Rightarrow> apiError" where
  "reject_body parse sprint upstreamModel publicModel status body =
     upstreamRejection parse sprint upstreamModel publicModel status (take rejectionReadLimit body)"


section \<open>What replacing can leave\<close>

text \<open>
  No end of \<open>u\<close> can begin in the text before \<open>v\<close> and reach into it, and none of it can begin inside \<open>v\<close>:
  wherever \<open>v\<close> is put, \<open>u\<close> does not touch it.
\<close>

definition apart :: "runes \<Rightarrow> runes \<Rightarrow> bool" where
  "apart u v \<longleftrightarrow>
     list_all (\<lambda>e. e \<noteq> [] \<longrightarrow> \<not> prefix e v \<and> \<not> prefix v e) (suffixes u) \<and>
     list_all (\<lambda>e. e \<noteq> [] \<longrightarrow> \<not> prefix u e \<and> \<not> prefix e u) (suffixes v)"

lemma apart_first: "apart u v \<Longrightarrow> suffix e u \<Longrightarrow> e \<noteq> [] \<Longrightarrow> \<not> prefix e v \<and> \<not> prefix v e"
  by (simp add: apart_def list_all_iff)

lemma apart_second: "apart u v \<Longrightarrow> suffix e v \<Longrightarrow> e \<noteq> [] \<Longrightarrow> \<not> prefix u e \<and> \<not> prefix e u"
  by (simp add: apart_def list_all_iff)

text \<open>A text made of another by putting pieces in the place of some of it.\<close>

inductive derived :: "runes set \<Rightarrow> runes \<Rightarrow> runes \<Rightarrow> bool" for ps where
  empty: "derived ps [] []"
| kept: "derived ps out s \<Longrightarrow> derived ps (c # out) (c # s)"
| replaced: "v \<in> ps \<Longrightarrow> derived ps out s \<Longrightarrow> derived ps (v @ out) (m @ s)"

lemma derived_kept: "derived ps out s \<Longrightarrow> derived ps (m @ out) (m @ s)"
  by (induction m) (auto intro: derived.kept)

lemma derived_map: "derived ps out s \<Longrightarrow> derived (map g ` ps) (map g out) (map g s)"
  by (induction rule: derived.induct) (auto intro: derived.intros)

lemma derived_prefix:
  assumes "derived ps out s" "\<And>v. v \<in> ps \<Longrightarrow> apart u v" "suffix e u" "prefix e out"
  shows "prefix e s"
  using assms
proof (induction arbitrary: e rule: derived.induct)
  case (kept out s c)
  show ?case
  proof (cases e)
    case (Cons x e')
    then have "suffix e' u" using kept.prems(2) by (metis suffix_ConsD)
    then show ?thesis using kept Cons by auto
  qed simp
next
  case (replaced v out s m)
  show ?case
  proof (cases "e = []")
    case False
    have "prefix e v \<or> prefix v e" using replaced.prems(3) by (metis prefix_same_cases prefixI)
    then show ?thesis using apart_first [OF replaced.prems(1) [OF replaced.hyps(1)] replaced.prems(2) False] by blast
  qed simp
qed simp

lemma derived_sublist:
  assumes "derived ps out s" "\<And>v. v \<in> ps \<Longrightarrow> apart u v" "u \<noteq> []" "sublist u out"
  shows "sublist u s"
  using assms
proof (induction rule: derived.induct)
  case (kept out s c)
  then consider (head) "prefix u (c # out)" | (tail) "sublist u out" by (auto simp: sublist_Cons_right)
  then show ?case
  proof cases
    case head
    have "prefix u (c # s)"
      using derived_prefix [OF derived.kept [OF kept.hyps] kept.prems(1) suffix_order.refl head] .
    then show ?thesis by (rule prefix_imp_sublist)
  next
    case tail
    then show ?thesis using kept by (simp add: sublist_Cons_right)
  qed
next
  case (replaced v out s m)
  have a: "apart u v" using replaced by blast
  have "sublist u out"
  proof (rule ccontr)
    assume no: "\<not> sublist u out"
    then consider (inside) "sublist u v" | (across) x y where "u = x @ y" "suffix x v" "prefix y out"
      using replaced.prems(3) by (auto simp: sublist_append)
    then show False
    proof cases
      case inside
      then obtain x y where "v = x @ u @ y" by (auto simp: sublist_def)
      then have "suffix (u @ y) v" "u @ y \<noteq> []" "prefix u (u @ y)" using replaced.prems(2) by (auto simp: suffix_def)
      then show False using apart_second [OF a] by blast
    next
      case across
      show False
      proof (cases "x = []")
        case True
        then show False using across no by (simp add: prefix_imp_sublist)
      next
        case False
        then show False using apart_second [OF a across(2) False] across(1) by (auto simp: prefix_def)
      qed
    qed
  qed
  then have "sublist u s" using replaced by blast
  then show ?case by (simp add: sublist_append)
qed simp

lemma derived_set: "derived ps out s \<Longrightarrow> set out \<subseteq> set s \<union> \<Union> (set ` ps)"
  by (induction rule: derived.induct) auto

text \<open>Replacing matches derives, when each is put back, or swapped whole or behind its first code point.\<close>

definition swaps :: "runes set \<Rightarrow> (runes \<Rightarrow> runes) \<Rightarrow> bool" where
  "swaps ps f \<longleftrightarrow> (\<forall>m. m \<noteq> [] \<longrightarrow> f m = m \<or> f m \<in> ps \<or> (\<exists>v\<in>ps. f m = hd m # v))"

lemma replace_all_derived: "swaps ps f \<Longrightarrow> derived ps (replace_all p f before s) s"
proof (induction p f before s rule: replace_all.induct)
  case (1 p f before s)
  show ?case
  proof (cases "s = []")
    case True
    then show ?thesis by (simp add: replace_all.simps derived.empty)
  next
    case False
    define n where "n = match_length p before s"
    show ?thesis
    proof (cases "n = 0")
      case True
      have "derived ps (replace_all p f (Some (hd s)) (tl s)) (tl s)" using 1 False True n_def by blast
      then have "derived ps (hd s # replace_all p f (Some (hd s)) (tl s)) (hd s # tl s)" by (rule derived.kept)
      then show ?thesis using False True by (subst replace_all.simps) (simp add: n_def Let_def)
    next
      case pos: False
      let ?m = "take n s" and ?out = "replace_all p f (Some (last (take n s))) (drop n s)"
      have rest: "derived ps ?out (drop n s)" using 1 False pos n_def by blast
      have m: "?m \<noteq> []" using pos False by simp
      have "derived ps (f ?m @ ?out) (?m @ drop n s)"
      proof -
        from 1(3) m consider "f ?m = ?m" | "f ?m \<in> ps" | v where "v \<in> ps" "f ?m = hd ?m # v"
          unfolding swaps_def by blast
        then show ?thesis
        proof cases
          case 3
          have "derived ps (v @ ?out) (tl ?m @ drop n s)" by (rule derived.replaced [OF 3(1) rest])
          then have "derived ps (hd ?m # v @ ?out) (hd ?m # tl ?m @ drop n s)" by (rule derived.kept)
          then show ?thesis using 3(2) m by (metis append_Cons list.collapse)
        qed (use derived_kept [OF rest] derived.replaced [OF _ rest] in \<open>simp_all del: append_take_drop_id\<close>)
      qed
      then show ?thesis using False pos by (subst replace_all.simps) (simp add: n_def [symmetric] Let_def)
    qed
  qed
qed


section \<open>A name that is swapped is gone\<close>

lemma ways_any_case:
  "map snd (ways (any_case u) pos) = (if prefix (folded u) (folded (snd pos)) then [drop (length u) (snd pos)] else [])"
proof (induction u arbitrary: pos)
  case (Cons r u)
  show ?case
  proof (cases "snd pos")
    case Nil
    then show ?thesis by (simp add: folded_def)
  next
    case (Cons x rest)
    then show ?thesis using Cons.IH [of "(Some x, rest)"] by (auto simp: folded_def)
  qed
qed (simp add: folded_def)

lemma match_any_case:
  assumes "u \<noteq> []"
  shows "match_length (any_case u) before s = (if prefix (folded u) (folded s) then length u else 0)"
proof -
  have w: "map snd (ways (any_case u) (before, s)) = (if prefix (folded u) (folded s) then [drop (length u) s] else [])"
    using ways_any_case [of u "(before, s)"] by simp
  have "length u \<le> length s" if "prefix (folded u) (folded s)"
    using prefix_length_le [OF that] by (simp add: folded_def)
  then show ?thesis using w by (cases "ways (any_case u) (before, s)") (auto simp: match_length_def split: if_splits)
qed

lemma swapped_gone:
  assumes "u \<noteq> []" "apart (folded u) (folded v)"
  shows "\<not> sublist (folded u) (folded (replace_all (any_case u) (\<lambda>_. v) before s))"
proof (induction "length s" arbitrary: s before rule: less_induct)
  case less
  have f: "folded u \<noteq> []" using assms(1) by (simp add: folded_def)
  show ?case
  proof (cases "s = []")
    case True
    then show ?thesis using f by (simp add: replace_all.simps folded_def)
  next
    case False
    show ?thesis
    proof (cases "prefix (folded u) (folded s)")
      case True
      let ?out = "replace_all (any_case u) (\<lambda>_. v) (Some (last (take (length u) s))) (drop (length u) s)"
      have "replace_all (any_case u) (\<lambda>_. v) before s = v @ ?out"
        using False True assms(1) by (subst replace_all.simps) (simp add: match_any_case Let_def)
      moreover have "\<not> sublist (folded u) (folded ?out)" using less [of "drop (length u) s"] False assms(1) by simp
      moreover have "sublist (folded u) (folded ?out)" if "sublist (folded u) (folded v @ folded ?out)"
        using derived_sublist [OF derived.replaced [of "folded v" "{folded v}" _ _ "[]"] _ f, of "folded ?out" "folded ?out"] that assms(2)
          derived_kept [OF derived.empty, of "{folded v}" "folded ?out"] by simp
      ultimately show ?thesis by (auto simp: folded_def)
    next
      case no: False
      let ?out = "replace_all (any_case u) (\<lambda>_. v) (Some (hd s)) (tl s)"
      have eq: "replace_all (any_case u) (\<lambda>_. v) before s = hd s # ?out"
        using False no assms(1) by (subst replace_all.simps) (simp add: match_any_case)
      have "\<not> sublist (folded u) (folded ?out)" using less [of "tl s"] False by simp
      moreover have "\<not> prefix (folded u) (folded (hd s # ?out))"
      proof
        assume p: "prefix (folded u) (folded (hd s # ?out))"
        have "derived {v} ?out (tl s)" by (rule replace_all_derived) (simp add: swaps_def)
        then have "derived {v} (hd s # ?out) (hd s # tl s)" by (rule derived.kept)
        then have "derived {folded v} (folded (hd s # ?out)) (folded s)"
          using derived_map [of "{v}" "hd s # ?out" "hd s # tl s" fold_rune] False by (simp add: folded_def)
        then have "prefix (folded u) (folded s)" using derived_prefix [OF _ _ suffix_order.refl p] assms(2) by blast
        then show False using no by simp
      qed
      ultimately show ?thesis unfolding eq by (auto simp: folded_def sublist_Cons_right)
    qed
  qed
qed

section \<open>Words\<close>

lemma fields_within: "w \<in> set (fields_of word s) \<Longrightarrow> sublist w (word @ s)"
proof (induction word s rule: fields_of.induct)
  case (2 word r s)
  show ?case
  proof (cases "is_blank r")
    case True
    then have "w = word \<and> word \<noteq> [] \<or> w \<in> set (fields_of [] s)" using 2(4) by (auto split: if_splits)
    then show ?thesis
    proof
      assume "w \<in> set (fields_of [] s)"
      then have "sublist w s" using 2(1,2) True by (cases "word = []") auto
      then show ?thesis by (simp add: sublist_append sublist_Cons_right)
    qed (simp add: sublist_append)
  next
    case False
    then show ?thesis using 2(3,4) by simp
  qed
qed (auto split: if_splits)

lemma fields_unbroken: "w \<in> set (fields_of word s) \<Longrightarrow> x \<in> set w \<Longrightarrow> is_blank x \<Longrightarrow> x \<in> set word"
proof (induction word s rule: fields_of.induct)
  case (2 word r s)
  show ?case
  proof (cases "is_blank r")
    case True
    then consider "w = word" | "w \<in> set (fields_of [] s)" using 2(4) by (auto split: if_splits)
    then show ?thesis
    proof cases
      case 2
      then have "x \<in> set []" using "2.IH"(1,2) [OF True _ 2] \<open>x \<in> set w\<close> \<open>is_blank x\<close> by argo
      then show ?thesis by simp
    qed (use \<open>x \<in> set w\<close> in simp)
  next
    case False
    then have "x \<in> set (word @ [r])" using 2(3) [OF False] 2(4,5,6) by simp
    then show ?thesis using False 2(6) by auto
  qed
qed (auto split: if_splits)

lemma in_spaced: "r \<in> set (spaced ws) \<Longrightarrow> r = 32 \<or> (\<exists>w\<in>set ws. r \<in> set w)"
  by (induction ws rule: spaced.induct) auto

lemma sublist_spaced:
  assumes "sublist u (map g (spaced ws))" "g 32 \<notin> set u" "u \<noteq> []"
  shows "\<exists>w\<in>set ws. sublist u (map g w)"
  using assms(1)
proof (induction ws rule: spaced.induct)
  case (3 w v ws)
  let ?rest = "map g (spaced (v # ws))"
  have "sublist u (map g w @ g 32 # ?rest)" using 3(2) by simp
  then consider "sublist u (map g w)" | "sublist u (g 32 # ?rest)" | x y where "u = x @ y" "suffix x (map g w)" "prefix y (g 32 # ?rest)"
    unfolding sublist_append by blast
  then have "sublist u (map g w) \<or> sublist u ?rest"
  proof cases
    case 2
    have "\<not> prefix u (g 32 # ?rest)" using assms(2,3) by (cases u) auto
    then show ?thesis using 2 by (simp add: sublist_Cons_right)
  next
    case (3 x y)
    have "y = []" using 3(1,3) assms(2) by (cases y) auto
    then show ?thesis using 3(1,2) by simp
  qed simp
  then show ?case using 3(1) by auto
qed (use assms(3) in auto)

section \<open>The reason a caller reads\<close>

definition marks :: "runes set" where
  "marks = {codes ''[URL]'', codes ''[address]'', codes ''[redacted]'', codes ''[path]''}"

definition printable_rune :: "nat \<Rightarrow> bool" where
  "printable_rune r \<longleftrightarrow> \<not> is_control r \<and> \<not> is_format r \<and> (is_blank r \<longrightarrow> r = 32)"

lemma redactions_swap: "(p, f) \<in> set redactions \<Longrightarrow> swaps marks f"
proof -
  have always: "v \<in> marks \<Longrightarrow> swaps marks (\<lambda>_. v)" for v by (simp add: swaps_def)
  have put: "(\<And>m. g m = m \<or> g m = v) \<Longrightarrow> v \<in> marks \<Longrightarrow> swaps marks g" for g v by (metis swaps_def)
  have m: "codes ''[URL]'' \<in> marks" "codes ''[address]'' \<in> marks" "codes ''[redacted]'' \<in> marks" "codes ''[path]'' \<in> marks"
    by (simp_all add: marks_def)
  have "swaps marks hide_path" using m(4) unfolding swaps_def hide_path_def by auto
  moreover have "swaps marks hide_ipv4" "swaps marks hide_ipv6" "swaps marks hide_host"
    by (rule put [OF _ m(2)], simp add: hide_ipv4_def hide_ipv6_def hide_host_def Let_def)+
  moreover have "swaps marks hide_token" by (rule put [OF _ m(3)]) (simp add: hide_token_def)
  ultimately show "(p, f) \<in> set redactions \<Longrightarrow> swaps marks f"
    using always m by (auto simp: redactions_def)
qed

text \<open>All the redactions together still only put marks in the place of text.\<close>

lemma redacted_sublist:
  assumes "sublist u (folded (fold (\<lambda>(p, f). replace_all p f None) rs s))" "set rs \<subseteq> set redactions" "u \<noteq> []"
    "\<And>m. m \<in> marks \<Longrightarrow> apart u (folded m)"
  shows "sublist u (folded s)"
  using assms(1,2)
proof (induction rs arbitrary: s)
  case (Cons x rs)
  obtain p f where x: "x = (p, f)" by fastforce
  have "derived marks (replace_all p f None s) s" using Cons.prems(2) x redactions_swap by (intro replace_all_derived) auto
  then have d: "derived (folded ` marks) (folded (replace_all p f None s)) (folded s)"
    unfolding folded_def by (rule derived_map)
  have "sublist u (folded (replace_all p f None s))" using Cons.IH [of "replace_all p f None s"] Cons.prems by (simp add: x)
  then show ?case by (rule derived_sublist [OF d _ assms(3), rotated]) (use assms(4) in blast)
qed simp

lemma redacted_set:
  "set rs \<subseteq> set redactions \<Longrightarrow> set (fold (\<lambda>(p, f). replace_all p f None) rs s) \<subseteq> set s \<union> \<Union> (set ` marks)"
proof (induction rs arbitrary: s)
  case (Cons x rs)
  obtain p f where x: "x = (p, f)" by fastforce
  have "derived marks (replace_all p f None s) s" using Cons.prems x redactions_swap by (intro replace_all_derived) auto
  then have "set (replace_all p f None s) \<subseteq> set s \<union> \<Union> (set ` marks)" by (rule derived_set)
  moreover have "set (fold (\<lambda>(p, f). replace_all p f None) rs (replace_all p f None s)) \<subseteq>
      set (replace_all p f None s) \<union> \<Union> (set ` marks)" using Cons by simp
  ultimately show ?case unfolding x fold_simps prod.case comp_apply by blast
qed simp

lemma marks_printable: "m \<in> marks \<Longrightarrow> r \<in> set m \<Longrightarrow> printable_rune r"
proof -
  have "list_all (list_all printable_rune) [codes ''[URL]'', codes ''[address]'', codes ''[redacted]'', codes ''[path]'']"
    by (simp add: codes_def printable_rune_def is_control_def is_blank_def is_format_def)
  then have "list_all printable_rune m" if "m \<in> marks" for m using that unfolding marks_def list.pred_inject by blast
  then show "m \<in> marks \<Longrightarrow> r \<in> set m \<Longrightarrow> printable_rune r" by (simp only: list_all_iff)
qed

text \<open>A name that can be hidden: it is not the public name, has no blank and no ellipsis, and neither the public name nor a mark touches it.\<close>

definition hideable :: "string \<Rightarrow> string \<Rightarrow> bool" where
  "hideable upstreamModel publicModel \<longleftrightarrow>
     (let u = folded (decode_utf8 upstreamModel) in
      upstreamModel \<noteq> [] \<and> \<not> same_letters upstreamModel publicModel \<and> u \<noteq> [] \<and>
      list_all (\<lambda>r. r \<noteq> 32 \<and> r \<noteq> 0x2026) u \<and>
      list_all (\<lambda>v. apart u (folded v))
        [decode_utf8 publicModel, codes ''[URL]'', codes ''[address]'', codes ''[redacted]'', codes ''[path]''])"

lemma hidden_first:
  assumes "hideable upstreamModel publicModel"
  shows "\<not> sublist (folded (decode_utf8 upstreamModel)) (folded (hideModelName msg upstreamModel publicModel))"
proof -
  let ?u = "decode_utf8 upstreamModel" and ?p = "decode_utf8 publicModel"
  have u: "?u \<noteq> []" "folded ?u \<noteq> []" "apart (folded ?u) (folded ?p)" "upstreamModel \<noteq> []" "\<not> same_letters upstreamModel publicModel"
    using assms unfolding hideable_def Let_def by (simp_all add: folded_def)
  let ?s = "\<lambda>name. replace_all (any_case (decode_utf8 name)) (\<lambda>_. ?p) None"
  have first: "\<not> sublist (folded ?u) (folded (?s upstreamModel msg))" by (rule swapped_gone [OF u(1,3)])
  have second: "\<not> sublist (folded ?u) (folded (?s name (?s upstreamModel msg)))" for name
  proof
    assume s: "sublist (folded ?u) (folded (?s name (?s upstreamModel msg)))"
    have "derived {?p} (?s name (?s upstreamModel msg)) (?s upstreamModel msg)"
      by (rule replace_all_derived) (simp add: swaps_def)
    then have "derived {folded ?p} (folded (?s name (?s upstreamModel msg))) (folded (?s upstreamModel msg))"
      using derived_map [of "{?p}" _ _ fold_rune] by (fastforce simp: folded_def)
    then show False using derived_sublist [OF _ _ u(2) s] u(3) first by blast
  qed
  show ?thesis using first second u(4,5) by (simp add: hideModelName_def Let_def)
qed

lemma plain_sublist:
  assumes "sublist u (folded (plain_runes s))" "u \<noteq> []" "32 \<notin> set u" "list_all (\<lambda>r. \<not> is_format r) s"
  shows "sublist u (folded s)"
proof -
  have "filter (\<lambda>r. is_control r \<or> is_blank r \<or> \<not> is_format r) s = s" using assms(4) by (simp add: list_all_iff)
  then have p: "plain_runes s = map (\<lambda>r. if is_control r \<or> is_blank r then 32 else r) s" by (simp add: plain_runes_def)
  have d: "derived {[32]} (map (\<lambda>r. if is_control r \<or> is_blank r then 32 else r) s) s"
  proof (induction s)
    case (Cons r s)
    then show ?case using derived.replaced [of "[32]" "{[32]}" _ s "[r]"] by (auto intro: derived.kept)
  qed (simp add: derived.empty)
  have "apart u [32]"
  proof -
    have "\<not> prefix e [32] \<and> \<not> prefix [32] e" if "suffix e u" "e \<noteq> []" for e
      using that assms(3) set_mono_suffix [OF that(1)] by (cases e) auto
    moreover have "e = [32]" if "suffix e [32]" "e \<noteq> []" for e :: runes using that by (auto simp: suffix_Cons)
    moreover have "\<not> prefix u [32] \<and> \<not> prefix [32] u" using assms(2,3) by (cases u) auto
    ultimately show ?thesis by (simp add: apart_def list_all_iff)
  qed
  moreover have "folded [32] = [32]" by (simp add: folded_def fold_rune_def)
  ultimately show ?thesis
    using derived_sublist [OF derived_map [OF d, of fold_rune] _ assms(2)] assms(1) p by (simp add: folded_def)
qed


lemma printable_32: "printable_rune 32" "printable_rune 0x2026"
  by (simp_all add: printable_rune_def is_control_def is_format_def is_blank_def)

lemma plain_printable:
  assumes "x \<in> set (plain_runes s)" shows "printable_rune x"
proof -
  obtain r where r: "is_control r \<or> is_blank r \<or> \<not> is_format r" "x = (if is_control r \<or> is_blank r then 32 else r)"
    using assms unfolding plain_runes_def set_map set_filter by blast
  show ?thesis
  proof (cases "is_control r \<or> is_blank r")
    case True
    then show ?thesis using r(2) printable_32 by simp
  next
    case False
    then have "x = r" "\<not> is_format r" using r by simp_all
    then show ?thesis using False unfolding printable_rune_def by blast
  qed
qed

lemma sublist_cut:
  assumes "sublist u (folded (take n s @ [c]))" "fold_rune c \<notin> set u"
  shows "sublist u (folded s)"
proof -
  have "sublist u (folded (take n s) @ [fold_rune c])" using assms(1) by (simp add: folded_def)
  then consider "sublist u (folded (take n s))" | "sublist u [fold_rune c]"
    | x y where "u = x @ y" "suffix x (folded (take n s))" "prefix y [fold_rune c]"
    unfolding sublist_append by blast
  then have "sublist u (folded (take n s))"
  proof cases
    case 2
    then have "u = []" using assms(2) set_mono_sublist [OF 2] by (cases u) auto
    then show ?thesis by simp
  next
    case (3 x y)
    then have "y = []" using assms(2) by (cases y) auto
    then show ?thesis using 3 by simp
  qed
  moreover have "folded s = folded (take n s) @ folded (drop n s)"
    unfolding folded_def map_append [symmetric] by simp
  ultimately show ?thesis by (simp add: sublist_append)
qed

lemma hide_set: "set (hideModelName msg upstreamModel publicModel) \<subseteq> set msg \<union> set (decode_utf8 publicModel)"
proof -
  have swap: "set (replace_all p (\<lambda>_. v) None s) \<subseteq> set s \<union> set v" for p v s
    using derived_set [OF replace_all_derived [of "{v}" "\<lambda>_. v" p None s]] by (simp add: swaps_def)
  show ?thesis
    unfolding hideModelName_def Let_def by (auto dest!: subsetD [OF swap])
qed

text \<open>From the words of the reason back to the message: a name found in it was there before.\<close>

lemma cleaned_sublist:
  assumes "sublist u (folded (spaced (fields_of [] (fold (\<lambda>(p, f). replace_all p f None) redactions (plain_runes s)))))"
    "u \<noteq> []" "32 \<notin> set u" "\<And>m. m \<in> marks \<Longrightarrow> apart u (folded m)" "list_all (\<lambda>r. \<not> is_format r) s"
  shows "sublist u (folded s)"
proof -
  let ?r = "fold (\<lambda>(p, f). replace_all p f None) redactions (plain_runes s)"
  have f: "fold_rune 32 = 32" by (simp add: fold_rune_def)
  obtain w where w: "w \<in> set (fields_of [] ?r)" "sublist u (map fold_rune w)"
    using sublist_spaced [of u fold_rune "fields_of [] ?r"] assms(1-3) f by (auto simp: folded_def)
  have "sublist w ?r" using fields_within [OF w(1)] by simp
  then have "sublist (map fold_rune w) (folded ?r)" unfolding folded_def by (metis map_append sublist_def)
  then have "sublist u (folded ?r)" using w(2) sublist_order.order_trans by blast
  then have "sublist u (folded (plain_runes s))" by (rule redacted_sublist) (use assms(2,4) in auto)
  then show ?thesis using plain_sublist assms(2,3,5) by blast
qed

text \<open>
  C27. The reason relayed of an upstream's refusal. It is at most 401 code points, all printable, with no blank but the
  space; and when the upstream's name for the model can be hidden at all and the message held no format
  character, that name does not occur in it, in any letter case, whatever the patterns replaced.
\<close>

theorem relayed_reason_clean:
  "length (cleanRejection raw upstreamModel publicModel) \<le> 401 \<and>
    list_all printable_rune (cleanRejection raw upstreamModel publicModel) \<and>
    (hideable upstreamModel publicModel \<and> list_all (\<lambda>r. \<not> is_format r) (decode_utf8 raw) \<and>
     list_all (\<lambda>r. \<not> is_format r) (decode_utf8 publicModel) \<longrightarrow>
       \<not> sublist (folded (decode_utf8 upstreamModel)) (folded (cleanRejection raw upstreamModel publicModel)))"
proof -
  define hidden where "hidden = hideModelName (decode_utf8 raw) upstreamModel publicModel"
  define redacted where "redacted = fold (\<lambda>(p, f). replace_all p f None) redactions (plain_runes hidden)"
  define msg where "msg = spaced (fields_of [] redacted)"
  have clean: "cleanRejection raw upstreamModel publicModel = (if length msg > 400 then take 400 msg @ [0x2026] else msg)"
    by (simp add: cleanRejection_def hidden_def redacted_def msg_def rejectionMessageMax_def Let_def)
  have "set (plain_runes hidden) \<subseteq> Collect printable_rune" using plain_printable by blast
  moreover have "set redacted \<subseteq> set (plain_runes hidden) \<union> \<Union> (set ` marks)" unfolding redacted_def by (rule redacted_set) simp
  ultimately have red: "\<forall>r\<in>set redacted. printable_rune r" using marks_printable by fast
  have words: "w \<in> set (fields_of [] redacted) \<Longrightarrow> sublist w redacted" for w using fields_within [of w "[]" redacted] by simp
  have "printable_rune r" if m: "r \<in> set msg" for r
  proof -
    consider "r = 32" | w where "w \<in> set (fields_of [] redacted)" "r \<in> set w" using in_spaced [OF m [unfolded msg_def]] by blast
    then show ?thesis
    proof cases
      case 2
      then have "r \<in> set redacted" using set_mono_sublist [OF words] by blast
      then show ?thesis using red by blast
    qed (simp add: printable_32)
  qed
  then have printable: "list_all printable_rune (cleanRejection raw upstreamModel publicModel)"
    unfolding clean list_all_iff using printable_32(2) by (auto dest: in_set_takeD)
  have gone: "\<not> sublist (folded (decode_utf8 upstreamModel)) (folded (cleanRejection raw upstreamModel publicModel))"
    if h: "hideable upstreamModel publicModel" "list_all (\<lambda>r. \<not> is_format r) (decode_utf8 raw)" "list_all (\<lambda>r. \<not> is_format r) (decode_utf8 publicModel)"
  proof
    let ?u = "folded (decode_utf8 upstreamModel)"
    assume s: "sublist ?u (folded (cleanRejection raw upstreamModel publicModel))"
    have u: "?u \<noteq> []" "32 \<notin> set ?u" "0x2026 \<notin> set ?u" "\<And>m. m \<in> marks \<Longrightarrow> apart ?u (folded m)"
      using h(1) unfolding hideable_def Let_def marks_def by (auto simp: list_all_iff)
    have "fold_rune 0x2026 = 0x2026" by (simp add: fold_rune_def)
    then have "sublist ?u (folded msg)" using s u(3) sublist_cut [of ?u 400 msg "0x2026"] unfolding clean by (simp split: if_splits)
    moreover have "list_all (\<lambda>r. \<not> is_format r) hidden"
      using hide_set [of "decode_utf8 raw" upstreamModel publicModel] h(2,3) unfolding hidden_def list_all_iff by blast
    ultimately have "sublist ?u (folded hidden)"
      using cleaned_sublist u unfolding msg_def redacted_def by blast
    then show False using hidden_first [OF h(1)] unfolding hidden_def by blast
  qed
  have "length (cleanRejection raw upstreamModel publicModel) \<le> 401" unfolding clean by simp
  then show ?thesis using printable gone by blast
qed


section \<open>Two messages\<close>

lemma utf8_runes_ascii: "list_all (\<lambda>b. b < 128) s \<Longrightarrow> utf8_runes s = s"
proof (induction s)
  case Nil
  show ?case by (subst utf8_runes.simps) simp
next
  case (Cons a s)
  obtain b c d r where "s @ [0, 0, 0] = b # c # d # r"
    by (cases s rule: list.exhaust; cases "tl s" rule: list.exhaust; cases "tl (tl s)") auto
  then have "rune_at ((a # s) @ [0, 0, 0]) = Some (a, 1)" using Cons.prems by (simp add: rune_at_def)
  then show ?case using Cons by (subst utf8_runes.simps) simp
qed

lemma decode_ascii: "list_all (\<lambda>b. b < 128) (codes s) \<Longrightarrow> decode_utf8 s = codes s"
  by (simp add: decode_utf8_def utf8_runes_ascii)

definition vendor_name :: string where "vendor_name = ''qx''"
definition shown_name :: string where "shown_name = ''pickle''"

lemma vendor_codes: "decode_utf8 vendor_name = [113, 120]" "folded (decode_utf8 vendor_name) = [113, 120]"
  by (simp_all add: decode_ascii codes_def vendor_name_def folded_def fold_rune_def)

lemma shown_codes: "decode_utf8 shown_name = [112, 105, 99, 107, 108, 101]"
  by (simp add: decode_ascii codes_def shown_name_def)

lemma vendor_hideable: "hideable vendor_name shown_name"
  unfolding hideable_def same_letters_def Let_def vendor_codes shown_codes
  by (simp add: folded_def fold_rune_def codes_def apart_def vendor_name_def)

theorem relayed_reason_clean_witness:
  "\<not> sublist [113, 120] (folded (cleanRejection ''The model QX takes 32768 tokens'' vendor_name shown_name))"
proof -
  have "list_all (\<lambda>r. \<not> is_format r) (decode_utf8 ''The model QX takes 32768 tokens'')"
    "list_all (\<lambda>r. \<not> is_format r) (decode_utf8 shown_name)"
    unfolding shown_codes by (simp_all add: decode_ascii codes_def is_format_def)
  then show ?thesis
    using relayed_reason_clean [of "''The model QX takes 32768 tokens''" vendor_name shown_name] vendor_hideable
    unfolding vendor_codes(2) by blast
qed

text \<open>
  The name is looked for before the format characters are taken out: a soft hyphen inside it keeps it from
  being found, and taking the hyphen out makes it whole again.
\<close>

lemma format_character_heals_name:
  "plain_runes (hideModelName [113, 0xAD, 120] vendor_name shown_name) = decode_utf8 vendor_name"
proof -
  have base: "path_base vendor_name = vendor_name"
    by code_simp
  have "replace_all (any_case [113, 120]) f None [113, 0xAD, 120] = [113, 0xAD, 120]" for f
    by (simp add: replace_all.simps match_length_def fold_rune_def)
  then show ?thesis
    unfolding hideModelName_def same_letters_def vendor_codes shown_codes base Let_def
    by (simp add: plain_runes_def is_control_def is_blank_def is_format_def folded_def fold_rune_def)
qed

end
