(* ===== verification/Gateway.thy ===== *)
theory Gateway
  imports Config Snapshot_Source Reporter Models_Route Passthrough_Accounts Observations Rejection
begin

text \<open>
  The gateway put together (\<open>internal/server/server.go\<close>, \<open>internal/server/metrics.go\<close>, \<open>cmd/llm-gateway/main.go\<close>):
  the state of a server, how a request finds its handler, the health and metrics views, the start from the
  environment, the poll for a newer document with what it reports, and the end of a process.
\<close>

section \<open>Finding the handler\<close>

text \<open>
  \<open>net/http\<close>'s multiplexer, as far as these routes use it. The target is the path as it was sent. One that is
  not clean is answered with a redirect to the clean one; then its segments, each with its escapes read, are
  compared with the patterns, and the longest pattern that matches has the request. A pattern that ends in a
  slash matches everything below it.
\<close>

fun split_slash :: "string \<Rightarrow> string list" where
  "split_slash [] = [[]]"
| "split_slash (c # s) = 
     (if c = CHR ''/'' then [] # split_slash s
      else case split_slash s of [] \<Rightarrow> [[c]] | seg # segs \<Rightarrow> (c # seg) # segs)"

definition join_path :: "string list \<Rightarrow> string" where
  "join_path segs = concat (map (\<lambda>s. CHR ''/'' # s) segs)"

fun clean_onto :: "string list \<Rightarrow> string list \<Rightarrow> string list" where
  "clean_onto done [] = rev done"
| "clean_onto done (x # xs) =
     (if x = [] \<or> x = ''.'' then clean_onto done xs
      else if x = ''..'' then clean_onto (tl done) xs else clean_onto (x # done) xs)"

definition cleanPath :: "string \<Rightarrow> string" where
  "cleanPath p =
     (let segs = clean_onto [] (split_slash p) in
      if segs = [] then ''/'' else join_path segs @ (if last p = CHR ''/'' then ''/'' else []))"

definition hex_value :: "char \<Rightarrow> nat option" where
  "hex_value c =
     (let n = of_char c :: nat in
      if 48 \<le> n \<and> n \<le> 57 then Some (n - 48)
      else if 97 \<le> n \<and> n \<le> 102 then Some (n - 87) else if 65 \<le> n \<and> n \<le> 70 then Some (n - 55) else None)"

fun unescape :: "string \<Rightarrow> string option" where
  "unescape [] = Some []"
| "unescape (c # s) =
     (if c \<noteq> CHR 0x25 then map_option (Cons c) (unescape s)
      else case s of
          a # b # r \<Rightarrow>
            (case (hex_value a, hex_value b) of
               (Some x, Some y) \<Rightarrow> map_option (Cons (char_of (16 * x + y))) (unescape r)
             | _ \<Rightarrow> None)
        | _ \<Rightarrow> None)"

definition pattern_matches :: "string \<Rightarrow> string list \<Rightarrow> bool" where
  "pattern_matches pat segs =
     (let ps = tl (split_slash pat) in
      if last ps = [] then length ps \<le> length segs \<and> take (length ps - 1) segs = butlast ps else segs = ps)"

fun longest :: "string list \<Rightarrow> (string \<times> 'h) list \<Rightarrow> (string \<times> 'h) option" where
  "longest segs [] = None"
| "longest segs ((pat, h) # rest) =
     (case longest segs rest of
        None \<Rightarrow> if pattern_matches pat segs then Some (pat, h) else None
      | Some (q, k) \<Rightarrow> Some (if pattern_matches pat segs \<and> length pat > length q then (pat, h) else (q, k)))"

datatype 'h routed = Moved string | Handled 'h | Unmatched

definition mux :: "(string \<times> 'h) list \<Rightarrow> string \<Rightarrow> string \<Rightarrow> 'h routed" where
  "mux table method target =
     (if method \<noteq> ''CONNECT'' \<and> cleanPath target \<noteq> target then Moved (cleanPath target)
      else case Option.bind (all_some (map unescape (tl (split_slash target)))) (\<lambda>segs. longest segs table) of
        None \<Rightarrow> Unmatched | Some (_, h) \<Rightarrow> Handled h)"

datatype handler =
    Healthz
  | Metrics
  | ModelsRoute
  | ProtocolRoute protocol
  | UnknownMessages
  | UnknownResponses
  | PassRoute passthroughRoute
  | NotFound

definition Handler :: "(string \<times> handler) list" where
  "Handler =
     [(''/healthz'', Healthz), (''/v1/models'', ModelsRoute), (''/v1/models/'', ModelsRoute),
      (''/v1/chat/completions'', ProtocolRoute protoChat), (''/v1/completions'', ProtocolRoute protoCompletions),
      (''/v1/messages'', ProtocolRoute protoMessages), (''/v1/messages/'', UnknownMessages),
      (''/v1/responses'', ProtocolRoute protoResponses), (''/v1/responses/'', UnknownResponses),
      (''/v1/images'', PassRoute routeImages), (''/v1/images/generations'', PassRoute routeImageGenerations),
      (''/v1/images/models'', PassRoute routeImageModels), (''/v1/embeddings'', PassRoute routeEmbeddings),
      (''/v1/rerank'', PassRoute routeRerank), (''/v1/audio/speech'', PassRoute routeSpeech),
      (''/v1/audio/transcriptions'', PassRoute routeTranscriptions), (''/'', NotFound)]"

definition AdminHandler :: "(string \<times> handler) list" where
  "AdminHandler = [(''/metrics'', Metrics), (''/healthz'', Healthz), (''/'', NotFound)]"

section \<open>The state of a server\<close>

text \<open>
  The store, the state the request handlers share, the active half of the upstream observations, and the
  catalog with its schedule. The handlers' copy of the published document is that of the store.
\<close>

record ('s, 'err) Server =
  svStore :: "('s, 'err) Store"
  svPass :: pass_gateway
  svProbed :: "(ActiveUpstreamObservation \<times> CatalogObservation) gomap"
  svCatalog :: "catalogSchedule \<times> catalogState"

abbreviation "svGateway s \<equiv> pgGateway (svPass s)"

definition on_gateway :: "(gateway \<Rightarrow> gateway) \<Rightarrow> ('s, 'err) Server \<Rightarrow> ('s, 'err) Server" where
  "on_gateway f s = s\<lparr>svPass := (svPass s)\<lparr>pgGateway := f (svGateway s)\<rparr>\<rparr>"

definition plain_upstreams :: "Config \<Rightarrow> Upstream gomap" where
  "plain_upstreams cfg = map (\<lambda>(ref, u). (ref, Upstream.Upstream.truncate u)) (Upstreams cfg)"

definition server_config :: "Config \<Rightarrow> pass_config" where
  "server_config cfg =
     \<lparr>pcBase = \<lparr>maxInFlight = MaxInFlight cfg,
        bodyBounds = \<lparr>limRequest = RequestBodyMaxBytes cfg, limLargeRequest = ChatLargeBodyMaxBytes cfg,
          limLargeResponse = ChatLargeResponseMaxBytes cfg\<rparr>,
        limitDefaults = \<lparr>DefaultRpm = cfgDefaultRpm cfg, DefaultTpm = cfgDefaultTpm cfg,
          DefaultConcurrency = cfgDefaultConcurrency cfg\<rparr>\<rparr>,
      pcRequestMax = PassthroughRequestBodyMaxBytes cfg, pcResponseMax = PassthroughResponseMaxBytes cfg\<rparr>"

definition New_Server :: "Config \<Rightarrow> ('s, 'err) Store \<Rightarrow> state \<Rightarrow> ('s, 'err) Server" where
  "New_Server cfg store st =
     \<lparr>svStore = store,
      svPass = \<lparr>pgGateway = \<lparr>snap = st, limiter = Rate_Limits.New, inflight = 0,
           chatLarge = newLargeBodySlots (ChatLargeBodySlots cfg), upHealth = newUpstreamHealth, bodySink = None,
           costLookups = newGenerationCosts, meters = counters_zero, spooled = []\<rparr>,
         pgLarge = newLargeBodySlots (PassthroughMaxInFlight cfg)\<rparr>,
      svProbed = [], svCatalog = (newSchedule, newCatalogState)\<rparr>"

definition SetBodySink :: "Sink option \<Rightarrow> ('s, 'err) Server \<Rightarrow> ('s, 'err) Server" where
  "SetBodySink k = on_gateway (\<lambda>g. g\<lparr>bodySink := k\<rparr>)"

definition server_InFlight :: "('s, 'err) Server \<Rightarrow> int" where
  "server_InFlight s = inflight (svGateway s)"

definition PassthroughInFlight :: "('s, 'err) Server \<Rightarrow> int" where
  "PassthroughInFlight s = inUse (pgLarge (svPass s))"

section \<open>The build\<close>

text \<open>What the binary says it is: the settings the toolchain left in it, if any (\<open>internal/version/version.go\<close>).\<close>

definition unknown_build :: string where
  "unknown_build = ''unknown''"

definition read_version :: "(string \<times> string) list option \<Rightarrow> string" where
  "read_version info =
     (case info of
        None \<Rightarrow> unknown_build
      | Some settings \<Rightarrow>
          (case fold (\<lambda>(k, v) (vcs, dirty).
                   (if k = ''vcs.revision'' then v else vcs, if k = ''vcs.modified'' then v = ''true'' else dirty)) settings ([], False) of
             (vcs, dirty) \<Rightarrow>
               if vcs = [] then unknown_build else take 12 vcs @ (if dirty then ''+dirty'' else [])))"

lemma read_version_short: "read_version info \<noteq> [] \<and> length (read_version info) \<le> 18"
  by (auto simp: read_version_def unknown_build_def split: option.splits prod.splits)

section \<open>Health and metrics\<close>

abbreviation num :: "int \<Rightarrow> json" where "num n \<equiv> JNum (itoa n)"

text \<open>Whole seconds of a duration, towards zero.\<close>

definition whole_seconds :: "int \<Rightarrow> int" where
  "whole_seconds d = (if d \<ge> 0 then d div 1000000000 else - (- d div 1000000000))"

text \<open>The members of a Go map are written in the order of their names; \<open>errText\<close> is the text of a load's error.\<close>

definition handleHealthz ::
  "('err store_error \<Rightarrow> string) \<Rightarrow> int \<Rightarrow> ('s, 'err) Server \<Rightarrow> string \<Rightarrow> apiError + json" where
  "handleHealthz errText now s method =
     (if method \<noteq> ''GET'' then Inl errMethod
      else
        let st = snap (svGateway s);
            failing = reloadFailures (svStore s) > 0;
            dropping = RejectedEntries (svStore s) > 0
        in Inr (JObj
          ([(''generation'', num (Generation (doc st)))] @
           (if failing then [(''lastError'', JStr (case lastError (svStore s) of None \<Rightarrow> [] | Some err \<Rightarrow> errText err))] else []) @
           (if dropping then [(''rejectedEntries'', num (int (RejectedEntries (svStore s))))] else []) @
           (if failing then [(''reloadFailures'', num (reloadFailures (svStore s)))] else []) @
           [(''snapshotAgeSeconds'', num (whole_seconds (now - loadedAt st))),
            (''snapshotReloadStuck'', JBool failing),
            (''status'', JStr (if failing \<or> dropping then ''degraded'' else ''ok''))])))"

definition activeKeysWithoutChat :: "int \<Rightarrow> Document \<Rightarrow> int" where
  "activeKeysWithoutChat now d =
     int (length (filter
       (\<lambda>k. Status k = KeyActive \<and> \<not> (case ExpiresAt k of None \<Rightarrow> False | Some t \<Rightarrow> now > t) \<and> \<not> AllowsEndpoint k EndpointChat)
       (Keys d)))"

definition statusMap :: "counters \<Rightarrow> (string \<times> json) list" where
  "statusMap c = sort_key fst (map (\<lambda>(k, n). (k, num n)) (byStatus c))"

definition catalogGauges :: "int \<Rightarrow> catalogState \<Rightarrow> json" where
  "catalogGauges now c = JObj
     ((case copy c of None \<Rightarrow> [] | Some cat \<Rightarrow> [(''ageSeconds'', num (whole_seconds (now - fetchedAt cat)))]) @
      [(''consecutiveFailures'', num (catFailures c)),
       (''models'', num (case copy c of None \<Rightarrow> 0 | Some cat \<Rightarrow> int (length (catModels cat))))])"

text \<open>The retries and fallbacks are counted by the calls and come in as numbers.\<close>

definition handleMetrics ::
  "Config \<Rightarrow> int \<Rightarrow> int \<Rightarrow> int \<Rightarrow> ('s, 'err) Server \<Rightarrow> string \<Rightarrow> apiError + json" where
  "handleMetrics cfg retried fellBack now s method =
     (if method \<noteq> ''GET'' then Inl errMethod
      else
        let g = svGateway s; m = meters g; c = costLookups g in
        Inr (JObj
          [(''activeKeysWithoutChat'', num (activeKeysWithoutChat now (doc (snap g)))),
           (''bodiesCaptured'', num (bodiesCaptured m)),
           (''bodiesDropped'', num (Dropped (bodySink g))),
           (''chatLargeBodiesInUse'', num (inUse (chatLarge g))),
           (''chatLargeBodySlots'', num (ChatLargeBodySlots cfg)),
           (''generation'', num (Generation (doc (snap g)))),
           (''inFlight'', num (server_InFlight s)),
           (''inputTokens'', num (inputTokensTotal m)),
           (''maxInFlight'', num (MaxInFlight cfg)),
           (''outputTokens'', num (outputTokensTotal m)),
           (''passthroughCostFilled'', num (filled (passthrough_costs c))),
           (''passthroughCostMissing'', num (missing (passthrough_costs c))),
           (''passthroughInFlight'', num (PassthroughInFlight s)),
           (''passthroughMaxInFlight'', num (PassthroughMaxInFlight cfg)),
           (''rejectedEntries'', num (int (RejectedEntries (svStore s)))),
           (''reloadFailures'', num (reloadFailures (svStore s))),
           (''requestsByStatus'', JObj (statusMap m)),
           (''spoolWriteFailures'', num (spoolWriteFailures m)),
           (''streamCostFilled'', num (filled (stream_costs c))),
           (''streamCostMissing'', num (missing (stream_costs c))),
           (''upstreamFallbacks'', num fellBack),
           (''upstreamRetries'', num retried),
           (''vendorModelCatalog'', catalogGauges now (snd (svCatalog s)))]))"

section \<open>One request\<close>

text \<open>What the model takes from libraries for the life of a process: the text of an upstream's error, of a value, of an instant.\<close>

record library =
  libErrors :: "string \<Rightarrow> json option"
  libSprint :: "json \<Rightarrow> string"
  libInstant :: "int \<Rightarrow> string"

text \<open>
  A request as it arrives: its target, the rest of it, what it will meet, and how often calls have been retried
  and fallen back by then.
\<close>

record arrival =
  arTarget :: string
  arRequest :: wire_request
  arWorld :: pass_world
  arRetried :: int
  arFellBack :: int

datatype sent_attempt = ToModel attemptSpec | ToVendor pass_attempt

datatype answer =
    Replied reply
  | MessagesRefused apiError
  | ModelsReplied models_reply
  | Viewed "apiError + json"
  | Redirected string
  | Malformed

text \<open>The calls of a handler go to the configured upstreams, and their refusals are cleaned.\<close>

definition configured_world :: "library \<Rightarrow> Config \<Rightarrow> pass_world \<Rightarrow> pass_world" where
  "configured_world lib cfg w =
     w\<lparr>pwBase := (pwBase w)\<lparr>calls := (calls (pwBase w))
       \<lparr>upstreams := plain_upstreams cfg, retries := UpstreamRetries cfg,
        rejectWith := reject_body (libErrors lib) (libSprint lib)\<rparr>\<rparr>\<rparr>"

definition handle ::
  "library \<Rightarrow> ('err store_error \<Rightarrow> string) \<Rightarrow> Config \<Rightarrow> handler \<Rightarrow> string \<Rightarrow> arrival \<Rightarrow> ('s, 'err) Server \<Rightarrow>
     answer \<times> ('s, 'err) Server \<times> sent_attempt list" where
  "handle lib errText cfg h path ar s =
     (let w = configured_world lib cfg (arWorld ar); b = pwBase w; rq = arRequest ar; pc = server_config cfg in
      case h of
        Healthz \<Rightarrow> (Viewed (handleHealthz errText (startAt b) s (rqMethod rq)), s, [])
      | Metrics \<Rightarrow> (Viewed (handleMetrics cfg (arRetried ar) (arFellBack ar) (startAt b) s (rqMethod rq)), s, [])
      | ModelsRoute \<Rightarrow>
          (ModelsReplied (handleModels (hashToken b) (libInstant lib) (authAt b) (snd (svCatalog s)) (snap (svGateway s))
             \<lparr>mqMethod = rqMethod rq, mqPath = path, mqHeader = rqHeader rq\<rparr>), s, [])
      | ProtocolRoute p \<Rightarrow>
          (case serveProtocol b (pcBase pc) p rq (svGateway s) of
             (r, g, a) \<Rightarrow> (Replied r, on_gateway (\<lambda>_. g) s, map ToModel a))
      | UnknownMessages \<Rightarrow> (MessagesRefused errNotFound, s, [])
      | UnknownResponses \<Rightarrow> (Replied (Refused errNotFound []), s, [])
      | PassRoute rt \<Rightarrow>
          (case handlePassthrough w pc rt rq (svPass s) of (r, pg, a) \<Rightarrow> (Replied r, s\<lparr>svPass := pg\<rparr>, map ToVendor a))
      | NotFound \<Rightarrow> (Replied (Refused errNotFound []), s, []))"

text \<open>A target whose escapes cannot be read does not get past the library.\<close>

definition serve ::
  "library \<Rightarrow> ('err store_error \<Rightarrow> string) \<Rightarrow> Config \<Rightarrow> (string \<times> handler) list \<Rightarrow> arrival \<Rightarrow> ('s, 'err) Server \<Rightarrow>
     answer \<times> ('s, 'err) Server \<times> sent_attempt list" where
  "serve lib errText cfg table ar s =
     (case unescape (arTarget ar) of
        None \<Rightarrow> (Malformed, s, [])
      | Some path \<Rightarrow>
          (case mux table (rqMethod (arRequest ar)) (arTarget ar) of
             Moved p \<Rightarrow> (Redirected p, s, [])
           | Unmatched \<Rightarrow> (Malformed, s, [])
           | Handled h \<Rightarrow> handle lib errText cfg h path ar s))"

section \<open>Looking after upstreams and catalog\<close>

definition watching :: "('s, 'err) Server \<Rightarrow> observed" where
  "watching s = upstreamHealth.extend (upHealth (svGateway s)) (observed.fields (svProbed s))"

definition watched :: "observed \<Rightarrow> ('s, 'err) Server \<Rightarrow> ('s, 'err) Server" where
  "watched h s = (on_gateway (\<lambda>g. g\<lparr>upHealth := upstreamHealth.truncate h\<rparr>) s)\<lparr>svProbed := probed h\<rparr>"

definition probe_upstream ::
  "(string \<Rightarrow> json option) \<Rightarrow> string \<Rightarrow> int \<Rightarrow> int \<Rightarrow> probe_answer \<Rightarrow> ('s, 'err) Server \<Rightarrow> ('s, 'err) Server" where
  "probe_upstream decode ref started latency ans s =
     watched (probeOnce decode (doc (snap (svGateway s))) ref started latency ans (watching s)) s"

definition wake_catalog ::
  "(string \<Rightarrow> json option) \<Rightarrow> (string \<Rightarrow> rat option) \<Rightarrow> Config \<Rightarrow> int \<Rightarrow> catalog_answer \<Rightarrow> bool \<Rightarrow>
     ('s, 'err) Server \<Rightarrow> ('s, 'err) Server" where
  "wake_catalog decode readFloat cfg now ans shutting s =
     s\<lparr>svCatalog := snd (wake decode readFloat (plain_upstreams cfg)
        \<lparr>wakeRef = PassthroughRef (doc (snap (svGateway s))), wakeAt = now, wakeAnswer = ans, wakeShutting = shutting\<rparr> (svCatalog s))\<rparr>"

text \<open>The end of a lookup of a price: its event is recorded, with the latency it had when its answer ended.\<close>

definition price_found :: "request_world \<Rightarrow> nat \<Rightarrow> string \<Rightarrow> gateway \<Rightarrow> gateway" where
  "price_found w i cost g =
     (case finish_lookup i cost (costLookups g) of
        (None, c) \<Rightarrow> g
      | (Some e, c) \<Rightarrow> record_event (w\<lparr>latencyMs := LatencyMs e\<rparr>) e (g\<lparr>costLookups := c\<rparr>))"

section \<open>The sources a process can have\<close>

datatype any_source = InFile FileSource | AtControl HTTPSource

record source_env =
  envFile :: file_env
  envControl :: http_env

definition any_Load :: "(string \<Rightarrow> json option) \<Rightarrow> (any_source, source_env, source_error) source_load" where
  "any_Load parseText src e served =
     (case src of
        InFile f \<Rightarrow> (case file_Load f (envFile e) served of (r, f') \<Rightarrow> (r, InFile f'))
      | AtControl c \<Rightarrow> (case http_Load parseText c (envControl e) served of (r, c') \<Rightarrow> (r, AtControl c')))"

definition any_Accept :: "(any_source, source_env) source_accept" where
  "any_Accept src e =
     (case src of InFile f \<Rightarrow> InFile (file_Accept f (envFile e)) | AtControl c \<Rightarrow> AtControl (http_Accept c (envControl e)))"

definition any_persisted :: "any_source \<Rightarrow> (int \<times> int) + string option" where
  "any_persisted src = (case src of InFile f \<Rightarrow> Inl (lastModTime f, lastSize f) | AtControl c \<Rightarrow> Inr (cacheFile c))"

text \<open>The report that goes with a load: none before the server exists.\<close>

definition with_gauges :: "SyncGauges option \<Rightarrow> source_env call_env \<Rightarrow> source_env call_env" where
  "with_gauges rep e = e\<lparr>srcEnv := (srcEnv e)\<lparr>envControl := (envControl (srcEnv e))\<lparr>gaugesNow := rep\<rparr>\<rparr>\<rparr>"

interpretation any_src: snapshot_source "any_Load parseText" any_Accept any_persisted
  by unfold_locales
    (auto simp: any_Load_def any_persisted_def split: any_source.splits prod.splits
      dest: file_src.load_commits_nothing http_src.load_commits_nothing)

text \<open>A restart begins with the cache its predecessor left, which is the file the snapshot path names.\<close>

definition new_source :: "Config \<Rightarrow> string option \<Rightarrow> any_source" where
  "new_source cfg onDisk =
     (if SnapshotSource cfg = SourceHTTP then AtControl \<lparr>cacheFile = onDisk, pending = None, delivered = False\<rparr>
      else InFile \<lparr>lastModTime = 0, lastSize = 0, pendingModTime = 0, pendingSize = 0\<rparr>)"

section \<open>Starting\<close>

datatype startup_error =
    BadConfiguration "string list"
  | NoDocument "source_error store_error"
  | NoSpool

type_synonym server = "(any_source, source_error) Server"

definition startup ::
  "readers \<Rightarrow> environment \<Rightarrow> source_env call_env \<Rightarrow> string option \<Rightarrow> string option \<Rightarrow> bool \<Rightarrow>
     startup_error + Config \<times> server" where
  "startup rd env e onDisk hwFile spoolOpens =
     (case FromEnv env of
        Inl errs \<Rightarrow> Inl (BadConfiguration errs)
      | Inr cfg \<Rightarrow>
          (case Open rd (any_Load (parse rd)) any_Accept (with_gauges None e) (new_source cfg onDisk) hwFile
                  \<lparr>KnownUpstreams = Some (UpstreamRefs cfg),
                   Options.AllowGenerationReset = Config.AllowGenerationReset cfg,
                   FromControlPlane = (SnapshotSource cfg = SourceHTTP)\<rparr> of
             Inl err \<Rightarrow> Inl (NoDocument err)
           | Inr store \<Rightarrow>
               (case cur store of
                  None \<Rightarrow> Inl (NoDocument NothingToServe)
                | Some st \<Rightarrow>
                    if \<not> spoolOpens then Inl NoSpool
                    else Inr (cfg, SetBodySink
                      (if BodyCapture cfg then Some (new_Sink (nat (BodyQueueSize cfg)) (BodyBatchSize cfg)) else None)
                      (New_Server cfg store st)))))"

section \<open>The poll\<close>

text \<open>What the report says beside the server: when the process started, the reporter's own gauges, the clock.\<close>

record reported =
  rpStartedAt :: int
  rpReporter :: "(int \<times> Gauges) option"
  rpClock :: "nat \<Rightarrow> int"

definition instant_or_zero :: "int option \<Rightarrow> int" where
  "instant_or_zero t = (case t of None \<Rightarrow> 0 | Some n \<Rightarrow> n)"

definition probe_seconds :: "Config \<Rightarrow> string \<Rightarrow> int" where
  "probe_seconds cfg ref = (case map_of (Upstreams cfg) ref of None \<Rightarrow> 0 | Some u \<Rightarrow> ProbeInterval u div second)"

definition sync_gauges ::
  "Config \<Rightarrow> ('err store_error \<Rightarrow> string) \<Rightarrow> reported \<Rightarrow> ('s, 'err) Server \<Rightarrow> SyncGauges \<times> ('s, 'err) Server" where
  "sync_gauges cfg errText rp s0 =
     (case UpstreamObservations (UpstreamRefs cfg) (probe_seconds cfg) (rpClock rp) (watching s0) of
        ((format, ups), h) \<Rightarrow>
          let s = watched h s0;
              g = SyncGauges_zero
                \<lparr>gInFlight := server_InFlight s, gMaxInFlight := MaxInFlight cfg, gUpstreamRefs := UpstreamRefs cfg,
                 gRejectedEntries := int (RejectedEntries (svStore s)), gReloadFailures := reloadFailures (svStore s),
                 gLastError := (case lastError (svStore s) of None \<Rightarrow> [] | Some err \<Rightarrow> errText err),
                 gStartedAt := rpStartedAt rp, gSpoolWriteFailures := spoolWriteFailures (meters (svGateway s)),
                 gUpstreamObservationFormat := format, gUpstreams := ups,
                 gBodiesDropped := Dropped (bodySink (svGateway s))\<rparr>
          in (case rpReporter rp of
                None \<Rightarrow> g
              | Some (shipFails, q) \<Rightarrow>
                  g\<lparr>gUsageShipFailures := shipFails, gLastUsageShipSuccessAt := instant_or_zero (LastSuccessAt q),
                    gUsageQueueObservedAt := instant_or_zero (QueueObservedAt q),
                    gOldestUnshippedEventAt := instant_or_zero (OldestUnshippedAt q),
                    gQueuedUsageEvents := QueuedEvents q, gQueuedUsageBytes := QueuedBytes q,
                    gUsageQueueScanFailures := QueueScanFailures q\<rparr>, s))"

text \<open>The handlers serve what the store has published.\<close>

definition adopt :: "('s, 'err) Server \<Rightarrow> ('s, 'err) Server" where
  "adopt s = (case cur (svStore s) of None \<Rightarrow> s | Some st \<Rightarrow> on_gateway (\<lambda>g. g\<lparr>snap := st\<rparr>) s)"

definition poll ::
  "readers \<Rightarrow> (source_error store_error \<Rightarrow> string) \<Rightarrow> Config \<Rightarrow> reported \<Rightarrow> source_env call_env \<Rightarrow> server \<Rightarrow> server" where
  "poll rd errText cfg rp e s0 =
     (let (rep, s) = (if SnapshotSource cfg = SourceHTTP
                         then (case sync_gauges cfg errText rp s0 of (g, s) \<Rightarrow> (Some g, s)) else (None, s0))
      in adopt (s\<lparr>svStore := Refresh rd (any_Load (parse rd)) any_Accept (with_gauges rep e) (svStore s)\<rparr>))"

section \<open>Stopping\<close>

text \<open>
  The listeners have stopped and every handler has returned; the drain begins, and the lookups end in the order
  and with the prices given, each recording its event, before the spool is closed.
\<close>

definition DrainCostLookups :: "request_world \<Rightarrow> (nat \<times> string) list \<Rightarrow> gateway \<Rightarrow> gateway" where
  "DrainCostLookups w lookup_ends g =
     fold (\<lambda>(i, cost). price_found w i cost) lookup_ends (g\<lparr>costLookups := start_drain (costLookups g)\<rparr>)"

end
