(* ===== verification/Service.thy ===== *)
theory Service
  imports Gateway
begin

text \<open>
  The life of a gateway from its start to its end: what happens to it one thing after another, a log of the
  requests it was sent, and what holds along every such life. A handler is one step here; how requests
  interleave inside the limiter, the pools and the capture queue is in those components' theories.
\<close>

section \<open>What happens\<close>

record service =
  svcConfig :: Config
  svcLibrary :: library
  svcReaders :: readers
  svcErrText :: "source_error store_error \<Rightarrow> string"
  svcDecode :: "string \<Rightarrow> json option"
  svcFloat :: "string \<Rightarrow> rat option"

text \<open>
  A request to the public or to the admin listener, a poll, a probe, a wake of the catalog's loop, the end of a
  lookup, and what the capture loop has sent or lost.
\<close>

datatype happening =
    Arrives bool arrival
  | Polls reported "source_env call_env"
  | Probes string int int probe_answer
  | Wakes int catalog_answer bool
  | PriceEnds request_world nat string
  | CapturesLeave nat nat

text \<open>A request in the log: the server it came to, what it was, how it was answered, and what was sent for it.\<close>

record log_entry =
  enServer :: server
  enAdmin :: bool
  enArrival :: arrival
  enAnswer :: answer
  enSent :: "sent_attempt list"

definition listener :: "bool \<Rightarrow> (string \<times> handler) list" where
  "listener admin = (if admin then AdminHandler else Handler)"

definition captures_leave :: "nat \<Rightarrow> nat \<Rightarrow> Sink \<Rightarrow> Sink" where
  "captures_leave n lost k =
     k\<lparr>queue := drop n (queue k), queuedBytes := queuedBytes k - record_bytes (take n (queue k)), sinkDropped := sinkDropped k + int lost\<rparr>"

definition happen :: "service \<Rightarrow> happening \<Rightarrow> server \<times> log_entry list \<Rightarrow> server \<times> log_entry list" where
  "happen svc h sl =
     (case sl of (s, past) \<Rightarrow>
        (case h of
           Arrives admin ar \<Rightarrow>
             (case serve (svcLibrary svc) (svcErrText svc) (svcConfig svc) (listener admin) ar s of
                (ans, s', att) \<Rightarrow>
                  (s', past @ [\<lparr>enServer = s, enAdmin = admin, enArrival = ar, enAnswer = ans, enSent = att\<rparr>]))
         | Polls rp e \<Rightarrow> (poll (svcReaders svc) (svcErrText svc) (svcConfig svc) rp e s, past)
         | Probes ref started latency ans \<Rightarrow> (probe_upstream (svcDecode svc) ref started latency ans s, past)
         | Wakes now ans shutting \<Rightarrow> (wake_catalog (svcDecode svc) (svcFloat svc) (svcConfig svc) now ans shutting s, past)
         | PriceEnds w i cost \<Rightarrow> (on_gateway (price_found w i cost) s, past)
         | CapturesLeave n lost \<Rightarrow>
             (on_gateway (\<lambda>g. g\<lparr>bodySink := map_option (captures_leave n lost) (bodySink g)\<rparr>) s, past)))"

definition life :: "service \<Rightarrow> happening list \<Rightarrow> server \<Rightarrow> server \<times> log_entry list" where
  "life svc hs s = fold (happen svc) hs (s, [])"

text \<open>The spool can be written whenever something is recorded.\<close>

definition spool_writes :: "happening \<Rightarrow> bool" where
  "spool_writes h =
     (case h of Arrives _ ar \<Rightarrow> spoolOK (pwBase (arWorld ar)) | PriceEnds w _ _ \<Rightarrow> spoolOK w | _ \<Rightarrow> True)"

section \<open>Between requests\<close>

text \<open>
  The handlers serve the store's document; nobody is in flight; no slot is held and no key has a request under way.
\<close>

definition at_rest :: "server \<Rightarrow> bool" where
  "at_rest s \<longleftrightarrow> cur (svStore s) = Some (snap (svGateway s)) \<and> inflight (svGateway s) = 0 \<and>
     gw_inv (svGateway s) \<and> pool_inv (pgLarge (svPass s)) \<and>
     Large_Body.leases (chatLarge (svGateway s)) = {} \<and> Large_Body.leases (pgLarge (svPass s)) = {} \<and>
     (\<forall>k. InFlight k (limiter (svGateway s)) = 0)"

text \<open>Every event held, in the spool or in a lookup; those in lookups belong to someone.\<close>

definition held :: "gateway \<Rightarrow> Event multiset" where
  "held g = mset (spooled g) + mset (map lkEvent (lookups (costLookups g)))"

definition owned_lookups :: "gateway \<Rightarrow> bool" where
  "owned_lookups g \<longleftrightarrow> list_all (\<lambda>lk. \<not> unattributed (lkEvent lk)) (lookups (costLookups g))"

lemma held_books: "books g' = books g \<Longrightarrow> held g' = held g \<and> owned_lookups g' = owned_lookups g"
  by (simp add: books_def held_def owned_lookups_def)

lemma held_booked:
  "booked g g' e \<Longrightarrow> \<not> unattributed e \<Longrightarrow> owned_lookups g \<Longrightarrow>
     held g' = add_mset e (held g) \<and> owned_lookups g' \<and> books g' \<noteq> books g"
  by (auto simp: booked_def books_def held_def owned_lookups_def)

lemma price_found_held:
  assumes "spoolOK w" "owned_lookups g"
  shows "image_mset stamp (held (price_found w i cost g)) = image_mset stamp (held g) \<and> owned_lookups (price_found w i cost g)"
proof (cases "i < length (lookups (costLookups g))")
  case True
  let ?ls = "lookups (costLookups g)"
  let ?lk = "?ls ! i"
  obtain e c where f: "finish_lookup i cost (costLookups g) = (Some e, c)" "lookups c = take i ?ls @ drop (Suc i) ?ls"
    "e = (if cost \<noteq> [] then (lkEvent ?lk)\<lparr>CostUsd := cost\<rparr> else lkEvent ?lk)"
    using True by (simp add: finish_lookup_def Let_def)
  have own: "\<not> unattributed (lkEvent ?lk)" using assms(2) True by (simp add: owned_lookups_def list_all_length)
  then have e: "stamp e = stamp (lkEvent ?lk)" "\<not> unattributed (e\<lparr>LatencyMs := n\<rparr>)" "stamp (e\<lparr>LatencyMs := n\<rparr>) = stamp e" for n
    by (auto simp: f(3) stamp_def unattributed_def)
  have split: "mset ?ls = add_mset ?lk (mset (take i ?ls @ drop (Suc i) ?ls))"
    using id_take_nth_drop [OF True] by (metis mset.simps(2) mset_append union_mset_add_mset_right)
  have pf: "price_found w i cost g = record_event (w\<lparr>latencyMs := LatencyMs e\<rparr>) e (g\<lparr>costLookups := c\<rparr>)"
    by (simp add: price_found_def f(1))
  have "spooled (price_found w i cost g) = spooled g @ [e\<lparr>LatencyMs := LatencyMs e\<rparr>]"
    "lookups (costLookups (price_found w i cost g)) = lookups c"
    using assms(1) e(2) unfolding pf by (auto simp: record_event_def unattributed_def Let_def)
  moreover have "image_mset (\<lambda>lk. stamp (lkEvent lk)) (mset ?ls) =
      add_mset (stamp e) (image_mset (\<lambda>lk. stamp (lkEvent lk)) (mset (lookups c)))"
    using e(1) by (simp add: split f(2))
  moreover have "set (lookups c) \<subseteq> set ?ls" using f(2) by (auto dest: in_set_takeD in_set_dropD)
  ultimately show ?thesis
    using assms(2) e(3) by (auto simp: held_def owned_lookups_def list_all_iff image_mset.compositionality comp_def)
qed (simp add: price_found_def finish_lookup_def assms)


section \<open>Whose request it is\<close>

definition found :: "(string \<times> handler) list \<Rightarrow> arrival \<Rightarrow> handler option" where
  "found table ar =
     (if unescape (arTarget ar) = None then None
      else case mux table (rqMethod (arRequest ar)) (arTarget ar) of Handled h \<Rightarrow> Some h | _ \<Rightarrow> None)"

text \<open>The surface a request is for and the key it presents, if its handler would account for it.\<close>

definition presented :: "pass_world \<Rightarrow> state \<Rightarrow> handler option \<Rightarrow> wire_request \<Rightarrow> (string \<times> Key) option" where
  "presented w st h rq =
     (case h of
        Some (ProtocolRoute p) \<Rightarrow>
          if rqMethod rq = ''POST'' then map_option (Pair (endpoint p)) (caller (pwBase w) p rq st) else None
      | Some (PassRoute rt) \<Rightarrow>
          if rqMethod rq = rtMethod rt then map_option (Pair (rtName rt)) (pass_caller w rt rq st) else None
      | _ \<Rightarrow> None)"

text \<open>The account a request owes: its identifier, the generation it was served under, its key, surface and time, the attempts made.\<close>

definition owed ::
  "pass_world \<Rightarrow> state \<Rightarrow> handler option \<Rightarrow> wire_request \<Rightarrow> answer \<Rightarrow> nat \<Rightarrow>
     (string \<times> int \<times> string \<times> string \<times> int \<times> int option) option" where
  "owed w st h rq ans n =
     (if ans = Replied Panicked then None
      else case presented w st h rq of
        None \<Rightarrow> None
      | Some (surface, key) \<Rightarrow>
          Some (newUUID (pwBase w), Generation (doc st), KeyID key, surface, startAt (pwBase w), Some (int n)))"

definition account :: "service \<Rightarrow> log_entry \<Rightarrow> (string \<times> int \<times> string \<times> string \<times> int \<times> int option) option" where
  "account svc en =
     owed (configured_world (svcLibrary svc) (svcConfig svc) (arWorld (enArrival en))) (snap (svGateway (enServer en)))
       (found (listener (enAdmin en)) (enArrival en)) (arRequest (enArrival en)) (enAnswer en) (length (enSent en))"

definition keyed :: "state \<Rightarrow> bool" where
  "keyed st \<longleftrightarrow> (\<forall>h k. map_of (byHash st) h = Some k \<longrightarrow> KeyID k \<noteq> [])"

lemma caller_keyed:
  "keyed st \<Longrightarrow> caller w p rq st = Some key \<Longrightarrow> KeyID key \<noteq> []"
  "keyed st \<Longrightarrow> pass_caller pw route rq st = Some key \<Longrightarrow> KeyID key \<noteq> []"
  by (auto simp: keyed_def caller_def pass_caller_def admitKey_def admitPassthrough_def authenticateToken_def
      split: if_splits sum.splits prod.splits option.splits)

text \<open>A caller who is nobody's is refused, and nothing is booked.\<close>

lemma nobody_books_nothing:
  assumes "caller w p rq (snap g) = None" "serveProtocol w cfg p rq g = (r, g', s)"
  shows "books g' = books g"
proof -
  have "\<exists>h. admitKey (hashToken w) (authAt w) p (rqHeader rq) (snap g) = Inl (h, None) \<and> haltStatus h = StatusAuthRejected"
    using assms(1)
    by (auto simp: caller_def admitKey_def authenticateToken_def refuse_def split: if_splits sum.splits prod.splits option.splits)
  then show ?thesis
    using assms(2) by (auto simp: serveProtocol_def halt_with_def halted_def record_event_def books_def Let_def split: if_splits)
qed

lemma nobody_books_nothing_passthrough:
  assumes "pass_caller w route rq (snap (pgGateway pg)) = None" "handlePassthrough w cfg route rq pg = (r, pg', s)"
  shows "books (pgGateway pg') = books (pgGateway pg)"
proof -
  have "\<exists>h axis. admitPassthrough (hashToken (pwBase w)) (authAt (pwBase w)) route (rqHeader rq) (snap (pgGateway pg)) =
      Inl (h, None, axis) \<and> haltStatus h = StatusAuthRejected"
    using assms(1)
    by (auto simp: pass_caller_def admitPassthrough_def authenticateToken_def refuse_def
        split: if_splits sum.splits prod.splits option.splits)
  then show ?thesis
    using assms(2) by (auto simp: handlePassthrough_def halt_with_def halted_def record_event_def books_def Let_def split: if_splits)
qed

lemma accounted_held:
  assumes "accounted w ev g r g'" "owned_lookups g" "EvKeyID ev \<noteq> []"
  shows "image_mset stamp (held g') = add_mset (stamp ev) (image_mset stamp (held g)) \<and> owned_lookups g'"
proof -
  obtain e where e: "stamp e = stamp ev" "if unattributed e then books g' = books g else booked g g' e"
    using assms(1) by (auto simp: accounted_def)
  then have "\<not> unattributed e" using assms(3) by (auto simp: stamp_def unattributed_def)
  then show ?thesis using e held_booked [of g g' e] assms(2) by simp
qed

section \<open>One request keeps the books and the rest\<close>

text \<open>What every happening keeps: the rest between requests, and keys with ids.\<close>

definition sound :: "server \<Rightarrow> bool" where
  "sound s \<longleftrightarrow> at_rest s \<and> keyed (snap (svGateway s))"

definition accounts_held :: "server \<Rightarrow> (string \<times> int \<times> string \<times> string \<times> int \<times> int option) multiset" where
  "accounts_held s = image_mset stamp (held (svGateway s))"

text \<open>The books grow by what is owed, and the lookups still belong to someone.\<close>

definition books_grow ::
  "server \<Rightarrow> server \<Rightarrow> (string \<times> int \<times> string \<times> string \<times> int \<times> int option) list \<Rightarrow> bool" where
  "books_grow s s' owes \<longleftrightarrow>
     (owned_lookups (svGateway s) \<longrightarrow>
        owned_lookups (svGateway s') \<and> accounts_held s' = mset owes + accounts_held s)"

lemma books_grow_same: "books (svGateway s') = books (svGateway s) \<Longrightarrow> books_grow s s' []"
  by (drule held_books) (simp add: books_grow_def accounts_held_def)

lemma books_grow_trans: "books_grow s s1 l1 \<Longrightarrow> books_grow s1 s2 l2 \<Longrightarrow> books_grow s s2 (l1 @ l2)"
  by (auto simp: books_grow_def ac_simps)

abbreviation "list_of x \<equiv> case x of None \<Rightarrow> [] | Some y \<Rightarrow> [y]"

lemma serve_cases:
  assumes "serve lib errText cfg table ar s = (ans, s', att)"
  shows "s' = s \<and> att = [] \<and> found table ar = None \<and> ans \<noteq> Replied Panicked \<or>
    (\<exists>h path. found table ar = Some h \<and> handle lib errText cfg h path ar s = (ans, s', att))"
  using assms by (auto simp: serve_def found_def split: option.splits routed.splits)

lemma on_gateway_simps [simp]:
  "svGateway (on_gateway f s) = f (svGateway s)" "pgLarge (svPass (on_gateway f s)) = pgLarge (svPass s)"
  "svStore (on_gateway f s) = svStore s" "svCatalog (on_gateway f s) = svCatalog s"
  by (simp_all add: on_gateway_def)

lemma protocol_step:
  assumes "sound s" "serveProtocol (pwBase w) (pcBase pc) p rq (svGateway s) = (r, g, a)"
  shows "sound (on_gateway (\<lambda>_. g) s) \<and> snap g = snap (svGateway s)"
    and "spoolOK (pwBase w) \<Longrightarrow> books_grow s (on_gateway (\<lambda>_. g) s)
      (list_of (owed w (snap (svGateway s)) (Some (ProtocolRoute p)) rq (Replied r) (length a)))"
proof -
  let ?g = "svGateway s" and ?b = "pwBase w"
  let ?k = "caller ?b p rq (snap ?g)"
  have inv: "gw_inv ?g" "keyed (snap ?g)" using assms(1) by (simp_all add: sound_def at_rest_def)
  have load: "load_kept None ?g g" by (rule serveProtocol_load [OF inv(1) assms(2)])
  then show "sound (on_gateway (\<lambda>_. g) s) \<and> snap g = snap (svGateway s)"
    using assms(1) by (simp add: sound_def at_rest_def load_kept_def)
  assume ok: "spoolOK (pwBase w)"
  have same: "books_grow s (on_gateway (\<lambda>_. g) s) []" if "books g = books ?g"
    using that by (intro books_grow_same) simp
  show "books_grow s (on_gateway (\<lambda>_. g) s)
      (list_of (owed w (snap (svGateway s)) (Some (ProtocolRoute p)) rq (Replied r) (length a)))"
  proof (cases "rqMethod rq = ''POST''")
    case False
    then have "g = ?g" using assms(2) by (simp add: serveProtocol_def)
    then show ?thesis using same False by (simp add: owed_def presented_def)
  next
    case True
    note acc = serveProtocol_accounts [OF ok True assms(2)]
    show ?thesis
    proof (cases "r = Panicked \<or> ?k = None")
      case True
      then have "books g = books ?g" using acc nobody_books_nothing [OF _ assms(2)] by (auto simp: accounts_def)
      then show ?thesis using same True by (auto simp: owed_def presented_def)
    next
      case False
      then obtain key where k: "?k = Some key" by blast
      let ?e = "(opening_event ?b (endpoint p) (snap ?g) (Some key))\<lparr>Attempts := Some (int (length a))\<rparr>"
      have "accounted ?b ?e ?g r g" using acc False k by (simp add: accounts_def)
      moreover have "EvKeyID ?e \<noteq> []" using caller_keyed(1) [OF inv(2) k] by (simp add: opening_event_def)
      ultimately have "owned_lookups ?g \<Longrightarrow> image_mset stamp (held g) = add_mset (stamp ?e) (image_mset stamp (held ?g)) \<and> owned_lookups g"
        using accounted_held by blast
      then show ?thesis
        using False k \<open>rqMethod rq = ''POST''\<close>
        by (simp add: books_grow_def accounts_held_def owed_def presented_def stamp_def opening_event_def)
    qed
  qed
qed

lemma pass_step:
  assumes "sound s" "handlePassthrough w pc rt rq (svPass s) = (r, pg, a)"
  shows "sound (s\<lparr>svPass := pg\<rparr>) \<and> snap (pgGateway pg) = snap (svGateway s)"
    and "spoolOK (pwBase w) \<Longrightarrow> books_grow s (s\<lparr>svPass := pg\<rparr>)
      (list_of (owed w (snap (svGateway s)) (Some (PassRoute rt)) rq (Replied r) (length a)))"
proof -
  let ?g = "svGateway s" and ?b = "pwBase w"
  let ?k = "pass_caller w rt rq (snap ?g)"
  have inv: "pool_inv (pgLarge (svPass s))" "keyed (snap ?g)" using assms(1) by (simp_all add: sound_def at_rest_def)
  show "sound (s\<lparr>svPass := pg\<rparr>) \<and> snap (pgGateway pg) = snap (svGateway s)"
    using handlePassthrough_quiet [OF inv(1) assms(2)] assms(1) by (auto simp: sound_def at_rest_def shared_def gw_inv_def)
  assume ok: "spoolOK (pwBase w)"
  show "books_grow s (s\<lparr>svPass := pg\<rparr>)
      (list_of (owed w (snap (svGateway s)) (Some (PassRoute rt)) rq (Replied r) (length a)))"
  proof (cases "rqMethod rq = rtMethod rt")
    case False
    then have "pg = svPass s" using assms(2) by (simp add: handlePassthrough_def Let_def)
    then show ?thesis using False by (simp add: owed_def presented_def books_grow_def)
  next
    case True
    note acc = handlePassthrough_accounts [OF ok inv(1) assms(2) True]
    show ?thesis
    proof (cases ?k)
      case None
      then have "books (pgGateway pg) = books ?g" using nobody_books_nothing_passthrough [OF _ assms(2)] by blast
      then show ?thesis using None True books_grow_same [of "s\<lparr>svPass := pg\<rparr>" s] by (simp add: owed_def presented_def)
    next
      case (Some key)
      let ?e = "(opening_event ?b (rtName rt) (snap ?g) (Some key))\<lparr>Attempts := Some (int (length a))\<rparr>"
      have "accounted ?b ?e ?g r (pgGateway pg)" using acc Some by simp
      moreover have "EvKeyID ?e \<noteq> []" using caller_keyed(2) [OF inv(2) Some] by (simp add: opening_event_def)
      ultimately have "owned_lookups ?g \<Longrightarrow>
          image_mset stamp (held (pgGateway pg)) = add_mset (stamp ?e) (image_mset stamp (held ?g)) \<and> owned_lookups (pgGateway pg)"
        using accounted_held by blast
      then show ?thesis
        using acc Some True
        by (simp add: books_grow_def accounts_held_def owed_def presented_def stamp_def opening_event_def)
    qed
  qed
qed

lemma serve_step:
  assumes "sound s" "serve lib errText cfg table ar s = (ans, s', att)"
  shows "sound s' \<and> snap (svGateway s') = snap (svGateway s) \<and> svStore s' = svStore s \<and>
    (spoolOK (pwBase (arWorld ar)) \<longrightarrow> books_grow s s' (list_of
       (owed (configured_world lib cfg (arWorld ar)) (snap (svGateway s)) (found table ar) (arRequest ar) ans (length att))))"
proof -
  let ?w = "configured_world lib cfg (arWorld ar)"
  have ok: "spoolOK (pwBase ?w) = spoolOK (pwBase (arWorld ar))" by (simp add: configured_world_def)
  consider "s' = s" "att = []" "found table ar = None"
    | h path where "found table ar = Some h" "handle lib errText cfg h path ar s = (ans, s', att)"
    using serve_cases [OF assms(2)] by (elim disjE exE conjE)
  then show ?thesis
  proof cases
    case 1
    then show ?thesis using assms(1) by (simp add: owed_def presented_def books_grow_same)
  next
    case (2 h path)
    show ?thesis
    proof (cases h)
      case (ProtocolRoute p)
      obtain r g a where r: "serveProtocol (pwBase ?w) (pcBase (server_config cfg)) p (arRequest ar) (svGateway s) = (r, g, a)"
        by (rule prod_cases3)
      then have "ans = Replied r" "s' = on_gateway (\<lambda>_. g) s" "length att = length a"
        using 2 ProtocolRoute by (auto simp: handle_def Let_def)
      then show ?thesis using protocol_step [OF assms(1) r] 2(1) ProtocolRoute ok by simp
    next
      case (PassRoute rt)
      obtain r pg a where r: "handlePassthrough ?w (server_config cfg) rt (arRequest ar) (svPass s) = (r, pg, a)"
        by (rule prod_cases3)
      then have "ans = Replied r" "s' = s\<lparr>svPass := pg\<rparr>" "length att = length a"
        using 2 PassRoute by (auto simp: handle_def Let_def)
      then show ?thesis using pass_step [OF assms(1) r] 2(1) PassRoute ok by simp
    qed (use 2 assms(1) in \<open>auto simp: handle_def Let_def owed_def presented_def books_grow_same\<close>)
  qed
qed

section \<open>Everything else that happens\<close>

abbreviation "served_by s \<equiv> snap (svGateway s)"

lemma sound_quiet:
  assumes "sound s" "shared (svGateway s') = shared (svGateway s)" "pgLarge (svPass s') = pgLarge (svPass s)"
    "svStore s' = svStore s" "books (svGateway s') = books (svGateway s)"
  shows "sound s' \<and> served_by s' = served_by s \<and> books_grow s s' []"
  using assms books_grow_same [OF assms(5)] by (auto simp: sound_def at_rest_def shared_def gw_inv_def)

lemma watched_quiet:
  "shared (svGateway (watched h s)) = shared (svGateway s)" "pgLarge (svPass (watched h s)) = pgLarge (svPass s)"
  "svStore (watched h s) = svStore s" "books (svGateway (watched h s)) = books (svGateway s)"
  by (simp_all add: watched_def on_gateway_def shared_def)

lemma price_ends_sound:
  assumes "sound s"
  shows "sound (on_gateway (price_found w i cost) s) \<and> served_by (on_gateway (price_found w i cost) s) = served_by s"
    and "spoolOK w \<Longrightarrow> books_grow s (on_gateway (price_found w i cost) s) []"
proof -
  have "shared (price_found w i cost g) = shared g" for g
    by (simp add: price_found_def split: option.splits prod.splits)
  then show "sound (on_gateway (price_found w i cost) s) \<and> served_by (on_gateway (price_found w i cost) s) = served_by s"
    using assms by (auto simp: sound_def at_rest_def shared_def gw_inv_def)
  show "books_grow s (on_gateway (price_found w i cost) s) []" if "spoolOK w"
    using price_found_held [OF that] by (simp add: books_grow_def accounts_held_def)
qed

lemma build_keyed:
  assumes "build pt now raw kn c = Inr st" shows "keyed st"
proof (rule build_Inr [OF assms])
  fix rawKeys dropped keys dropped'
  assume "load_entries c (read_key pt) TokenHash 0 rawKeys [] dropped = Inr (keys, dropped')" "Keys (doc st) = keys"
  then have "list_all wf_key (Keys (doc st))" using keys_in.entries_good by (fastforce simp: list_all_iff)
  then show ?thesis using build_index(1) [OF assms] by (auto simp: keyed_def list_all_iff wf_key_def)
qed

lemma Refresh_serves:
  assumes "cur st = Some x"
  obtains y where "cur (Refresh rd load accept e st) = Some y" "keyed x \<Longrightarrow> keyed y"
    "\<not> allowGenReset st \<Longrightarrow> Generation (doc x) \<le> Generation (doc y)"
    "allowGenReset (Refresh rd load accept e st) = allowGenReset st"
proof -
  obtain r st1 where r: "reload rd load accept e st = (r, st1)" by fastforce
  then show ?thesis
  proof (cases rule: reload_cases)
    case (Refused err out src)
    then show ?thesis using that [of x] r assms by (simp add: Refresh_def)
  next
    case (Unchanged src)
    then show ?thesis using that [of x] r assms by (simp add: Refresh_def)
  next
    case (Applied raw src y)
    then have "cur (Refresh rd load accept e st) = Some y" "allowGenReset (Refresh rd load accept e st) = allowGenReset st"
      "\<not> allowGenReset st \<Longrightarrow> Generation (doc x) \<le> Generation (doc y)"
      using r assms by (auto simp: Refresh_def served_generation_def)
    then show ?thesis using that build_keyed [OF Applied(3)] by blast
  qed
qed

lemma poll_sound:
  assumes "sound s"
  shows "sound (poll rd errText cfg rp e s) \<and> books_grow s (poll rd errText cfg rp e s) [] \<and>
    allowGenReset (svStore (poll rd errText cfg rp e s)) = allowGenReset (svStore s) \<and>
    (\<not> allowGenReset (svStore s) \<longrightarrow> Generation (doc (served_by s)) \<le> Generation (doc (served_by (poll rd errText cfg rp e s))))"
proof -
  obtain rep s1 where s1: "(if SnapshotSource cfg = SourceHTTP
      then (case sync_gauges cfg errText rp s of (g, s) \<Rightarrow> (Some g, s)) else (None, s)) = (rep, s1)" by fastforce
  have "s1 = s \<or> (\<exists>h. s1 = watched h s)"
    using s1 by (auto simp: sync_gauges_def Let_def split: if_splits prod.splits)
  then have q: "sound s1" "served_by s1 = served_by s" "books_grow s s1 []" "svStore s1 = svStore s"
    using sound_quiet [OF assms watched_quiet] watched_quiet(3) assms books_grow_same [of s s] by auto
  have c: "cur (svStore s1) = Some (served_by s1)" "keyed (served_by s1)" using q(1) by (simp_all add: sound_def at_rest_def)
  obtain y where y: "cur (Refresh rd (any_Load (parse rd)) any_Accept (with_gauges rep e) (svStore s1)) = Some y" "keyed y"
    "\<not> allowGenReset (svStore s1) \<Longrightarrow> Generation (doc (served_by s1)) \<le> Generation (doc y)"
    "allowGenReset (Refresh rd (any_Load (parse rd)) any_Accept (with_gauges rep e) (svStore s1)) = allowGenReset (svStore s1)"
    using Refresh_serves [OF c(1)] c(2) by metis
  have p: "poll rd errText cfg rp e s =
      on_gateway (\<lambda>g. g\<lparr>snap := y\<rparr>) (s1\<lparr>svStore := Refresh rd (any_Load (parse rd)) any_Accept (with_gauges rep e) (svStore s1)\<rparr>)"
    unfolding poll_def s1 by (simp add: adopt_def y(1))
  have "books_grow s1 (poll rd errText cfg rp e s) []"
    unfolding p by (rule books_grow_same) (simp add: books_def on_gateway_def)
  then have "books_grow s (poll rd errText cfg rp e s) []" using books_grow_trans [OF q(3)] by fastforce
  then show ?thesis
    using q y by (simp add: p sound_def at_rest_def gw_inv_def on_gateway_def)
qed

section \<open>Lives\<close>

text \<open>An entry of the log is a request served in a sound state.\<close>

definition served_entry :: "service \<Rightarrow> log_entry \<Rightarrow> bool" where
  "served_entry svc en \<longleftrightarrow> sound (enServer en) \<and> (\<exists>s'. serve (svcLibrary svc) (svcErrText svc) (svcConfig svc)
     (listener (enAdmin en)) (enArrival en) (enServer en) = (enAnswer en, s', enSent en))"

definition generation_of :: "server \<Rightarrow> int" where
  "generation_of s = Generation (doc (served_by s))"

definition follows :: "server \<Rightarrow> server \<Rightarrow> bool" where
  "follows s s' \<longleftrightarrow> allowGenReset (svStore s') = allowGenReset (svStore s) \<and>
     (\<not> allowGenReset (svStore s) \<longrightarrow> generation_of s \<le> generation_of s')"

lemma follows_refl: "follows s s" and follows_trans: "follows s s' \<Longrightarrow> follows s' s'' \<Longrightarrow> follows s s''"
  by (auto simp: follows_def)

text \<open>What a stretch of life does: the state stays sound, and the books grow by what its requests owe.\<close>

definition stretch :: "service \<Rightarrow> bool \<Rightarrow> server \<Rightarrow> server \<Rightarrow> log_entry list \<Rightarrow> bool" where
  "stretch svc spools s s' new \<longleftrightarrow> sound s' \<and> follows s s' \<and>
     (spools \<longrightarrow> books_grow s s' (List.map_filter (account svc) new)) \<and>
     (\<forall>en\<in>set new. served_entry svc en \<and> follows s (enServer en) \<and> follows (enServer en) s')"

lemma map_filter_append: "List.map_filter f (xs @ ys) = List.map_filter f xs @ List.map_filter f ys"
  by (simp add: List.map_filter_def)

lemma stretch_trans:
  assumes "stretch svc b1 s s1 l1" "stretch svc b2 s1 s2 l2"
  shows "stretch svc (b1 \<and> b2) s s2 (l1 @ l2)"
proof -
  have f: "follows s s1" "follows s1 s2" using assms by (simp_all add: stretch_def)
  have "follows s (enServer en) \<and> follows (enServer en) s2" if "en \<in> set l1 \<union> set l2" for en
    using that assms follows_trans [OF f(1), of "enServer en"] follows_trans [OF _ f(2), of "enServer en"]
    by (auto simp: stretch_def)
  then show ?thesis
    using assms follows_trans [OF f] books_grow_trans
    by (auto simp: stretch_def map_filter_append)
qed

lemma stretch_quiet:
  assumes "sound s' \<and> served_by s' = served_by s" "b \<Longrightarrow> books_grow s s' []" "svStore s' = svStore s"
  shows "stretch svc b s s' []"
  using assms by (simp add: stretch_def follows_def generation_of_def List.map_filter_simps)

lemma happen_stretch:
  assumes "sound s"
  shows "\<exists>s' new. happen svc h (s, past) = (s', past @ new) \<and> stretch svc (spool_writes h) s s' new"
proof (cases h)
  case (Arrives admin ar)
  obtain ans s' att where r: "serve (svcLibrary svc) (svcErrText svc) (svcConfig svc) (listener admin) ar s = (ans, s', att)"
    by (rule prod_cases3)
  let ?en = "\<lparr>enServer = s, enAdmin = admin, enArrival = ar, enAnswer = ans, enSent = att\<rparr>"
  note st = serve_step [OF assms r]
  have "served_entry svc ?en" using assms r by (simp add: served_entry_def)
  moreover have "follows s s'" using st by (simp add: follows_def generation_of_def)
  moreover have "List.map_filter (account svc) [?en] = list_of (account svc ?en)"
    by (simp add: List.map_filter_simps split: option.splits)
  ultimately have "stretch svc (spool_writes h) s s' [?en]"
    using st follows_refl by (simp add: stretch_def account_def spool_writes_def Arrives)
  moreover have "happen svc h (s, past) = (s', past @ [?en])" using r by (simp add: happen_def Arrives)
  ultimately show ?thesis by blast
next
  case (Polls rp e)
  have "stretch svc (spool_writes h) s (poll (svcReaders svc) (svcErrText svc) (svcConfig svc) rp e s) []"
    using poll_sound [OF assms] by (simp add: stretch_def follows_def generation_of_def List.map_filter_simps)
  then show ?thesis by (simp add: happen_def Polls)
next
  case (Probes ref started latency ans)
  have "stretch svc (spool_writes h) s (probe_upstream (svcDecode svc) ref started latency ans s) []"
    unfolding probe_upstream_def using sound_quiet [OF assms watched_quiet] watched_quiet(3) by (intro stretch_quiet) auto
  then show ?thesis by (simp add: happen_def Probes)
next
  case (Wakes now ans shutting)
  have "stretch svc (spool_writes h) s (wake_catalog (svcDecode svc) (svcFloat svc) (svcConfig svc) now ans shutting s) []"
    using assms by (intro stretch_quiet books_grow_same) (simp_all add: wake_catalog_def sound_def at_rest_def)
  then show ?thesis by (simp add: happen_def Wakes)
next
  case (PriceEnds w i cost)
  have "stretch svc (spool_writes h) s (on_gateway (price_found w i cost) s) []"
    using price_ends_sound [OF assms] PriceEnds by (intro stretch_quiet) (simp_all add: spool_writes_def)
  then show ?thesis by (simp add: happen_def PriceEnds)
next
  case (CapturesLeave n lost)
  let ?s = "on_gateway (\<lambda>g. g\<lparr>bodySink := map_option (captures_leave n lost) (bodySink g)\<rparr>) s"
  have "sound ?s \<and> served_by ?s = served_by s \<and> books_grow s ?s []"
    by (rule sound_quiet [OF assms]) (simp_all add: shared_def books_def)
  then have "stretch svc (spool_writes h) s ?s []" by (intro stretch_quiet) simp_all
  then show ?thesis by (simp add: happen_def CapturesLeave)
qed

lemma life_stretch:
  assumes "sound s"
  shows "\<exists>s' new. fold (happen svc) hs (s, past) = (s', past @ new) \<and> stretch svc (list_all spool_writes hs) s s' new"
  using assms
proof (induction hs arbitrary: s past)
  case Nil
  then show ?case by (simp add: stretch_def follows_refl List.map_filter_simps books_grow_same)
next
  case (Cons h hs)
  obtain s1 new1 where h: "happen svc h (s, past) = (s1, past @ new1)" "stretch svc (spool_writes h) s s1 new1"
    using happen_stretch [where svc = svc and past = past and h = h, OF Cons.prems(1)] by blast
  moreover have "sound s1" using h(2) by (simp add: stretch_def)
  ultimately obtain s2 new2 where "fold (happen svc) hs (s1, past @ new1) = (s2, (past @ new1) @ new2)"
    "stretch svc (list_all spool_writes hs) s1 s2 new2"
    using Cons.IH [of s1 "past @ new1"] by blast
  then show ?case using h stretch_trans [OF h(2)] by (intro exI [of _ s2] exI [of _ "new1 @ new2"]) simp
qed

lemma life_append:
  assumes "life svc (hs @ hs') s = (s2, l)"
  obtains s1 l1 l2 where "life svc hs s = (s1, l1)" "life svc hs' s1 = (s2, l2)" "l = l1 @ l2"
proof -
  have add: "happen svc h (t, past) = (fst (happen svc h (t, [])), past @ snd (happen svc h (t, [])))" for h t past
    by (simp add: happen_def split: happening.splits prod.splits)
  have fold: "fold (happen svc) xs (t, past) = (fst (fold (happen svc) xs (t, [])), past @ snd (fold (happen svc) xs (t, [])))" for xs t past
  proof (induction xs arbitrary: t past)
    case (Cons x xs)
    obtain t1 l1 where x: "happen svc x (t, []) = (t1, l1)" by fastforce
    have "happen svc x (t, past) = (t1, past @ l1)" using add [of x t past] x by simp
    then show ?case using Cons.IH [of t1 "past @ l1"] Cons.IH [of t1 l1] x by simp
  qed simp
  obtain s1 l1 where 1: "life svc hs s = (s1, l1)" by fastforce
  obtain s2' l2 where 2: "life svc hs' s1 = (s2', l2)" by fastforce
  have "life svc (hs @ hs') s = (s2', l1 @ l2)" using 1 2 fold [of hs' s1 l1] by (simp add: life_def)
  then show ?thesis using that [OF 1] 2 assms by simp
qed



text \<open>A start that succeeds.\<close>

lemma Open_serves:
  assumes "Open rd load accept e src file opts = Inr s"
  obtains y where "cur s = Some y" "keyed y" "allowGenReset s = Options.AllowGenerationReset opts"
    "\<not> Options.AllowGenerationReset opts \<Longrightarrow> readHighWater file \<le> Generation (doc y)"
proof -
  obtain s0 where s0: "reload rd load accept e s0 = (None, s)" "cur s0 = None" "highWater s0 = readHighWater file"
    "allowGenReset s0 = Options.AllowGenerationReset opts"
    using assms by (auto simp: Open_def Let_def split: prod.splits option.splits)
  from s0(1) show ?thesis
  proof (cases rule: reload_cases)
    case (Applied raw src y)
    then show ?thesis using that [of y] s0 build_keyed [OF Applied(3)] by auto
  qed (use s0(2) in simp_all)
qed

lemma startup_sound:
  assumes "startup rd env e onDisk hwFile ok = Inr (cfg, s)"
  shows "sound s \<and> owned_lookups (svGateway s) \<and> accounts_held s = {#} \<and> FromEnv env = Inr cfg \<and>
    allowGenReset (svStore s) = Config.AllowGenerationReset cfg \<and>
    (\<not> Config.AllowGenerationReset cfg \<longrightarrow> readHighWater hwFile \<le> generation_of s)"
proof -
  obtain store st sink where o: "FromEnv env = Inr cfg" "cur store = Some st" "s = SetBodySink sink (New_Server cfg store st)"
    "Open rd (any_Load (parse rd)) any_Accept (with_gauges None e) (new_source cfg onDisk) hwFile
       \<lparr>KnownUpstreams = Some (UpstreamRefs cfg), Options.AllowGenerationReset = Config.AllowGenerationReset cfg,
        FromControlPlane = (SnapshotSource cfg = SourceHTTP)\<rparr> = Inr store"
    using assms by (auto simp: startup_def split: sum.splits option.splits if_splits)
  have "keyed st \<and> allowGenReset store = Config.AllowGenerationReset cfg \<and>
      (\<not> Config.AllowGenerationReset cfg \<longrightarrow> readHighWater hwFile \<le> Generation (doc st))"
    using o(2) by (rule_tac Open_serves [OF o(4)]) auto
  moreover have "Large_Body.leases (newLargeBodySlots n) = {}" for n by (simp add: newLargeBodySlots_def Large_Body.leases_def)
  moreover have "InFlight k Rate_Limits.New = 0" for k by code_simp
  ultimately show ?thesis
    using o(1,2)
    by (simp add: o(3) SetBodySink_def New_Server_def sound_def at_rest_def on_gateway_def gw_inv_def newLargeBodySlots_inv New_inv
        accounts_held_def held_def owned_lookups_def newGenerationCosts_def generation_of_def)
qed

lemma life_of_gateway:
  assumes "startup rd env e onDisk hwFile ok = Inr (cfg, s0)" "life svc hs s0 = (s, es)"
  shows "stretch svc (list_all spool_writes hs) s0 s es"
proof -
  have "sound s0" using startup_sound [OF assms(1)] by blast
  from life_stretch [OF this, of svc hs "[]"] show ?thesis using assms(2) by (auto simp: life_def)
qed

section \<open>What goes out\<close>

lemma longest_in: "longest segs table = Some (pat, h) \<Longrightarrow> (pat, h) \<in> set table"
  by (induction segs table arbitrary: pat h rule: longest.induct) (auto split: option.splits if_splits prod.splits)

lemma found_in: "found table ar = Some h \<Longrightarrow> h \<in> snd ` set table"
  using longest_in by (force simp: found_def mux_def bind_eq_Some_conv split: if_splits routed.splits option.splits prod.splits)

text \<open>Only an entitled caller's request reaches an upstream, whichever listener, path and method it came by.\<close>

definition entitled_attempt :: "service \<Rightarrow> log_entry \<Rightarrow> sent_attempt \<Rightarrow> bool" where
  "entitled_attempt svc en a \<longleftrightarrow>
     (let w = configured_world (svcLibrary svc) (svcConfig svc) (arWorld (enArrival en));
          rq = arRequest (enArrival en); g = svGateway (enServer en)
      in case a of
           ToModel spec \<Rightarrow> \<exists>p\<in>set routes. found Handler (enArrival en) = Some (ProtocolRoute p) \<and>
             entitled (pwBase w) (pcBase (server_config (svcConfig svc))) p rq g spec
         | ToVendor pa \<Rightarrow> \<exists>rt. found Handler (enArrival en) = Some (PassRoute rt) \<and> enSent en = [a] \<and>
             vendor_entitled w rt rq (snap g) pa)"

definition sent_to :: "sent_attempt \<Rightarrow> Upstream" where
  "sent_to a = (case a of ToModel spec \<Rightarrow> specUpstream spec | ToVendor pa \<Rightarrow> paUpstream pa)"

lemma serve_entitled:
  assumes "serve (svcLibrary svc) (svcErrText svc) (svcConfig svc) (listener (enAdmin en)) (enArrival en) (enServer en) =
      (enAnswer en, s', enSent en)" "a \<in> set (enSent en)"
  shows "\<not> enAdmin en \<and> entitled_attempt svc en a \<and> sent_to a \<in> snd ` set (plain_upstreams (svcConfig svc))"
proof -
  let ?w = "configured_world (svcLibrary svc) (svcConfig svc) (arWorld (enArrival en))"
  obtain h path where h: "found (listener (enAdmin en)) (enArrival en) = Some h"
    "handle (svcLibrary svc) (svcErrText svc) (svcConfig svc) h path (enArrival en) (enServer en) = (enAnswer en, s', enSent en)"
    using serve_cases [OF assms(1)] assms(2) by auto
  have ups: "upstreams (calls (pwBase ?w)) = plain_upstreams (svcConfig svc)" by (simp add: configured_world_def)
  have mem: "map_of (plain_upstreams (svcConfig svc)) ref = Some up \<Longrightarrow> up \<in> snd ` set (plain_upstreams (svcConfig svc))" for ref up
    using map_of_SomeD by force
  have known: "h \<in> snd ` set (listener (enAdmin en))" by (rule found_in [OF h(1)])
  show ?thesis
  proof (cases h)
    case (ProtocolRoute p)
    obtain r g as where r: "serveProtocol (pwBase ?w) (pcBase (server_config (svcConfig svc))) p (arRequest (enArrival en))
        (svGateway (enServer en)) = (r, g, as)" by (rule prod_cases3)
    then have att: "enSent en = map ToModel as" using h(2) ProtocolRoute by (auto simp: handle_def Let_def)
    then obtain spec where a: "a = ToModel spec" "spec \<in> set as" using assms(2) by auto
    note e = serveProtocol_entitled [OF r a(2)]
    have p: "\<not> enAdmin en \<and> p \<in> set routes"
      using known ProtocolRoute by (auto simp: listener_def Handler_def AdminHandler_def routes_def split: if_splits)
    have "sent_to a \<in> snd ` set (plain_upstreams (svcConfig svc))"
      using e mem by (auto simp: entitled_def attempt_of_def a(1) sent_to_def ups)
    then show ?thesis
      using e p h(1) ProtocolRoute a(1) by (auto simp: entitled_attempt_def listener_def Let_def)
  next
    case (PassRoute rt)
    obtain r pg as where r: "handlePassthrough ?w (server_config (svcConfig svc)) rt (arRequest (enArrival en))
        (svPass (enServer en)) = (r, pg, as)" by (rule prod_cases3)
    then have att: "enSent en = map ToVendor as" using h(2) PassRoute by (auto simp: handle_def Let_def)
    then obtain pa where a: "a = ToVendor pa" "pa \<in> set as" using assms(2) by auto
    note e = handlePassthrough_entitled [OF r a(2)]
    have "\<not> enAdmin en" using known PassRoute by (auto simp: listener_def AdminHandler_def split: if_splits)
    moreover have "sent_to a \<in> snd ` set (plain_upstreams (svcConfig svc))"
      using e mem by (auto simp: vendor_entitled_def a(1) sent_to_def ups)
    ultimately show ?thesis
      using e h(1) PassRoute a(1) att by (simp add: entitled_attempt_def listener_def Let_def)
  qed (use h(2) assms(2) in \<open>auto simp: handle_def Let_def\<close>)
qed

section \<open>Documents and tokens\<close>

text \<open>No key that opens anything stands behind the hash.\<close>

definition dead :: "state \<Rightarrow> string \<Rightarrow> bool" where
  "dead st h \<longleftrightarrow> (case map_of (byHash st) h of None \<Rightarrow> True | Some k \<Rightarrow> Status k \<in> {KeyRevoked, KeySuspended})"

text \<open>Every token the request could be read to present has the hash \<open>h\<close>.\<close>

definition presents_only :: "arrival \<Rightarrow> string \<Rightarrow> bool" where
  "presents_only ar h \<longleftrightarrow>
     (\<forall>token. bearerToken (rqHeader (arRequest ar)) = Inr token \<or> messagesToken (rqHeader (arRequest ar)) = Inr token \<longrightarrow>
        hashToken (pwBase (arWorld ar)) token = h)"

lemma readToken_cases: "readToken p get = Inr token \<Longrightarrow> bearerToken get = Inr token \<or> messagesToken get = Inr token"
  by (auto simp: readToken_def split: if_splits)

lemma entitled_not_dead:
  assumes "entitled_attempt svc en a" "presents_only (enArrival en) h"
  shows "\<not> dead (served_by (enServer en)) h"
proof -
  let ?w = "configured_world (svcLibrary svc) (svcConfig svc) (arWorld (enArrival en))" and ?st = "served_by (enServer en)"
  have h: "hashToken (pwBase ?w) = hashToken (pwBase (arWorld (enArrival en)))" by (simp add: configured_world_def)
  have "\<exists>token key. (bearerToken (rqHeader (arRequest (enArrival en))) = Inr token \<or>
      messagesToken (rqHeader (arRequest (enArrival en))) = Inr token) \<and>
      map_of (byHash ?st) (hashToken (pwBase ?w) token) = Some key \<and> Status key \<notin> {KeyRevoked, KeySuspended}"
  proof (cases a)
    case (ToModel spec)
    then obtain p where "entitled (pwBase ?w) (pcBase (server_config (svcConfig svc))) p (arRequest (enArrival en))
        (svGateway (enServer en)) spec" using assms(1) by (auto simp: entitled_attempt_def Let_def)
    then show ?thesis unfolding entitled_def using readToken_cases by blast
  next
    case (ToVendor pa)
    then obtain rt where "vendor_entitled ?w rt (arRequest (enArrival en)) ?st pa" using assms(1) by (auto simp: entitled_attempt_def Let_def)
    then obtain token key where "bearerToken (rqHeader (arRequest (enArrival en))) = Inr token"
      "authenticateToken (hashToken (pwBase ?w)) (authAt (pwBase ?w)) token (map_of (byHash ?st)) = Inr key"
      unfolding vendor_entitled_def by blast
    then show ?thesis by (auto simp: authenticateToken_def split: option.splits if_splits)
  qed
  then show ?thesis using assms(2) unfolding h presents_only_def dead_def by fastforce
qed

definition is_poll :: "happening \<Rightarrow> bool" where
  "is_poll h = (case h of Polls _ _ \<Rightarrow> True | _ \<Rightarrow> False)"

lemma happen_document:
  assumes "sound s" "\<not> is_poll h" "happen svc h (s, past) = (s', past')"
  shows "served_by s' = served_by s"
proof (cases h)
  case (Arrives admin ar)
  obtain ans s1 att where r: "serve (svcLibrary svc) (svcErrText svc) (svcConfig svc) (listener admin) ar s = (ans, s1, att)"
    by (rule prod_cases3)
  then show ?thesis using serve_step [OF assms(1) r] assms(3) by (simp add: happen_def Arrives)
next
  case (Probes ref started latency ans)
  then show ?thesis using assms(3) sound_quiet [OF assms(1) watched_quiet] by (auto simp: happen_def probe_upstream_def)
next
  case (PriceEnds w i cost)
  then show ?thesis using assms(3) price_ends_sound(1) [OF assms(1)] by (auto simp: happen_def)
qed (use assms(2,3) in \<open>auto simp: happen_def is_poll_def wake_catalog_def\<close>)

lemma quiet_life_document:
  assumes "sound s" "list_all (\<lambda>h. \<not> is_poll h) hs" "fold (happen svc) hs (s, past) = (s', past @ new)"
  shows "\<forall>en\<in>set new. served_by (enServer en) = served_by s"
  using assms
proof (induction hs arbitrary: s past new)
  case (Cons h hs)
  obtain s1 l1 where h: "happen svc h (s, past) = (s1, past @ l1)" "stretch svc (spool_writes h) s s1 l1"
    using happen_stretch [where svc = svc and past = past and h = h, OF Cons.prems(1)] by blast
  have s1: "sound s1" "served_by s1 = served_by s" using h happen_document [OF Cons.prems(1) _ h(1)] Cons.prems(2) by (simp_all add: stretch_def)
  have first: "\<forall>en\<in>set l1. enServer en = s" using h(1) by (auto simp: happen_def split: happening.splits prod.splits)
  obtain s2 l2 where "fold (happen svc) hs (s1, past @ l1) = (s2, (past @ l1) @ l2)"
    using life_stretch [where svc = svc and past = "past @ l1" and hs = hs, OF s1(1)] by blast
  moreover then have "new = l1 @ l2" using Cons.prems(3) h(1) by simp
  ultimately show ?case using Cons.IH [OF s1(1), of "past @ l1" l2] Cons.prems(2,3) h(1) first s1(2) by auto
qed simp

section \<open>Properties of the whole gateway\<close>

lemma idle_pool: "pool_inv p \<Longrightarrow> Large_Body.leases p = {} \<Longrightarrow> inUse p = 0"
  by (auto simp: pool_inv_def inUse_def split: option.splits)

lemma drained_accounts:
  assumes "spoolOK w"
  shows "owned_lookups g \<Longrightarrow> image_mset stamp (held (DrainCostLookups w lookup_ends g)) = image_mset stamp (held g)"
proof -
  have step: "image_mset stamp (held (fold (\<lambda>(i, cost). price_found w i cost) es g)) = image_mset stamp (held g)"
    if "owned_lookups g" for es g
    using that
  proof (induction es arbitrary: g)
    case (Cons x es)
    obtain i cost where x: "x = (i, cost)" by fastforce
    show ?case using Cons.IH [of "price_found w i cost g"] price_found_held [OF assms Cons.prems, of i cost] by (simp add: x)
  qed simp
  have "held (g\<lparr>costLookups := start_drain (costLookups g)\<rparr>) = held g"
    "owned_lookups (g\<lparr>costLookups := start_drain (costLookups g)\<rparr>) = owned_lookups g"
    by (simp_all add: held_def owned_lookups_def start_drain_def)
  then show "owned_lookups g \<Longrightarrow> ?thesis" using step by (simp add: DrainCostLookups_def)
qed

lemma price_found_lookups:
  "lookups (costLookups (price_found w i cost g)) =
     (if i < length (lookups (costLookups g)) then take i (lookups (costLookups g)) @ drop (Suc i) (lookups (costLookups g))
      else lookups (costLookups g))"
  by (auto simp: price_found_def finish_lookup_def record_event_def Let_def)

lemma drain_ends:
  "length cs = length (lookups (costLookups g)) \<Longrightarrow> lookups (costLookups (DrainCostLookups w (map (Pair 0) cs) g)) = []"
proof -
  have "length cs = length (lookups (costLookups g)) \<Longrightarrow>
      lookups (costLookups (fold (\<lambda>(i, cost). price_found w i cost) (map (Pair 0) cs) g)) = []" for g
  proof (induction cs arbitrary: g)
    case (Cons c cs)
    have "length cs = length (lookups (costLookups (price_found w 0 c g)))"
      using Cons.prems by (simp add: price_found_lookups flip: Cons.prems)
    then show ?case using Cons.IH by simp
  qed simp
  then show "length cs = length (lookups (costLookups g)) \<Longrightarrow> ?thesis"
    by (simp add: DrainCostLookups_def start_drain_def)
qed

text \<open>
  C1. Nothing is spent on behalf of a caller who may not spend it. Along any life of a gateway that started,
  whatever requests reach its two listeners under whatever path and method, and however polls, probes and
  lookups come between them: an attempt at an upstream is made only for a request on the public listener
  that its path routes to one of the four completion surfaces or the passthrough routes; it goes to an upstream
  of the configuration; and under the document the store served at that moment its caller may spend what it
  costs (\<open>entitled\<close>, \<open>vendor_entitled\<close>: a live key granted the surface, allowed the model, past every fence of its
  axis and its limits, with the right party's credential and nothing unjudged in a passthrough body).
\<close>

theorem every_attempt_entitled:
  assumes "startup rd env e onDisk hwFile ok = Inr (svcConfig svc, s0)" "life svc hs s0 = (s, es)"
    and "en \<in> set es" "a \<in> set (enSent en)"
  shows "\<not> enAdmin en \<and> cur (svStore (enServer en)) = Some (served_by (enServer en)) \<and> entitled_attempt svc en a \<and>
    sent_to a \<in> snd ` set (plain_upstreams (svcConfig svc))"
proof -
  have en: "served_entry svc en" using life_of_gateway [OF assms(1,2)] assms(3) by (simp add: stretch_def)
  then obtain s' where "serve (svcLibrary svc) (svcErrText svc) (svcConfig svc) (listener (enAdmin en)) (enArrival en) (enServer en) =
      (enAnswer en, s', enSent en)" by (auto simp: served_entry_def)
  from serve_entitled [OF this assms(4)] en show ?thesis by (simp add: served_entry_def sound_def at_rest_def)
qed

text \<open>
  C2. A revocation takes effect. Once the served document holds no live key behind a hash, because the key was
  revoked, suspended or removed, no request that presents only tokens of that hash causes an attempt at an
  upstream on any surface, for as long as no poll brings another document, whatever else happens.
\<close>

theorem revocation_takes_effect:
  assumes "startup rd env e onDisk hwFile ok = Inr (svcConfig svc, s0)" "life svc hs s0 = (s1, es)"
    and "dead (served_by s1) h" "list_all (\<lambda>x. \<not> is_poll x) hs'" "life svc hs' s1 = (s2, es')"
    and "en \<in> set es'" "presents_only (enArrival en) h"
  shows "enSent en = []"
proof (rule ccontr)
  assume "enSent en \<noteq> []"
  then obtain a where a: "a \<in> set (enSent en)" by (cases "enSent en") auto
  have s1: "sound s1" using life_of_gateway [OF assms(1,2)] by (simp add: stretch_def)
  have fold: "fold (happen svc) hs' (s1, []) = (s2, [] @ es')" using assms(5) by (simp add: life_def)
  have "stretch svc (list_all spool_writes hs') s1 s2 es'"
    using life_stretch [OF s1, of svc hs' "[]"] fold by auto
  then obtain s' where "serve (svcLibrary svc) (svcErrText svc) (svcConfig svc) (listener (enAdmin en)) (enArrival en) (enServer en) =
      (enAnswer en, s', enSent en)" using assms(6) by (auto simp: stretch_def served_entry_def)
  then have "\<not> dead (served_by (enServer en)) h" using serve_entitled a entitled_not_dead assms(7) by blast
  moreover have "served_by (enServer en) = served_by s1" using quiet_life_document [OF s1 assms(4) fold] assms(6) by blast
  ultimately show False using assms(3) by simp
qed

text \<open>
  C3. Between requests a gateway is at rest, and its documents only get newer. Along any life from a start, once
  what has arrived is answered, nobody is counted in flight, no key has a request under way and no slot for a
  large body is held; requests are served from the store's document; and unless the reset of generations is
  allowed, the generation served is never below the high-water file's, nor below one that was served to an
  earlier request.
\<close>

theorem gateway_at_rest:
  assumes "startup rd env e onDisk hwFile ok = Inr (svcConfig svc, s0)" "life svc hs s0 = (s, es)"
  shows "server_InFlight s = 0 \<and> PassthroughInFlight s = 0 \<and> inUse (chatLarge (svGateway s)) = 0 \<and>
    (\<forall>k. InFlight k (limiter (svGateway s)) = 0) \<and> cur (svStore s) = Some (served_by s) \<and>
    (\<not> Config.AllowGenerationReset (svcConfig svc) \<longrightarrow> readHighWater hwFile \<le> generation_of s0 \<and> generation_of s0 \<le> generation_of s \<and>
      (\<forall>en\<in>set es. generation_of s0 \<le> generation_of (enServer en) \<and> generation_of (enServer en) \<le> generation_of s))"
proof -
  note st = startup_sound [OF assms(1)]
  have l: "sound s" "follows s0 s" "\<forall>en\<in>set es. follows s0 (enServer en) \<and> follows (enServer en) s"
    using life_of_gateway [OF assms] by (simp_all add: stretch_def)
  have rest: "at_rest s" using l(1) by (simp add: sound_def)
  then have "server_InFlight s = 0 \<and> PassthroughInFlight s = 0 \<and> inUse (chatLarge (svGateway s)) = 0 \<and>
      (\<forall>k. InFlight k (limiter (svGateway s)) = 0) \<and> cur (svStore s) = Some (served_by s)"
    by (simp add: at_rest_def gw_inv_def server_InFlight_def PassthroughInFlight_def idle_pool)
  then show ?thesis using st l(2,3) by (auto simp: follows_def)
qed

text \<open>
  C4. No usage is lost at the end of a process, and none is made up. When the gateway stops after any life in which
  the spool could be written, and the drain has waited for the pending lookups, whatever they found, exactly one
  event has been written to the spool for every request that presented a key on a metered surface and did not
  panic, under that request's own identifier, the generation it was served under, its key, surface and time and the
  number of attempts made for it, and no other; and a drain in which every lookup ends does end.
\<close>

theorem usage_accounted_to_the_end:
  assumes "startup rd env e onDisk hwFile ok = Inr (svcConfig svc, s0)" "life svc hs s0 = (s, es)"
    and "list_all spool_writes hs" "spoolOK w"
  shows "(lookups (costLookups (DrainCostLookups w lookup_ends (svGateway s))) = [] \<longrightarrow>
      mset (map stamp (spooled (DrainCostLookups w lookup_ends (svGateway s)))) = mset (List.map_filter (account svc) es)) \<and>
    (length cs = length (lookups (costLookups (svGateway s))) \<longrightarrow>
      lookups (costLookups (DrainCostLookups w (map (Pair 0) cs) (svGateway s))) = [])"
proof -
  have "books_grow s0 s (List.map_filter (account svc) es)"
    using life_of_gateway [OF assms(1,2)] assms(3) by (simp add: stretch_def)
  then have b: "owned_lookups (svGateway s)" "accounts_held s = mset (List.map_filter (account svc) es)"
    using startup_sound [OF assms(1)] by (simp_all add: books_grow_def)
  then show ?thesis
    using drained_accounts [OF assms(4) b(1), of lookup_ends] drain_ends by (auto simp: accounts_held_def held_def)
qed

end
