(* ===== verification/Service_Run.thy ===== *)
theory Service_Run
  imports Service
begin

text \<open>
  A small gateway: one upstream, one public model and one key, read from a file. It is started, asked for a
  completion, given a document without the key, asked again, and stopped.
\<close>

definition small_document :: json where
  "small_document = JObj [(''generation'', JNum ''7''), (''serviceEnabled'', JBool True),
     (''models'', JArr [JObj [(''publicName'', JStr ''m''), (''upstreamRef'', JStr ''gpu''), (''upstreamModel'', JStr ''q''),
        (''visibility'', JStr ''PUBLIC'')]]),
     (''keys'', JArr [JObj [(''keyId'', JStr ''k1''), (''tokenHash'', JStr sample_hash), (''status'', JStr ''ACTIVE''),
        (''passthroughEndpoints'', JArr [JStr ''chat'']) ]])]"

definition emptied_document :: json where
  "emptied_document = JObj [(''generation'', JNum ''8''), (''serviceEnabled'', JBool True), (''models'', JArr []), (''keys'', JArr [])]"

definition small_readers :: readers where
  "small_readers = \<lparr>parse = (\<lambda>t. Some (if t = ''D'' then small_document else emptied_document)),
     parseTime = (\<lambda>_. None)\<rparr>"

definition small_env :: "int \<Rightarrow> string \<Rightarrow> source_env call_env" where
  "small_env changed content = \<lparr>srcEnv = \<lparr>envFile = \<lparr>fileStat = Some (changed, 1), fileContent = Some content\<rparr>,
     envControl = \<lparr>respond = (\<lambda>r. TransportFailed), agent = [], gaugesNow = None, cacheReadable = False, cacheWritable = False\<rparr>\<rparr>,
     clock = 0, hwWrites = True\<rparr>"

definition small_config :: Config where
  "small_config =
     \<lparr>Listen = '':8080'', AdminListen = [], SnapshotPath = ''s.json'', SpoolDir = ''spool'', SnapshotSource = ''file'',
      ControlBaseURL = [], ControlToken = [], ControlTimeout = 10000000000, SnapshotPollInterval = 5000000000,
      RequestBodyMaxBytes = 2097152, UpstreamHeaderWait = 180000000000, RequestMaxDuration = 600000000000, MaxInFlight = 16,
      ChatLargeBodyMaxBytes = 26214400, ChatLargeResponseMaxBytes = 134217728, ChatLargeBodySlots = 3, UpstreamRetries = 1,
      PassthroughRequestBodyMaxBytes = 26214400, PassthroughResponseMaxBytes = 134217728, PassthroughHeaderWait = 180000000000,
      PassthroughMaxInFlight = 2, cfgDefaultRpm = 20, cfgDefaultTpm = 20000, cfgDefaultConcurrency = 2, SpoolRetentionDays = 90,
      UsagePush = False, UsageBatchSize = 500, UsagePushInterval = 30000000000, BodyCapture = False, BodyQueueSize = 256,
      BodyBatchSize = 20, AllowGenerationReset = False,
      Upstreams = [(''gpu'', \<lparr>upRef = ''gpu'', BaseURL = ''http://g/v1'', APIKey = [], CapField = ''max_completion_tokens'',
        Reasoning = ReasoningClosed, ProbeInterval = 300000000000\<rparr>)]\<rparr>"

lemma small_configured: "FromEnv small_environment = Inr small_config"
  by code_simp

definition small_model :: Model where
  "small_model = Model_zero\<lparr>PublicName := ''m'', UpstreamRef := ''gpu'', UpstreamModel := ''q'', Visibility := ''PUBLIC''\<rparr>"

definition small_key :: Key where
  "small_key = Key_zero\<lparr>KeyID := ''k1'', TokenHash := sample_hash, Status := ''ACTIVE'', PassthroughEndpoints := [''chat'']\<rparr>"

definition small_state :: state where
  "small_state =
     \<lparr>doc = \<lparr>FormatVersion = 0, Generation = 7, ServiceEnabled = True, Models = [small_model], Keys = [small_key], PassthroughRef = []\<rparr>,
      byHash = [(sample_hash, small_key)], byPublic = [(''m'', small_model)], loadedAt = 0, rejected = 0, dropReasons = []\<rparr>"

definition emptied_state :: state where
  "emptied_state =
     \<lparr>doc = \<lparr>FormatVersion = 0, Generation = 8, ServiceEnabled = True, Models = [], Keys = [], PassthroughRef = []\<rparr>,
      byHash = [], byPublic = [], loadedAt = 0, rejected = 0, dropReasons = []\<rparr>"

lemma small_built: "build (\<lambda>_. None) 0 (Some small_document) (Some [''gpu'']) False = Inr small_state"
  by code_simp

lemma emptied_built: "build (\<lambda>_. None) 0 (Some emptied_document) (Some [''gpu'']) False = Inr emptied_state"
  by code_simp

definition small_service :: service where
  "small_service = \<lparr>svcConfig = small_config,
     svcLibrary = \<lparr>libErrors = (\<lambda>_. None), libSprint = (\<lambda>_. []), libInstant = (\<lambda>_. [])\<rparr>, svcReaders = small_readers,
     svcErrText = (\<lambda>_. []), svcDecode = (\<lambda>_. None), svcFloat = (\<lambda>_. None)\<rparr>"

definition small_arrival :: arrival where
  "small_arrival = \<lparr>arTarget = ''/v1/chat/completions'', arRequest = demo_request,
     arWorld = \<lparr>pwBase = (demo_world ''m'')\<lparr>hashToken := (\<lambda>_. sample_hash)\<rparr>, pwMime = plain_mime, pwNet = (\<lambda>a. Canceled),
       pwDeclared = 0, pwContentType = []\<rparr>,
     arRetried = 0, arFellBack = 0\<rparr>"

definition small_file :: "int \<Rightarrow> any_source" where
  "small_file n = InFile \<lparr>lastModTime = n, lastSize = (if n = 0 then 0 else 1), pendingModTime = n, pendingSize = (if n = 0 then 0 else 1)\<rparr>"

definition small_store :: "(any_source, source_error) Store" where
  "small_store = \<lparr>cur = Some small_state, source = small_file 7, known = Some [''gpu''], reloadFailures = 0,
     highWaterFile = Some (itoa 7 @ [CHR 0x0A]), highWater = 7, allowGenReset = False, fromControl = False, lastError = None\<rparr>"

definition small_server :: server where
  "small_server = SetBodySink None (New_Server small_config small_store small_state)"

lemma small_found: "found Handler small_arrival = Some (ProtocolRoute protoChat)"
proof -
  have "case longest [''v1'', ''chat'', ''completions''] Handler of Some (pat, _) \<Rightarrow> pat = ''/v1/chat/completions'' | None \<Rightarrow> False"
    by code_simp
  then obtain h where h: "longest [''v1'', ''chat'', ''completions''] Handler = Some (''/v1/chat/completions'', h)"
    by (auto split: option.splits)
  then have "h = ProtocolRoute protoChat" using longest_in [OF h] by (simp add: Handler_def)
  moreover have "cleanPath ''/v1/chat/completions'' = ''/v1/chat/completions''"
    "all_some (map unescape (tl (split_slash ''/v1/chat/completions''))) = Some [''v1'', ''chat'', ''completions'']"
    "unescape ''/v1/chat/completions'' \<noteq> None" by code_simp+
  ultimately show ?thesis using h by (simp add: found_def mux_def small_arrival_def)
qed


lemma small_hw: "readHighWater None = 0" "itoa 7 = ''7''" "itoa 8 = ''8''"
  by code_simp+

lemma small_lower: "map ToLower [''gpu''] = [''gpu'']"
  by code_simp

lemma small_generation: "Generation (doc small_state) = 7" "Generation (doc emptied_state) = 8"
  by (simp_all add: small_state_def emptied_state_def)

lemma small_parse: "parse small_readers ''D'' = Some small_document" "parse small_readers ''E'' = Some emptied_document"
  "parseTime small_readers = (\<lambda>_. None)"
  by (simp_all add: small_readers_def)

lemma small_loads:
  "any_Load p (InFile f) (srcEnv (with_gauges rep (small_env n content))) 0 =
     (Inr (Some content), InFile (f\<lparr>pendingModTime := n, pendingSize := 1\<rparr>))"
  "any_Load p (InFile f) (srcEnv (with_gauges rep (small_env n content))) g =
     (if lastModTime f = n \<and> lastSize f = 1 \<and> g \<noteq> 0 then (Inr None, InFile f)
      else (Inr (Some content), InFile (f\<lparr>pendingModTime := n, pendingSize := 1\<rparr>)))"
  by (simp_all add: any_Load_def file_Load_def with_gauges_def small_env_def Let_def)

lemma small_accepts:
  "any_Accept (InFile f) e = InFile (f\<lparr>lastModTime := pendingModTime f, lastSize := pendingSize f\<rparr>)"
  "clock (with_gauges rep (small_env n content)) = 0" "hwWrites (with_gauges rep (small_env n content))"
  by (simp_all add: any_Accept_def file_Accept_def with_gauges_def small_env_def)

lemma small_opens:
  "Open small_readers (any_Load p) any_Accept (with_gauges None (small_env 7 ''D''))
     (InFile \<lparr>lastModTime = 0, lastSize = 0, pendingModTime = 0, pendingSize = 0\<rparr>) None
     \<lparr>KnownUpstreams = Some [''gpu''], Options.AllowGenerationReset = False, FromControlPlane = False\<rparr> = Inr small_store"
  using small_built small_lower
  by (simp add: Open_def reload_def small_loads small_accepts served_generation_def small_hw small_generation small_parse
      small_store_def small_file_def writeHighWater_def)

lemma small_refresh:
  "cur (Refresh small_readers (any_Load p) any_Accept (with_gauges None (small_env 8 ''E'')) small_store) = Some emptied_state"
  using emptied_built
  by (simp add: Refresh_def reload_def small_loads small_accepts served_generation_def small_hw small_generation small_parse
      small_store_def small_file_def writeHighWater_def)

lemma small_start: "startup small_readers small_environment (small_env 7 ''D'') None None True = Inr (small_config, small_server)"
proof -
  have "UpstreamRefs small_config = [''gpu'']" "SnapshotSource small_config \<noteq> SourceHTTP" "BodyCapture small_config = False"
    "Config.AllowGenerationReset small_config = False"
    by (simp_all add: small_config_def UpstreamRefs_def SourceHTTP_def)
  moreover have "cur (small_store) = Some (small_state)" by (simp add: small_store_def)
  ultimately show ?thesis
    using small_opens by (simp add: startup_def small_configured new_source_def small_server_def)
qed

lemma small_attempt:
  "case serve (svcLibrary small_service) (svcErrText small_service) small_config Handler small_arrival small_server of
     (ans, s', att) \<Rightarrow> length att = 1 \<and> ans \<noteq> Replied Panicked"
proof -
  have "case serveProtocol (pwBase (configured_world (svcLibrary small_service) small_config (arWorld small_arrival)))
      (pcBase (server_config small_config)) protoChat (arRequest small_arrival) (svGateway small_server) of
    (r, g, a) \<Rightarrow> length a = 1 \<and> r \<noteq> Panicked" by code_simp
  then show ?thesis
    using small_found by (auto simp: serve_def found_def handle_def Let_def split: if_splits option.splits routed.splits prod.splits)
qed


section \<open>The theorems on it\<close>

definition small_life :: "server \<times> log_entry list" where
  "small_life = life small_service [Arrives False small_arrival] small_server"

lemma small_configs: "svcConfig small_service = small_config" "svcReaders small_service = small_readers"
  "snap (svGateway small_server) = small_state" "svStore small_server = small_store"
  by (simp_all add: small_service_def small_server_def SetBodySink_def New_Server_def on_gateway_def)

lemma small_started: "startup small_readers small_environment (small_env 7 ''D'') None None True = Inr (svcConfig small_service, small_server)"
  by (simp add: small_start small_configs)

lemma small_lived:
  obtains s en where "life small_service [Arrives False small_arrival] small_server = (s, [en])" "length (enSent en) = 1"
    "enServer en = small_server" "enArrival en = small_arrival" "\<not> enAdmin en" "enAnswer en \<noteq> Replied Panicked"
proof -
  obtain ans s att where "serve (svcLibrary small_service) (svcErrText small_service) small_config Handler small_arrival small_server =
      (ans, s, att)" by (rule prod_cases3)
  then show ?thesis
    using small_attempt
      that [of s "\<lparr>enServer = small_server, enAdmin = False, enArrival = small_arrival, enAnswer = ans, enSent = att\<rparr>"]
    by (simp add: life_def happen_def listener_def small_configs)
qed

lemma small_caller:
  "caller (pwBase (configured_world lib cfg (arWorld small_arrival))) protoChat demo_request small_state = Some small_key"
proof -
  have "readToken protoChat (rqHeader demo_request) = Inr ''t1''" by code_simp
  moreover have "capability protoChat = ''chat''" by code_simp
  moreover have "Status small_key \<notin> {KeyRevoked, KeySuspended}" "ExpiresAt small_key = None" "QuotaExhausted small_key = False"
    "AllowsEndpoint small_key ''chat''"
    by (simp_all add: small_key_def Key_zero_def AllowsEndpoint_def)
  ultimately show ?thesis
    by (simp add: caller_def admitKey_def authenticateToken_def configured_world_def small_arrival_def small_state_def)
qed

lemma small_account:
  assumes "enServer en = small_server" "enArrival en = small_arrival" "\<not> enAdmin en" "enAnswer en \<noteq> Replied Panicked"
  shows "account small_service en = Some (''u1'', 7, ''k1'', ''chat'', 5, Some (int (length (enSent en))))"
proof -
  have "endpoint protoChat = ''chat''" by code_simp
  moreover have "KeyID small_key = ''k1''" by (simp add: small_key_def)
  ultimately show ?thesis
    using assms small_caller small_found small_generation
    by (simp add: account_def owed_def presented_def listener_def small_configs small_arrival_def)
       (simp add: configured_world_def demo_world_def demo_request_def)
qed

theorem every_attempt_entitled_witness:
  "\<exists>en a. snd (life small_service [Arrives False small_arrival] small_server) = [en] \<and> enSent en = [a] \<and>
     entitled_attempt small_service en a \<and> sent_to a \<in> snd ` set (plain_upstreams small_config)"
proof -
  obtain s en where l: "life small_service [Arrives False small_arrival] small_server = (s, [en])" "length (enSent en) = 1"
    by (rule small_lived)
  then obtain a where "enSent en = [a]" by (auto simp: length_Suc_conv)
  then show ?thesis using every_attempt_entitled [OF small_started l(1), of en a] l(1) by (simp add: small_configs)
qed

text \<open>The key is removed, and its holder asks again.\<close>

definition small_report :: reported where
  "small_report = \<lparr>rpStartedAt = 0, rpReporter = None, rpClock = (\<lambda>n. 0)\<rparr>"

lemma small_polled:
  "life small_service [Polls small_report (small_env 8 ''E'')] small_server = (fst (life small_service [Polls small_report (small_env 8 ''E'')] small_server), [])"
  "served_by (fst (life small_service [Polls small_report (small_env 8 ''E'')] small_server)) = emptied_state"
proof -
  have "SnapshotSource small_config \<noteq> SourceHTTP" by (simp add: small_config_def SourceHTTP_def)
  then show "life small_service [Polls small_report (small_env 8 ''E'')] small_server = (fst (life small_service [Polls small_report (small_env 8 ''E'')] small_server), [])"
    "served_by (fst (life small_service [Polls small_report (small_env 8 ''E'')] small_server)) = emptied_state"
    by (simp_all add: life_def happen_def small_configs poll_def adopt_def small_refresh on_gateway_def)
qed

theorem revocation_takes_effect_witness:
  "\<exists>en. snd (life small_service [Arrives False small_arrival]
       (fst (life small_service [Polls small_report (small_env 8 ''E'')] small_server))) = [en] \<and> enSent en = []"
proof -
  let ?s1 = "fst (life small_service [Polls small_report (small_env 8 ''E'')] small_server)"
  have "\<exists>s2 en. life small_service [Arrives False small_arrival] ?s1 = (s2, [en]) \<and> enArrival en = small_arrival"
    by (simp add: life_def happen_def split: prod.splits)
  then obtain s2 en where l: "life small_service [Arrives False small_arrival] ?s1 = (s2, [en])" "enArrival en = small_arrival"
    by blast
  have "dead emptied_state sample_hash" by (simp add: dead_def emptied_state_def)
  moreover have "presents_only small_arrival sample_hash" by (simp add: presents_only_def small_arrival_def)
  ultimately have "enSent en = []"
    using revocation_takes_effect [OF small_started small_polled(1) _ _ l(1), of sample_hash en] small_polled(2) l(2)
    by (simp add: is_poll_def)
  then show ?thesis using l(1) by simp
qed

theorem gateway_at_rest_witness:
  "server_InFlight (fst small_life) = 0 \<and> InFlight ''k1'' (limiter (svGateway (fst small_life))) = 0 \<and>
     7 \<le> generation_of (fst small_life)"
proof -
  have l: "life small_service [Arrives False small_arrival] small_server = (fst small_life, snd small_life)"
    by (simp add: small_life_def)
  have "generation_of small_server = 7" "\<not> Config.AllowGenerationReset (svcConfig small_service)"
    by (simp_all add: generation_of_def small_configs small_generation) (simp add: small_config_def)
  then show ?thesis using gateway_at_rest [OF small_started l] by simp
qed

theorem usage_accounted_to_the_end_witness:
  "\<exists>cs. mset (map stamp (spooled (DrainCostLookups (demo_world ''m'') (map (Pair 0) cs) (svGateway (fst small_life))))) =
     {#(''u1'', 7, ''k1'', ''chat'', 5, Some 1)#}"
proof -
  obtain s en where l: "life small_service [Arrives False small_arrival] small_server = (s, [en])" "length (enSent en) = 1"
    "enServer en = small_server" "enArrival en = small_arrival" "\<not> enAdmin en" "enAnswer en \<noteq> Replied Panicked"
    by (rule small_lived)
  have a: "account small_service en = Some (''u1'', 7, ''k1'', ''chat'', 5, Some 1)" using small_account l(2-) by simp
  have w: "list_all spool_writes [Arrives False small_arrival]" "spoolOK (demo_world ''m'')"
    by (simp_all add: spool_writes_def small_arrival_def demo_world_def)
  define cs where "cs = replicate (length (lookups (costLookups (svGateway s)))) ([] :: string)"
  note used = usage_accounted_to_the_end [OF small_started l(1) w, of "map (Pair 0) cs" cs]
  then have "lookups (costLookups (DrainCostLookups (demo_world ''m'') (map (Pair 0) cs) (svGateway s))) = []"
    by (simp add: cs_def)
  then show ?thesis using used a l(1) by (auto simp: small_life_def List.map_filter_simps)
qed

end
