(* ===== verification/Ownership.thy ===== *)
theory Ownership
  imports Go_Json
begin

text \<open>
  Who owns an asynchronous vendor object (\<open>internal/ownership\<close>): the cache of confirmed ownership
  (\<open>cache.go\<close>) with its two structures, the linked order and the map into it, refined to one queue;
  and the client's calls (\<open>client.go\<close>): intents, retried binds, batched lookups and releases. The
  network, the clock and the interruptible sleep are functions of how often the outside was consulted.
\<close>

section \<open>The cache\<close>

type_synonym Kind = string

definition KindFile :: Kind where "KindFile = ''FILE''"
definition KindBatch :: Kind where "KindBatch = ''BATCH''"
definition KindVideo :: Kind where "KindVideo = ''VIDEO''"

record cacheKey =
  ckKeyID :: string
  ckKind :: Kind
  ckObjectID :: string

record cacheEntry =
  ceKey :: cacheKey
  ceExpires :: int

text \<open>
  The list is the linked list of elements in its order, an element given by an address and its
  value; the map holds addresses. A new element takes the next address.
\<close>

record cache =
  cTtl :: int
  cMax :: int
  cOrder :: "(nat \<times> cacheEntry) list"
  cEntries :: "(cacheKey \<times> nat) list"
  cNext :: nat

definition newCache :: "int \<Rightarrow> int \<Rightarrow> cache" where
  "newCache ttl bound = \<lparr>cTtl = ttl, cMax = bound, cOrder = [], cEntries = [], cNext = 0\<rparr>"

definition list_remove :: "nat \<Rightarrow> cache \<Rightarrow> cache" where
  "list_remove el c = c\<lparr>cOrder := AList.delete el (cOrder c)\<rparr>"

definition entry_delete :: "cacheKey \<Rightarrow> cache \<Rightarrow> cache" where
  "entry_delete k c = c\<lparr>cEntries := AList.delete k (cEntries c)\<rparr>"

definition cache_owned :: "int \<Rightarrow> cacheKey \<Rightarrow> cache \<Rightarrow> bool \<times> cache" where
  "cache_owned now k c =
     (case map_of (cEntries c) k of
        None \<Rightarrow> (False, c)
      | Some el \<Rightarrow>
          (case map_of (cOrder c) el of
             None \<Rightarrow> (False, c)
           | Some e \<Rightarrow>
               if \<not> now < ceExpires e then (False, entry_delete k (list_remove el c)) else (True, c)))"

text \<open>The loop of \<open>put\<close> that makes room: it takes from the front while the cache is full or the front has expired.\<close>

function evict_front :: "int \<Rightarrow> cache \<Rightarrow> cache" where
  "evict_front now c =
     (case cOrder c of
        [] \<Rightarrow> c
      | (el, e) # rest \<Rightarrow>
          if int (length (cOrder c)) < cMax c \<and> now < ceExpires e then c
          else evict_front now (entry_delete (ceKey e) (c\<lparr>cOrder := rest\<rparr>)))"
  by auto
termination
  by (relation "measure (\<lambda>(now, c). length (cOrder c))") (auto simp: entry_delete_def)

declare evict_front.simps [simp del]

definition cache_put :: "int \<Rightarrow> cacheKey \<Rightarrow> cache \<Rightarrow> cache" where
  "cache_put now k c =
     (let e = \<lparr>ceKey = k, ceExpires = now + cTtl c\<rparr> in
      case map_of (cEntries c) k of
        Some el \<Rightarrow> c\<lparr>cOrder := AList.delete el (cOrder c) @ [(el, e)]\<rparr>
      | None \<Rightarrow>
          let c1 = evict_front now c in
          c1\<lparr>cOrder := cOrder c1 @ [(cNext c1, e)], cEntries := AList.update k (cNext c1) (cEntries c1),
             cNext := cNext c1 + 1\<rparr>)"

definition cache_forget :: "cacheKey \<Rightarrow> cache \<Rightarrow> cache" where
  "cache_forget k c =
     (case map_of (cEntries c) k of None \<Rightarrow> c | Some el \<Rightarrow> entry_delete k (list_remove el c))"

definition cache_len :: "cache \<Rightarrow> nat" where
  "cache_len c = length (cOrder c)"

section \<open>One queue\<close>

text \<open>What the cache promises, over a single queue of keys with the instants they expire at.\<close>

type_synonym queue = "(cacheKey \<times> int) list"

fun make_room :: "int \<Rightarrow> int \<Rightarrow> queue \<Rightarrow> queue" where
  "make_room bound now [] = []"
| "make_room bound now ((k, x) # q) =
     (if int (length q) + 1 < bound \<and> now < x then (k, x) # q else make_room bound now q)"

definition queue_owned :: "int \<Rightarrow> cacheKey \<Rightarrow> queue \<Rightarrow> bool \<times> queue" where
  "queue_owned now k q =
     (case map_of q k of None \<Rightarrow> (False, q)
      | Some x \<Rightarrow> if now < x then (True, q) else (False, AList.delete k q))"

definition queue_put :: "int \<Rightarrow> int \<Rightarrow> int \<Rightarrow> cacheKey \<Rightarrow> queue \<Rightarrow> queue" where
  "queue_put ttl bound now k q =
     (if map_of q k = None then make_room bound now q else AList.delete k q) @ [(k, now + ttl)]"

datatype cache_op = Ask int cacheKey | Put int cacheKey | Forget cacheKey

fun cache_run :: "cache_op list \<Rightarrow> cache \<Rightarrow> bool list \<times> cache" where
  "cache_run [] c = ([], c)"
| "cache_run (Ask now k # os) c =
     (let (b, c1) = cache_owned now k c; (bs, c2) = cache_run os c1 in (b # bs, c2))"
| "cache_run (Put now k # os) c = cache_run os (cache_put now k c)"
| "cache_run (Forget k # os) c = cache_run os (cache_forget k c)"

fun queue_run :: "int \<Rightarrow> int \<Rightarrow> cache_op list \<Rightarrow> queue \<Rightarrow> bool list \<times> queue" where
  "queue_run ttl bound [] q = ([], q)"
| "queue_run ttl bound (Ask now k # os) q =
     (let (b, q1) = queue_owned now k q; (bs, q2) = queue_run ttl bound os q1 in (b # bs, q2))"
| "queue_run ttl bound (Put now k # os) q = queue_run ttl bound os (queue_put ttl bound now k q)"
| "queue_run ttl bound (Forget k # os) q = queue_run ttl bound os (AList.delete k q)"

section \<open>The refinement\<close>

definition abs_entry :: "nat \<times> cacheEntry \<Rightarrow> cacheKey \<times> int" where
  "abs_entry = (\<lambda>(el, e). (ceKey e, ceExpires e))"

definition queue_of :: "cache \<Rightarrow> queue" where
  "queue_of c = map abs_entry (cOrder c)"

text \<open>The map holds each listed key at the address of its element, and nothing else.\<close>

definition cache_ok :: "cache \<Rightarrow> bool" where
  "cache_ok c \<longleftrightarrow> distinct (map fst (cOrder c)) \<and> distinct (map fst (queue_of c)) \<and>
     (\<forall>el e. (el, e) \<in> set (cOrder c) \<longrightarrow> el < cNext c) \<and>
     (\<forall>k el. map_of (cEntries c) k = Some el \<longleftrightarrow> (\<exists>e. (el, e) \<in> set (cOrder c) \<and> ceKey e = k))"

lemma queue_keys: "map fst (queue_of c) = map (\<lambda>(el, e). ceKey e) (cOrder c)"
  by (auto simp: queue_of_def abs_entry_def)

lemma delete_element:
  assumes "distinct (map fst xs)" "distinct (map (\<lambda>(el, e). ceKey e) xs)" "(el, e) \<in> set xs"
  shows "map abs_entry (AList.delete el xs) = AList.delete (ceKey e) (map abs_entry xs)"
proof -
  have "(el' = el) = (ceKey e' = ceKey e)" if "(el', e') \<in> set xs" for el' e'
    using assms that by (metis (mono_tags, lifting) case_prod_conv distinct_map fst_conv inj_on_def old.prod.inject)
  then have "((\<lambda>(k, _). ceKey e \<noteq> k) \<circ> abs_entry) x = (case x of (k, _) \<Rightarrow> el \<noteq> k)" if "x \<in> set xs" for x
    using that by (cases x) (simp add: abs_entry_def eq_commute)
  then show ?thesis unfolding AList.delete_eq filter_map
    by (intro arg_cong [where f = "map abs_entry"] filter_cong) simp_all
qed

lemma cache_lookup:
  assumes "cache_ok c"
  shows "map_of (queue_of c) k =
    (case map_of (cEntries c) k of None \<Rightarrow> None | Some el \<Rightarrow> map_option ceExpires (map_of (cOrder c) el))"
proof (cases "map_of (cEntries c) k")
  case None
  then have "k \<notin> set (map fst (queue_of c))"
    using assms unfolding queue_keys cache_ok_def by fastforce
  then have "map_of (queue_of c) k = None" by (simp add: map_of_eq_None_iff)
  then show ?thesis using None by simp
next
  case (Some el)
  then obtain e where e: "(el, e) \<in> set (cOrder c)" "ceKey e = k" using assms by (auto simp: cache_ok_def)
  have "map_of (cOrder c) el = Some e" using assms e by (simp add: cache_ok_def)
  moreover have "(k, ceExpires e) \<in> set (queue_of c)" using e by (force simp: queue_of_def abs_entry_def)
  then have "map_of (queue_of c) k = Some (ceExpires e)" using assms by (simp add: cache_ok_def)
  ultimately show ?thesis using Some by simp
qed

text \<open>Removing an element by its address and its key from the map is removing the key from the queue.\<close>

lemma cache_remove:
  assumes "cache_ok c" "(el, e) \<in> set (cOrder c)"
  shows "cache_ok (entry_delete (ceKey e) (list_remove el c))"
    "queue_of (entry_delete (ceKey e) (list_remove el c)) = AList.delete (ceKey e) (queue_of c)"
proof -
  let ?c = "entry_delete (ceKey e) (list_remove el c)"
  have d: "distinct (map fst (cOrder c))" "distinct (map (\<lambda>(el, e). ceKey e) (cOrder c))"
    using assms(1) by (simp_all add: cache_ok_def queue_keys)
  show q: "queue_of ?c = AList.delete (ceKey e) (queue_of c)"
    using delete_element [OF d assms(2)] by (simp add: queue_of_def entry_delete_def list_remove_def)
  have other: "(el' = el) = (ceKey e' = ceKey e)" if "(el', e') \<in> set (cOrder c)" for el' e'
    using d assms(2) that by (metis (mono_tags, lifting) case_prod_conv distinct_map fst_conv inj_on_def old.prod.inject)
  have "(\<exists>e'. (el', e') \<in> set (AList.delete el (cOrder c)) \<and> ceKey e' = k) \<longleftrightarrow>
      k \<noteq> ceKey e \<and> (\<exists>e'. (el', e') \<in> set (cOrder c) \<and> ceKey e' = k)" for k el'
    using other by (auto simp: AList.delete_eq)
  moreover have "distinct (map fst (AList.delete el (cOrder c)))" using d(1) by (simp add: distinct_delete)
  moreover have "distinct (map fst (AList.delete (ceKey e) (queue_of c)))"
    using assms(1) by (simp add: distinct_delete cache_ok_def)
  moreover have "el' < cNext c" if "(el', e') \<in> set (AList.delete el (cOrder c))" for el' e'
    using assms(1) that by (auto simp: cache_ok_def AList.delete_eq)
  ultimately show "cache_ok ?c"
    using assms(1) unfolding cache_ok_def q
    by (auto simp: entry_delete_def list_remove_def go_maps)
qed

lemma cache_at:
  assumes "cache_ok c" "map_of (cEntries c) k = Some el"
  obtains e where "map_of (cOrder c) el = Some e" "(el, e) \<in> set (cOrder c)" "ceKey e = k"
  using assms by (auto simp: cache_ok_def)

lemma cache_absent: "cache_ok c \<Longrightarrow> map_of (cEntries c) k = None \<longleftrightarrow> map_of (queue_of c) k = None"
  using cache_lookup [of c k] by (cases "map_of (cEntries c) k") (auto elim: cache_at)

lemma absent_delete: "map_of q k = None \<Longrightarrow> AList.delete k q = q"
  by (simp add: map_of_eq_None_iff)

lemma cache_owned_refines:
  assumes "cache_ok c" "cache_owned now k c = (b, c')"
  shows "cache_ok c' \<and> queue_owned now k (queue_of c) = (b, queue_of c') \<and> cTtl c' = cTtl c \<and> cMax c' = cMax c"
proof (cases "map_of (cEntries c) k")
  case None
  then show ?thesis using assms cache_absent [OF assms(1), of k] by (auto simp: cache_owned_def queue_owned_def)
next
  case (Some el)
  obtain e where e: "map_of (cOrder c) el = Some e" "(el, e) \<in> set (cOrder c)" "ceKey e = k"
    using cache_at [OF assms(1) Some] .
  have "map_of (queue_of c) k = Some (ceExpires e)" using cache_lookup [OF assms(1), of k] Some e by simp
  then show ?thesis
    using assms Some e cache_remove [OF assms(1) e(2)]
    by (auto simp: cache_owned_def queue_owned_def entry_delete_def list_remove_def split: if_splits)
qed

lemma cache_forget_refines:
  assumes "cache_ok c"
  shows "cache_ok (cache_forget k c) \<and> queue_of (cache_forget k c) = AList.delete k (queue_of c) \<and>
    cTtl (cache_forget k c) = cTtl c \<and> cMax (cache_forget k c) = cMax c"
proof (cases "map_of (cEntries c) k")
  case None
  then show ?thesis using assms cache_absent [OF assms, of k] absent_delete [of "queue_of c" k] by (auto simp: cache_forget_def)
next
  case (Some el)
  obtain e where e: "map_of (cOrder c) el = Some e" "(el, e) \<in> set (cOrder c)" "ceKey e = k"
    using cache_at [OF assms Some] .
  then show ?thesis
    using Some cache_remove [OF assms e(2)] by (simp add: cache_forget_def) (simp add: entry_delete_def list_remove_def)
qed

lemma cache_evict_refines:
  assumes "cache_ok c"
  shows "cache_ok (evict_front now c) \<and> queue_of (evict_front now c) = make_room (cMax c) now (queue_of c) \<and>
    cTtl (evict_front now c) = cTtl c \<and> cMax (evict_front now c) = cMax c \<and>
    cNext (evict_front now c) = cNext c \<and> (map_of (queue_of c) k = None \<longrightarrow> map_of (queue_of (evict_front now c)) k = None)"
  using assms
proof (induction now c rule: evict_front.induct)
  case (1 now c)
  show ?case
  proof (cases "cOrder c")
    case Nil
    then show ?thesis using 1 by (simp add: evict_front.simps [of now c] queue_of_def)
  next
    case (Cons p rest)
    obtain el e where p: "p = (el, e)" by (cases p)
    let ?c = "entry_delete (ceKey e) (c\<lparr>cOrder := rest\<rparr>)"
    have fresh: "el \<notin> fst ` set rest" using 1(2) Cons p by (auto simp: cache_ok_def)
    have "?c = entry_delete (ceKey e) (list_remove el c)"
      using Cons p fresh by (simp add: list_remove_def)
    then have c: "cache_ok ?c" "queue_of ?c = AList.delete (ceKey e) (queue_of c)"
      using cache_remove [OF 1(2), of el e] Cons p by simp_all
    have q: "queue_of c = (ceKey e, ceExpires e) # queue_of ?c"
      using Cons p by (simp add: queue_of_def abs_entry_def entry_delete_def)
    have same: "cTtl ?c = cTtl c" "cMax ?c = cMax c" "cNext ?c = cNext c" by (simp_all add: entry_delete_def)
    have len: "length (cOrder c) = length (queue_of ?c) + 1" using Cons by (simp add: queue_of_def entry_delete_def)
    show ?thesis
    proof (cases "int (length (cOrder c)) < cMax c \<and> now < ceExpires e")
      case True
      then show ?thesis using 1(2) Cons p q len by (simp add: evict_front.simps [of now c])
    next
      case False
      have "evict_front now c = evict_front now ?c" using False Cons p by (subst evict_front.simps) auto
      moreover have "cache_ok (evict_front now ?c) \<and> queue_of (evict_front now ?c) = make_room (cMax ?c) now (queue_of ?c) \<and>
          cTtl (evict_front now ?c) = cTtl ?c \<and> cMax (evict_front now ?c) = cMax ?c \<and> cNext (evict_front now ?c) = cNext ?c \<and>
          (map_of (queue_of ?c) k = None \<longrightarrow> map_of (queue_of (evict_front now ?c)) k = None)"
        by (rule 1(1)) (use Cons p False c(1) in simp_all)
      moreover have "\<not> (int (length (queue_of ?c)) + 1 < cMax c \<and> now < ceExpires e)" using False len by simp
      then have "make_room (cMax c) now (queue_of c) = make_room (cMax c) now (queue_of ?c)"
        by (simp only: q make_room.simps if_False)
      moreover have "map_of (queue_of c) k = None \<longrightarrow> map_of (queue_of ?c) k = None" unfolding q by simp
      ultimately show ?thesis unfolding same by metis
    qed
  qed
qed

lemma cache_put_refines:
  assumes "cache_ok c"
  shows "cache_ok (cache_put now k c) \<and>
    queue_of (cache_put now k c) = queue_put (cTtl c) (cMax c) now k (queue_of c) \<and>
    cTtl (cache_put now k c) = cTtl c \<and> cMax (cache_put now k c) = cMax c"
proof (cases "map_of (cEntries c) k")
  case None
  let ?c = "evict_front now c"
  have absent: "map_of (queue_of c) k = None" using None cache_absent [OF assms] by simp
  have e: "cache_ok ?c" "queue_of ?c = make_room (cMax c) now (queue_of c)" "cTtl ?c = cTtl c" "cMax ?c = cMax c"
    "cNext ?c = cNext c" "map_of (queue_of ?c) k = None"
    by (insert cache_evict_refines [OF assms, of now k] absent) blast+
  have gone: "map_of (cEntries ?c) k = None" using cache_absent [OF e(1)] e(6) by simp
  have q: "queue_of (cache_put now k c) = queue_of ?c @ [(k, now + cTtl c)]"
    using None by (simp add: cache_put_def queue_of_def abs_entry_def Let_def)
  have "cNext ?c \<notin> set (map fst (cOrder ?c))" using e(1) by (force simp: cache_ok_def)
  moreover have "k \<notin> set (map fst (queue_of ?c))" using e(6) by (simp add: map_of_eq_None_iff)
  moreover have "\<nexists>el e'. (el, e') \<in> set (cOrder ?c) \<and> ceKey e' = k" using e(1) gone by (fastforce simp: cache_ok_def)
  ultimately have "cache_ok (cache_put now k c)"
    using e(1) None unfolding cache_ok_def q
    by (auto simp: cache_put_def Let_def go_maps less_Suc_eq)
  then show ?thesis using q None e absent by (simp add: queue_put_def) (simp add: cache_put_def Let_def)
next
  case (Some el)
  obtain e where e: "map_of (cOrder c) el = Some e" "(el, e) \<in> set (cOrder c)" "ceKey e = k"
    using cache_at [OF assms Some] .
  let ?r = "entry_delete k (list_remove el c)"
  have r: "cache_ok ?r" "queue_of ?r = AList.delete k (queue_of c)" using cache_remove [OF assms e(2)] e(3) by simp_all
  have o: "cOrder ?r = AList.delete el (cOrder c)" "cNext ?r = cNext c" "cEntries ?r = AList.delete k (cEntries c)"
    by (simp_all add: entry_delete_def list_remove_def)
  have q: "queue_of (cache_put now k c) = AList.delete k (queue_of c) @ [(k, now + cTtl c)]"
    using Some r(2) by (simp add: cache_put_def queue_of_def abs_entry_def o Let_def)
  have old: "el \<notin> set (map fst (cOrder ?r))" "el < cNext c"
    using assms e(2) by (auto simp: o AList.delete_eq cache_ok_def)
  have fresh: "k \<notin> set (map fst (AList.delete k (queue_of c)))" by (auto simp: AList.delete_eq)
  have "map_of (cEntries c) k' = Some el' \<longleftrightarrow>
      (\<exists>e'. (el', e') \<in> set (cOrder ?r @ [(el, \<lparr>ceKey = k, ceExpires = now + cTtl c\<rparr>)]) \<and> ceKey e' = k')" for k' el'
  proof (cases "k' = k")
    case True
    have "map_of (cEntries ?r) k = None" by (simp add: o go_maps)
    then have "\<nexists>e'. (el', e') \<in> set (cOrder ?r) \<and> ceKey e' = k"
      using r(1) unfolding cache_ok_def by (metis option.distinct(1))
    then show ?thesis using True Some by auto
  next
    case False
    then have "map_of (cEntries c) k' = map_of (cEntries ?r) k'" by (simp add: o go_maps)
    then show ?thesis using r(1) False by (auto simp: cache_ok_def)
  qed
  moreover have "distinct (map fst (cOrder ?r @ [(el, \<lparr>ceKey = k, ceExpires = now + cTtl c\<rparr>)]))"
    using r(1) old by (simp add: cache_ok_def)
  moreover have "distinct (map fst (queue_of (cache_put now k c)))"
    using r fresh by (simp add: q cache_ok_def)
  moreover have "el' < cNext c" if "(el', e') \<in> set (cOrder ?r @ [(el, \<lparr>ceKey = k, ceExpires = now + cTtl c\<rparr>)])" for el' e'
    using r(1) old that by (auto simp: cache_ok_def o(2))
  moreover have "cache_put now k c = c\<lparr>cOrder := cOrder ?r @ [(el, \<lparr>ceKey = k, ceExpires = now + cTtl c\<rparr>)]\<rparr>"
    using Some by (simp add: cache_put_def Let_def o)
  ultimately have "cache_ok (cache_put now k c)" unfolding cache_ok_def by simp
  moreover have present: "map_of (queue_of c) k \<noteq> None" using cache_absent [OF assms, of k] Some by simp
  have "queue_put (cTtl c) (cMax c) now k (queue_of c) = AList.delete k (queue_of c) @ [(k, now + cTtl c)]"
    by (simp only: queue_put_def present if_False)
  ultimately show ?thesis using q Some by simp (simp add: cache_put_def Let_def)
qed

text \<open>When a key was last confirmed, in the history of the operations alone.\<close>

definition note_op :: "cache_op \<Rightarrow> (cacheKey \<Rightarrow> int option) \<Rightarrow> cacheKey \<Rightarrow> int option" where
  "note_op o1 h = (case o1 of Ask now k \<Rightarrow> h | Put now k \<Rightarrow> h(k := Some now) | Forget k \<Rightarrow> h(k := None))"

lemma note_op_simps [simp]: "note_op (Ask now k) h = h" "note_op (Put now k) h = h(k := Some now)"
  "note_op (Forget k) h = h(k := None)"
  by (simp_all add: note_op_def)

definition held :: "cache_op list \<Rightarrow> cacheKey \<Rightarrow> int option" where
  "held ops = fold note_op ops (\<lambda>_. None)"

text \<open>What the queue holds was put in and not taken back, and expires a lifetime after it.\<close>

definition queue_ok :: "int \<Rightarrow> int \<Rightarrow> (cacheKey \<Rightarrow> int option) \<Rightarrow> queue \<Rightarrow> bool" where
  "queue_ok ttl bound h q \<longleftrightarrow> distinct (map fst q) \<and> int (length q) \<le> max 1 bound \<and>
     (\<forall>(k, x)\<in>set q. \<exists>t. h k = Some t \<and> x = t + ttl)"

lemma make_room_subset: "set (make_room bound now q) \<subseteq> set q"
  by (induction bound now q rule: make_room.induct) auto

lemma make_room_length: "int (length (make_room bound now q)) \<le> max 0 (bound - 1)"
  by (induction bound now q rule: make_room.induct) auto

lemma make_room_distinct: "distinct (map fst q) \<Longrightarrow> distinct (map fst (make_room bound now q))"
  by (induction bound now q rule: make_room.induct) auto

lemma mem_delete: "x \<in> set (AList.delete k q) \<longleftrightarrow> x \<in> set q \<and> fst x \<noteq> k"
  by (auto simp: AList.delete_eq)

lemma queue_ok_delete: "queue_ok ttl bound h q \<Longrightarrow> queue_ok ttl bound (h(k := None)) (AList.delete k q)"
  using length_delete_le [of k q] by (fastforce simp: queue_ok_def distinct_delete mem_delete)

lemma queue_ok_owned: "queue_ok ttl bound h q \<Longrightarrow> queue_ok ttl bound h (snd (queue_owned now k q))"
  using length_delete_le [of k q]
  by (auto simp: queue_ok_def queue_owned_def distinct_delete mem_delete split: option.splits)

lemma queue_ok_put:
  assumes "queue_ok ttl bound h q"
  shows "queue_ok ttl bound (h(k := Some now)) (queue_put ttl bound now k q)"
proof -
  let ?q = "if map_of q k = None then make_room bound now q else AList.delete k q"
  have sub: "set ?q \<subseteq> set q" using make_room_subset by (auto simp: AList.delete_eq)
  have "distinct (map fst ?q)" using assms by (simp add: queue_ok_def make_room_distinct distinct_delete)
  moreover have fresh: "k \<notin> fst ` set ?q"
    using make_room_subset [of bound now q] by (auto simp: map_of_eq_None_iff AList.delete_eq image_iff split: if_splits)
  moreover have "int (length ?q) + 1 \<le> max 1 bound"
  proof (cases "map_of q k = None")
    case True
    then show ?thesis using make_room_length [of bound now q] by simp
  next
    case False
    then obtain x where "(k, x) \<in> set q" by (auto dest: map_of_SomeD)
    then have "length (AList.delete k q) < length q"
      unfolding AList.delete_eq by (intro length_filter_less [of "(k, x)"]) auto
    then show ?thesis using False assms by (auto simp: queue_ok_def)
  qed
  moreover have "queue_put ttl bound now k q = ?q @ [(k, now + ttl)]" by (simp add: queue_put_def)
  moreover have "\<exists>t. (h(k := Some now)) k' = Some t \<and> x = t + ttl" if "(k', x) \<in> set ?q" for k' x
    using that assms sub fresh by (cases "k' = k") (force simp: queue_ok_def)+
  ultimately show ?thesis unfolding queue_ok_def by auto
qed

lemma cache_run_refines:
  assumes "cache_ok c" "queue_ok (cTtl c) (cMax c) h (queue_of c)" "cache_run ops c = (bs, c')"
  shows "queue_run (cTtl c) (cMax c) ops (queue_of c) = (bs, queue_of c') \<and> cache_ok c' \<and>
    cTtl c' = cTtl c \<and> cMax c' = cMax c \<and> queue_ok (cTtl c) (cMax c) (fold note_op ops h) (queue_of c')"
  using assms
proof (induction ops c arbitrary: h bs c' rule: cache_run.induct)
  case (2 now k os c)
  obtain b c1 bs' where s: "cache_owned now k c = (b, c1)" "cache_run os c1 = (bs', c')" "bs = b # bs'"
    using 2(4) by (auto split: prod.splits)
  have o: "cache_ok c1" "queue_owned now k (queue_of c) = (b, queue_of c1)" "cTtl c1 = cTtl c" "cMax c1 = cMax c"
    using cache_owned_refines [OF 2(2) s(1)] by simp_all
  have "queue_ok (cTtl c1) (cMax c1) h (queue_of c1)"
    using queue_ok_owned [OF 2(3), of now k] o by simp
  from 2(1) [OF s(1) [symmetric] refl o(1) this s(2)] show ?case
    using o s by simp
next
  case (3 now k os c)
  have p: "cache_ok (cache_put now k c)" "queue_of (cache_put now k c) = queue_put (cTtl c) (cMax c) now k (queue_of c)"
    "cTtl (cache_put now k c) = cTtl c" "cMax (cache_put now k c) = cMax c"
    using cache_put_refines [OF 3(2), of now k] by simp_all
  have "queue_ok (cTtl (cache_put now k c)) (cMax (cache_put now k c)) (h(k := Some now)) (queue_of (cache_put now k c))"
    unfolding p by (rule queue_ok_put [OF 3(3)])
  moreover have r: "cache_run os (cache_put now k c) = (bs, c')" using 3(4) by simp
  note 1 = 3(1) [OF p(1) calculation r]
  show ?case using 1 unfolding p by (simp only: queue_run.simps fold_simps note_op_simps)
next
  case (4 k os c)
  have p: "cache_ok (cache_forget k c)" "queue_of (cache_forget k c) = AList.delete k (queue_of c)"
    "cTtl (cache_forget k c) = cTtl c" "cMax (cache_forget k c) = cMax c"
    using cache_forget_refines [OF 4(2), of k] by simp_all
  have "queue_ok (cTtl (cache_forget k c)) (cMax (cache_forget k c)) (h(k := None)) (queue_of (cache_forget k c))"
    unfolding p by (rule queue_ok_delete [OF 4(3)])
  moreover have r: "cache_run os (cache_forget k c) = (bs, c')" using 4(4) by simp
  note 1 = 4(1) [OF p(1) calculation r]
  show ?case using 1 unfolding p by (simp only: queue_run.simps fold_simps note_op_simps)
qed simp

lemma newCache_ok: "cache_ok (newCache ttl bound)" "queue_of (newCache ttl bound) = []"
  "queue_ok ttl bound (\<lambda>_. None) []"
  by (simp_all add: cache_ok_def newCache_def queue_of_def queue_ok_def)

text \<open>
  C18. The two structures of the cache are one queue: whatever is put, asked and forgotten in whatever
  order and at whatever instants, they give the answers of the queue and end as its content. It never
  holds more than its bound, and it confirms a key only when the last thing heard of that key was a
  confirmation less than one lifetime ago.
\<close>

theorem cache_refines_queue:
  assumes "cache_run ops (newCache ttl bound) = (bs, c)"
  shows "queue_run ttl bound ops [] = (bs, queue_of c) \<and> int (cache_len c) \<le> max 1 bound \<and>
    (fst (cache_owned now k c) \<longrightarrow> (\<exists>t. held ops k = Some t \<and> now < t + ttl))"
proof -
  have r: "queue_run ttl bound ops [] = (bs, queue_of c)" "cache_ok c" "queue_ok ttl bound (held ops) (queue_of c)"
    using cache_run_refines [OF newCache_ok(1) _ assms, of "\<lambda>_. None"] newCache_ok(2,3)
    by (simp_all add: newCache_def held_def)
  have "fst (queue_owned now k (queue_of c)) \<longrightarrow> (\<exists>t. held ops k = Some t \<and> now < t + ttl)"
    using r(3) by (auto simp: queue_owned_def queue_ok_def split: option.splits dest!: map_of_SomeD)
  moreover have "fst (queue_owned now k (queue_of c)) = fst (cache_owned now k c)"
    using cache_owned_refines [OF r(2) prod.collapse [symmetric], of now k] by simp
  ultimately show ?thesis
    using r by (simp add: queue_ok_def cache_len_def queue_of_def)
qed

definition demo_object :: "string \<Rightarrow> cacheKey" where
  "demo_object name = \<lparr>ckKeyID = ''k1'', ckKind = KindBatch, ckObjectID = name\<rparr>"

theorem cache_refines_queue_witness:
  "queue_run 300 2 [Put 0 (demo_object ''a''), Put 5 (demo_object ''b''), Ask 6 (demo_object ''a''), Put 7 (demo_object ''c''),
     Ask 8 (demo_object ''a''), Ask 9 (demo_object ''c'')] [] =
   ([True, False, True], [(demo_object ''b'', 305), (demo_object ''c'', 307)])"
proof -
  let ?ops = "[Put 0 (demo_object ''a''), Put 5 (demo_object ''b''), Ask 6 (demo_object ''a''), Put 7 (demo_object ''c''),
     Ask 8 (demo_object ''a''), Ask 9 (demo_object ''c'')]"
  have "queue_of (snd (cache_run ?ops (newCache 300 2))) = [(demo_object ''b'', 305), (demo_object ''c'', 307)]"
    "fst (cache_run ?ops (newCache 300 2)) = [True, False, True]" by code_simp+
  then show ?thesis
    using cache_refines_queue [OF prod.collapse [symmetric, of "cache_run ?ops (newCache 300 2)"]] by simp
qed

end
