(* ===== verification/Ownership_Client.thy ===== *)
theory Ownership_Client
  imports Ownership
begin

text \<open>
  The client of the ownership ledger (\<open>internal/ownership/client.go\<close>): what an answer of the api means,
  intents, the retried bind, the batched lookup over the cache, and releases. The api, the clock and the
  interruptible sleep are functions of how often the outside was consulted; what the client did is
  kept in a log, newest first, that no operation reads.
\<close>

section \<open>Constants\<close>

definition ReleaseDeleted :: string where "ReleaseDeleted = ''DELETED''"
definition ReleaseVendorGone :: string where "ReleaseVendorGone = ''VENDOR_GONE''"
definition ReleaseNotCreated :: string where "ReleaseNotCreated = ''NOT_CREATED''"

definition maxLookupIDs :: nat where "maxLookupIDs = 100"
definition maxObjectIDBytes :: nat where "maxObjectIDBytes = 255"

definition DefaultTimeout :: int where "DefaultTimeout = 2 * 1000000000"
definition DefaultCacheTTL :: int where "DefaultCacheTTL = 5 * 60 * 1000000000"
definition DefaultCacheSize :: int where "DefaultCacheSize = 10000"
definition DefaultBindBudget :: int where "DefaultBindBudget = 12 * 1000000000"

definition defaultBindDelays :: "int list" where
  "defaultBindDelays = [200 * 1000000, 600 * 1000000, 1500 * 1000000, 3 * 1000000000, 4 * 1000000000]"

section \<open>Answers of the api\<close>

text \<open>
  What a call meets: it cannot be built, it is not answered in time, its answer cannot be read, or a
  status with what the first 64 KiB of the body decode to.
\<close>

datatype api_answer = NotBuilt | NotAnswered | NotReadable | ApiAnswer nat "json option"

datatype client_error = Refusal nat string | Unavailable | OtherError

definition IsUnavailable :: "client_error \<Rightarrow> bool" where
  "IsUnavailable e \<longleftrightarrow> e = Unavailable"

definition RefusalCode :: "client_error \<Rightarrow> string" where
  "RefusalCode e = (case e of Refusal sc code \<Rightarrow> code | _ \<Rightarrow> [])"

definition code_fields :: "string field list" where
  "code_fields = [(''code'', string_field (\<lambda>s _. s))]"

text \<open>The verdict on an answer; \<open>out\<close> decodes the body of a success, and ignores it where nothing is read.\<close>

definition judge_answer :: "(json option \<Rightarrow> 'a option) \<Rightarrow> api_answer \<Rightarrow> client_error + 'a" where
  "judge_answer out ans =
     (case ans of
        NotBuilt \<Rightarrow> Inl OtherError
      | NotAnswered \<Rightarrow> Inl Unavailable
      | NotReadable \<Rightarrow> Inl Unavailable
      | ApiAnswer sc body \<Rightarrow>
          if 200 \<le> sc \<and> sc < 300
          then (case out body of None \<Rightarrow> Inl Unavailable | Some v \<Rightarrow> Inr v)
          else if 400 \<le> sc \<and> sc < 500 \<and> sc \<noteq> 429
          then (case Option.bind body (\<lambda>j. dec_struct False code_fields j []) of
                  None \<Rightarrow> Inl Unavailable
                | Some code \<Rightarrow> if code \<noteq> [] then Inl (Refusal sc code) else Inl Unavailable)
          else Inl Unavailable)"

section \<open>The client\<close>

record client_world =
  api :: "nat \<Rightarrow> string \<Rightarrow> params \<Rightarrow> api_answer"
  wallclock :: "nat \<Rightarrow> int"
  slept :: "nat \<Rightarrow> int \<Rightarrow> bool"
  agentVersion :: string
  formatNano :: "int \<Rightarrow> string"

datatype act = Called string params api_answer | Remembered cacheKey

record Client =
  clCache :: cache
  clDelays :: "int list"
  clTicks :: nat
  clLog :: "act list"

record client_options =
  optCacheTTL :: int
  optCacheSize :: int
  optBindDelays :: "int list option"

definition New_Client :: "client_options \<Rightarrow> Client" where
  "New_Client opts =
     \<lparr>clCache = newCache (if optCacheTTL opts \<le> 0 then DefaultCacheTTL else optCacheTTL opts)
        (if optCacheSize opts \<le> 0 then DefaultCacheSize else optCacheSize opts),
      clDelays = (case optBindDelays opts of None \<Rightarrow> defaultBindDelays | Some ds \<Rightarrow> ds),
      clTicks = 0, clLog = []\<rparr>"

definition post_call ::
  "client_world \<Rightarrow> string \<Rightarrow> params \<Rightarrow> (json option \<Rightarrow> 'a option) \<Rightarrow> Client \<Rightarrow> (client_error + 'a) \<times> Client" where
  "post_call w path body out c =
     (let ans = api w (clTicks c) path body in
      (judge_answer out ans, c\<lparr>clTicks := Suc (clTicks c), clLog := Called path body ans # clLog c\<rparr>))"

definition remember_key :: "client_world \<Rightarrow> cacheKey \<Rightarrow> Client \<Rightarrow> Client" where
  "remember_key w k c =
     c\<lparr>clCache := cache_put (wallclock w (clTicks c)) k (clCache c), clTicks := Suc (clTicks c)\<rparr>"

definition key_of :: "string \<Rightarrow> Kind \<Rightarrow> string \<Rightarrow> cacheKey" where
  "key_of keyID knd objectID = \<lparr>ckKeyID = keyID, ckKind = knd, ckObjectID = objectID\<rparr>"

definition call_body :: "client_world \<Rightarrow> string \<Rightarrow> Kind \<Rightarrow> params" where
  "call_body w keyID knd = [(''agentVersion'', JStr (agentVersion w)), (''keyId'', JStr keyID), (''kind'', JStr knd)]"

definition Intent :: "client_world \<Rightarrow> string \<Rightarrow> Kind \<Rightarrow> string \<Rightarrow> Client \<Rightarrow> (client_error + string) \<times> Client" where
  "Intent w keyID knd eventID c =
     (case post_call w ''/intents'' (AList.update ''eventId'' (JStr eventID) (call_body w keyID knd))
             (\<lambda>b. Option.bind b (\<lambda>j. dec_struct False [(''intentId'', string_field (\<lambda>s _. s))] j [])) c of
        (Inl e, c) \<Rightarrow> (Inl e, c)
      | (Inr intentID, c) \<Rightarrow> (if intentID = [] then Inl Unavailable else Inr intentID, c))"

record BindDetails =
  bdSizeBytes :: "int option"
  bdExpiresAt :: "int option"

definition bind_body :: "client_world \<Rightarrow> string \<Rightarrow> string \<Rightarrow> Kind \<Rightarrow> string \<Rightarrow> BindDetails \<Rightarrow> params" where
  "bind_body w keyID intentID knd objectID d =
     (let b = AList.update ''objectId'' (JStr objectID) (AList.update ''intentId'' (JStr intentID) (call_body w keyID knd));
          b = (case bdSizeBytes d of None \<Rightarrow> b | Some n \<Rightarrow> AList.update ''sizeBytes'' (JNum (itoa n)) b)
      in (case bdExpiresAt d of None \<Rightarrow> b | Some t \<Rightarrow> AList.update ''expiresAt'' (JStr (formatNano w t)) b))"

text \<open>The attempts of a bind, over the pauses that are left.\<close>

fun bind_from ::
  "client_world \<Rightarrow> params \<Rightarrow> cacheKey \<Rightarrow> int list \<Rightarrow> Client \<Rightarrow> client_error option \<times> Client" where
  "bind_from w body k delays c =
     (case post_call w ''/bind'' body (\<lambda>_. Some ()) c of
        (Inr _, c) \<Rightarrow> (None, remember_key w k c)
      | (Inl e, c) \<Rightarrow>
          (case delays of
             [] \<Rightarrow> (Some e, c)
           | d # ds \<Rightarrow>
               if \<not> IsUnavailable e then (Some e, c)
               else let ok = slept w (clTicks c) d; c = c\<lparr>clTicks := Suc (clTicks c)\<rparr> in
                 if \<not> ok then (Some e, c) else bind_from w body k ds c))"

declare bind_from.simps [simp del]

definition Bind ::
  "client_world \<Rightarrow> string \<Rightarrow> string \<Rightarrow> Kind \<Rightarrow> string \<Rightarrow> BindDetails \<Rightarrow> Client \<Rightarrow> client_error option \<times> Client" where
  "Bind w keyID intentID knd objectID d c =
     bind_from w (bind_body w keyID intentID knd objectID d) (key_of keyID knd objectID) (clDelays c) c"

definition Remember :: "client_world \<Rightarrow> string \<Rightarrow> Kind \<Rightarrow> string \<Rightarrow> Client \<Rightarrow> Client" where
  "Remember w keyID knd objectID c =
     (let c = remember_key w (key_of keyID knd objectID) c in
      c\<lparr>clLog := Remembered (key_of keyID knd objectID) # clLog c\<rparr>)"

text \<open>The first pass of a lookup: what the cache confirms, and what is left to ask.\<close>

fun lookup_cached ::
  "client_world \<Rightarrow> string \<Rightarrow> Kind \<Rightarrow> string list \<Rightarrow> string list \<Rightarrow> bool gomap \<times> string list \<Rightarrow> Client \<Rightarrow>
     (bool gomap \<times> string list) \<times> Client" where
  "lookup_cached w keyID knd seen [] acc c = (acc, c)"
| "lookup_cached w keyID knd seen (i # ids) (own, ask) c =
     (if i \<in> set seen \<or> i = [] \<or> length i > maxObjectIDBytes
      then lookup_cached w keyID knd seen ids (own, ask) c
      else case cache_owned (wallclock w (clTicks c)) (key_of keyID knd i) (clCache c) of
        (b, cc) \<Rightarrow>
          lookup_cached w keyID knd (i # seen) ids (if b then (AList.update i True own, ask) else (own, ask @ [i]))
            (c\<lparr>clCache := cc, clTicks := Suc (clTicks c)\<rparr>))"

text \<open>One answer: only ids that were asked about count.\<close>

fun take_confirmed ::
  "client_world \<Rightarrow> string \<Rightarrow> Kind \<Rightarrow> string list \<Rightarrow> string list \<Rightarrow> bool gomap \<Rightarrow> Client \<Rightarrow> bool gomap \<times> Client" where
  "take_confirmed w keyID knd asked [] own c = (own, c)"
| "take_confirmed w keyID knd asked (i # ids) own c =
     (if i \<in> set asked
      then take_confirmed w keyID knd asked ids (AList.update i True own) (remember_key w (key_of keyID knd i) c)
      else take_confirmed w keyID knd asked ids own c)"

definition owned_list :: "json option \<Rightarrow> string list option" where
  "owned_list body = Option.bind body (\<lambda>j. dec_struct False [(''owned'', strings_field (\<lambda>xs _. xs))] j [])"

function lookup_batches ::
  "client_world \<Rightarrow> string \<Rightarrow> Kind \<Rightarrow> string list \<Rightarrow> bool gomap \<Rightarrow> Client \<Rightarrow> (client_error + bool gomap) \<times> Client" where
  "lookup_batches w keyID knd [] own c = (Inr own, c)"
| "lookup_batches w keyID knd (i # ask) own c =
     (let asked = take maxLookupIDs (i # ask) in
      case post_call w ''/lookup'' (AList.update ''objectIds'' (JArr (map JStr asked)) (call_body w keyID knd))
             owned_list c of
        (Inl e, c) \<Rightarrow> (Inl e, c)
      | (Inr ids, c) \<Rightarrow>
          (case take_confirmed w keyID knd asked ids own c of
             (own, c) \<Rightarrow> lookup_batches w keyID knd (drop maxLookupIDs (i # ask)) own c))"
  by pat_completeness auto
termination
  by (relation "measure (\<lambda>(w, keyID, knd, ask, own, c). length ask)") (auto simp: maxLookupIDs_def)

definition Owned ::
  "client_world \<Rightarrow> string \<Rightarrow> Kind \<Rightarrow> string list \<Rightarrow> Client \<Rightarrow> (client_error + bool gomap) \<times> Client" where
  "Owned w keyID knd ids c =
     (case lookup_cached w keyID knd [] ids ([], []) c of
        ((own, ask), c) \<Rightarrow> lookup_batches w keyID knd ask own c)"

definition Release_Object ::
  "client_world \<Rightarrow> string \<Rightarrow> Kind \<Rightarrow> string \<Rightarrow> string \<Rightarrow> string \<Rightarrow> Client \<Rightarrow> (client_error + bool) \<times> Client" where
  "Release_Object w keyID knd objectID intentID reason c =
     (let b = AList.update ''reason'' (JStr reason) (call_body w keyID knd);
          b = (if objectID \<noteq> [] then AList.update ''objectId'' (JStr objectID) b else b);
          c = (if objectID \<noteq> [] then c\<lparr>clCache := cache_forget (key_of keyID knd objectID) (clCache c)\<rparr> else c);
          b = (if intentID \<noteq> [] then AList.update ''intentId'' (JStr intentID) b else b)
      in post_call w ''/release'' b
           (\<lambda>body. Option.bind body (\<lambda>j. dec_struct False [(''released'', bool_field (\<lambda>x _. x))] j False)) c)"

section \<open>What a confirmation rests on\<close>

definition about_key :: "params \<Rightarrow> cacheKey \<Rightarrow> bool" where
  "about_key body k \<longleftrightarrow> map_of body ''keyId'' = Some (JStr (ckKeyID k)) \<and> map_of body ''kind'' = Some (JStr (ckKind k))"

definition asks_id :: "params \<Rightarrow> string \<Rightarrow> bool" where
  "asks_id body i \<longleftrightarrow> (\<exists>xs. map_of body ''objectIds'' = Some (JArr xs) \<and> JStr i \<in> set xs)"

text \<open>An action that confirms a key's ownership: a bind or a lookup the api accepted, or the gateway's own knowledge.\<close>

definition confirms :: "act \<Rightarrow> cacheKey \<Rightarrow> bool" where
  "confirms a k =
     (case a of
        Remembered k' \<Rightarrow> k' = k
      | Called path body ans \<Rightarrow> about_key body k \<and>
          (path = ''/bind'' \<and> map_of body ''objectId'' = Some (JStr (ckObjectID k)) \<and>
             judge_answer (\<lambda>_. Some ()) ans = Inr () \<or>
           path = ''/lookup'' \<and> asks_id body (ckObjectID k) \<and>
             (\<exists>ids. judge_answer owned_list ans = Inr ids \<and> ckObjectID k \<in> set ids)))"

definition revokes :: "act \<Rightarrow> cacheKey \<Rightarrow> bool" where
  "revokes a k =
     (case a of
        Remembered k' \<Rightarrow> False
      | Called path body ans \<Rightarrow>
          path = ''/release'' \<and> about_key body k \<and> map_of body ''objectId'' = Some (JStr (ckObjectID k)))"

fun stands :: "act list \<Rightarrow> cacheKey \<Rightarrow> bool" where
  "stands [] k = False"
| "stands (a # acts) k \<longleftrightarrow> confirms a k \<or> \<not> revokes a k \<and> stands acts k"

definition client_inv :: "Client \<Rightarrow> bool" where
  "client_inv c \<longleftrightarrow> cache_ok (clCache c) \<and> (\<forall>k. map_of (queue_of (clCache c)) k \<noteq> None \<longrightarrow> stands (clLog c) k)"

lemma client_inv_ticks [simp]: "client_inv (c\<lparr>clTicks := n\<rparr>) = client_inv c"
  by (simp add: client_inv_def)

lemma stands_call: "path \<noteq> ''/release'' \<Longrightarrow> stands acts k \<Longrightarrow> stands (Called path body ans # acts) k"
  by (simp add: revokes_def)

lemma queue_put_keys:
  assumes "map_of (queue_put ttl bound now k q) k' \<noteq> None"
  shows "k' = k \<or> map_of q k' \<noteq> None"
proof -
  have "fst ` set (queue_put ttl bound now k q) \<subseteq> insert k (fst ` set q)"
    using make_room_subset [of bound now q] by (auto simp: queue_put_def mem_delete)
  then show ?thesis using assms unfolding map_of_eq_None_iff by blast
qed

lemma post_call_inv:
  assumes "post_call w path body out c = (r, c')" "client_inv c" "path \<noteq> ''/release''"
  shows "client_inv c' \<and> r = judge_answer out (api w (clTicks c) path body) \<and>
    clLog c' = Called path body (api w (clTicks c) path body) # clLog c \<and> clCache c' = clCache c \<and> clDelays c' = clDelays c"
  using assms by (fastforce simp: post_call_def client_inv_def Let_def revokes_def)

lemma remember_inv:
  assumes "client_inv c" "stands (clLog c) k"
  shows "client_inv (remember_key w k c)" "clLog (remember_key w k c) = clLog c" "clDelays (remember_key w k c) = clDelays c"
  using assms cache_put_refines [of "clCache c" "wallclock w (clTicks c)" k] queue_put_keys
  by (fastforce simp: client_inv_def remember_key_def)+

lemma call_body_fields [simp]:
  "map_of (call_body w keyID knd) ''keyId'' = Some (JStr keyID)"
  "map_of (call_body w keyID knd) ''kind'' = Some (JStr knd)"
  "map_of (call_body w keyID knd) ''objectId'' = None"
  by (simp_all add: call_body_def)

lemma bind_body_fields:
  "map_of (bind_body w keyID intentID knd objectID d) ''keyId'' = Some (JStr keyID)"
  "map_of (bind_body w keyID intentID knd objectID d) ''kind'' = Some (JStr knd)"
  "map_of (bind_body w keyID intentID knd objectID d) ''objectId'' = Some (JStr objectID)"
  by (auto simp: bind_body_def Let_def go_maps split: option.splits)

text \<open>
  A bind appends its attempts to the log: all of one body, all but the newest undecided, the newest the
  result, and no more than there are pauses and one.
\<close>

definition bind_log :: "params \<Rightarrow> nat \<Rightarrow> client_error option \<Rightarrow> act list \<Rightarrow> bool" where
  "bind_log body most res new \<longleftrightarrow>
     (\<exists>ans earlier. new = Called ''/bind'' body ans # map (Called ''/bind'' body) earlier \<and> length earlier \<le> most \<and>
        (\<forall>a\<in>set earlier. judge_answer (\<lambda>_. Some ()) a = Inl Unavailable) \<and>
        judge_answer (\<lambda>_. Some ()) ans = (case res of None \<Rightarrow> Inr () | Some e \<Rightarrow> Inl e))"

lemma bind_from_log:
  assumes "bind_from w body k delays c = (res, c')" "client_inv c" "about_key body k"
    "map_of body ''objectId'' = Some (JStr (ckObjectID k))"
  shows "client_inv c' \<and> clDelays c' = clDelays c \<and>
    (\<exists>new. clLog c' = new @ clLog c \<and> bind_log body (length delays) res new) \<and> (res = None \<longrightarrow> stands (clLog c') k)"
  using assms(1,2)
proof (induction delays arbitrary: c)
  case Nil
  obtain r c1 where p: "post_call w ''/bind'' body (\<lambda>_. Some ()) c = (r, c1)" by fastforce
  note q = post_call_inv [OF p Nil(2), simplified]
  show ?case
  proof (cases r)
    case (Inl e)
    then show ?thesis using Nil p q by (auto simp: bind_from.simps [of w body k] bind_log_def)
  next
    case (Inr u)
    then have "stands (clLog c1) k" using q assms(3,4) by (simp add: confirms_def)
    then show ?thesis
      using Inr Nil p q remember_inv [of c1 k w] by (auto simp: bind_from.simps [of w body k] bind_log_def)
  qed
next
  case (Cons d ds)
  obtain r c1 where p: "post_call w ''/bind'' body (\<lambda>_. Some ()) c = (r, c1)" by fastforce
  note q = post_call_inv [OF p Cons(3), simplified]
  show ?case
  proof (cases "r = Inl Unavailable \<and> slept w (clTicks c1) d")
    case False
    then show ?thesis
    proof (cases r)
      case (Inl e)
      then have "res = Some e \<and> clLog c' = clLog c1 \<and> clCache c' = clCache c1 \<and> clDelays c' = clDelays c1"
        using False Cons.prems(1) p by (auto simp: bind_from.simps [of w body k "d # ds"] IsUnavailable_def Let_def split: if_splits)
      moreover have "client_inv c' = client_inv c1" using calculation by (simp only: client_inv_def)
      ultimately show ?thesis using Inl q by (auto simp: bind_log_def intro!: exI [of _ "[]"])
    next
      case (Inr u)
      then have "stands (clLog c1) k" using q assms(3,4) by (simp add: confirms_def)
      then show ?thesis
        using Inr Cons.prems p q remember_inv [of c1 k w]
        by (auto simp: bind_from.simps [of w body k "d # ds"] bind_log_def intro!: exI [of _ "[]"])
    qed
  next
    case True
    let ?c = "c1\<lparr>clTicks := Suc (clTicks c1)\<rparr>"
    have "bind_from w body k ds ?c = (res, c')"
      using True Cons.prems(1) p by (simp add: bind_from.simps [of w body k "d # ds"] IsUnavailable_def Let_def)
    moreover have "client_inv ?c" using q by simp
    ultimately have ih: "client_inv c' \<and> clDelays c' = clDelays ?c \<and>
        (\<exists>new. clLog c' = new @ clLog ?c \<and> bind_log body (length ds) res new) \<and> (res = None \<longrightarrow> stands (clLog c') k)"
      by (rule Cons.IH)
    then obtain ans earlier where n: "clLog c' = Called ''/bind'' body ans # map (Called ''/bind'' body) earlier @ clLog c1"
      "length earlier \<le> length ds" "\<forall>a\<in>set earlier. judge_answer (\<lambda>_. Some ()) a = Inl Unavailable"
      "judge_answer (\<lambda>_. Some ()) ans = (case res of None \<Rightarrow> Inr () | Some e \<Rightarrow> Inl e)"
      by (auto simp: bind_log_def)
    let ?a = "api w (clTicks c) ''/bind'' body"
    have "bind_log body (length (d # ds)) res (Called ''/bind'' body ans # map (Called ''/bind'' body) (earlier @ [?a]))"
      unfolding bind_log_def using n q True by (intro exI [of _ ans] exI [of _ "earlier @ [?a]"]) auto
    moreover have "clLog c' = (Called ''/bind'' body ans # map (Called ''/bind'' body) (earlier @ [?a])) @ clLog c"
      using n(1) q by simp
    ultimately show ?thesis using ih q by auto
  qed
qed

lemma owned_keys:
  assumes "cache_ok cc" "cache_owned now k cc = (b, cc')"
  shows "cache_ok cc'" "map_of (queue_of cc') k' \<noteq> None \<Longrightarrow> map_of (queue_of cc) k' \<noteq> None"
    "b \<Longrightarrow> map_of (queue_of cc) k \<noteq> None"
proof -
  have r: "cache_ok cc'" "queue_owned now k (queue_of cc) = (b, queue_of cc')"
    using cache_owned_refines [OF assms] by simp_all
  then have "queue_of cc' = queue_of cc \<or> queue_of cc' = AList.delete k (queue_of cc)"
    by (auto simp: queue_owned_def split: option.splits if_splits)
  then have "map_of (queue_of cc') k' \<noteq> None \<Longrightarrow> map_of (queue_of cc) k' \<noteq> None"
    by (auto simp: delete_conv' split: if_splits)
  then show "cache_ok cc'" "map_of (queue_of cc') k' \<noteq> None \<Longrightarrow> map_of (queue_of cc) k' \<noteq> None"
    "b \<Longrightarrow> map_of (queue_of cc) k \<noteq> None"
    using r by (auto simp: queue_owned_def split: option.splits if_splits)
qed

text \<open>Ids a lookup can ask about.\<close>

definition askable :: "string \<Rightarrow> bool" where
  "askable i \<longleftrightarrow> i \<noteq> [] \<and> length i \<le> maxObjectIDBytes"

text \<open>An id answered as owned was confirmed, and one not answered as owned was asked about in this call.\<close>

definition lookup_ok :: "string \<Rightarrow> Kind \<Rightarrow> string set \<Rightarrow> bool gomap \<Rightarrow> string set \<Rightarrow> Client \<Rightarrow> bool" where
  "lookup_ok keyID knd ids own rest c \<longleftrightarrow> client_inv c \<and>
     (\<forall>i. map_of own i \<noteq> None \<longrightarrow> i \<in> ids \<and> askable i \<and> stands (clLog c) (key_of keyID knd i)) \<and>
     (\<forall>i\<in>rest. i \<in> ids \<and> askable i)"

lemma lookup_cached_ok:
  assumes "lookup_cached w keyID knd seen todo (own, ask) c = ((own', ask'), c')"
    "lookup_ok keyID knd ids own (set ask) c" "set todo \<subseteq> ids"
    "\<forall>i\<in>set seen. map_of own i \<noteq> None \<or> i \<in> set ask"
  shows "lookup_ok keyID knd ids own' (set ask') c' \<and> clLog c' = clLog c \<and> clDelays c' = clDelays c \<and>
    (\<forall>i\<in>set seen \<union> set todo. askable i \<longrightarrow> i \<in> set seen \<or> map_of own' i \<noteq> None \<or> i \<in> set ask') \<and>
    (\<forall>i. map_of own i \<noteq> None \<or> i \<in> set ask \<longrightarrow> map_of own' i \<noteq> None \<or> i \<in> set ask')"
  using assms
proof (induction todo arbitrary: seen own ask c)
  case (Cons i todo)
  show ?case
  proof (cases "i \<in> set seen \<or> i = [] \<or> length i > maxObjectIDBytes")
    case True
    then show ?thesis using Cons.IH [of seen own ask c] Cons.prems by (auto simp: askable_def)
  next
    case False
    obtain b cc where o: "cache_owned (wallclock w (clTicks c)) (key_of keyID knd i) (clCache c) = (b, cc)" by fastforce
    let ?acc = "if b then (AList.update i True own, ask) else (own, ask @ [i])"
    let ?c = "c\<lparr>clCache := cc, clTicks := Suc (clTicks c)\<rparr>"
    have run: "lookup_cached w keyID knd (i # seen) todo (fst ?acc, snd ?acc) ?c = ((own', ask'), c')"
      using Cons.prems(1) False o by (simp del: fst_conv snd_conv)
    have c: "cache_ok (clCache c)" using Cons.prems(2) by (simp add: lookup_ok_def client_inv_def)
    note k = owned_keys [OF c o]
    have inv: "client_inv ?c" using k(1,2) Cons.prems(2) unfolding lookup_ok_def client_inv_def by simp
    have "b \<Longrightarrow> stands (clLog c) (key_of keyID knd i)" using k(3) Cons.prems(2) by (auto simp: lookup_ok_def client_inv_def)
    then have ok: "lookup_ok keyID knd ids (fst ?acc) (set (snd ?acc)) ?c"
      using Cons.prems(2,3) inv False by (auto simp: lookup_ok_def askable_def go_maps)
    have seen: "\<forall>j\<in>set (i # seen). map_of (fst ?acc) j \<noteq> None \<or> j \<in> set (snd ?acc)"
      using Cons.prems(4) by (auto simp: go_maps)
    have sub: "set todo \<subseteq> ids" using Cons.prems(3) by simp
    note ih = Cons.IH [OF run ok sub seen]
    have keep: "map_of (fst ?acc) j \<noteq> None \<or> j \<in> set (snd ?acc)" if "map_of own j \<noteq> None \<or> j \<in> set ask \<or> j = i" for j
      using that by (auto simp: go_maps)
    show ?thesis
    proof (intro conjI ballI impI allI)
      fix j assume "j \<in> set seen \<union> set (i # todo)" "askable j"
      then consider "j \<in> set seen" | "j = i" | "j \<in> set (i # seen) \<union> set todo" "j \<notin> set (i # seen)" by auto
      then show "j \<in> set seen \<or> map_of own' j \<noteq> None \<or> j \<in> set ask'"
        by cases (use ih keep [of j] \<open>askable j\<close> in blast)+
    next
      fix j assume "map_of own j \<noteq> None \<or> j \<in> set ask"
      then show "map_of own' j \<noteq> None \<or> j \<in> set ask'" using ih keep [of j] by blast
    qed (use ih in simp_all)
  qed
qed (simp add: lookup_ok_def)

lemma take_confirmed_ok:
  assumes "take_confirmed w keyID knd asked xs own c = (own', c')" "client_inv c"
    "\<forall>i\<in>set asked. i \<in> set xs \<longrightarrow> stands (clLog c) (key_of keyID knd i)"
  shows "client_inv c' \<and> clLog c' = clLog c \<and> clDelays c' = clDelays c \<and>
    (\<forall>i. map_of own' i \<noteq> None \<longleftrightarrow> map_of own i \<noteq> None \<or> i \<in> set asked \<and> i \<in> set xs)"
  using assms
proof (induction xs arbitrary: own c)
  case (Cons i xs)
  show ?case
  proof (cases "i \<in> set asked")
    case True
    then have st: "stands (clLog c) (key_of keyID knd i)" using Cons.prems(3) by simp
    note r = remember_inv [OF Cons.prems(2) st, of w]
    have "take_confirmed w keyID knd asked xs (AList.update i True own) (remember_key w (key_of keyID knd i) c) = (own', c')"
      using Cons.prems(1) True by simp
    from Cons.IH [OF this r(1)] show ?thesis
      using r Cons.prems(3) True by (auto simp: go_maps)
  next
    case False
    then show ?thesis using Cons.IH [of own c] Cons.prems by auto
  qed
qed simp

text \<open>A call of the batch loop that asked about an id and was told it is not the key's.\<close>

definition denied :: "string \<Rightarrow> Kind \<Rightarrow> string \<Rightarrow> act list \<Rightarrow> bool" where
  "denied keyID knd i acts \<longleftrightarrow>
     (\<exists>body ans xs. Called ''/lookup'' body ans \<in> set acts \<and> about_key body (key_of keyID knd i) \<and> asks_id body i \<and>
        judge_answer owned_list ans = Inr xs \<and> i \<notin> set xs)"

lemma denied_more: "denied keyID knd i acts \<Longrightarrow> denied keyID knd i (acts @ acts') \<and> denied keyID knd i (acts' @ acts)"
  unfolding denied_def by auto

lemma lookup_batches_ok:
  assumes "lookup_batches w keyID knd ask own c = (r, c')" "lookup_ok keyID knd ids own (set ask) c"
  shows "client_inv c' \<and> clDelays c' = clDelays c \<and> (\<exists>new. clLog c' = new @ clLog c \<and>
    (\<forall>own'. r = Inr own' \<longrightarrow> lookup_ok keyID knd ids own' {} c' \<and>
       (\<forall>i. map_of own i \<noteq> None \<longrightarrow> map_of own' i \<noteq> None) \<and>
       (\<forall>i\<in>set ask. map_of own' i \<noteq> None \<or> denied keyID knd i new)))"
  using assms
proof (induction w keyID knd ask own c rule: lookup_batches.induct)
  case (1 w keyID knd own c)
  then show ?case by (auto simp: lookup_ok_def)
next
  case (2 w keyID knd i0 ask own c)
  let ?ask = "i0 # ask" let ?asked = "take maxLookupIDs ?ask"
  let ?body = "AList.update ''objectIds'' (JArr (map JStr ?asked)) (call_body w keyID knd)"
  obtain r1 c1 where p: "post_call w ''/lookup'' ?body owned_list c = (r1, c1)" by fastforce
  have inv: "client_inv c" using 2(3) by (simp add: lookup_ok_def)
  define ans where "ans = api w (clTicks c) ''/lookup'' ?body"
  have q: "client_inv c1" "r1 = judge_answer owned_list ans" "clLog c1 = Called ''/lookup'' ?body ans # clLog c"
    "clCache c1 = clCache c" "clDelays c1 = clDelays c"
    using post_call_inv [OF p inv] by (simp_all add: ans_def)
  have asked: "about_key ?body (key_of keyID knd i)" "asks_id ?body i" if "i \<in> set ?asked" for i
    using that by (auto simp: about_key_def asks_id_def key_of_def go_maps)
  show ?case
  proof (cases r1)
    case (Inl e)
    then show ?thesis using 2(2) p q by (auto simp: Let_def)
  next
    case (Inr xs)
    have judged: "judge_answer owned_list ans = Inr xs" using q(2) Inr by metis
    obtain own1 c2 where t: "take_confirmed w keyID knd ?asked xs own c1 = (own1, c2)" by fastforce
    have "\<forall>i\<in>set ?asked. i \<in> set xs \<longrightarrow> stands (clLog c1) (key_of keyID knd i)"
      using asked q(2,3) Inr by (auto simp: confirms_def key_of_def)
    note tk = take_confirmed_ok [OF t q(1) this]
    have st: "stands (clLog c2) k" if "stands (clLog c) k" for k
      using that tk stands_call [of "''/lookup''" "clLog c" k] by (simp add: q(3))
    have cov: "set ?asked \<union> set (drop maxLookupIDs ?ask) = set ?ask"
      by (metis append_take_drop_id set_append)
    have ok: "lookup_ok keyID knd ids own1 (set (drop maxLookupIDs ?ask)) c2"
      unfolding lookup_ok_def
    proof (intro conjI allI ballI impI)
      fix i assume "map_of own1 i \<noteq> None"
      then consider "map_of own i \<noteq> None" | "i \<in> set ?asked" "i \<in> set xs" using tk by blast
      then have "i \<in> ids \<and> askable i \<and> stands (clLog c2) (key_of keyID knd i)"
      proof cases
        case 1
        then show ?thesis using 2(3) st by (simp add: lookup_ok_def)
      next
        case 2
        then show ?thesis
          using \<open>\<forall>i\<in>set ?asked. i \<in> set xs \<longrightarrow> stands (clLog c1) (key_of keyID knd i)\<close> tk
            \<open>lookup_ok keyID knd ids own (set ?ask) c\<close> cov unfolding lookup_ok_def by (metis UnI1)
      qed
      then show "i \<in> ids" "askable i" "stands (clLog c2) (key_of keyID knd i)" by simp_all
    qed (use 2(3) tk cov in \<open>auto simp: lookup_ok_def dest: in_set_dropD\<close>)
    have run: "lookup_batches w keyID knd (drop maxLookupIDs ?ask) own1 c2 = (r, c')"
      using 2(2) p t Inr by (simp add: Let_def)
    have "client_inv c' \<and> clDelays c' = clDelays c2 \<and> (\<exists>new. clLog c' = new @ clLog c2 \<and>
        (\<forall>own'. r = Inr own' \<longrightarrow> lookup_ok keyID knd ids own' {} c' \<and>
           (\<forall>i. map_of own1 i \<noteq> None \<longrightarrow> map_of own' i \<noteq> None) \<and>
           (\<forall>i\<in>set (drop maxLookupIDs ?ask). map_of own' i \<noteq> None \<or> denied keyID knd i new)))"
      by (rule 2(1) [OF refl p [symmetric] Inr t [symmetric] run ok])
    then obtain new where n: "client_inv c'" "clDelays c' = clDelays c2" "clLog c' = new @ clLog c2"
      "\<And>own'. r = Inr own' \<Longrightarrow> lookup_ok keyID knd ids own' {} c' \<and>
         (\<forall>i. map_of own1 i \<noteq> None \<longrightarrow> map_of own' i \<noteq> None) \<and>
         (\<forall>i\<in>set (drop maxLookupIDs ?ask). map_of own' i \<noteq> None \<or> denied keyID knd i new)" by blast
    let ?new = "new @ [Called ''/lookup'' ?body ans]"
    have "map_of own' i \<noteq> None \<or> denied keyID knd i ?new" if ended: "r = Inr own'" and mem: "i \<in> set ?ask" for own' i
    proof -
      consider "i \<in> set (drop maxLookupIDs ?ask)" | "i \<in> set ?asked" "i \<in> set xs" | "i \<in> set ?asked" "i \<notin> set xs"
        using mem unfolding cov [symmetric] Un_iff by blast
      then show ?thesis
      proof cases
        case 1
        then show ?thesis using n(4) [OF ended] denied_more [of keyID knd i new] by metis
      next
        case 2
        then have "map_of own1 i \<noteq> None" using tk by metis
        then show ?thesis using n(4) [OF ended] by metis
      next
        case 3
        then have "denied keyID knd i [Called ''/lookup'' ?body ans]"
          using asked judged unfolding denied_def by (metis list.set_intros(1))
        then show ?thesis using denied_more by metis
      qed
    qed
    moreover have "clLog c' = ?new @ clLog c" using n(3) tk q(3) by simp
    moreover have "\<forall>i. map_of own i \<noteq> None \<longrightarrow> map_of own' i \<noteq> None" if "r = Inr own'" for own'
      using n(4) [OF that] tk by blast
    moreover have "clDelays c' = clDelays c" using n(2) tk q(5) by simp
    ultimately show ?thesis using n(1,4) by (intro conjI exI [of _ ?new] allI impI ballI) blast+
  qed
qed

section \<open>Any life of a client\<close>

datatype client_op =
    DoIntent string Kind string
  | DoBind string string Kind string BindDetails
  | DoRemember string Kind string
  | DoOwned string Kind "string list"
  | DoRelease string Kind string string string

fun client_step :: "client_world \<Rightarrow> client_op \<Rightarrow> Client \<Rightarrow> Client" where
  "client_step w (DoIntent k t e) c = snd (Intent w k t e c)"
| "client_step w (DoBind k n t i d) c = snd (Bind w k n t i d c)"
| "client_step w (DoRemember k t i) c = Remember w k t i c"
| "client_step w (DoOwned k t ids) c = snd (Owned w k t ids c)"
| "client_step w (DoRelease k t i n r) c = snd (Release_Object w k t i n r c)"

definition client_run :: "client_world \<Rightarrow> client_op list \<Rightarrow> Client \<Rightarrow> Client" where
  "client_run w ops c = fold (client_step w) ops c"

lemma Owned_ok:
  assumes "Owned w keyID knd ids c = (r, c')" "client_inv c"
  shows "client_inv c' \<and> clDelays c' = clDelays c \<and> (\<exists>new. clLog c' = new @ clLog c \<and>
    (\<forall>own. r = Inr own \<longrightarrow> lookup_ok keyID knd (set ids) own {} c' \<and>
       (\<forall>i\<in>set ids. askable i \<longrightarrow> map_of own i \<noteq> None \<or> denied keyID knd i new)))"
proof -
  obtain own0 ask c1 where l: "lookup_cached w keyID knd [] ids ([], []) c = ((own0, ask), c1)" by (metis prod.exhaust)
  have start: "lookup_ok keyID knd (set ids) [] (set []) c" using assms(2) by (simp add: lookup_ok_def)
  have k: "lookup_ok keyID knd (set ids) own0 (set ask) c1" "clLog c1 = clLog c" "clDelays c1 = clDelays c"
    "\<forall>i\<in>set ids. askable i \<longrightarrow> map_of own0 i \<noteq> None \<or> i \<in> set ask"
    using lookup_cached_ok [OF l start] by simp_all
  have "lookup_batches w keyID knd ask own0 c1 = (r, c')" using assms(1) l by (simp add: Owned_def)
  from lookup_batches_ok [OF this k(1)] show ?thesis using k(2-4) by auto blast+
qed

lemma Bind_ok:
  assumes "Bind w keyID intentID knd objectID d c = (res, c')" "client_inv c"
  shows "client_inv c' \<and> clDelays c' = clDelays c \<and> (res = None \<longrightarrow> stands (clLog c') (key_of keyID knd objectID)) \<and>
    (\<exists>new. clLog c' = new @ clLog c \<and> bind_log (bind_body w keyID intentID knd objectID d) (length (clDelays c)) res new)"
proof -
  have "about_key (bind_body w keyID intentID knd objectID d) (key_of keyID knd objectID)"
    "map_of (bind_body w keyID intentID knd objectID d) ''objectId'' = Some (JStr (ckObjectID (key_of keyID knd objectID)))"
    by (simp_all add: about_key_def key_of_def bind_body_fields)
  from bind_from_log [OF assms(1) [unfolded Bind_def] assms(2) this] show ?thesis by blast
qed

lemma Release_ok:
  assumes "client_inv c"
  shows "client_inv (snd (Release_Object w keyID knd objectID intentID reason c))"
proof -
  let ?c = "if objectID \<noteq> [] then c\<lparr>clCache := cache_forget (key_of keyID knd objectID) (clCache c)\<rparr> else c"
  have c: "cache_ok (clCache c)" using assms by (simp add: client_inv_def)
  have q: "cache_ok (clCache ?c)" "clLog ?c = clLog c"
    "map_of (queue_of (clCache ?c)) k \<noteq> None \<Longrightarrow>
       map_of (queue_of (clCache c)) k \<noteq> None \<and> (objectID \<noteq> [] \<longrightarrow> k \<noteq> key_of keyID knd objectID)" for k
    using cache_forget_refines [OF c, of "key_of keyID knd objectID"] c
    by (auto simp: delete_conv' split: if_splits)
  have "\<not> revokes (Called ''/release'' b ans) k"
    if "map_of b ''objectId'' = (if objectID \<noteq> [] then Some (JStr objectID) else None)"
      "map_of b ''keyId'' = Some (JStr keyID)" "map_of b ''kind'' = Some (JStr knd)"
      "objectID \<noteq> [] \<longrightarrow> k \<noteq> key_of keyID knd objectID" for b ans k
    using that by (cases k) (auto simp: revokes_def about_key_def key_of_def split: if_splits)
  then show ?thesis
    using assms q
    by (auto simp: Release_Object_def post_call_def client_inv_def Let_def go_maps split: if_splits)
qed

lemma client_step_inv: "client_inv c \<Longrightarrow> client_inv (client_step w o1 c)"
proof (cases o1)
  case (DoIntent k t e)
  assume inv: "client_inv c"
  obtain r c' where p: "post_call w ''/intents'' (AList.update ''eventId'' (JStr e) (call_body w k t))
             (\<lambda>b. Option.bind b (\<lambda>j. dec_struct False [(''intentId'', string_field (\<lambda>s _. s))] j [])) c = (r, c')"
    by fastforce
  have "client_inv c'" using post_call_inv [OF p inv] by simp
  then show ?thesis using p DoIntent by (cases r) (auto simp: Intent_def)
next
  case (DoBind k n t i d)
  assume "client_inv c"
  then show ?thesis using Bind_ok [OF prod.collapse [symmetric]] DoBind by simp
next
  case (DoRemember k t i)
  assume inv: "client_inv c"
  let ?c = "remember_key w (key_of k t i) c"
  have "cache_ok (clCache c)" using inv by (simp add: client_inv_def)
  from cache_put_refines [OF this, of "wallclock w (clTicks c)" "key_of k t i"]
  have "cache_ok (clCache ?c)" "clLog ?c = clLog c"
    "map_of (queue_of (clCache ?c)) j \<noteq> None \<Longrightarrow> j = key_of k t i \<or> map_of (queue_of (clCache c)) j \<noteq> None" for j
    using queue_put_keys by (auto simp: remember_key_def)
  then show ?thesis
    using inv DoRemember unfolding client_inv_def by (auto simp: Remember_def Let_def confirms_def revokes_def)
next
  case (DoOwned k t ids)
  assume "client_inv c"
  then show ?thesis using Owned_ok [OF prod.collapse [symmetric]] DoOwned by simp
next
  case (DoRelease k t i n r)
  assume "client_inv c"
  then show ?thesis using Release_ok DoRelease by simp
qed

lemma client_run_inv: "client_inv (client_run w ops (New_Client opts))"
proof -
  have "client_inv (New_Client opts)" by (simp add: client_inv_def New_Client_def newCache_ok)
  moreover have "client_inv c \<Longrightarrow> client_inv (fold (client_step w) ops c)" for c
    by (induction ops arbitrary: c) (simp_all add: client_step_inv)
  ultimately show ?thesis by (simp add: client_run_def)
qed

text \<open>
  C14. Whatever a client did before, however the api answered: an id that a lookup answers as owned is one of
  the ids it was asked about, and its ownership by this very key was confirmed (by a bind or a lookup
  the api accepted, or by the gateway's own knowledge) and not released since; and an id that can be owned
  and is not answered so was asked of the api in this very call, and the api did not list it.
\<close>

theorem ownership_confirmed:
  assumes "Owned w keyID knd ids (client_run w ops (New_Client opts)) = (Inr own, c)"
  shows "(\<forall>i. map_of own i \<noteq> None \<longrightarrow> i \<in> set ids \<and> stands (clLog c) (key_of keyID knd i)) \<and>
    (\<exists>new. clLog c = new @ clLog (client_run w ops (New_Client opts)) \<and>
       (\<forall>i\<in>set ids. askable i \<and> map_of own i = None \<longrightarrow> denied keyID knd i new))"
proof -
  obtain new where n: "clLog c = new @ clLog (client_run w ops (New_Client opts))" "lookup_ok keyID knd (set ids) own {} c"
    "\<forall>i\<in>set ids. askable i \<longrightarrow> map_of own i \<noteq> None \<or> denied keyID knd i new"
    using Owned_ok [OF assms client_run_inv] by blast
  then show ?thesis unfolding lookup_ok_def by metis
qed


definition ledger :: "api_answer list \<Rightarrow> client_world" where
  "ledger answers =
     \<lparr>api = (\<lambda>n path body. if n < length answers then answers ! n else NotAnswered), wallclock = int, slept = (\<lambda>n d. True),
      agentVersion = ''dev'', formatNano = (\<lambda>t. [])\<rparr>"

definition default_options :: client_options where
  "default_options = \<lparr>optCacheTTL = 0, optCacheSize = 0, optBindDelays = None\<rparr>"

definition half_owned :: client_world where
  "half_owned = ledger [NotAnswered, NotAnswered, ApiAnswer 200 (Some (JObj [(''owned'', JArr [JStr ''a'', JStr ''z''])]))]"

theorem ownership_confirmed_witness:
  "\<exists>own c. Owned half_owned ''k1'' KindBatch [''a'', ''b''] (New_Client default_options) = (Inr own, c) \<and>
     own = [(''a'', True)] \<and> stands (clLog c) (key_of ''k1'' KindBatch ''a'') \<and> denied ''k1'' KindBatch ''b'' (clLog c)"
proof -
  let ?r = "Owned half_owned ''k1'' KindBatch [''a'', ''b''] (New_Client default_options)"
  have "case fst ?r of Inl _ \<Rightarrow> False | Inr own \<Rightarrow> own = [(''a'', True)]" by code_simp
  then obtain c where r: "?r = (Inr [(''a'', True)], c)" by (cases ?r) (auto split: sum.splits)
  have "askable ''b''" by code_simp
  note confirmed = ownership_confirmed [of half_owned _ _ _ "[]", unfolded client_run_def fold_simps id_apply, OF r]
  have "stands (clLog c) (key_of ''k1'' KindBatch ''a'')"
    using confirmed [THEN conjunct1, rule_format, of "''a''"] by simp
  moreover have "denied ''k1'' KindBatch ''b'' (clLog c)"
    using confirmed [THEN conjunct2] \<open>askable ''b''\<close> by (auto simp: New_Client_def)
  ultimately show ?thesis using r by blast
qed

definition slow_api :: client_world where
  "slow_api = ledger [NotAnswered, NotAnswered, ApiAnswer 500 None, NotAnswered, ApiAnswer 200 None]"


end
