(* ===== verification/Keygen.thy ===== *)
theory Keygen
  imports Snapshot_Load Admission Json_Text "HOL-Library.Multiset"
begin

text \<open>
  The command that maintains the authorization document (\<open>cmd/llm-keygen/main.go\<close>): issuing a key,
  revoking one, and the service switch, all through one locked, validated and atomic replacement of the
  file. The file is the JSON value it holds with its mode and owner; random numbers, hashing and the
  text of a time are the library's.
\<close>

section \<open>The document\<close>

record key_document =
  kdFormatVersion :: "int option"
  kdGeneration :: int
  kdServiceEnabled :: bool
  kdModels :: "json list"
  kdKeys :: "json list"
  kdPassthroughRef :: string

definition int_pointer :: "(int option \<Rightarrow> 'r \<Rightarrow> 'r) \<Rightarrow> json \<Rightarrow> 'r \<Rightarrow> 'r option" where
  "int_pointer upd j r =
     (case j of JNull \<Rightarrow> Some (upd None r) | JNum lit \<Rightarrow> map_option (\<lambda>n. upd (Some n) r) (parse_int64 lit) | _ \<Rightarrow> None)"

definition key_document_fields :: "key_document field list" where
  "key_document_fields =
     [(''formatVersion'', int_pointer (\<lambda>n. kdFormatVersion_update (\<lambda>_. n))),
      (''generation'', int_field (\<lambda>n. kdGeneration_update (\<lambda>_. n))),
      (''serviceEnabled'', bool_field (\<lambda>b. kdServiceEnabled_update (\<lambda>_. b))),
      (''models'', \<lambda>j r. map_option (\<lambda>xs. r\<lparr>kdModels := xs\<rparr>) (dec_list j)),
      (''keys'', \<lambda>j r. map_option (\<lambda>xs. r\<lparr>kdKeys := xs\<rparr>) (dec_list j)),
      (''passthroughRef'', string_field (\<lambda>s. kdPassthroughRef_update (\<lambda>_. s)))]"

definition key_document_zero :: key_document where
  "key_document_zero = \<lparr>kdFormatVersion = None, kdGeneration = 0, kdServiceEnabled = False, kdModels = [], kdKeys = [],
     kdPassthroughRef = []\<rparr>"

definition document_json :: "key_document \<Rightarrow> json" where
  "document_json d = JObj
     ((case kdFormatVersion d of None \<Rightarrow> [] | Some n \<Rightarrow> [(''formatVersion'', JNum (itoa n))]) @
      [(''generation'', JNum (itoa (kdGeneration d))), (''serviceEnabled'', JBool (kdServiceEnabled d)),
       (''models'', JArr (kdModels d)), (''keys'', JArr (kdKeys d))] @
      (if kdPassthroughRef d = [] then [] else [(''passthroughRef'', JStr (kdPassthroughRef d))]))"

section \<open>Changing it\<close>

datatype keygen_error =
    DiskFault
  | Unreadable
  | EntryUnreadable nat
  | AlreadyRevoked string
  | NotListed string
  | ServiceAlready bool
  | KeyExists string
  | WouldBeRefused load_error

record key_probe =
  kpKeyID :: string
  kpStatus :: string

definition probe_key :: "json \<Rightarrow> key_probe option" where
  "probe_key j = dec_struct False
     [(''keyId'', string_field (\<lambda>s. kpKeyID_update (\<lambda>_. s))), (''status'', string_field (\<lambda>s. kpStatus_update (\<lambda>_. s)))]
     j \<lparr>kpKeyID = [], kpStatus = []\<rparr>"

text \<open>One member of an object replaced; the members are written in the order of their names.\<close>

definition setMember :: "json \<Rightarrow> string \<Rightarrow> json \<Rightarrow> json option" where
  "setMember raw name v = map_option (\<lambda>obj. JObj (sort_key fst (AList.update name v obj))) (dec_object raw)"

fun revoke_entries :: "string \<Rightarrow> nat \<Rightarrow> json list \<Rightarrow> keygen_error + json list" where
  "revoke_entries kid i [] = Inl (NotListed kid)"
| "revoke_entries kid i (raw # raws) =
     (case probe_key raw of
        None \<Rightarrow> Inl (EntryUnreadable i)
      | Some p \<Rightarrow>
          if kpKeyID p \<noteq> kid
          then (case revoke_entries kid (Suc i) raws of Inl e \<Rightarrow> Inl e | Inr rs \<Rightarrow> Inr (raw # rs))
          else if kpStatus p = KeyRevoked then Inl (AlreadyRevoked kid)
          else (case setMember raw ''status'' (JStr KeyRevoked) of
                  None \<Rightarrow> Inl (EntryUnreadable i) | Some patched \<Rightarrow> Inr (patched # raws)))"

definition revokeKey :: "string \<Rightarrow> key_document \<Rightarrow> keygen_error + key_document" where
  "revokeKey kid d = map_sum id (\<lambda>raws. d\<lparr>kdKeys := raws\<rparr>) (revoke_entries kid 0 (kdKeys d))"

definition setService :: "bool \<Rightarrow> key_document \<Rightarrow> keygen_error + key_document" where
  "setService on d = (if kdServiceEnabled d = on then Inl (ServiceAlready on) else Inr (d\<lparr>kdServiceEnabled := on\<rparr>))"

text \<open>A key as \<open>json.Marshal\<close> writes it.\<close>

definition key_json :: "(int \<Rightarrow> string) \<Rightarrow> Key \<Rightarrow> json" where
  "key_json formatTime k =
     (let strs = (\<lambda>name xs. if xs = [] then [] else [(name, JArr (map JStr xs))]);
          flag = (\<lambda>name b. if b then [(name, JBool True)] else []);
          num = (\<lambda>name n. if n = 0 then [] else [(name, JNum (itoa n))])
      in JObj
     ([(''keyId'', JStr (KeyID k)), (''tokenHash'', JStr (TokenHash k)), (''status'', JStr (Status k))] @
      (case ExpiresAt k of None \<Rightarrow> [] | Some t \<Rightarrow> [(''expiresAt'', JStr (formatTime t))]) @
      strs ''allowedModels'' (AllowedModels k) @ strs ''creditAllowedModels'' (CreditAllowedModels k) @
      strs ''creditDeniedModels'' (CreditDeniedModels k) @ strs ''passthroughEndpoints'' (PassthroughEndpoints k) @
      [(''limits'', JObj (num ''rpm'' (Rpm (KeyLimits k)) @ num ''tpm'' (Tpm (KeyLimits k)) @
          num ''concurrency'' (Concurrency (KeyLimits k))))] @
      flag ''quotaExhausted'' (QuotaExhausted k) @
      (if UpstreamCredentials k = [] then []
       else [(''upstreamCredentials'', JObj (map (\<lambda>(r, c). (r, JStr c)) (sort_key fst (UpstreamCredentials k))))]) @
      flag ''creditPending'' (CreditPending k) @ flag ''recordBodies'' (RecordBodies k)))"

fun already_listed :: "string \<Rightarrow> nat \<Rightarrow> json list \<Rightarrow> keygen_error option" where
  "already_listed kid i [] = None"
| "already_listed kid i (raw # raws) =
     (case dec_struct False [(''keyId'', string_field (\<lambda>s _. s))] raw [] of
        None \<Rightarrow> Some (EntryUnreadable i)
      | Some k \<Rightarrow> if k = kid then Some (KeyExists kid) else already_listed kid (Suc i) raws)"

definition insert_key :: "(int \<Rightarrow> string) \<Rightarrow> Key \<Rightarrow> key_document \<Rightarrow> keygen_error + key_document" where
  "insert_key formatTime k d =
     (case already_listed (KeyID k) 0 (kdKeys d) of
        Some e \<Rightarrow> Inl e | None \<Rightarrow> Inr (d\<lparr>kdKeys := kdKeys d @ [key_json formatTime k]\<rparr>))"

section \<open>Replacing the file\<close>

record document_file =
  fileText :: "json option"
  fileMode :: nat
  fileOwner :: "nat \<times> nat"

text \<open>The steps a disk can fail at, in the order they are made.\<close>

datatype disk_step =
    OpenLock | TakeLock | StatFile | ReadFile | CreateTemp | WriteTemp | SetMode | SetOwner | CloseTemp | RenameTemp

text \<open>
  The error, and the file afterwards. The replacement is written beside the file with its mode and owner,
  and takes its place only by the rename.
\<close>

definition mutate ::
  "(string \<Rightarrow> int option) \<Rightarrow> int \<Rightarrow> (disk_step \<Rightarrow> bool) \<Rightarrow> (key_document \<Rightarrow> keygen_error + key_document) \<Rightarrow>
     document_file option \<Rightarrow> keygen_error option \<times> document_file option" where
  "mutate parseTime now fails change file0 =
     (if fails OpenLock \<or> fails TakeLock \<or> fails StatFile \<or> fails ReadFile then (Some DiskFault, file0)
      else case file0 of None \<Rightarrow> (Some DiskFault, file0)
      | Some f \<Rightarrow>
          (case Option.bind (fileText f) (\<lambda>j. dec_struct True key_document_fields j key_document_zero) of
             None \<Rightarrow> (Some Unreadable, file0)
           | Some d \<Rightarrow>
               (case change d of Inl e \<Rightarrow> (Some e, file0)
                | Inr d \<Rightarrow>
                    let d = d\<lparr>kdGeneration := wrap64 (kdGeneration d + 1)\<rparr>; out = Some (document_json d)
                    in case Validate parseTime now out of
                         Some e \<Rightarrow> (Some (WouldBeRefused e), file0)
                       | None \<Rightarrow>
                           if fails CreateTemp \<or> fails WriteTemp \<or> fails SetMode \<or> fails SetOwner \<or> fails CloseTemp \<or>
                              fails RenameTemp
                           then (Some DiskFault, file0)
                           else (None, Some \<lparr>fileText = out, fileMode = fileMode f, fileOwner = fileOwner f\<rparr>))))"

section \<open>The command\<close>

definition tokenPrefix :: string where "tokenPrefix = ''pickle-''"
definition tokenLen :: nat where "tokenLen = 43"

definition alphabet :: string where
  "alphabet = ''0123456789ABCDEFGHIJKLMNOPQRSTUVWXYZabcdefghijklmnopqrstuvwxyz''"

text \<open>The token of \<open>tokenLen\<close> random numbers below the alphabet's size.\<close>

definition newToken :: "(nat \<Rightarrow> nat) \<Rightarrow> string" where
  "newToken rnd = tokenPrefix @ map (\<lambda>i. alphabet ! (rnd i)) [0..<tokenLen]"

record issue_flags =
  flID :: string
  flExpires :: "int option"
  flLimits :: Limits
  flModels :: "string list"

definition issue_entry :: "(string \<Rightarrow> string) \<Rightarrow> issue_flags \<Rightarrow> string \<Rightarrow> Key" where
  "issue_entry hash fl token =
     Key_zero\<lparr>KeyID := (if flID fl = [] then ''key-'' @ take 12 (hash token) else flID fl), TokenHash := hash token,
       Status := KeyActive, KeyLimits := flLimits fl, ExpiresAt := flExpires fl,
       AllowedModels := filter (\<lambda>m. m \<noteq> []) (map TrimSpace (flModels fl))\<rparr>"

definition parseSwitch :: "string \<Rightarrow> bool option" where
  "parseSwitch v =
     (let s = ToLower (TrimSpace v) in
      if s \<in> {''on'', ''true'', ''yes''} then Some True
      else if s \<in> {''off'', ''false'', ''no''} then Some False else None)"

datatype operation = Revoke string | Service bool | Issue Key

text \<open>Which of the three the flags ask for: none of the maintenance flags means a key is issued.\<close>

datatype usage_error = NoDocument | TwoOperations | NoSwitch string

definition maintenance :: "string \<Rightarrow> string \<Rightarrow> string \<Rightarrow> (usage_error + operation) option" where
  "maintenance snapPath revoke service =
     (if revoke = [] \<and> service = [] then None
      else Some
        (if snapPath = [] then Inl NoDocument
         else if revoke \<noteq> [] \<and> service \<noteq> [] then Inl TwoOperations
         else if revoke \<noteq> [] then Inr (Revoke revoke)
         else case parseSwitch service of None \<Rightarrow> Inl (NoSwitch service) | Some on \<Rightarrow> Inr (Service on)))"

definition keygen ::
  "(string \<Rightarrow> int option) \<Rightarrow> (int \<Rightarrow> string) \<Rightarrow> int \<Rightarrow> (disk_step \<Rightarrow> bool) \<Rightarrow> operation \<Rightarrow> document_file option \<Rightarrow>
     keygen_error option \<times> document_file option" where
  "keygen parseTime formatTime now fails oper =
     mutate parseTime now fails
       (case oper of Revoke kid \<Rightarrow> revokeKey kid | Service on \<Rightarrow> setService on | Issue k \<Rightarrow> insert_key formatTime k)"

end
