(* ===== verification/Json_Members.thy ===== *)
theory Json_Members
  imports Snapshot_Load "HOL-Library.Multiset"
begin

text \<open>
  When the order of an object's members does not matter: each member of a key entry acts through one
  component of the key, so an entry whose members are written under their documented names, each once, is
  read the same in any order.
\<close>

section \<open>What a key's members do\<close>

text \<open>
  A field acts through one component: whatever it meets, it fails for every target or applies one update
  of that component.
\<close>

definition acts :: "(('a \<Rightarrow> 'a) \<Rightarrow> 'r \<Rightarrow> 'r) \<Rightarrow> (json \<Rightarrow> 'r \<Rightarrow> 'r option) \<Rightarrow> bool" where
  "acts upd fld \<longleftrightarrow> (\<exists>F. \<forall>j r. fld j r = map_option (\<lambda>g. upd g r) (F j))"

lemma actsI: "(\<And>j r. fld j r = map_option (\<lambda>g. upd g r) (F j)) \<Longrightarrow> acts upd fld"
  unfolding acts_def by blast

lemma acts_string: "(\<And>r. upd (\<lambda>x. x) r = r) \<Longrightarrow> acts upd (string_field (\<lambda>s. upd (\<lambda>_. s)))"
  by (rule actsI [where F = "\<lambda>j. case j of JStr s \<Rightarrow> Some (\<lambda>_. s) | JNull \<Rightarrow> Some (\<lambda>x. x) | _ \<Rightarrow> None"])
    (simp add: string_field_def split: json.splits)

lemma acts_bool: "(\<And>r. upd (\<lambda>x. x) r = r) \<Longrightarrow> acts upd (bool_field (\<lambda>b. upd (\<lambda>_. b)))"
  by (rule actsI [where F = "\<lambda>j. case j of JBool b \<Rightarrow> Some (\<lambda>_. b) | JNull \<Rightarrow> Some (\<lambda>x. x) | _ \<Rightarrow> None"])
    (simp add: bool_field_def split: json.splits)

lemma acts_int: "(\<And>r. upd (\<lambda>x. x) r = r) \<Longrightarrow> acts upd (int_field (\<lambda>n. upd (\<lambda>_. n)))"
  by (rule actsI [where F = "\<lambda>j. case j of JNum n \<Rightarrow> map_option (\<lambda>n _. n) (parse_int64 n) | JNull \<Rightarrow> Some (\<lambda>x. x) | _ \<Rightarrow> None"])
    (simp add: int_field_def option.map_comp o_def split: json.splits)

lemma acts_strings: "acts upd (strings_field (\<lambda>xs. upd (\<lambda>_. xs)))"
  by (rule actsI [where F = "\<lambda>j. map_option (\<lambda>xs _. xs) (dec_strings j)"])
    (simp add: strings_field_def option.map_comp o_def)

lemma acts_time: "acts ExpiresAt_update (time_field parseTime)"
  by (rule actsI [where F = "\<lambda>j. case j of JNull \<Rightarrow> Some (\<lambda>_. None) | JStr s \<Rightarrow> map_option (\<lambda>t _. Some t) (parseTime s) | _ \<Rightarrow> None"])
    (simp add: time_field_def option.map_comp o_def split: json.splits)

lemma acts_strmap: "acts UpstreamCredentials_update (strmap_field UpstreamCredentials (\<lambda>m. UpstreamCredentials_update (\<lambda>_. m)))"
  by (rule actsI [where F = "\<lambda>j. case j of JNull \<Rightarrow> Some (\<lambda>_. []) | JObj kvs \<Rightarrow>
        map_option (\<lambda>es m. fold (\<lambda>(k, v). AList.update k v) es m) (all_some (map (\<lambda>(k, v). map_option (Pair k) (dec_string v)) kvs))
      | _ \<Rightarrow> None"])
    (auto simp: strmap_field_def option.map_comp o_def split: json.splits option.splits)

text \<open>A nested struct fails or not whatever it is merged into.\<close>

lemma acts_nested:
  assumes "\<And>f. f \<in> set flds \<Longrightarrow> \<exists>F. \<forall>j l. snd f j l = map_option (\<lambda>g. g l) (F j)"
  shows "\<exists>F. \<forall>j l. dec_struct strict flds j l = map_option (\<lambda>g. g l) (F j)"
proof -
  have "\<exists>F. \<forall>l. dec_members strict flds kvs l = map_option (\<lambda>g. g l) F" for kvs
  proof (induction kvs)
    case Nil
    show ?case by (rule exI [of _ "Some (\<lambda>l. l)"]) simp
  next
    case (Cons kv kvs)
    obtain name v where kv: "kv = (name, v)" by fastforce
    obtain F where F: "\<And>l. dec_members strict flds kvs l = map_option (\<lambda>g. g l) F" using Cons by blast
    show ?case
    proof (cases "List.find (\<lambda>f. EqualFold (fst f) name) flds")
      case None
      show ?thesis using None kv F
        by (cases strict) (auto intro!: exI [of _ None] exI [of _ F])
    next
      case (Some f)
      then have "f \<in> set flds" by (auto simp: find_Some_iff)
      then obtain G where G: "\<And>j l. snd f j l = map_option (\<lambda>g. g l) (G j)" using assms by blast
      show ?thesis
        by (rule exI [of _ "Option.bind (G v) (\<lambda>g. map_option (\<lambda>h l. h (g l)) F)"])
          (simp add: kv Some G F option.map_comp o_def split: option.splits)
    qed
  qed
  then obtain M where M: "\<And>kvs l. dec_members strict flds kvs l = map_option (\<lambda>g. g l) (M kvs)" by metis
  show ?thesis
    by (rule exI [of _ "\<lambda>j. case j of JNull \<Rightarrow> Some (\<lambda>l. l) | JObj kvs \<Rightarrow> M kvs | _ \<Rightarrow> None"])
      (simp add: dec_struct_def M split: json.splits)
qed

lemma acts_limits: "acts KeyLimits_update limits_field"
proof -
  have "\<exists>F. \<forall>j l. snd f j l = map_option (\<lambda>g. g l) (F j)" if "f \<in> set Limits_fields" for f
  proof -
    have "\<exists>upd. acts (upd :: (int \<Rightarrow> int) \<Rightarrow> Limits \<Rightarrow> Limits) (snd f)"
      using that acts_int [of Rpm_update] acts_int [of Tpm_update] acts_int [of Concurrency_update]
      by (auto simp: Limits_fields_def)
    then obtain upd :: "(int \<Rightarrow> int) \<Rightarrow> Limits \<Rightarrow> Limits" and F where "\<forall>j r. snd f j r = map_option (\<lambda>g. upd g r) (F j)"
      unfolding acts_def by blast
    then show ?thesis
      by (intro exI [of _ "\<lambda>j. map_option upd (F j)"]) (simp add: option.map_comp o_def)
  qed
  from acts_nested [OF this] obtain F where F: "\<And>j l. dec_struct False Limits_fields j l = map_option (\<lambda>g. g l) (F j)"
    by blast
  have upd: "k\<lparr>KeyLimits := g (KeyLimits k)\<rparr> = KeyLimits_update g k" for g and k :: Key by (cases k) simp
  show ?thesis
    by (rule actsI [where F = F]) (simp only: limits_field_def F option.map_comp o_def upd)
qed


text \<open>Two members of different fields can be read in either order.\<close>

definition commuting :: "(json \<Rightarrow> 'r \<Rightarrow> 'r option) \<Rightarrow> (json \<Rightarrow> 'r \<Rightarrow> 'r option) \<Rightarrow> bool" where
  "commuting f g \<longleftrightarrow> (\<forall>v w r. Option.bind (f v r) (g w) = Option.bind (g w r) (f v))"

lemma acts_commute:
  assumes "acts upd f" "acts upd' g" "\<And>a b r. upd' b (upd a r) = upd a (upd' b r)"
  shows "commuting f g"
proof -
  obtain F G where "\<forall>j r. f j r = map_option (\<lambda>g. upd g r) (F j)" "\<forall>j r. g j r = map_option (\<lambda>g. upd' g r) (G j)"
    using assms(1,2) unfolding acts_def by blast
  then show ?thesis unfolding commuting_def using assms(3)
    by (auto simp: map_option_case split: option.splits bind_splits)
qed

lemma key_acts:
  "acts KeyID_update (string_field (\<lambda>s. KeyID_update (\<lambda>_. s)))"
  "acts TokenHash_update (string_field (\<lambda>s. TokenHash_update (\<lambda>_. s)))"
  "acts Status_update (string_field (\<lambda>s. Status_update (\<lambda>_. s)))"
  "acts QuotaExhausted_update (bool_field (\<lambda>b. QuotaExhausted_update (\<lambda>_. b)))"
  "acts CreditPending_update (bool_field (\<lambda>b. CreditPending_update (\<lambda>_. b)))"
  "acts RecordBodies_update (bool_field (\<lambda>b. RecordBodies_update (\<lambda>_. b)))"
  by (simp_all add: acts_string acts_bool)

lemmas key_acting = key_acts acts_time acts_limits acts_strmap
  acts_strings [of AllowedModels_update] acts_strings [of CreditAllowedModels_update] acts_strings [of CreditDeniedModels_update]
  acts_strings [of PassthroughEndpoints_update]

lemma commuting_sym: "commuting f g \<Longrightarrow> commuting g f"
  by (auto simp: commuting_def)

lemma key_fields_commute:
  assumes "f \<in> set (Key_fields parseTime)" "g \<in> set (Key_fields parseTime)" "fst f \<noteq> fst g"
  shows "commuting (snd f) (snd g)"
  using assms unfolding Key_fields_def
  apply (simp only: list.set insert_iff empty_iff simp_thms)
  apply (elim disjE; hypsubst; simp only: fst_conv snd_conv; (rule acts_commute, rule key_acting, rule key_acting, simp)?)
  done


section \<open>The order of an object's members\<close>

definition plain_members :: "'r field list \<Rightarrow> (string \<times> json) list \<Rightarrow> bool" where
  "plain_members flds kvs \<longleftrightarrow>
     distinct (map fst kvs) \<and> list_all (\<lambda>(n, v). list_all (\<lambda>f. EqualFold (fst f) n \<longrightarrow> n = fst f) flds) kvs"

definition member_step :: "bool \<Rightarrow> 'r field list \<Rightarrow> string \<times> json \<Rightarrow> 'r option \<Rightarrow> 'r option" where
  "member_step strict flds kv acc = Option.bind acc (\<lambda>r. dec_members strict flds [kv] r)"

lemma dec_members_Cons: "dec_members strict flds (kv # kvs) r = Option.bind (dec_members strict flds [kv] r) (dec_members strict flds kvs)"
proof -
  obtain name v where kv: "kv = (name, v)" by fastforce
  show ?thesis
  proof (cases "List.find (\<lambda>f. EqualFold (fst f) name) flds")
    case None
    then show ?thesis by (cases strict) (simp_all add: kv)
  next
    case (Some f)
    then show ?thesis by (cases "snd f v r") (simp_all add: kv)
  qed
qed

lemma dec_members_append:
  "dec_members strict flds (xs @ ys) r = Option.bind (dec_members strict flds xs r) (dec_members strict flds ys)"
proof (induction xs arbitrary: r)
  case (Cons x xs)
  have "dec_members strict flds ((x # xs) @ ys) r =
      Option.bind (dec_members strict flds [x] r) (\<lambda>r. Option.bind (dec_members strict flds xs r) (dec_members strict flds ys))"
    unfolding append_Cons dec_members_Cons [of strict flds x "xs @ ys"] Cons ..
  also have "\<dots> = Option.bind (dec_members strict flds (x # xs) r) (dec_members strict flds ys)"
    unfolding dec_members_Cons [of strict flds x xs] bind_assoc ..
  finally show ?case .
qed simp

lemma dec_members_fold: "dec_members strict flds kvs r = fold (member_step strict flds) kvs (Some r)"
proof -
  have none: "fold (member_step strict flds) kvs None = None" for kvs by (induction kvs) (simp_all add: member_step_def)
  show ?thesis
  proof (induction kvs arbitrary: r)
    case (Cons kv kvs)
    have "member_step strict flds kv (Some r) = dec_members strict flds [kv] r" by (simp only: member_step_def bind.simps)
    then show ?case
      by (subst dec_members_Cons) (cases "dec_members strict flds [kv] r", simp_all only: fold_simps none bind.simps Cons)
  qed simp
qed

lemma plain_members_perm: "mset kvs = mset kvs' \<Longrightarrow> plain_members flds kvs \<Longrightarrow> plain_members flds kvs'"
  using mset_eq_imp_distinct_iff [of "map fst kvs" "map fst kvs'"] mset_eq_setD [of kvs kvs']
  by (simp add: plain_members_def list_all_iff)

lemma dec_members_perm:
  assumes "plain_members flds kvs" "mset kvs = mset kvs'"
    and comm: "\<And>f g. f \<in> set flds \<Longrightarrow> g \<in> set flds \<Longrightarrow> fst f \<noteq> fst g \<Longrightarrow> commuting (snd f) (snd g)"
  shows "dec_members strict flds kvs r = dec_members strict flds kvs' r"
proof -
  have "member_step strict flds x \<circ> member_step strict flds y = member_step strict flds y \<circ> member_step strict flds x"
    if "x \<in> set kvs" "y \<in> set kvs" for x y
  proof (cases "x = y")
    case False
    have names: "fst x \<noteq> fst y"
      using False that assms(1) by (auto simp: plain_members_def distinct_map inj_on_def)
    obtain n v m w where xy: "x = (n, v)" "y = (m, w)" by fastforce
    have hit: "f \<in> set flds \<and> fst f = k" if "List.find (\<lambda>f. EqualFold (fst f) k) flds = Some f" "(k, u) \<in> set kvs" for f k u
      using that assms(1) by (fastforce simp: find_Some_iff plain_members_def list_all_iff)
    show ?thesis
    proof (cases "List.find (\<lambda>f. EqualFold (fst f) n) flds = None \<or> List.find (\<lambda>f. EqualFold (fst f) m) flds = None")
      case True
      then show ?thesis by (auto simp: fun_eq_iff member_step_def xy split: bind_splits option.splits)
    next
      case both: False
      then obtain f g where fg: "List.find (\<lambda>f. EqualFold (fst f) n) flds = Some f" "List.find (\<lambda>f. EqualFold (fst f) m) flds = Some g"
        by auto
      then have "commuting (snd f) (snd g)"
        using hit [of n f v] hit [of m g w] that names xy comm [of f g] by auto
      then have c: "Option.bind (snd f v r) (snd g w) = Option.bind (snd g w r) (snd f v)" for r by (simp add: commuting_def)
      have one: "dec_members strict flds [(n, v)] r = snd f v r" "dec_members strict flds [(m, w)] r = snd g w r" for r
        using fg by (simp_all split: option.splits)
      show ?thesis by (rule ext) (simp add: member_step_def xy one c bind_assoc del: dec_members.simps)
    qed
  qed simp
  then show ?thesis unfolding dec_members_fold by (rule fold_multiset_equiv [THEN fun_cong]) (use assms(2) in auto)
qed

end
