(* ===== verification/Keygen_Reading.thy ===== *)
theory Keygen_Reading
  imports Keygen Json_Members
begin

text \<open>
  How the tool and the loader read one file: the lists of a file, an entry whose status was patched, the
  envelope both of them decode, and a key written as the tool writes it.
\<close>

section \<open>A file's lists\<close>

text \<open>From a file every entry has to load: the entries read are the entries written.\<close>

fun loads :: "(nat \<Rightarrow> json \<Rightarrow> string list \<Rightarrow> problem + 'e) \<Rightarrow> ('e \<Rightarrow> string) \<Rightarrow> nat \<Rightarrow> string list \<Rightarrow> json list \<Rightarrow> 'e list \<Rightarrow> bool" where
  "loads rd ident i seen [] es \<longleftrightarrow> es = []"
| "loads rd ident i seen (raw # raws) [] \<longleftrightarrow> False"
| "loads rd ident i seen (raw # raws) (e # es) \<longleftrightarrow> rd i raw seen = Inr e \<and> loads rd ident (Suc i) (seen @ [ident e]) raws es"

lemma load_entries_file:
  "load_entries False rd ident i raws acc ds = Inr (es, ds') \<longleftrightarrow>
     (\<exists>new. es = acc @ new \<and> ds' = ds \<and> loads rd ident i (map ident acc) raws new)"
proof (induction raws arbitrary: i acc)
  case (Cons raw raws)
  show ?case
  proof (cases "rd i raw (map ident acc)")
    case (Inl p)
    have "\<not> loads rd ident i (map ident acc) (raw # raws) new" for new using Inl by (cases new) auto
    then show ?thesis using Inl by simp
  next
    case (Inr e)
    have "(\<exists>new. es = acc @ new \<and> ds' = ds \<and> loads rd ident i (map ident acc) (raw # raws) new) \<longleftrightarrow>
        (\<exists>new. es = acc @ e # new \<and> ds' = ds \<and> loads rd ident (Suc i) (map ident acc @ [ident e]) raws new)"
    proof
      assume "\<exists>new. es = acc @ new \<and> ds' = ds \<and> loads rd ident i (map ident acc) (raw # raws) new"
      then obtain new where n: "es = acc @ new" "ds' = ds" "loads rd ident i (map ident acc) (raw # raws) new" by blast
      then show "\<exists>new. es = acc @ e # new \<and> ds' = ds \<and> loads rd ident (Suc i) (map ident acc @ [ident e]) raws new"
        using Inr by (cases new) auto
    next
      assume "\<exists>new. es = acc @ e # new \<and> ds' = ds \<and> loads rd ident (Suc i) (map ident acc @ [ident e]) raws new"
      then obtain new where "es = acc @ e # new" "ds' = ds" "loads rd ident (Suc i) (map ident acc @ [ident e]) raws new" by blast
      then show "\<exists>new. es = acc @ new \<and> ds' = ds \<and> loads rd ident i (map ident acc) (raw # raws) new"
        using Inr by (intro exI [of _ "e # new"]) simp
    qed
    then show ?thesis using Inr Cons [of "Suc i" "acc @ [e]"] by simp
  qed
qed auto

lemma loads_append:
  "loads rd ident i seen (r1 @ r2) es \<longleftrightarrow>
     loads rd ident i seen r1 (take (length r1) es) \<and>
     loads rd ident (i + length r1) (seen @ map ident (take (length r1) es)) r2 (drop (length r1) es)"
proof (induction r1 arbitrary: i seen es)
  case (Cons raw r1)
  then show ?case by (cases es) simp_all
qed simp

lemma loads_length: "loads rd ident i seen raws es \<Longrightarrow> length es = length raws"
  by (induction rd ident i seen raws es rule: loads.induct) auto

lemma loads_unique: "loads rd ident i seen raws es \<Longrightarrow> loads rd ident i seen raws es' \<Longrightarrow> es' = es"
proof (induction rd ident i seen raws es arbitrary: es' rule: loads.induct)
  case (3 rd ident i seen raw raws e es)
  then show ?case by (cases es') auto
qed auto

lemma loads_read:
  "loads rd ident i seen raws es \<Longrightarrow> e \<in> set es \<Longrightarrow> \<exists>raw\<in>set raws. \<exists>j seen. rd j raw seen = Inr e"
  by (induction rd ident i seen raws es rule: loads.induct) auto

text \<open>Any one entry can be replaced by another that reads as an entry of the same identity.\<close>

lemma loads_replace:
  assumes "loads rd ident i seen (r1 @ raw # r2) es" and "\<And>j seen e. rd j raw seen = Inr e \<Longrightarrow> rd j raw' seen = Inr (f e) \<and> ident (f e) = ident e"
  shows "\<exists>n1 e n2 j seen'. es = n1 @ e # n2 \<and> length n1 = length r1 \<and> rd j raw seen' = Inr e \<and> loads rd ident i seen r1 n1 \<and>
    loads rd ident i seen (r1 @ raw' # r2) (n1 @ f e # n2)"
proof -
  obtain n1 m where m: "es = n1 @ m" "loads rd ident i seen r1 n1" "loads rd ident (i + length r1) (seen @ map ident n1) (raw # r2) m"
    using assms(1) unfolding loads_append by (metis append_take_drop_id)
  then obtain e n2 where e: "m = e # n2" by (cases m) auto
  have r: "rd (i + length r1) raw (seen @ map ident n1) = Inr e" using m(3) e by simp
  have "loads rd ident (i + length r1) (seen @ map ident n1) (raw' # r2) (f e # n2)"
    using m(3) assms(2) [OF r] by (simp add: e)
  then have "loads rd ident i seen (r1 @ raw' # r2) (n1 @ f e # n2)" 
    using m(2) loads_length [OF m(2)] by (simp add: loads_append)
  then show ?thesis using m(1,2) e r loads_length [OF m(2)] by blast
qed

section \<open>Loading a file\<close>

lemma build_file:
  "build parseTime now raw known False = Inr st \<longleftrightarrow>
     (\<exists>env enabled rawModels rawKeys ms ks.
        Option.bind raw (dec_envelope False) = Some env \<and> envServiceEnabled env = Some enabled \<and>
        envModels env = Some rawModels \<and> envKeys env = Some rawKeys \<and> \<not> ref_dropped known env \<and>
        loads (read_model known) PublicName 0 [] rawModels ms \<and> loads (read_key parseTime) TokenHash 0 [] rawKeys ks \<and>
        st = \<lparr>doc = \<lparr>FormatVersion = envFormatVersion env, Generation = envGeneration env, ServiceEnabled = enabled,
                     Models = ms, Keys = ks, PassthroughRef = ToLower (envPassthroughRef env)\<rparr>,
              byHash = index_by TokenHash ks, byPublic = index_by PublicName ms, loadedAt = now, rejected = 0, dropReasons = []\<rparr>)"
  (is "?l \<longleftrightarrow> ?r")
proof
  assume ?l
  then show ?r by (auto simp: build_def Let_def load_entries_file split: option.splits sum.splits prod.splits if_splits)
next
  assume ?r
  then obtain env enabled rawModels rawKeys ms ks where e: "Option.bind raw (dec_envelope False) = Some env"
      "envServiceEnabled env = Some enabled" "envModels env = Some rawModels" "envKeys env = Some rawKeys"
      "\<not> ref_dropped known env" "loads (read_model known) PublicName 0 [] rawModels ms"
      "loads (read_key parseTime) TokenHash 0 [] rawKeys ks"
    and st: "st = \<lparr>doc = \<lparr>FormatVersion = envFormatVersion env, Generation = envGeneration env, ServiceEnabled = enabled,
                     Models = ms, Keys = ks, PassthroughRef = ToLower (envPassthroughRef env)\<rparr>,
              byHash = index_by TokenHash ks, byPublic = index_by PublicName ms, loadedAt = now, rejected = 0, dropReasons = []\<rparr>"
    by blast
  have "load_entries False (read_model known) PublicName 0 rawModels [] [] = Inr (ms, [])"
    "load_entries False (read_key parseTime) TokenHash 0 rawKeys [] [] = Inr (ks, [])"
    using e(6,7) by (simp_all add: load_entries_file)
  then show ?l using e(1-5) by (auto simp: build_def Let_def st)
qed

section \<open>A patched entry\<close>

lemma go_object_plain: "distinct (map fst kvs) \<Longrightarrow> go_object kvs = kvs"
proof -
  have upd: "k \<notin> fst ` set m \<Longrightarrow> AList.update k v m = m @ [(k, v)]" for k and v :: json and m
    by (induction m) auto
  have "distinct (map fst (m @ kvs)) \<Longrightarrow> fold (\<lambda>(k, v) m. AList.update k v m) kvs m = m @ kvs" for m :: params
    by (induction kvs arbitrary: m) (auto simp: upd)
  then show "distinct (map fst kvs) \<Longrightarrow> go_object kvs = kvs" by (simp add: go_object_def)
qed

lemma mset_update_member:
  assumes "distinct (map fst kvs)"
  shows "mset (AList.update k v kvs) = mset (filter (\<lambda>x. fst x \<noteq> k) kvs @ [(k, v)])"
    "mset (filter (\<lambda>x. fst x \<noteq> k) kvs @ (case map_of kvs k of None \<Rightarrow> [] | Some w \<Rightarrow> [(k, w)])) = mset kvs"
proof -
  have gone: "k \<notin> fst ` set xs \<Longrightarrow> filter (\<lambda>x. fst x \<noteq> k) xs = xs" for xs :: "('a \<times> 'b) list"
    by (induction xs) auto
  show "mset (AList.update k v kvs) = mset (filter (\<lambda>x. fst x \<noteq> k) kvs @ [(k, v)])"
    using assms
  proof (induction kvs)
    case (Cons x kvs)
    then show ?case by (cases x; cases "fst x = k") (simp_all add: gone)
  qed simp
  show "mset (filter (\<lambda>x. fst x \<noteq> k) kvs @ (case map_of kvs k of None \<Rightarrow> [] | Some w \<Rightarrow> [(k, w)])) = mset kvs"
    using assms
  proof (induction kvs)
    case (Cons x kvs)
    show ?case
    proof (cases "fst x = k")
      case True
      then have "filter (\<lambda>x. fst x \<noteq> k) kvs = kvs" using Cons.prems by (intro gone) auto
      then show ?thesis using True by (cases x) simp
    next
      case False
      then show ?thesis using Cons by (cases x) (simp split: option.splits)
    qed
  qed simp
qed

lemma plain_update:
  assumes "plain_members flds kvs" "list_all (\<lambda>g. EqualFold (fst g) k \<longrightarrow> fst g = k) flds"
  shows "plain_members flds (AList.update k v kvs)"
proof -
  have "set (AList.update k v kvs) \<subseteq> insert (k, v) (set kvs)" by (induction kvs) auto
  moreover have "\<forall>x\<in>insert (k, v) (set kvs). case x of (n, v) \<Rightarrow> list_all (\<lambda>f. EqualFold (fst f) n \<longrightarrow> n = fst f) flds"
    using assms by (auto simp: plain_members_def list_all_iff)
  moreover have "distinct (map fst (AList.update k v kvs))" using assms(1) by (simp add: plain_members_def distinct_update)
  ultimately show ?thesis unfolding plain_members_def list_all_iff [of _ "AList.update k v kvs"] by blast
qed

definition key_names :: "string list" where
  "key_names = [''keyId'', ''tokenHash'', ''status'', ''expiresAt'', ''allowedModels'', ''creditAllowedModels'',
     ''creditDeniedModels'', ''passthroughEndpoints'', ''limits'', ''quotaExhausted'', ''upstreamCredentials'', ''creditPending'',
     ''recordBodies'']"

lemma key_names: "map fst (Key_fields parseTime) = key_names"
  by (simp add: Key_fields_def key_names_def)

lemma key_names_apart: "distinct (map ToLower key_names)"
  by code_simp

lemma key_names_fold: "n \<in> set key_names \<Longrightarrow> m \<in> set key_names \<Longrightarrow> EqualFold n m \<longleftrightarrow> n = m"
  using key_names_apart by (auto simp: EqualFold_def distinct_map inj_on_def)

lemma key_fields_fold:
  assumes "f \<in> set (Key_fields parseTime)" "m \<in> set key_names" shows "EqualFold (fst f) m \<longleftrightarrow> fst f = m"
  using assms key_names_fold [of "fst f" m] key_names [of parseTime] by (metis image_eqI list.set_map)

lemma key_field_names: "list_all (\<lambda>f. EqualFold (fst f) ''status'' \<longrightarrow> fst f = ''status'') (Key_fields parseTime)"
proof -
  have "''status'' \<in> set key_names" by (simp add: key_names_def)
  then show ?thesis using key_fields_fold by (simp add: list_all_iff)
qed

lemma find_key_field:
  "List.find (\<lambda>f. EqualFold (fst f) ''status'') (Key_fields parseTime) = Some (''status'', string_field (\<lambda>s. Status_update (\<lambda>_. s)))"
proof -
  have "''status'' \<in> set key_names" by (simp add: key_names_def)
  then have "List.find (\<lambda>f. EqualFold (fst f) ''status'') (Key_fields parseTime) = List.find (\<lambda>f. fst f = ''status'') (Key_fields parseTime)"
    using key_fields_fold by (intro find_cong) auto
  also have "\<dots> = Some (''status'', string_field (\<lambda>s. Status_update (\<lambda>_. s)))" by (simp add: Key_fields_def)
  finally show ?thesis .
qed

text \<open>An entry whose members have their documented names, each once.\<close>

definition plain_entry :: "(string \<Rightarrow> int option) \<Rightarrow> json \<Rightarrow> bool" where
  "plain_entry parseTime raw \<longleftrightarrow> (case raw of JObj kvs \<Rightarrow> plain_members (Key_fields parseTime) kvs | _ \<Rightarrow> True)"

lemma dec_status_last:
  "dec_members False (Key_fields parseTime) (kvs @ [(''status'', JStr s)]) r =
     map_option (\<lambda>k. k\<lparr>Status := s\<rparr>) (dec_members False (Key_fields parseTime) kvs r)"
  by (cases "dec_members False (Key_fields parseTime) kvs r") (simp_all add: dec_members_append find_key_field string_field_def)

text \<open>The tool sorts the members and replaces one; the gateway reads the same key with that one change.\<close>

lemma patched_status:
  assumes "plain_members (Key_fields parseTime) kvs" "setMember (JObj kvs) ''status'' (JStr s) = Some patched"
    and "dec_Key parseTime (JObj kvs) = Some k"
  shows "dec_Key parseTime patched = Some (k\<lparr>Status := s\<rparr>)"
proof -
  let ?F = "Key_fields parseTime"
  let ?rest = "filter (\<lambda>x. fst x \<noteq> ''status'') kvs"
  let ?new = "sort_key fst (AList.update ''status'' (JStr s) kvs)"
  have d: "distinct (map fst kvs)" using assms(1) by (simp add: plain_members_def)
  have patched: "patched = JObj ?new"
    using assms(2) by (simp add: setMember_def dec_object_def go_object_plain [OF d])
  note comm = key_fields_commute [of _ parseTime]
  have plain: "plain_members ?F (AList.update ''status'' (JStr s) kvs)"
    using plain_update [OF assms(1) key_field_names] by simp
  have "dec_members False ?F ?new Key_zero = dec_members False ?F (AList.update ''status'' (JStr s) kvs) Key_zero"
    by (rule dec_members_perm [symmetric, OF plain _ comm]) simp_all
  also have "\<dots> = dec_members False ?F (?rest @ [(''status'', JStr s)]) Key_zero"
    by (rule dec_members_perm [OF plain mset_update_member(1) [OF d] comm])
  also have "\<dots> = map_option (\<lambda>k. k\<lparr>Status := s\<rparr>) (dec_members False ?F ?rest Key_zero)"
    by (rule dec_status_last)
  finally have new: "dec_Key parseTime patched = map_option (\<lambda>k. k\<lparr>Status := s\<rparr>) (dec_members False ?F ?rest Key_zero)"
    by (simp add: patched dec_Key_def dec_struct_def)
  have "dec_members False ?F kvs Key_zero =
      dec_members False ?F (?rest @ (case map_of kvs ''status'' of None \<Rightarrow> [] | Some w \<Rightarrow> [(''status'', w)])) Key_zero"
    by (rule dec_members_perm [OF assms(1) mset_update_member(2) [OF d, symmetric] comm])
  then have old: "dec_members False ?F (?rest @ (case map_of kvs ''status'' of None \<Rightarrow> [] | Some w \<Rightarrow> [(''status'', w)])) Key_zero = Some k"
    using assms(3) by (simp add: dec_Key_def dec_struct_def)
  obtain k1 where k1: "dec_members False ?F ?rest Key_zero = Some k1"
    using old by (cases "dec_members False ?F ?rest Key_zero") (simp_all add: dec_members_append)
  have "k\<lparr>Status := s\<rparr> = k1\<lparr>Status := s\<rparr>"
    using old k1 by (auto simp: dec_members_append find_key_field string_field_def split: option.splits json.splits)
  then show ?thesis using new k1 by simp
qed

text \<open>The tool's probe of an entry and the loader agree on its id and its status.\<close>

lemma other_key_fields:
  assumes "f \<in> set (Key_fields parseTime)" "fst f \<noteq> ''keyId''" "fst f \<noteq> ''status''" "snd f v r = Some r'"
  shows "KeyID r' = KeyID r \<and> Status r' = Status r"
  using assms
  by (auto simp: Key_fields_def string_field_def bool_field_def strings_field_def time_field_def limits_field_def strmap_field_def
      split: json.splits option.splits)

abbreviation probe_fields :: "key_probe field list" where
  "probe_fields \<equiv> [(''keyId'', string_field (\<lambda>s. kpKeyID_update (\<lambda>_. s))), (''status'', string_field (\<lambda>s. kpStatus_update (\<lambda>_. s)))]"

lemma probe_members:
  assumes "dec_members False (Key_fields parseTime) kvs k = Some k'" "KeyID k = kpKeyID p" "Status k = kpStatus p"
  shows "\<exists>p'. dec_members False probe_fields kvs p = Some p' \<and> KeyID k' = kpKeyID p' \<and> Status k' = kpStatus p'"
  using assms
proof (induction kvs arbitrary: k p)
  case (Cons kv kvs)
  obtain name v where kv: "kv = (name, v)" by fastforce
  have ids: "''keyId'' \<in> set key_names" "''status'' \<in> set key_names" by (simp_all add: key_names_def)
  show ?case
  proof (cases "List.find (\<lambda>f. EqualFold (fst f) name) (Key_fields parseTime)")
    case None
    have "\<exists>f\<in>set (Key_fields parseTime). fst f = m" if "m \<in> set key_names" for m
      using that key_names [of parseTime] by (metis image_iff list.set_map)
    then have "\<not> EqualFold ''keyId'' name" "\<not> EqualFold ''status'' name"
      using None ids unfolding find_None_iff by metis+
    then show ?thesis using Cons None by (simp add: kv)
  next
    case (Some f)
    then have f: "f \<in> set (Key_fields parseTime)" "EqualFold (fst f) name" by (auto simp: find_Some_iff)
    then have named: "EqualFold m name \<longleftrightarrow> fst f = m" if "m \<in> set key_names" for m
      using key_fields_fold [OF f(1) that] by (metis EqualFold_def)
    obtain k1 where k1: "snd f v k = Some k1" "dec_members False (Key_fields parseTime) kvs k1 = Some k'"
      using Cons.prems(1) Some by (auto simp: kv split: option.splits)
    have "fst f = ''keyId'' \<Longrightarrow> snd f = string_field (\<lambda>s. KeyID_update (\<lambda>_. s))"
      "fst f = ''status'' \<Longrightarrow> snd f = string_field (\<lambda>s. Status_update (\<lambda>_. s))"
      using f(1) by (auto simp: Key_fields_def)
    then consider (kid) "fst f = ''keyId''" "snd f = string_field (\<lambda>s. KeyID_update (\<lambda>_. s))"
      | (status) "fst f = ''status''" "snd f = string_field (\<lambda>s. Status_update (\<lambda>_. s))"
      | (other) "fst f \<noteq> ''keyId''" "fst f \<noteq> ''status''" by blast
    then show ?thesis
    proof cases
      case kid
      then obtain p1 where "string_field (\<lambda>s. kpKeyID_update (\<lambda>_. s)) v p = Some p1" "KeyID k1 = kpKeyID p1" "Status k1 = kpStatus p1"
        using k1(1) Cons.prems(2,3) by (cases v) (auto simp: string_field_def)
      then show ?thesis using Cons.IH [OF k1(2)] kid named [OF ids(1)] by (simp add: kv)
    next
      case status
      then obtain p1 where "string_field (\<lambda>s. kpStatus_update (\<lambda>_. s)) v p = Some p1" "KeyID k1 = kpKeyID p1" "Status k1 = kpStatus p1"
        using k1(1) Cons.prems(2,3) by (cases v) (auto simp: string_field_def)
      then show ?thesis using Cons.IH [OF k1(2)] status named [OF ids(1)] named [OF ids(2)] by (simp add: kv)
    next
      case other
      then have "KeyID k1 = kpKeyID p" "Status k1 = kpStatus p"
        using other_key_fields [OF f(1) _ _ k1(1)] Cons.prems(2,3) by simp_all
      then show ?thesis using Cons.IH [OF k1(2)] other named [OF ids(1)] named [OF ids(2)] by (simp add: kv)
    qed
  qed
qed simp

lemma probe_agrees:
  assumes "dec_Key parseTime raw = Some k"
  shows "\<exists>p. probe_key raw = Some p \<and> kpKeyID p = KeyID k \<and> kpStatus p = Status k"
proof (cases raw)
  case (JObj kvs)
  then show ?thesis
    using assms probe_members [of parseTime kvs Key_zero k "\<lparr>kpKeyID = [], kpStatus = []\<rparr>"]
    by (fastforce simp: dec_Key_def probe_key_def dec_struct_def Key_zero_def)
qed (use assms in \<open>auto simp: dec_Key_def probe_key_def dec_struct_def Key_zero_def\<close>)

lemma read_key_decoded:
  assumes "read_key parseTime i raw seen = Inr k"
  shows "\<exists>k0. dec_Key parseTime raw = Some k0 \<and> KeyID k0 = KeyID k \<and> Status k0 = Status k"
  using assms by (auto simp: read_key_def Let_def normalize_credentials_def split: option.splits prod.splits if_splits)

text \<open>A changed status passes every check of an entry that passed them before.\<close>

lemma read_key_status:
  assumes "dec_Key parseTime raw = Some k0" "dec_Key parseTime raw' = Some (k0\<lparr>Status := s\<rparr>)" "read_key parseTime i raw seen = Inr k"
    and "s \<in> {KeyActive, KeySuspended, KeyRevoked}"
  shows "read_key parseTime i raw' seen = Inr (k\<lparr>Status := s\<rparr>)"
proof -
  let ?s = "\<lambda>k. k\<lparr>Status := s\<rparr>"
  from assms(1,3) obtain k1 allowed denied where
    k1: "normalize_credentials k0 = (k1, None)"
    "normalizeCreditPatterns (CreditAllowedModels k1) (KeyID k1) ''creditAllowedModels'' = (allowed, None)"
    "normalizeCreditPatterns (CreditDeniedModels k1) (KeyID k1) ''creditDeniedModels'' = (denied, None)"
    and k: "k = k1\<lparr>CreditAllowedModels := allowed, CreditDeniedModels := denied,
                       PassthroughEndpoints := normalizeEndpoints (PassthroughEndpoints k1)\<rparr>"
    and ok: "keyProblem k i seen = None"
    by (auto simp: read_key_def Let_def split: option.splits prod.splits)
  have "normalize_credentials (?s k0) = (?s k1, None)" using k1(1) by (simp add: normalize_credentials_None)
  moreover have "keyProblem (?s k) i seen = None"
    using ok assms(4) by (auto simp: keyProblem_def split: if_splits)
  moreover have "?s k = (?s k1)\<lparr>CreditAllowedModels := allowed, CreditDeniedModels := denied,
      PassthroughEndpoints := normalizeEndpoints (PassthroughEndpoints (?s k1))\<rparr>" using k by simp
  ultimately show ?thesis using k1(2,3) assms(2) by (simp add: read_key_def Let_def)
qed

lemma revoke_entries_Inr:
  "revoke_entries kid i raws = Inr rs \<Longrightarrow>
     \<exists>r1 raw r2 p patched. raws = r1 @ raw # r2 \<and> rs = r1 @ patched # r2 \<and>
       (\<forall>x\<in>set r1. \<exists>q. probe_key x = Some q \<and> kpKeyID q \<noteq> kid) \<and>
       probe_key raw = Some p \<and> kpKeyID p = kid \<and> kpStatus p \<noteq> KeyRevoked \<and>
       setMember raw ''status'' (JStr KeyRevoked) = Some patched"
proof (induction kid i raws arbitrary: rs rule: revoke_entries.induct)
  case (2 kid i raw raws)
  obtain p where p: "probe_key raw = Some p" using 2(2) by (auto split: option.splits)
  show ?case
  proof (cases "kpKeyID p = kid")
    case True
    then have "kpStatus p \<noteq> KeyRevoked" "\<exists>patched. setMember raw ''status'' (JStr KeyRevoked) = Some patched \<and> rs = patched # raws"
      using 2(2) p by (auto split: if_splits option.splits)
    then show ?thesis using p True by (intro exI [of _ "[]"]) auto
  next
    case False
    then obtain rs' where rs: "revoke_entries kid (Suc i) raws = Inr rs'" "rs = raw # rs'"
      using 2(2) p by (auto split: sum.splits)
    obtain r1 x r2 q patched where "raws = r1 @ x # r2" "rs' = r1 @ patched # r2" "\<forall>x\<in>set r1. \<exists>q. probe_key x = Some q \<and> kpKeyID q \<noteq> kid"
       "probe_key x = Some q" "kpKeyID q = kid" "kpStatus q \<noteq> KeyRevoked" "setMember x ''status'' (JStr KeyRevoked) = Some patched"
      using 2(1) [OF p _ rs(1)] False by auto
    then show ?thesis using rs(2) p False by (intro exI [of _ "raw # r1"]) auto
  qed
qed simp

section \<open>The envelope\<close>

lemma find_named:
  assumes "distinct (map (\<lambda>f. ToLower (fst f)) flds)" "(n, g) \<in> set flds"
  shows "List.find (\<lambda>f. EqualFold (fst f) n) flds = Some (n, g)"
  using assms by (induction flds) (auto simp: EqualFold_def image_iff)

lemma envelope_names: "distinct (map (\<lambda>f. ToLower (fst f)) envelope_fields)"
proof -
  have "map (\<lambda>f. ToLower (fst f)) envelope_fields =
      map ToLower [''formatVersion'', ''generation'', ''serviceEnabled'', ''models'', ''keys'', ''passthroughRef'']"
    by (simp only: envelope_fields_def list.map fst_conv)
  moreover have "distinct (map ToLower [''formatVersion'', ''generation'', ''serviceEnabled'', ''models'', ''keys'', ''passthroughRef''])"
    by code_simp
  ultimately show ?thesis by simp
qed

lemma envelope_finds:
  "List.find (\<lambda>f. EqualFold (fst f) ''formatVersion'') envelope_fields = Some (''formatVersion'', int_field (\<lambda>n. envFormatVersion_update (\<lambda>_. n)))"
  "List.find (\<lambda>f. EqualFold (fst f) ''generation'') envelope_fields = Some (''generation'', int_field (\<lambda>n. envGeneration_update (\<lambda>_. n)))"
  "List.find (\<lambda>f. EqualFold (fst f) ''serviceEnabled'') envelope_fields = Some (''serviceEnabled'', bool_pointer (\<lambda>b. envServiceEnabled_update (\<lambda>_. b)))"
  "List.find (\<lambda>f. EqualFold (fst f) ''models'') envelope_fields = Some (''models'', list_pointer (\<lambda>l. envModels_update (\<lambda>_. l)))"
  "List.find (\<lambda>f. EqualFold (fst f) ''keys'') envelope_fields = Some (''keys'', list_pointer (\<lambda>l. envKeys_update (\<lambda>_. l)))"
  "List.find (\<lambda>f. EqualFold (fst f) ''passthroughRef'') envelope_fields = Some (''passthroughRef'', string_field (\<lambda>s. envPassthroughRef_update (\<lambda>_. s)))"
  by (rule find_named [OF envelope_names], simp add: envelope_fields_def)+

lemma dec_document_json:
  assumes "in_int64 (kdGeneration d)" "\<And>n. kdFormatVersion d = Some n \<Longrightarrow> in_int64 n"
  shows "dec_envelope False (document_json d) = Some \<lparr>envFormatVersion = (case kdFormatVersion d of None \<Rightarrow> 0 | Some n \<Rightarrow> n),
    envGeneration = kdGeneration d, envServiceEnabled = Some (kdServiceEnabled d), envModels = Some (kdModels d),
    envKeys = Some (kdKeys d), envPassthroughRef = kdPassthroughRef d\<rparr>"
proof -
  have v: "dec_members True envelope_fields (case kdFormatVersion d of None \<Rightarrow> [] | Some n \<Rightarrow> [(''formatVersion'', JNum (itoa n))]) envelope_zero =
      Some (envelope_zero\<lparr>envFormatVersion := (case kdFormatVersion d of None \<Rightarrow> 0 | Some n \<Rightarrow> n)\<rparr>)"
    using assms(2) by (auto simp: envelope_finds int_field_def parse_int64_itoa envelope_zero_def split: option.splits)
  have p: "dec_members True envelope_fields (if kdPassthroughRef d = [] then [] else [(''passthroughRef'', JStr (kdPassthroughRef d))]) r =
      Some (r\<lparr>envPassthroughRef := kdPassthroughRef d\<rparr>)" if "envPassthroughRef r = []" for r
    using that by (auto simp: envelope_finds string_field_def)
  show ?thesis
    unfolding dec_envelope_def dec_struct_def document_json_def json.case dec_members_append not_False_eq_True v bind.simps
    using p assms(1)
    by (simp add: envelope_finds int_field_def bool_pointer_def list_pointer_def parse_int64_itoa envelope_zero_def)
qed

text \<open>The tool and the loader read one file: what the tool holds is what the gateway takes.\<close>

definition same_document :: "key_document \<Rightarrow> envelope \<Rightarrow> bool" where
  "same_document d e \<longleftrightarrow> kdGeneration d = envGeneration e \<and> kdPassthroughRef d = envPassthroughRef e \<and>
     (\<forall>b. envServiceEnabled e = Some b \<longrightarrow> kdServiceEnabled d = b) \<and> (\<forall>xs. envModels e = Some xs \<longrightarrow> kdModels d = xs) \<and>
     (\<forall>xs. envKeys e = Some xs \<longrightarrow> kdKeys d = xs) \<and> (\<forall>n. kdFormatVersion d = Some n \<longrightarrow> in_int64 n)"

lemma same_member:
  assumes "dec_members True key_document_fields [(name, v)] d = Some d'" "dec_members True envelope_fields [(name, v)] e = Some e'"
    "same_document d e"
  shows "same_document d' e'"
  using assms
  by (auto simp: key_document_fields_def envelope_fields_def same_document_def int_pointer_def int_field_def bool_field_def
      bool_pointer_def list_pointer_def string_field_def dec_list_def parse_int64_range
      split: if_splits json.splits option.splits)

lemma same_members:
  assumes "dec_members True key_document_fields kvs d = Some d'" "dec_members True envelope_fields kvs e = Some e'" "same_document d e"
  shows "same_document d' e'"
  using assms
proof (induction kvs arbitrary: d e)
  case (Cons kv kvs)
  obtain d1 where d1: "dec_members True key_document_fields [kv] d = Some d1" "dec_members True key_document_fields kvs d1 = Some d'"
    using Cons.prems(1) unfolding dec_members_Cons [of _ _ kv kvs] by (auto simp: bind_eq_Some_conv)
  obtain e1 where e1: "dec_members True envelope_fields [kv] e = Some e1" "dec_members True envelope_fields kvs e1 = Some e'"
    using Cons.prems(2) unfolding dec_members_Cons [of _ _ kv kvs] by (auto simp: bind_eq_Some_conv)
  have "same_document d1 e1" using same_member [of "fst kv" "snd kv"] d1(1) e1(1) Cons.prems(3) by simp
  then show ?case using Cons.IH d1(2) e1(2) by blast
qed simp

lemma same_file:
  assumes "dec_struct True key_document_fields j key_document_zero = Some d" "dec_envelope False j = Some e"
  shows "same_document d e"
  using assms same_members [of _ key_document_zero d envelope_zero e]
  by (cases j) (auto simp: dec_envelope_def dec_struct_def same_document_def key_document_zero_def envelope_zero_def)

end
