(* ===== verification/Keygen_Refinement.thy ===== *)
theory Keygen_Refinement
  imports Keygen_Reading
begin

text \<open>
  What the tool does to the document the gateway then loads: each operation of the command is one change of
  the loaded authorization state, and everything else stays as it was.
\<close>

section \<open>A key written and read\<close>

lemma key_field_names_apart: "distinct (map (\<lambda>f. ToLower (fst f)) (Key_fields parseTime))"
proof -
  have "map (\<lambda>f. ToLower (fst f)) (Key_fields parseTime) = map ToLower key_names"
    unfolding key_names [of parseTime, symmetric] by simp
  then show ?thesis by (simp only: key_names_apart)
qed

lemma key_finds:
  "List.find (\<lambda>f. EqualFold (fst f) ''keyId'') (Key_fields pt) = Some (''keyId'', string_field (\<lambda>s. KeyID_update (\<lambda>_. s)))"
  "List.find (\<lambda>f. EqualFold (fst f) ''tokenHash'') (Key_fields pt) = Some (''tokenHash'', string_field (\<lambda>s. TokenHash_update (\<lambda>_. s)))"
  "List.find (\<lambda>f. EqualFold (fst f) ''status'') (Key_fields pt) = Some (''status'', string_field (\<lambda>s. Status_update (\<lambda>_. s)))"
  "List.find (\<lambda>f. EqualFold (fst f) ''expiresAt'') (Key_fields pt) = Some (''expiresAt'', time_field pt)"
  "List.find (\<lambda>f. EqualFold (fst f) ''allowedModels'') (Key_fields pt) = Some (''allowedModels'', strings_field (\<lambda>xs. AllowedModels_update (\<lambda>_. xs)))"
  "List.find (\<lambda>f. EqualFold (fst f) ''creditAllowedModels'') (Key_fields pt) = Some (''creditAllowedModels'', strings_field (\<lambda>xs. CreditAllowedModels_update (\<lambda>_. xs)))"
  "List.find (\<lambda>f. EqualFold (fst f) ''creditDeniedModels'') (Key_fields pt) = Some (''creditDeniedModels'', strings_field (\<lambda>xs. CreditDeniedModels_update (\<lambda>_. xs)))"
  "List.find (\<lambda>f. EqualFold (fst f) ''passthroughEndpoints'') (Key_fields pt) = Some (''passthroughEndpoints'', strings_field (\<lambda>xs. PassthroughEndpoints_update (\<lambda>_. xs)))"
  "List.find (\<lambda>f. EqualFold (fst f) ''limits'') (Key_fields pt) = Some (''limits'', limits_field)"
  "List.find (\<lambda>f. EqualFold (fst f) ''quotaExhausted'') (Key_fields pt) = Some (''quotaExhausted'', bool_field (\<lambda>b. QuotaExhausted_update (\<lambda>_. b)))"
  "List.find (\<lambda>f. EqualFold (fst f) ''upstreamCredentials'') (Key_fields pt) =
     Some (''upstreamCredentials'', strmap_field UpstreamCredentials (\<lambda>m. UpstreamCredentials_update (\<lambda>_. m)))"
  "List.find (\<lambda>f. EqualFold (fst f) ''creditPending'') (Key_fields pt) = Some (''creditPending'', bool_field (\<lambda>b. CreditPending_update (\<lambda>_. b)))"
  "List.find (\<lambda>f. EqualFold (fst f) ''recordBodies'') (Key_fields pt) = Some (''recordBodies'', bool_field (\<lambda>b. RecordBodies_update (\<lambda>_. b)))"
  by (rule find_named [OF key_field_names_apart], simp add: Key_fields_def)+

lemma limits_finds:
  "List.find (\<lambda>f. EqualFold (fst f) ''rpm'') Limits_fields = Some (''rpm'', int_field (\<lambda>n. Rpm_update (\<lambda>_. n)))"
  "List.find (\<lambda>f. EqualFold (fst f) ''tpm'') Limits_fields = Some (''tpm'', int_field (\<lambda>n. Tpm_update (\<lambda>_. n)))"
  "List.find (\<lambda>f. EqualFold (fst f) ''concurrency'') Limits_fields = Some (''concurrency'', int_field (\<lambda>n. Concurrency_update (\<lambda>_. n)))"
proof -
  have "map (\<lambda>f. ToLower (fst f)) Limits_fields = map ToLower [''rpm'', ''tpm'', ''concurrency'']"
    by (simp only: Limits_fields_def list.map fst_conv)
  moreover have "distinct (map ToLower [''rpm'', ''tpm'', ''concurrency''])" by code_simp
  ultimately have d: "distinct (map (\<lambda>f. ToLower (fst f)) Limits_fields)" by simp
  show "List.find (\<lambda>f. EqualFold (fst f) ''rpm'') Limits_fields = Some (''rpm'', int_field (\<lambda>n. Rpm_update (\<lambda>_. n)))"
    "List.find (\<lambda>f. EqualFold (fst f) ''tpm'') Limits_fields = Some (''tpm'', int_field (\<lambda>n. Tpm_update (\<lambda>_. n)))"
    "List.find (\<lambda>f. EqualFold (fst f) ''concurrency'') Limits_fields = Some (''concurrency'', int_field (\<lambda>n. Concurrency_update (\<lambda>_. n)))"
    by (rule find_named [OF d], simp add: Limits_fields_def)+
qed

text \<open>What \<open>omitempty\<close> leaves out is what the reader finds in a fresh key.\<close>

lemma dec_optional:
  assumes "List.find (\<lambda>f. EqualFold (fst f) name) flds = Some (name, g)" "\<not> absent \<Longrightarrow> g v r = Some r'" "absent \<Longrightarrow> r' = r"
  shows "dec_members strict flds (if absent then [] else [(name, v)]) r = Some r'"
  using assms by simp

lemma dec_strings_written [simp]: "dec_strings (JArr (map JStr xs)) = Some xs"
  by (simp add: dec_strings_def dec_list_def dec_string_def o_def)

lemma all_credentials:
  "all_some (map (\<lambda>(k, v). map_option (Pair k) (dec_string v)) (map (\<lambda>(r, c). (r, JStr c)) xs)) = Some xs"
  by (induction xs) (auto simp: dec_string_def)

definition written_limits :: "Limits \<Rightarrow> bool" where
  "written_limits l \<longleftrightarrow> in_int64 (Rpm l) \<and> in_int64 (Tpm l) \<and> in_int64 (Concurrency l)"

lemma dec_limits:
  assumes "written_limits l"
  shows "dec_struct False Limits_fields
     (JObj ((if Rpm l = 0 then [] else [(''rpm'', JNum (itoa (Rpm l)))]) @ (if Tpm l = 0 then [] else [(''tpm'', JNum (itoa (Tpm l)))]) @
        (if Concurrency l = 0 then [] else [(''concurrency'', JNum (itoa (Concurrency l)))])))
     \<lparr>Rpm = 0, Tpm = 0, Concurrency = 0\<rparr> = Some l"
  using assms
  by (cases l) (simp add: dec_struct_def dec_members_append limits_finds int_field_def parse_int64_itoa written_limits_def)


text \<open>A key whose text reads back: numbers of 64 bits, an expiry the library reads as it wrote it, credentials in order.\<close>

definition written_key :: "(string \<Rightarrow> int option) \<Rightarrow> (int \<Rightarrow> string) \<Rightarrow> Key \<Rightarrow> bool" where
  "written_key parseTime formatTime k \<longleftrightarrow>
     written_limits (KeyLimits k) \<and> (case ExpiresAt k of None \<Rightarrow> True | Some t \<Rightarrow> parseTime (formatTime t) = Some t) \<and>
     distinct (map fst (UpstreamCredentials k)) \<and> sort_key fst (UpstreamCredentials k) = UpstreamCredentials k"

lemma fold_update_distinct: "distinct (map fst es) \<Longrightarrow> fold (\<lambda>(k, v). AList.update k v) es [] = (es :: string gomap)"
proof -
  have upd: "k \<notin> fst ` set m \<Longrightarrow> AList.update k v m = m @ [(k, v)]" for k and v :: string and m
    by (induction m) auto
  have "distinct (map fst (m @ es)) \<Longrightarrow> fold (\<lambda>(k, v). AList.update k v) es m = m @ es" for m :: "string gomap"
    by (induction es arbitrary: m) (auto simp: upd)
  then show "distinct (map fst es) \<Longrightarrow> fold (\<lambda>(k, v). AList.update k v) es [] = es" by simp
qed

text \<open>Every key survives being written by the tool and read by the gateway.\<close>

lemma key_json_roundtrip:
  assumes "written_key parseTime formatTime k"
  shows "dec_Key parseTime (key_json formatTime k) = Some k"
proof -
  let ?dec = "dec_members False (Key_fields parseTime)"
  have e: "?dec (case ExpiresAt k of None \<Rightarrow> [] | Some t \<Rightarrow> [(''expiresAt'', JStr (formatTime t))]) r = Some (r\<lparr>ExpiresAt := ExpiresAt k\<rparr>)"
    if "ExpiresAt r = None" for r
    using assms that by (auto simp: written_key_def key_finds time_field_def split: option.splits)
  have l: "limits_field (JObj ((if Rpm (KeyLimits k) = 0 then [] else [(''rpm'', JNum (itoa (Rpm (KeyLimits k))))]) @
        (if Tpm (KeyLimits k) = 0 then [] else [(''tpm'', JNum (itoa (Tpm (KeyLimits k))))]) @
        (if Concurrency (KeyLimits k) = 0 then [] else [(''concurrency'', JNum (itoa (Concurrency (KeyLimits k))))]))) r =
      Some (r\<lparr>KeyLimits := KeyLimits k\<rparr>)" if "KeyLimits r = \<lparr>Rpm = 0, Tpm = 0, Concurrency = 0\<rparr>" for r
    using assms dec_limits [of "KeyLimits k"] by (simp add: limits_field_def that written_key_def)
  have c: "?dec (if UpstreamCredentials k = [] then []
      else [(''upstreamCredentials'', JObj (map (\<lambda>(r, c). (r, JStr c)) (sort_key fst (UpstreamCredentials k))))]) r =
      Some (r\<lparr>UpstreamCredentials := UpstreamCredentials k\<rparr>)" if "UpstreamCredentials r = []" for r
    using assms that all_credentials [of "UpstreamCredentials k"]
    by (auto simp: written_key_def key_finds strmap_field_def fold_update_distinct)
  note o = dec_optional [OF key_finds(5)] dec_optional [OF key_finds(6)] dec_optional [OF key_finds(7)] dec_optional [OF key_finds(8)]
    dec_optional [OF key_finds(10)] dec_optional [OF key_finds(12)] dec_optional [OF key_finds(13)]
  have lists: "?dec (if AllowedModels k = [] then [] else [(''allowedModels'', JArr (map JStr (AllowedModels k)))]) r = Some (r\<lparr>AllowedModels := AllowedModels k\<rparr>)"
    if "AllowedModels r = []" for r by (rule o(1)) (simp_all add: strings_field_def that [symmetric])
  have lists2: "?dec (if CreditAllowedModels k = [] then [] else [(''creditAllowedModels'', JArr (map JStr (CreditAllowedModels k)))]) r =
      Some (r\<lparr>CreditAllowedModels := CreditAllowedModels k\<rparr>)" if "CreditAllowedModels r = []" for r
    by (rule o(2)) (simp_all add: strings_field_def that [symmetric])
  have lists3: "?dec (if CreditDeniedModels k = [] then [] else [(''creditDeniedModels'', JArr (map JStr (CreditDeniedModels k)))]) r =
      Some (r\<lparr>CreditDeniedModels := CreditDeniedModels k\<rparr>)" if "CreditDeniedModels r = []" for r
    by (rule o(3)) (simp_all add: strings_field_def that [symmetric])
  have lists4: "?dec (if PassthroughEndpoints k = [] then [] else [(''passthroughEndpoints'', JArr (map JStr (PassthroughEndpoints k)))]) r =
      Some (r\<lparr>PassthroughEndpoints := PassthroughEndpoints k\<rparr>)" if "PassthroughEndpoints r = []" for r
    by (rule o(4)) (simp_all add: strings_field_def that [symmetric])
  have f1: "?dec (if QuotaExhausted k then [(''quotaExhausted'', JBool True)] else []) r = Some (r\<lparr>QuotaExhausted := QuotaExhausted k\<rparr>)"
    if "\<not> QuotaExhausted r" for r using that by (simp add: key_finds bool_field_def)
  have f2: "?dec (if CreditPending k then [(''creditPending'', JBool True)] else []) r = Some (r\<lparr>CreditPending := CreditPending k\<rparr>)"
    if "\<not> CreditPending r" for r using that by (simp add: key_finds bool_field_def)
  have f3: "?dec (if RecordBodies k then [(''recordBodies'', JBool True)] else []) r = Some (r\<lparr>RecordBodies := RecordBodies k\<rparr>)"
    if "\<not> RecordBodies r" for r using that by (simp add: key_finds bool_field_def)
  show ?thesis
    unfolding dec_Key_def dec_struct_def key_json_def Let_def json.case dec_members_append
    by (simp add: e l c lists lists2 lists3 lists4 f1 f2 f3 key_finds(1-3,9) string_field_def Key_zero_def)
qed

section \<open>The operations on the loaded state\<close>

fun revoke_first :: "string \<Rightarrow> Key list \<Rightarrow> Key list" where
  "revoke_first kid [] = []"
| "revoke_first kid (k # ks) = (if KeyID k = kid then k\<lparr>Status := KeyRevoked\<rparr> # ks else k # revoke_first kid ks)"

definition operate :: "operation \<Rightarrow> Document \<Rightarrow> Document" where
  "operate oper d0 =
     (let d = d0\<lparr>Generation := wrap64 (Generation d0 + 1)\<rparr> in
      case oper of
        Revoke kid \<Rightarrow> d\<lparr>Keys := revoke_first kid (Keys d)\<rparr>
      | Service on \<Rightarrow> d\<lparr>ServiceEnabled := on\<rparr>
      | Issue k \<Rightarrow> d\<lparr>Keys := Keys d @ [k]\<rparr>)"

text \<open>
  What an operation asks of the file and of its argument: a revocation patches entries written under
  their documented names; a key to issue is one the tool makes, with neither money lists nor credentials.
\<close>

definition issuable :: "(string \<Rightarrow> int option) \<Rightarrow> (int \<Rightarrow> string) \<Rightarrow> Key \<Rightarrow> bool" where
  "issuable parseTime formatTime k \<longleftrightarrow> written_key parseTime formatTime k \<and> UpstreamCredentials k = [] \<and>
     CreditAllowedModels k = [] \<and> CreditDeniedModels k = [] \<and> PassthroughEndpoints k = []"

definition suited :: "(string \<Rightarrow> int option) \<Rightarrow> (int \<Rightarrow> string) \<Rightarrow> operation \<Rightarrow> json option \<Rightarrow> bool" where
  "suited parseTime formatTime oper raw \<longleftrightarrow>
     (case oper of
        Revoke kid \<Rightarrow> (case complete_envelope False raw of None \<Rightarrow> False
                       | Some (enabled, rawModels, rawKeys, env) \<Rightarrow> list_all (plain_entry parseTime) rawKeys)
      | Service on \<Rightarrow> True
      | Issue k \<Rightarrow> issuable parseTime formatTime k)"

lemma read_issued:
  assumes "issuable parseTime formatTime k" "read_key parseTime i (key_json formatTime k) seen = Inr k'"
  shows "k' = k"
proof -
  have "dec_Key parseTime (key_json formatTime k) = Some k" using assms(1) by (simp add: issuable_def key_json_roundtrip)
  then have "k' = k\<lparr>CreditAllowedModels := [], CreditDeniedModels := [], PassthroughEndpoints := []\<rparr>"
    using assms by (auto simp: read_key_def Let_def issuable_def normalize_credentials_def normalizeCreditPatterns_def
        normalizeEndpoints_def split: option.splits if_splits)
  then show ?thesis using assms(1) by (cases k) (simp add: issuable_def)
qed

lemma revoke_first_split:
  "\<forall>e\<in>set n1. KeyID e \<noteq> kid \<Longrightarrow> KeyID k = kid \<Longrightarrow> revoke_first kid (n1 @ k # n2) = n1 @ k\<lparr>Status := KeyRevoked\<rparr> # n2"
  by (induction n1) auto

text \<open>The entries of a file whose first entry of an id is patched are the keys with that one revoked.\<close>

lemma loads_revoked:
  assumes "revoke_entries kid 0 rawKeys = Inr raws" "loads (read_key parseTime) TokenHash 0 [] rawKeys ks"
    "list_all (plain_entry parseTime) rawKeys"
  shows "loads (read_key parseTime) TokenHash 0 [] raws (revoke_first kid ks) \<and> kid \<in> KeyID ` set ks"
proof -
  obtain r1 raw r2 p patched where r: "rawKeys = r1 @ raw # r2" "raws = r1 @ patched # r2"
      "\<forall>x\<in>set r1. \<exists>q. probe_key x = Some q \<and> kpKeyID q \<noteq> kid"
      "probe_key raw = Some p" "kpKeyID p = kid" "setMember raw ''status'' (JStr KeyRevoked) = Some patched"
    using revoke_entries_Inr [OF assms(1)] by blast
  have same: "read_key parseTime j patched seen = Inr (e\<lparr>Status := KeyRevoked\<rparr>) \<and> TokenHash (e\<lparr>Status := KeyRevoked\<rparr>) = TokenHash e"
    if rd: "read_key parseTime j raw seen = Inr e" for j seen e
  proof -
    obtain k0 where k0: "dec_Key parseTime raw = Some k0" using read_key_decoded [OF rd] by blast
    have "KeyID e \<noteq> []" using read_key_Inr [OF rd] by (simp add: wf_key_def)
    then obtain kvs where kvs: "raw = JObj kvs"
      using k0 read_key_decoded [OF rd] by (cases raw) (auto simp: dec_Key_def dec_struct_def Key_zero_def)
    then have "plain_members (Key_fields parseTime) kvs" using assms(3) r(1) by (simp add: plain_entry_def)
    then have "dec_Key parseTime patched = Some (k0\<lparr>Status := KeyRevoked\<rparr>)"
      using patched_status [OF _ r(6) [unfolded kvs]] k0 kvs by simp
    then show ?thesis using read_key_status [OF k0 _ rd, of patched KeyRevoked] by simp
  qed
  obtain n1 e n2 j seen' where n: "ks = n1 @ e # n2" "read_key parseTime j raw seen' = Inr e"
      "loads (read_key parseTime) TokenHash 0 [] r1 n1"
      "loads (read_key parseTime) TokenHash 0 [] (r1 @ patched # r2) (n1 @ e\<lparr>Status := KeyRevoked\<rparr> # n2)"
    using loads_replace [OF assms(2) [unfolded r(1)] same] by blast
  have probe: "kpKeyID q = KeyID x" if "read_key parseTime i y seen = Inr x" "probe_key y = Some q" for i y seen x q
    using read_key_decoded [OF that(1)] probe_agrees that(2) by fastforce
  have "KeyID e = kid" using probe [OF n(2) r(4)] r(5) by simp
  moreover have "KeyID x \<noteq> kid" if "x \<in> set n1" for x
    using loads_read [OF n(3) that] probe r(3) by fastforce
  ultimately have "revoke_first kid ks = n1 @ e\<lparr>Status := KeyRevoked\<rparr> # n2"
    unfolding n(1) by (intro revoke_first_split) auto
  then show ?thesis using n(1,4) r(2) \<open>KeyID e = kid\<close> by auto
qed

section \<open>The tool on a file\<close>

lemma mutate_cases:
  assumes "mutate parseTime now fails change file = (err, file')"
  obtains (kept) x where "err = Some x" "file' = file"
  | (replaced) f d d1 where "err = None" "file = Some f"
      "Option.bind (fileText f) (\<lambda>j. dec_struct True key_document_fields j key_document_zero) = Some d" "change d = Inr d1"
      "Validate parseTime now (Some (document_json (d1\<lparr>kdGeneration := wrap64 (kdGeneration d1 + 1)\<rparr>))) = None"
      "file' = Some \<lparr>fileText = Some (document_json (d1\<lparr>kdGeneration := wrap64 (kdGeneration d1 + 1)\<rparr>)), fileMode = fileMode f,
         fileOwner = fileOwner f\<rparr>"
  using assms by (auto simp: mutate_def Let_def split: if_splits option.splits sum.splits)

text \<open>What the operations do to the document the tool holds.\<close>

definition change_of :: "(int \<Rightarrow> string) \<Rightarrow> operation \<Rightarrow> key_document \<Rightarrow> keygen_error + key_document" where
  "change_of formatTime oper = (case oper of Revoke kid \<Rightarrow> revokeKey kid | Service on \<Rightarrow> setService on | Issue k \<Rightarrow> insert_key formatTime k)"

lemma change_of_Inr:
  assumes "change_of formatTime oper d = Inr d1"
  shows "kdFormatVersion d1 = kdFormatVersion d \<and> kdGeneration d1 = kdGeneration d \<and> kdModels d1 = kdModels d \<and>
    kdPassthroughRef d1 = kdPassthroughRef d \<and>
    kdServiceEnabled d1 = (case oper of Service on \<Rightarrow> on | _ \<Rightarrow> kdServiceEnabled d) \<and>
    (case oper of Revoke kid \<Rightarrow> revoke_entries kid 0 (kdKeys d) = Inr (kdKeys d1) | Service on \<Rightarrow> kdKeys d1 = kdKeys d
     | Issue k \<Rightarrow> kdKeys d1 = kdKeys d @ [key_json formatTime k])"
  using assms
  by (cases oper) (auto simp: change_of_def revokeKey_def setService_def insert_key_def map_sum_def split: sum.splits if_splits option.splits)

lemma keygen_change: "keygen parseTime formatTime now fails oper = mutate parseTime now fails (change_of formatTime oper)"
  by (simp add: keygen_def change_of_def fun_eq_iff)

text \<open>The keys of the file the operation leaves are those it found, changed as the operation says.\<close>

lemma keys_changed:
  assumes "change_of formatTime oper d = Inr d1" "loads (read_key parseTime) TokenHash 0 [] (kdKeys d) ks"
    and "\<And>kid. oper = Revoke kid \<Longrightarrow> list_all (plain_entry parseTime) (kdKeys d)"
      "\<And>k. oper = Issue k \<Longrightarrow> issuable parseTime formatTime k"
    and "loads (read_key parseTime) TokenHash 0 [] (kdKeys d1) ks1"
  shows "ks1 = (case oper of Revoke kid \<Rightarrow> revoke_first kid ks | Service on \<Rightarrow> ks | Issue k \<Rightarrow> ks @ [k])"
proof (cases oper)
  case (Service on)
  then show ?thesis using change_of_Inr [OF assms(1)] loads_unique [OF assms(2)] assms(5) by simp
next
  case (Issue k')
  have d1: "kdKeys d1 = kdKeys d @ [key_json formatTime k']" using change_of_Inr [OF assms(1)] Issue by simp
  define n where "n = length (kdKeys d)"
  have l: "loads (read_key parseTime) TokenHash 0 [] (kdKeys d) (take n ks1)"
    "loads (read_key parseTime) TokenHash n (map TokenHash (take n ks1)) [key_json formatTime k'] (drop n ks1)"
    using assms(5) unfolding d1 loads_append n_def by simp_all
  then obtain e where e: "drop n ks1 = [e]" "read_key parseTime n (key_json formatTime k') (map TokenHash (take n ks1)) = Inr e"
    by (cases "drop n ks1"; cases "tl (drop n ks1)") auto
  have "issuable parseTime formatTime k'" using assms(4) Issue by simp
  then show ?thesis using e l(1) loads_unique [OF assms(2) l(1)] read_issued [OF _ e(2)] Issue
    by simp (metis append_take_drop_id)
next
  case (Revoke kid')
  then show ?thesis
    using change_of_Inr [OF assms(1)] loads_revoked [of kid' "kdKeys d" "kdKeys d1" parseTime ks] assms(2,3)
      loads_unique [OF _ assms(5)] by auto
qed

lemma keygen_loads:
  assumes run: "keygen parseTime formatTime now fails oper (Some f) = (None, file')"
    and load: "build parseTime now' (fileText f) known False = Inr st"
    and fit: "suited parseTime formatTime oper (fileText f)"
  shows "\<exists>f' st'. file' = Some f' \<and> fileMode f' = fileMode f \<and> fileOwner f' = fileOwner f \<and>
    build parseTime now' (fileText f') known False = Inr st' \<and>
    doc st' = (operate oper (doc st))\<lparr>FormatVersion := FormatVersion (doc st')\<rparr> \<and>
    (\<forall>kid. oper = Revoke kid \<longrightarrow> kid \<in> KeyID ` set (Keys (doc st)))"
proof -
  let ?bump = "\<lambda>d. d\<lparr>kdGeneration := wrap64 (kdGeneration d + 1)\<rparr>"
  obtain d d1 where d: "Option.bind (fileText f) (\<lambda>j. dec_struct True key_document_fields j key_document_zero) = Some d"
      "change_of formatTime oper d = Inr d1" "Validate parseTime now (Some (document_json (?bump d1))) = None"
      "file' = Some \<lparr>fileText = Some (document_json (?bump d1)), fileMode = fileMode f, fileOwner = fileOwner f\<rparr>"
    using run unfolding keygen_change by (cases rule: mutate_cases) auto
  obtain j where j: "fileText f = Some j" "dec_struct True key_document_fields j key_document_zero = Some d"
    using d(1) by (cases "fileText f") auto
  obtain env enabled rawModels rawKeys ms ks where env: "dec_envelope False j = Some env" "envServiceEnabled env = Some enabled"
      "envModels env = Some rawModels" "envKeys env = Some rawKeys" "\<not> ref_dropped known env"
      "loads (read_model known) PublicName 0 [] rawModels ms" "loads (read_key parseTime) TokenHash 0 [] rawKeys ks"
    and st: "doc st = \<lparr>FormatVersion = envFormatVersion env, Generation = envGeneration env, ServiceEnabled = enabled,
                     Models = ms, Keys = ks, PassthroughRef = ToLower (envPassthroughRef env)\<rparr>"
    using load by (auto simp: build_file j(1))
  have same: "kdGeneration d = envGeneration env" "kdPassthroughRef d = envPassthroughRef env" "kdServiceEnabled d = enabled"
      "kdModels d = rawModels" "kdKeys d = rawKeys" "\<And>n. kdFormatVersion d = Some n \<Longrightarrow> in_int64 n"
    using same_file [OF j(2) env(1)] env(2-4) by (auto simp: same_document_def)
  note d1 = change_of_Inr [OF d(2)]
  let ?env = "\<lparr>envFormatVersion = (case kdFormatVersion d of None \<Rightarrow> 0 | Some n \<Rightarrow> n), envGeneration = wrap64 (kdGeneration d + 1),
      envServiceEnabled = Some (kdServiceEnabled d1), envModels = Some rawModels, envKeys = Some (kdKeys d1),
      envPassthroughRef = kdPassthroughRef d\<rparr>"
  have out: "dec_envelope False (document_json (?bump d1)) = Some ?env"
    using dec_document_json [of "?bump d1"] d1 same(4,6) by (simp add: wrap64_in_range)
  obtain ks1 where ks1: "loads (read_key parseTime) TokenHash 0 [] (kdKeys d1) ks1"
    using d(3) by (auto simp: Validate_def build_file out split: sum.splits)
  have plain: "list_all (plain_entry parseTime) rawKeys" if "oper = Revoke kid" for kid
    using fit that env(1-4) by (simp add: suited_def complete_envelope_def j(1))
  have issue: "issuable parseTime formatTime k" if "oper = Issue k" for k
    using fit that by (simp add: suited_def)
  have keys: "ks1 = (case oper of Revoke kid \<Rightarrow> revoke_first kid ks | Service on \<Rightarrow> ks | Issue k \<Rightarrow> ks @ [k])"
    by (rule keys_changed [OF d(2) _ _ issue ks1]) (simp_all add: same(5) env(7) plain)
  let ?st = "\<lparr>doc = \<lparr>FormatVersion = envFormatVersion ?env, Generation = envGeneration ?env, ServiceEnabled = kdServiceEnabled d1,
      Models = ms, Keys = ks1, PassthroughRef = ToLower (kdPassthroughRef d)\<rparr>, byHash = index_by TokenHash ks1,
      byPublic = index_by PublicName ms, loadedAt = now', rejected = 0, dropReasons = []\<rparr>"
  have "build parseTime now' (Some (document_json (?bump d1))) known False = Inr ?st"
    using env(5,6) ks1 out by (simp add: build_file same(2))
  moreover have "doc ?st = (operate oper (doc st))\<lparr>FormatVersion := FormatVersion (doc ?st)\<rparr>"
    using d1 same by (cases oper) (simp_all add: operate_def st keys)
  moreover have "kid \<in> KeyID ` set (Keys (doc st))" if r: "oper = Revoke kid" for kid
    using loads_revoked [of kid rawKeys "kdKeys d1" parseTime ks] d1 same(5) env(7) plain [OF r] by (simp add: r st)
  ultimately show ?thesis unfolding d(4) by (intro exI [of _ ?st] exI conjI) (rule refl | simp)+
qed

text \<open>
  C19. The command is one change of what the gateway loads. Whatever the disk does, a run that reports an
  error has left the file as it was; a run that succeeds has kept its mode and its owner, and the gateway
  loads from it, under whichever upstreams it knows, the state it loaded before with exactly that
  change: one key revoked (the first of that id), the service flag set, or one key added behind the
  others, and the generation one higher, wrapping at 64 bits.
\<close>

theorem keygen_refines:
  assumes "keygen parseTime formatTime now fails oper file = (err, file')"
  shows "case err of
      Some e \<Rightarrow> file' = file
    | None \<Rightarrow> \<exists>f f'. file = Some f \<and> file' = Some f' \<and> fileMode f' = fileMode f \<and> fileOwner f' = fileOwner f \<and>
        Validate parseTime now (fileText f') = None \<and>
        (\<forall>now' known st. build parseTime now' (fileText f) known False = Inr st \<and> suited parseTime formatTime oper (fileText f) \<longrightarrow>
           (\<exists>st'. build parseTime now' (fileText f') known False = Inr st' \<and>
              doc st' = (operate oper (doc st))\<lparr>FormatVersion := FormatVersion (doc st')\<rparr>))"
  using assms[unfolded keygen_change]
proof (cases rule: mutate_cases)
  case (replaced f d d1)
  then show ?thesis using keygen_loads [of parseTime formatTime now fails oper f file'] assms by fastforce
qed simp

lemma revoke_first_at:
  assumes "kid \<in> KeyID ` set ks"
  obtains n1 k n2 where "ks = n1 @ k # n2" "KeyID k = kid" "List.find (\<lambda>k. KeyID k = kid) ks = Some k"
    "revoke_first kid ks = n1 @ k\<lparr>Status := KeyRevoked\<rparr> # n2"
proof -
  obtain n1 k n2 where n: "ks = n1 @ k # n2" "KeyID k = kid" "\<forall>x\<in>set n1. KeyID x \<noteq> kid"
    using split_list_first_prop [of ks "\<lambda>k. KeyID k = kid"] assms by auto
  have "List.find (\<lambda>k. KeyID k = kid) ks = Some k"
    unfolding n(1) using n(2,3) by (induction n1) auto
  then show thesis using that n revoke_first_split [of n1 kid k n2] by blast
qed

text \<open>
  C20. A revocation that the tool reports as done takes effect. From the file it leaves, the gateway answers
  the token of that key, the first of its id, as revoked, whatever the key's status was; and the verdict
  on every other token is what it was.
\<close>

theorem revoked_key_refused:
  assumes "keygen parseTime formatTime now fails (Revoke kid) (Some f) = (None, Some f')"
    and "build parseTime now' (fileText f) known False = Inr st" "suited parseTime formatTime (Revoke kid) (fileText f)"
  shows "\<exists>st' k. build parseTime now' (fileText f') known False = Inr st' \<and>
    List.find (\<lambda>k. KeyID k = kid) (Keys (doc st)) = Some k \<and>
    (\<forall>token clock. authenticateToken hashToken clock token (map_of (byHash st')) =
       (if hashToken token = TokenHash k then Inl (Some (k\<lparr>Status := KeyRevoked\<rparr>), errKeyRevoked)
        else authenticateToken hashToken clock token (map_of (byHash st))))"
proof -
  obtain g st' where g: "Some f' = Some g" "build parseTime now' (fileText g) known False = Inr st'"
      "doc st' = (operate (Revoke kid) (doc st))\<lparr>FormatVersion := FormatVersion (doc st')\<rparr>"
      "\<forall>kid'. Revoke kid = Revoke kid' \<longrightarrow> kid' \<in> KeyID ` set (Keys (doc st))"
    using keygen_loads [OF assms] by blast
  then have st': "build parseTime now' (fileText f') known False = Inr st'"
      "doc st' = (operate (Revoke kid) (doc st))\<lparr>FormatVersion := FormatVersion (doc st')\<rparr>" "kid \<in> KeyID ` set (Keys (doc st))"
    using g(4) [rule_format, OF refl] by simp_all
  obtain n1 k n2 where n: "Keys (doc st) = n1 @ k # n2" "List.find (\<lambda>k. KeyID k = kid) (Keys (doc st)) = Some k"
      "revoke_first kid (Keys (doc st)) = n1 @ k\<lparr>Status := KeyRevoked\<rparr> # n2"
    by (rule revoke_first_at [OF st'(3)])
  have "Keys (doc st') = Keys (operate (Revoke kid) (doc st))" using arg_cong [OF st'(2), of Keys] by simp
  then have keys: "Keys (doc st') = n1 @ k\<lparr>Status := KeyRevoked\<rparr> # n2" by (simp add: operate_def n(3))
  note old = build_index(1) [OF assms(2), unfolded n(1)] and new = build_index(1) [OF st'(1), unfolded keys]
  have hit: "map_of (byHash st') (TokenHash k) = Some (k\<lparr>Status := KeyRevoked\<rparr>)" by (simp add: new)
  have "map_of (byHash st') h = map_of (byHash st) h" if "h \<noteq> TokenHash k" for h
  proof -
    have "map_of (byHash st') h = Some x \<longleftrightarrow> map_of (byHash st) h = Some x" for x using that by (auto simp: old new)
    then show ?thesis by (metis not_Some_eq)
  qed
  then have "authenticateToken hashToken clock token (map_of (byHash st')) =
       (if hashToken token = TokenHash k then Inl (Some (k\<lparr>Status := KeyRevoked\<rparr>), errKeyRevoked)
        else authenticateToken hashToken clock token (map_of (byHash st)))" for token clock
    by (simp add: authenticateToken_def hit)
  then show ?thesis using st'(1) n(2) by blast
qed

text \<open>What the tool issues: a token of the right shape, an entry it can write, and a key that opens the gateway.\<close>

lemma newToken_shape:
  assumes "\<forall>i. rnd i < length alphabet"
  shows "length (newToken rnd) = length tokenPrefix + tokenLen \<and> (\<forall>c\<in>set (drop (length tokenPrefix) (newToken rnd)). c \<in> set alphabet)"
  using assms by (auto simp: newToken_def)

lemma issued_entry_written:
  assumes "written_limits (flLimits fl)" "case flExpires fl of None \<Rightarrow> True | Some t \<Rightarrow> parseTime (formatTime t) = Some t"
  shows "suited parseTime formatTime (Issue (issue_entry hash fl token)) raw"
  using assms by (simp add: suited_def issuable_def written_key_def issue_entry_def Key_zero_def)

lemma issued_key_opens:
  assumes "keygen parseTime formatTime now fails (Issue (issue_entry hash fl token)) (Some f) = (None, Some f')"
    and "build parseTime now' (fileText f) known False = Inr st"
    and "written_limits (flLimits fl)" "case flExpires fl of None \<Rightarrow> True | Some t \<Rightarrow> parseTime (formatTime t) = Some t"
  shows "\<exists>st'. build parseTime now' (fileText f') known False = Inr st' \<and>
    authenticateToken hash clock token (map_of (byHash st')) =
      (case flExpires fl of
         Some t \<Rightarrow> if clock > t then Inl (Some (issue_entry hash fl token), errKeyExpired) else Inr (issue_entry hash fl token)
       | None \<Rightarrow> Inr (issue_entry hash fl token))"
proof -
  let ?k = "issue_entry hash fl token"
  obtain g st' where g: "Some f' = Some g" "build parseTime now' (fileText g) known False = Inr st'"
      "doc st' = (operate (Issue ?k) (doc st))\<lparr>FormatVersion := FormatVersion (doc st')\<rparr>"
    using keygen_loads [OF assms(1,2) issued_entry_written [OF assms(3,4)]] by blast
  have "Keys (doc st') = Keys (doc st) @ [?k]" using arg_cong [OF g(3), of Keys] by (simp add: operate_def)
  then have "map_of (byHash st') (TokenHash ?k) = Some ?k" using build_index(1) [OF g(2)] by simp
  then show ?thesis using g(1,2)
    by (auto simp: authenticateToken_def issue_entry_def split: option.splits)
qed

section \<open>A file\<close>

definition plain_sample :: json where
  "plain_sample = JObj
     [(''generation'', JNum ''7''), (''serviceEnabled'', JBool True), (''models'', JArr []),
      (''keys'', JArr
         [JObj [(''tokenHash'', JStr (replicate 64 (CHR ''a''))), (''keyId'', JStr ''k1''), (''status'', JStr ''ACTIVE'')],
          JObj [(''keyId'', JStr ''k1''), (''tokenHash'', JStr (replicate 64 (CHR ''b''))), (''status'', JStr ''ACTIVE'')]])]"

definition sample_file :: document_file where
  "sample_file = \<lparr>fileText = Some plain_sample, fileMode = 416, fileOwner = (0, 7)\<rparr>"

definition sample_revoked :: "keygen_error option \<times> document_file option" where
  "sample_revoked = keygen (\<lambda>_. None) (\<lambda>_. []) 0 (\<lambda>_. False) (Revoke ''k1'') (Some sample_file)"

text \<open>
  Two keys share the id: the tool reports the revocation as done, and the second one still opens the gateway,
  which tells keys apart by their hash.
\<close>

lemma twin_stays_active:
  "case sample_revoked of (None, Some f) \<Rightarrow>
     fileMode f = 416 \<and>
     (case build (\<lambda>_. None) 1 (fileText f) None False of Inl _ \<Rightarrow> False
      | Inr st \<Rightarrow> map (\<lambda>k. (KeyID k, Status k)) (Keys (doc st)) = [(''k1'', KeyRevoked), (''k1'', KeyActive)])
   | _ \<Rightarrow> False"
  by code_simp

lemma sample_loaded:
  "case build (\<lambda>_. None) 1 (fileText sample_file) None False of Inl _ \<Rightarrow> False
   | Inr st \<Rightarrow> map (\<lambda>k. (KeyID k, TokenHash k)) (Keys (doc st)) =
       [(''k1'', replicate 64 (CHR ''a'')), (''k1'', replicate 64 (CHR ''b''))]"
  by code_simp

lemma sample_suited: "suited (\<lambda>_. None) (\<lambda>_. []) (Revoke ''k1'') (fileText sample_file)"
  by code_simp

theorem keygen_refines_witness:
  "\<exists>f' st st'. sample_revoked = (None, Some f') \<and> fileMode f' = 416 \<and>
     build (\<lambda>_. None) 1 (fileText sample_file) None False = Inr st \<and> build (\<lambda>_. None) 1 (fileText f') None False = Inr st' \<and>
     doc st' = (operate (Revoke ''k1'') (doc st))\<lparr>FormatVersion := FormatVersion (doc st')\<rparr>"
proof -
  obtain f' where f': "sample_revoked = (None, Some f')" "fileMode f' = 416"
    using twin_stays_active by (auto split: prod.splits option.splits)
  obtain st where "build (\<lambda>_. None) 1 (fileText sample_file) None False = Inr st"
    using sample_loaded by (auto split: sum.splits)
  then show ?thesis
    using keygen_refines [OF f'(1) [unfolded sample_revoked_def]] f' sample_suited by fastforce
qed

theorem revoked_key_refused_witness:
  "\<exists>f' st' k. sample_revoked = (None, Some f') \<and> build (\<lambda>_. None) 1 (fileText f') None False = Inr st' \<and>
     authenticateToken (\<lambda>t. t) 9 (replicate 64 (CHR ''a'')) (map_of (byHash st')) = Inl (Some k, errKeyRevoked)"
proof -
  obtain f' where f': "sample_revoked = (None, Some f')"
    using twin_stays_active by (auto split: prod.splits option.splits)
  obtain st where st: "build (\<lambda>_. None) 1 (fileText sample_file) None False = Inr st"
      "map (\<lambda>k. (KeyID k, TokenHash k)) (Keys (doc st)) = [(''k1'', replicate 64 (CHR ''a'')), (''k1'', replicate 64 (CHR ''b''))]"
    using sample_loaded by (auto split: sum.splits)
  obtain st' k where "build (\<lambda>_. None) 1 (fileText f') None False = Inr st'"
      "List.find (\<lambda>k. KeyID k = ''k1'') (Keys (doc st)) = Some k"
      "\<forall>token clock. authenticateToken (\<lambda>t. t) clock token (map_of (byHash st')) =
         (if token = TokenHash k then Inl (Some (k\<lparr>Status := KeyRevoked\<rparr>), errKeyRevoked)
          else authenticateToken (\<lambda>t. t) clock token (map_of (byHash st)))"
    using revoked_key_refused [OF f' [unfolded sample_revoked_def] st(1) sample_suited, of "\<lambda>t. t"] by blast
  moreover have "TokenHash k = replicate 64 (CHR ''a'')" if "List.find (\<lambda>k. KeyID k = ''k1'') (Keys (doc st)) = Some k" for k
    using that st(2) by (cases "Keys (doc st)") auto
  ultimately show ?thesis using f' by metis
qed

end
