(* ===== verification/Spec2Isabelle.thy ===== *)
theory Spec2Isabelle
  imports Service_Run Ownership_Client Keygen_Refinement
begin

text \<open>
  Verification of the LLM gateway of this repository: the daemon \<open>cmd/llm-gateway\<close>, the tool \<open>cmd/llm-keygen\<close>
  and the packages under \<open>internal\<close>. The definitions are translations of the Go code, operation by operation; the
  theorems labelled C1 to C40 are what is promised of them.

  THE PROGRAM. The gateway stands between students' programs and the model servers that answer them. What it may
  do is said by a document (the authorization state: models, keys, switches) it reads from a file or is sent by a
  control plane. A request comes in on one of four completion surfaces, a models route or the passthrough routes; the
  handler authenticates its key against the served document, judges the request against everything the key may and
  may not spend, admits it against the key's limits (self-hosted models) or spends the key's own credential (paid
  models), calls the configured upstreams in an order that depends on their health, relays the answer, whole or as a
  stream, meters it, and writes one usage event to a spool on disk. A reporter ships the spool to the control plane.
  Beside this run the probes of the upstreams, a copy of the vendor's catalog, the capture of prompts for keys that
  opted in, and lookups of prices that were missing when an answer ended. The client of the ownership ledger
  (\<open>internal/ownership\<close>) is complete in the repository but no binary uses it yet.

  THE THEORIES, in the order in which they build on each other.

  \<open>Gateway_Prelude\<close>: Go's string functions on bytes, 64-bit wrap-around, Go maps as association lists, the collections
  \<open>go_strings\<close> and \<open>go_maps\<close>. \<open>Go_Json\<close>, \<open>Json_Text\<close>: JSON values, how \<open>encoding/json\<close> reads them into typed
  fields (the last of two spellings of a member wins, names compared case-insensitively), and how it writes them.

  The document. \<open>Snapshot_Policy\<close> (\<open>internal/snapshot/snapshot.go\<close>): \<open>Model\<close>, \<open>Key\<close>, the name guards and the fences of a
  key. \<open>Snapshot_Load\<close>: decoding and checking it, with the locale \<open>entry_reader\<close> for what a reader of a list of entries
  promises, used for models and for keys. \<open>Snapshot_Store\<close>: \<open>Store\<close> with \<open>Open\<close>, \<open>reload\<close>, \<open>Refresh\<close>, the generation floor
  and the high-water file; its locale \<open>snapshot_source\<close> is Go's interface \<open>Source\<close>. \<open>Snapshot_Source\<close>
  (\<open>source.go\<close>): the file and the control plane with its restart cache, each an interpretation of it.
  \<open>Json_Members\<close>: when the order of members does not matter.

  Judging. \<open>Api_Errors\<close> (\<open>server/errors.go\<close>), \<open>Fence\<close> (\<open>fence.go\<close>), \<open>Token_Tools\<close> (\<open>token_tools.go\<close>), \<open>Protocols\<close>
  (the \<open>protocol\<close> tables of \<open>chat.go\<close>, \<open>completions.go\<close>, \<open>messages.go\<close>, \<open>responses.go\<close>), \<open>Rate_Limits\<close>
  (\<open>internal/limits\<close>), \<open>Large_Body\<close> (\<open>largebody.go\<close>, locale \<open>slot_pool\<close>), \<open>Admission\<close> (the judgements of
  \<open>serveProtocol\<close> up to the call).

  Calling and answering. \<open>Upstream\<close> (\<open>upstream.go\<close>, \<open>reasoning.go\<close>, \<open>headers.go\<close>), \<open>Rejection\<close> (\<open>rejection.go\<close>), \<open>Metering\<close>
  (usage objects and whole answers), \<open>Stream_Relay\<close> (\<open>sse.go\<close>, locale \<open>framed_extractor\<close>), \<open>Stream_Surfaces\<close> (the
  stream of each surface), \<open>Generation_Cost\<close> (\<open>generation_cost.go\<close>), \<open>Bodies\<close> (\<open>internal/bodies\<close>), \<open>Pipeline\<close>
  (\<open>serveProtocol\<close> and \<open>finishNonStream\<close> as a whole), \<open>Passthrough\<close>, \<open>Passthrough_Safety\<close> and \<open>Passthrough_Accounts\<close>
  (\<open>passthrough.go\<close>, \<open>transcriptions.go\<close>), \<open>Catalog\<close> (\<open>catalog.go\<close>), \<open>Models_Route\<close> (\<open>handleModels\<close>),
  \<open>Observations\<close> (\<open>observability.go\<close>).

  Usage. \<open>Spool\<close> (\<open>internal/spool\<close>, locale \<open>retention\<close>) and \<open>Reporter\<close> (\<open>internal/reporter\<close>), which interprets it.

  The whole. \<open>Config\<close> (\<open>internal/config\<close>), \<open>Gateway\<close> (\<open>server.go\<close>, \<open>metrics.go\<close>, \<open>version.go\<close> and
  \<open>cmd/llm-gateway/main.go\<close>: the state of a server, the route tables, the views, start, poll and drain), \<open>Service\<close> (lives
  of a gateway) and \<open>Service_Run\<close> (a small concrete one, which the theorems of \<open>Service\<close> are applied to).

  Beside it. \<open>Keygen\<close>, \<open>Keygen_Reading\<close>, \<open>Keygen_Refinement\<close> (\<open>cmd/llm-keygen\<close>) and \<open>Ownership\<close>, \<open>Ownership_Client\<close>
  (\<open>internal/ownership\<close>).

  STATE. \<open>Server\<close> is the Go struct: \<open>svStore\<close> the store, \<open>svPass\<close> what the handlers share, in it \<open>gateway\<close> with the
  published document (\<open>snap\<close>), the limiter, the in-flight count, the pool for large chat bodies, the health of the
  upstreams, the body sink, the pending price lookups, the counters, and the spool as the list of events written;
  \<open>pgLarge\<close> the passthrough pool; \<open>svProbed\<close> what probes found; \<open>svCatalog\<close> the catalog and its schedule. A handler takes this
  state and what it will meet (\<open>request_world\<close>, \<open>pass_world\<close>: clock readings, the network, how the client
  behaves) and returns the reply, the state after it with every deferred release done, and the attempts it made.

  WHAT THE LEMMAS SHOW. For the whole: along every life from a successful start, with any requests on any paths of both
  listeners, polls, probes, catalog wakes and lookups between them, C1 money and capacity are spent only for
  entitled callers, C2 a revocation binds at once, C3 the gateway is at rest between requests and its document never goes
  back, C4 usage is accounted for exactly, to the end of the process. These rest on per-component theorems: the fences
  (C7, C24), credentials (C8), pattern matching of the money lists (C11), the loader (C25, C26), the limiter under any
  interleaving of takes and releases (C12, C23), the generation floor across restarts (C10), one event per
  request (C6, C15), no residue (C9), the pending lookups (C13, C34), the reporter and retention under crashes and disk
  faults (C5, C16), streams (C17, C37, C38), capture (C35), the names in answers and in relayed refusals (C36, C27),
  fallback (C32), probes (C30), the catalog (C39), the models route (C21), the upload form (C22), the configuration
  (C28, C29), the restart cache (C31), the ownership cache and its client (C14, C18, C40) and the tool (C19, C20).
  \<open>entitled\<close> and \<open>vendor_entitled\<close> spell out what a caller must have shown; \<open>account\<close> what a request owes the books.

  Where a component keeps an optimised representation it is proved to implement a plain one: the ownership cache's linked
  list and map are one bounded queue; the loader reads what the tool writes as one change of the state; the stream
  relay's events are those a client reads. State machines with several actors (\<open>site_step\<close>, \<open>system_step\<close>, \<open>cost_step\<close>,
  \<open>body_step\<close>) are inductive relations, and their theorems are about every reachable state.

  TERMINATION AND BOUNDS. No fuel is used: every loop is structural or has a measure. Tool lists recurse to the depth the
  code itself allows; the regular expressions of \<open>Rejection\<close> are patterns of a datatype with their ordered ways to match
  (leftmost first, greedy), so a search is finite; a price lookup runs over its schedule of delays and its deadline;
  retries are a number of the configuration; a body is read up to its bound. The loops of \<open>main\<close> that never end (tickers)
  are not loops here: one round is an operation, and theorems quantify over lists of rounds.

  HOW GO BECOMES HOL. A Go string is a list of bytes, folded and trimmed as ASCII; \<open>Rejection\<close> works on code points,
  with ASCII folding and the two letters outside ASCII that fold into it. A JSON message kept raw is the value it denotes,
  its text a parameter. A Go map is an association list whose order stands for the order of iteration; what is
  written from a map is sorted as \<open>encoding/json\<close> does. Floating point is rational; a time or a duration is a whole number
  of nanoseconds; \<open>int64\<close> wraps through \<open>wrap64\<close>, and the hash behind a probe's delay is a 64-bit word. An error
  message's prose is the name of its template with the values put in it, except in \<open>Config\<close>, where the text is exact. A
  panic is the reply \<open>Panicked\<close>. Reading a bounded body depends only on its length, the bound and how it ends. The log in
  the ownership client's state, and the log of requests in \<open>Service\<close>, serve the statements and are read by no operation.
  In \<open>Service\<close> one handler is one step; that handlers interleave inside the limiter, the pools, the capture queue, the
  pending lookups and the spool is the subject of those components' theories.

  PARAMETERS, code that is not in the repository or that the statements do not depend on: SHA-256 of a token, decoding JSON
  text, parsing and printing times, durations and floats, the host of a URL and whether it is a private address, MIME
  syntax, random identifiers, the network, the disk, the control plane and the vendors. \<open>net/http\<close>'s multiplexer
  is modelled as far as the two route tables use it: clean paths, escapes, the longest pattern.

  NOT MODELLED: signals, tickers, the listeners and their timeouts, the transports of the HTTP clients, logging and the
  X-Request-Id header (no decision depends on them); cancellation in the middle of a write; the two counters of retries
  and fallbacks, which come into the metrics view as numbers; the requests of the capture loop and of the reporter beyond
  whether they were accepted; printed confirmations of the tool; \<open>helpers.go\<close>, which is one call of the JSON encoder.
\<close>

end
